(* ===== verification/Prelude.thy ===== *)
theory Prelude
  imports Main "HOL-Library.Code_Target_Nat" "HOL-Library.AList" "HOL-Library.Sublist"
begin

section \<open>Prelude: shared vocabulary of the BettaPay development\<close>

text \<open>
  The fact collections, type synonyms and small lemmas every component uses: results of
  fallible operations, JavaScript \<open>Map\<close>/object literals as insertion-ordered
  association lists, and the string functions of the JavaScript library that the sources
  call. Strings are HOL's \<open>string\<close> (a list of bytes), so a string of the model is
  an ASCII string of the program: one \<open>char\<close> per UTF-16 unit.
\<close>

subsection \<open>Fact collections\<close>

named_theorems step_defs "definitions of operations, unfolded by the component proofs"
named_theorems str_simps "rewriting of string primitives"

subsection \<open>Results of fallible operations\<close>

text \<open>A thrown error is \<open>Inl\<close>, a normal return is \<open>Inr\<close>.\<close>

type_synonym ('e, 'a) result = "'e + 'a"

abbreviation throw :: "'e \<Rightarrow> ('e, 'a) result" where
  "throw e \<equiv> Inl e"

abbreviation return_ok :: "'a \<Rightarrow> ('e, 'a) result" where
  "return_ok a \<equiv> Inr a"

definition result_bind :: "('e, 'a) result \<Rightarrow> ('a \<Rightarrow> ('e, 'b) result) \<Rightarrow> ('e, 'b) result" where
  "result_bind r k = (case r of Inl e \<Rightarrow> Inl e | Inr a \<Rightarrow> k a)"

lemma result_bind_simps [simp]:
  "result_bind (Inl e) k = Inl e"
  "result_bind (Inr a) k = k a"
  by (simp_all add: result_bind_def)

lemma result_bind_Inr_iff:
  "result_bind r k = Inr b \<longleftrightarrow> (\<exists>a. r = Inr a \<and> k a = Inr b)"
  by (cases r) simp_all

definition is_ok :: "('e, 'a) result \<Rightarrow> bool" where
  "is_ok r = (case r of Inl _ \<Rightarrow> False | Inr _ \<Rightarrow> True)"

lemma is_ok_simps [simp]: "\<not> is_ok (Inl e)" "is_ok (Inr a)"
  by (simp_all add: is_ok_def)

subsection \<open>JavaScript maps\<close>

text \<open>
  \<open>new Map()\<close>, \<open>m.set(k, v)\<close>, \<open>m.get(k)\<close>, \<open>m.has(k)\<close>: a list of pairs in
  insertion order. Setting a present key keeps its position, as JavaScript does; the
  library's \<open>AList.update\<close> and \<open>AList.delete\<close> are exactly \<open>set\<close> and
  \<open>delete\<close>.
\<close>

type_synonym ('k, 'v) jsmap = "('k \<times> 'v) list"

abbreviation js_set :: "'k \<Rightarrow> 'v \<Rightarrow> ('k, 'v) jsmap \<Rightarrow> ('k, 'v) jsmap" where
  "js_set \<equiv> AList.update"

abbreviation js_delete :: "'k \<Rightarrow> ('k, 'v) jsmap \<Rightarrow> ('k, 'v) jsmap" where
  "js_delete \<equiv> AList.delete"

abbreviation js_has :: "'k \<Rightarrow> ('k, 'v) jsmap \<Rightarrow> bool" where
  "js_has k m \<equiv> map_of m k \<noteq> None"

text \<open>\<open>for (const r of rs) m.set(key(r), r)\<close>\<close>

definition js_index :: "('v \<Rightarrow> 'k) \<Rightarrow> 'v list \<Rightarrow> ('k, 'v) jsmap" where
  "js_index key rs = fold (\<lambda>r m. js_set (key r) r m) rs []"

lemma map_of_js_set [simp]: "map_of (js_set k v m) = (map_of m)(k \<mapsto> v)"
  by (rule update_conv')

lemma map_of_js_delete [simp]: "map_of (js_delete k m) = (map_of m)(k := None)"
  by (rule delete_conv')

lemma dom_fold_js_set:
  "fst ` set (fold (\<lambda>r m. js_set (key r) r m) rs m) = fst ` set m \<union> key ` set rs"
proof (induction rs arbitrary: m)
  case Nil
  show ?case by simp
next
  case (Cons r rs)
  have "fst ` set (js_set (key r) r m) = insert (key r) (fst ` set m)"
    by (simp add: dom_map_of_conv_image_fst [symmetric])
  with Cons.IH [of "js_set (key r) r m"] show ?case by auto
qed

lemma keys_js_index: "fst ` set (js_index key rs) = key ` set rs"
  by (simp add: js_index_def dom_fold_js_set)

lemma distinct_fold_js_set:
  "distinct (map fst m) \<Longrightarrow> distinct (map fst (fold (\<lambda>r m. js_set (key r) r m) rs m))"
  by (induction rs arbitrary: m) (auto intro: distinct_update)

lemma distinct_js_index [simp]: "distinct (map fst (js_index key rs))"
  by (simp add: js_index_def distinct_fold_js_set)

lemma map_of_fold_js_set:
  "map_of (fold (\<lambda>r m. js_set (key r) r m) rs m) k =
     (case find (\<lambda>r. key r = k) (rev rs) of Some r \<Rightarrow> Some r | None \<Rightarrow> map_of m k)"
proof (induction rs arbitrary: m)
  case Nil
  show ?case by simp
next
  case (Cons r rs)
  have app: "find P (xs @ ys) = (case find P xs of Some x \<Rightarrow> Some x | None \<Rightarrow> find P ys)"
    for P and xs ys :: "'a list"
    by (induction xs) auto
  show ?case
    by (auto simp: Cons.IH app split: option.splits)
qed

text \<open>The last record with a given key wins, as with repeated \<open>Map.set\<close>.\<close>

lemma map_of_js_index: "map_of (js_index key rs) k = find (\<lambda>r. key r = k) (rev rs)"
  by (simp add: js_index_def map_of_fold_js_set split: option.splits)

lemma map_of_js_index_distinct:
  "distinct (map key rs) \<Longrightarrow> r \<in> set rs \<Longrightarrow> map_of (js_index key rs) (key r) = Some r"
proof -
  assume d: "distinct (map key rs)" and r: "r \<in> set rs"
  have "find (\<lambda>x. key x = key r) (rev rs) \<noteq> None"
    using r by (auto simp: find_None_iff)
  then obtain x where x: "find (\<lambda>x. key x = key r) (rev rs) = Some x" by auto
  then have "x \<in> set (rev rs)" "key x = key r"
    unfolding find_Some_iff by (metis length_rev nth_mem)+
  then have "x \<in> set rs" "key x = key r" by simp_all
  with d r have "x = r" by (auto simp: distinct_map inj_on_def)
  with x show ?thesis by (simp add: map_of_js_index)
qed

subsection \<open>JavaScript strings\<close>

definition char_code :: "char \<Rightarrow> nat" where
  "char_code c = of_char c"

definition is_digit :: "char \<Rightarrow> bool" where
  "is_digit c \<longleftrightarrow> 48 \<le> char_code c \<and> char_code c \<le> 57"

definition is_upper :: "char \<Rightarrow> bool" where
  "is_upper c \<longleftrightarrow> 65 \<le> char_code c \<and> char_code c \<le> 90"

definition is_lower :: "char \<Rightarrow> bool" where
  "is_lower c \<longleftrightarrow> 97 \<le> char_code c \<and> char_code c \<le> 122"

definition to_upper_char :: "char \<Rightarrow> char" where
  "to_upper_char c = (if is_lower c then char_of (char_code c - 32) else c)"

definition to_lower_char :: "char \<Rightarrow> char" where
  "to_lower_char c = (if is_upper c then char_of (char_code c + 32) else c)"

text \<open>\<open>s.toUpperCase()\<close>, \<open>s.toLowerCase()\<close>, \<open>s.split(c)\<close>, \<open>s.trim()\<close>.\<close>

definition to_upper :: "string \<Rightarrow> string" where
  "to_upper = map to_upper_char"

definition to_lower :: "string \<Rightarrow> string" where
  "to_lower = map to_lower_char"

fun split_on :: "char \<Rightarrow> string \<Rightarrow> string list" where
  "split_on c [] = [[]]"
| "split_on c (x # xs) =
     (if x = c then [] # split_on c xs
      else (case split_on c xs of [] \<Rightarrow> [[x]] | p # ps \<Rightarrow> (x # p) # ps))"

text \<open>\<open>hay.includes(needle)\<close>\<close>

fun str_includes :: "string \<Rightarrow> string \<Rightarrow> bool" where
  "str_includes [] needle = (needle = [])"
| "str_includes (c # hay) needle =
     (take (length needle) (c # hay) = needle \<or> str_includes hay needle)"

definition is_space :: "char \<Rightarrow> bool" where
  "is_space c \<longleftrightarrow> char_code c = 32 \<or> (9 \<le> char_code c \<and> char_code c \<le> 13)"

definition trim :: "string \<Rightarrow> string" where
  "trim s = rev (dropWhile is_space (rev (dropWhile is_space s)))"

lemma split_on_neq_Nil [simp]: "split_on c s \<noteq> []"
  by (induction c s rule: split_on.induct) (auto split: list.splits)

lemma split_on_no_sep: "c \<notin> set s \<Longrightarrow> split_on c s = [s]"
  by (induction c s rule: split_on.induct) auto

lemma split_on_append_sep:
  "c \<notin> set w \<Longrightarrow> split_on c (w @ c # s) = w # split_on c s"
  by (induction w) auto

lemma split_on_single: "split_on c s = [w] \<Longrightarrow> s = w \<and> c \<notin> set w"
  by (induction c s arbitrary: w rule: split_on.induct) (auto split: if_splits list.splits)

lemma split_on_Cons:
  "split_on c s = w # r \<Longrightarrow> r \<noteq> [] \<Longrightarrow> \<exists>t. s = w @ c # t \<and> split_on c t = r \<and> c \<notin> set w"
proof (induction c s arbitrary: w r rule: split_on.induct)
  case (1 c)
  then show ?case by simp
next
  case (2 c x xs)
  show ?case
  proof (cases "x = c")
    case True
    with 2 show ?thesis by auto
  next
    case False
    then obtain p ps where p: "split_on c xs = p # ps"
      by (cases "split_on c xs") auto
    with False 2 have "w = x # p" "r = ps" by auto
    moreover from "2.IH"(2) [OF False p] "2.prems"(2) \<open>r = ps\<close> obtain t where
      "xs = p @ c # t" "split_on c t = ps" "c \<notin> set p" by auto
    ultimately show ?thesis using False by auto
  qed
qed

lemma split_on_pair: "split_on c s = [w, f] \<Longrightarrow> s = w @ c # f \<and> c \<notin> set w \<and> c \<notin> set f"
  using split_on_Cons [of c s w "[f]"] split_on_single by fastforce

lemma is_digit_not_dot [simp]: "\<not> is_digit CHR ''.''"
  by (simp add: is_digit_def char_code_def)

lemma not_digit_notin: "list_all is_digit s \<Longrightarrow> \<not> is_digit c \<Longrightarrow> c \<notin> set s"
  by (auto simp: list_all_iff)

lemma find_SomeD: "find P xs = Some x \<Longrightarrow> x \<in> set xs \<and> P x"
  by (induction xs) (auto split: if_splits)

end
