(* ===== verification/Traffic.thy ===== *)
theory Traffic
  imports Prelude
begin

section \<open>Overlapping requests\<close>

text \<open>
  The handlers await their queries, so a handler that reads a table and then writes it does not
  do the two at once. This theory holds the machine the table theories share: a request begins
  by reading the table (\<open>seen\<close>) and finishes by writing it, and any steps of others run between
  the two. \<open>fin q seen d\<close> is the write of the request \<open>q\<close> that has read \<open>seen\<close>, on the table \<open>d\<close>.
\<close>

datatype 'q traffic_event = Begin nat 'q | Finish nat

type_synonym ('q, 'd) traffic = "'d \<times> (nat \<rightharpoonup> 'q \<times> 'd)"

fun traffic_step :: "('q \<Rightarrow> 'd \<Rightarrow> 'd \<Rightarrow> 'd) \<Rightarrow> 'q traffic_event \<Rightarrow> ('q, 'd) traffic \<Rightarrow> ('q, 'd) traffic" where
  "traffic_step fin (Begin p q) (d, pending) = (d, pending(p \<mapsto> (q, d)))"
| "traffic_step fin (Finish p) (d, pending) =
     (case pending p of
        None \<Rightarrow> (d, pending)
      | Some (q, seen) \<Rightarrow> (fin q seen d, pending(p := None)))"

definition traffic_run :: "('q \<Rightarrow> 'd \<Rightarrow> 'd \<Rightarrow> 'd) \<Rightarrow> 'q traffic_event list \<Rightarrow> ('q, 'd) traffic \<Rightarrow> ('q, 'd) traffic" where
  "traffic_run fin = fold (traffic_step fin)"

lemma traffic_run_simps [simp]:
  "traffic_run fin [] st = st" "traffic_run fin (x # xs) st = traffic_run fin xs (traffic_step fin x st)"
  by (simp_all add: traffic_run_def)

text \<open>
  Runs in which every request that \<open>touches\<close> finds the table as \<open>same\<close> says: a condition on what
  a request has seen and what it writes to.
\<close>

fun undisturbed :: "('q \<Rightarrow> 'd \<Rightarrow> 'd \<Rightarrow> 'd) \<Rightarrow> ('q \<Rightarrow> 'd \<Rightarrow> 'd \<Rightarrow> bool) \<Rightarrow> 'q traffic_event list \<Rightarrow> ('q, 'd) traffic \<Rightarrow> bool" where
  "undisturbed fin same [] st = True"
| "undisturbed fin same (x # xs) st =
     ((case x of
         Begin p q \<Rightarrow> True
       | Finish p \<Rightarrow> (case snd st p of Some (q, seen) \<Rightarrow> same q seen (fst st) | None \<Rightarrow> True)) \<and>
      undisturbed fin same xs (traffic_step fin x st))"

fun event_ok :: "('q \<Rightarrow> bool) \<Rightarrow> 'q traffic_event \<Rightarrow> bool" where
  "event_ok ok (Begin p q) = ok q"
| "event_ok ok (Finish p) = True"

text \<open>
  The induction: what one write guarantees of a row is guaranteed by every run; \<open>strong\<close> holds of
  the writes of undisturbed runs.
\<close>

definition pending_ok :: "('d \<Rightarrow> bool) \<Rightarrow> ('q \<Rightarrow> bool) \<Rightarrow> (nat \<rightharpoonup> 'q \<times> 'd) \<Rightarrow> bool" where
  "pending_ok invar ok pending \<longleftrightarrow> (\<forall>p q seen. pending p = Some (q, seen) \<longrightarrow> invar seen \<and> ok q)"

lemma pending_ok_empty [simp]: "pending_ok invar ok Map.empty"
  by (simp add: pending_ok_def)

lemma traffic_run_row:
  fixes row :: "'d \<Rightarrow> 'r \<Rightarrow> bool" and weak strong :: "'r \<Rightarrow> 'r \<Rightarrow> bool"
  assumes fin: "\<And>q seen d r. invar seen \<Longrightarrow> invar d \<Longrightarrow> ok q \<Longrightarrow> row d r \<Longrightarrow>
      invar (fin q seen d) \<and> (\<exists>r'. row (fin q seen d) r' \<and> weak r r' \<and> (same r q seen d \<longrightarrow> strong r r'))"
    and weak: "\<And>r. weak r r" "\<And>a b c. weak a b \<Longrightarrow> weak b c \<Longrightarrow> weak a c"
    and strong: "\<And>r. strong r r" "\<And>a b c. strong a b \<Longrightarrow> strong b c \<Longrightarrow> strong a c"
    and follows: "\<And>r q seen d. row d r \<Longrightarrow> guard q seen d \<Longrightarrow> same r q seen d"
    and "invar d" "pending_ok invar ok pending" "list_all (event_ok ok) xs" "row d r"
  shows "\<exists>r'. row (fst (traffic_run fin xs (d, pending))) r' \<and> weak r r' \<and>
    (undisturbed fin guard xs (d, pending) \<longrightarrow> strong r r')"
  using assms(7-)
proof (induction xs arbitrary: d pending r)
  case Nil
  then show ?case using weak(1) strong(1) by auto
next
  case (Cons x xs)
  show ?case
  proof (cases "\<exists>p q seen. x = Finish p \<and> pending p = Some (q, seen)")
    case True
    then obtain p q seen where x: "x = Finish p" "pending p = Some (q, seen)" by blast
    have sq: "invar seen" "ok q" using Cons.prems(2) x(2) by (auto simp: pending_ok_def)
    have rest: "pending_ok invar ok (pending(p := None))" using Cons.prems(2) by (simp add: pending_ok_def)
    obtain r1 where r1: "invar (fin q seen d)" "row (fin q seen d) r1" "weak r r1" "same r q seen d \<longrightarrow> strong r r1"
      using fin [OF sq(1) Cons.prems(1) sq(2) Cons.prems(4)] by blast
    obtain r' where r': "row (fst (traffic_run fin xs (fin q seen d, pending(p := None)))) r'" "weak r1 r'"
      "undisturbed fin guard xs (fin q seen d, pending(p := None)) \<longrightarrow> strong r1 r'"
      using Cons.IH [OF r1(1) rest _ r1(2)] Cons.prems(3) by (auto simp del: fun_upd_apply)
    have "strong r r'" if "undisturbed fin guard (x # xs) (d, pending)"
      using that follows [OF Cons.prems(4), of q seen] r1(4) r'(3) strong(2) by (auto simp: x)
    with r' weak(2) [OF r1(3)] show ?thesis by (auto simp: x)
  next
    case False
    have "\<exists>pending'. traffic_step fin x (d, pending) = (d, pending') \<and> pending_ok invar ok pending'"
    proof (cases x)
      case (Begin p q)
      with Cons.prems(1-3) show ?thesis by (auto simp: pending_ok_def)
    next
      case (Finish p)
      with False have "pending p = None" by (cases "pending p") auto
      with Finish Cons.prems(2) show ?thesis by auto
    qed
    then obtain pending' where "traffic_step fin x (d, pending) = (d, pending')" "pending_ok invar ok pending'" by blast
    with Cons.IH [of d pending' r] Cons.prems show ?thesis by auto
  qed
qed

end
