(* ===== verification/Decimal.thy ===== *)
theory Decimal
  imports Complex_Main Prelude
begin

section \<open>Decimal strings\<close>

text \<open>
  Amounts travel through the services as decimal strings. This theory holds digits, the
  numeric reading of a digit string and its printing, the \<open>Amount\<close> brand of
  \<open>shared/types/index.ts\<close> and the amount validators of \<open>shared/validation\<close>.
\<close>

subsection \<open>Digits and natural numbers\<close>

definition digit_val :: "char \<Rightarrow> nat" where
  "digit_val c = char_code c - 48"

definition digit_char :: "nat \<Rightarrow> char" where
  "digit_char d = char_of (48 + d)"

definition is_numeral :: "string \<Rightarrow> bool" where
  "is_numeral s \<longleftrightarrow> s \<noteq> [] \<and> list_all is_digit s"

definition nat_of_digits :: "string \<Rightarrow> nat" where
  "nat_of_digits s = foldl (\<lambda>a c. 10 * a + digit_val c) 0 s"

fun digits_of_nat :: "nat \<Rightarrow> string" where
  "digits_of_nat n =
     (if n < 10 then [digit_char n] else digits_of_nat (n div 10) @ [digit_char (n mod 10)])"

declare digits_of_nat.simps [simp del]

lemma char_code_digit_char [simp]: "d < 10 \<Longrightarrow> char_code (digit_char d) = 48 + d"
  by (simp add: char_code_def digit_char_def of_char_of)

lemma digit_val_digit_char [simp]: "d < 10 \<Longrightarrow> digit_val (digit_char d) = d"
  by (simp add: digit_val_def)

lemma is_digit_digit_char [simp]: "d < 10 \<Longrightarrow> is_digit (digit_char d)"
  by (simp add: is_digit_def)

lemma digit_val_less [simp]: "is_digit c \<Longrightarrow> digit_val c < 10"
  by (auto simp: is_digit_def digit_val_def)

lemma digit_char_digit_val: "is_digit c \<Longrightarrow> digit_char (digit_val c) = c"
  by (auto simp: is_digit_def digit_val_def digit_char_def char_code_def)

lemma digit_char_0 [simp]: "digit_char 0 = CHR ''0''"
  using digit_char_digit_val [of "CHR ''0''"]
  by (simp add: is_digit_def digit_val_def char_code_def)

lemma foldl_digits:
  "foldl (\<lambda>a c. 10 * a + digit_val c) a s =
     a * 10 ^ length s + foldl (\<lambda>a c. 10 * a + digit_val c) 0 s"
proof (induction s arbitrary: a)
  case Nil
  show ?case by simp
next
  case (Cons c s)
  show ?case
    using Cons.IH [of "10 * a + digit_val c"] Cons.IH [of "digit_val c"]
    by (simp add: algebra_simps)
qed

lemma nat_of_digits_Nil [simp]: "nat_of_digits [] = 0"
  by (simp add: nat_of_digits_def)

lemma nat_of_digits_Cons [simp]:
  "nat_of_digits (c # s) = digit_val c * 10 ^ length s + nat_of_digits s"
  using foldl_digits [of "digit_val c" s] by (simp add: nat_of_digits_def)

lemma nat_of_digits_append:
  "nat_of_digits (s @ t) = nat_of_digits s * 10 ^ length t + nat_of_digits t"
  by (induction s) (simp_all add: algebra_simps power_add)

lemma nat_of_digits_less: "list_all is_digit s \<Longrightarrow> nat_of_digits s < 10 ^ length s"
proof (induction s)
  case Nil
  show ?case by simp
next
  case (Cons c s)
  then have "digit_val c \<le> 9" "nat_of_digits s < 10 ^ length s"
    using digit_val_less [of c] by (simp_all add: less_Suc_eq_le [symmetric] numeral_eq_Suc)
  then have "digit_val c * 10 ^ length s + nat_of_digits s < 9 * 10 ^ length s + 10 ^ length s"
    by (intro add_le_less_mono mult_right_mono) auto
  then show ?case by simp
qed

lemma nat_of_digits_of_nat [simp]: "nat_of_digits (digits_of_nat n) = n"
proof (induction n rule: digits_of_nat.induct)
  case (1 n)
  then show ?case
    by (subst digits_of_nat.simps) (simp add: nat_of_digits_append)
qed

lemma digits_of_nat_digits [simp]: "list_all is_digit (digits_of_nat n)"
proof (induction n rule: digits_of_nat.induct)
  case (1 n)
  then show ?case by (subst digits_of_nat.simps) simp
qed

lemma digits_of_nat_neq_Nil [simp]: "digits_of_nat n \<noteq> []"
  by (subst digits_of_nat.simps) simp

lemma is_numeral_digits_of_nat [simp]: "is_numeral (digits_of_nat n)"
  by (simp add: is_numeral_def)


lemma length_digits_of_nat_le: "n < 10 ^ d \<Longrightarrow> 0 < d \<Longrightarrow> length (digits_of_nat n) \<le> d"
proof (induction n arbitrary: d rule: digits_of_nat.induct)
  case (1 n)
  show ?case
  proof (cases "n < 10")
    case True
    with 1 show ?thesis by (subst digits_of_nat.simps) simp
  next
    case False
    with "1.prems" have "d \<noteq> 1" by (cases "d = 1") auto
    with "1.prems" obtain e where d: "d = Suc e" "0 < e" by (cases d) auto
    with "1.prems" have "n div 10 < 10 ^ e" by (simp add: less_mult_imp_div_less mult.commute)
    with "1.IH" False d have "length (digits_of_nat (n div 10)) \<le> e" by simp
    with False d show ?thesis by (subst digits_of_nat.simps) simp
  qed
qed

text \<open>\<open>s.padStart(n, c)\<close>\<close>

definition pad_start :: "nat \<Rightarrow> char \<Rightarrow> string \<Rightarrow> string" where
  "pad_start n c s = replicate (n - length s) c @ s"

lemma nat_of_digits_zeros [simp]: "nat_of_digits (replicate k CHR ''0'') = 0"
  by (induction k) (simp_all add: digit_val_def char_code_def)

lemma digits_zeros [simp]: "list_all is_digit (replicate k CHR ''0'')"
  by (simp add: list_all_iff is_digit_def char_code_def)

lemma nat_of_digits_pad_start [simp]: "nat_of_digits (pad_start n CHR ''0'' s) = nat_of_digits s"
  by (simp add: pad_start_def nat_of_digits_append)

lemma digits_pad_start [simp]:
  "list_all is_digit (pad_start n CHR ''0'' s) = list_all is_digit s"
  by (simp add: pad_start_def)

lemma length_pad_start [simp]: "length (pad_start n c s) = max n (length s)"
  by (simp add: pad_start_def)

subsection \<open>The \<open>Amount\<close> brand\<close>

text \<open>
  \<open>AMOUNT_PATTERN = /^\d+(?:\.\d+)?$/\<close>: the same pattern is \<open>AmountString\<close> of the
  validation schemas.
\<close>

definition is_amount :: "string \<Rightarrow> bool" where
  "is_amount s =
     (case split_on CHR ''.'' s of
        [w] \<Rightarrow> is_numeral w
      | [w, f] \<Rightarrow> is_numeral w \<and> is_numeral f
      | _ \<Rightarrow> False)"

datatype type_error = AmountMustBeUnsignedDecimal

definition parse_amount :: "string \<Rightarrow> (type_error, string) result" where
  "parse_amount s = (if is_amount s then return_ok s else throw AmountMustBeUnsignedDecimal)"

text \<open>\<open>const [whole, frac = ''] = s.split('.')\<close>\<close>

definition dec_parts :: "string \<Rightarrow> string \<times> string" where
  "dec_parts s =
     (case split_on CHR ''.'' s of
        [] \<Rightarrow> ([], [])
      | [w] \<Rightarrow> (w, [])
      | w # f # _ \<Rightarrow> (w, f))"

definition dec_places :: "string \<Rightarrow> nat" where
  "dec_places s = length (snd (dec_parts s))"

definition dec_scaled :: "string \<Rightarrow> nat" where
  "dec_scaled s = nat_of_digits (fst (dec_parts s) @ snd (dec_parts s))"

text \<open>The rational a decimal string denotes.\<close>

definition dec_val :: "string \<Rightarrow> rat" where
  "dec_val s = of_nat (dec_scaled s) / 10 ^ dec_places s"

lemma is_numeral_no_dot: "is_numeral w \<Longrightarrow> CHR ''.'' \<notin> set w"
  by (auto simp: is_numeral_def list_all_iff)

lemma dec_parts_int [simp]: "is_numeral w \<Longrightarrow> dec_parts w = (w, [])"
  by (simp add: dec_parts_def split_on_no_sep is_numeral_no_dot)

lemma dec_parts_frac [simp]:
  "is_numeral w \<Longrightarrow> is_numeral f \<Longrightarrow> dec_parts (w @ CHR ''.'' # f) = (w, f)"
  by (simp add: dec_parts_def split_on_append_sep split_on_no_sep is_numeral_no_dot)

lemma is_amount_int [simp]: "is_numeral w \<Longrightarrow> is_amount w"
  by (simp add: is_amount_def split_on_no_sep is_numeral_no_dot)

lemma is_amount_frac [simp]:
  "is_numeral w \<Longrightarrow> is_numeral f \<Longrightarrow> is_amount (w @ CHR ''.'' # f)"
  by (simp add: is_amount_def split_on_append_sep split_on_no_sep is_numeral_no_dot)

lemma is_amountE:
  assumes "is_amount s"
  obtains (int) "is_numeral s" "dec_parts s = (s, [])"
    | (frac) w f where "s = w @ CHR ''.'' # f" "is_numeral w" "is_numeral f"
        "dec_parts s = (w, f)"
proof (cases "split_on CHR ''.'' s")
  case Nil
  then show thesis by simp
next
  case (Cons w r)
  show thesis
  proof (cases r)
    case Nil
    with Cons have "s = w" using split_on_single by blast
    with Cons Nil assms show thesis
      by (intro int) (simp_all add: is_amount_def dec_parts_def)
  next
    case (Cons f t)
    note r = this
    show thesis
    proof (cases t)
      case Nil
      with \<open>split_on CHR ''.'' s = w # r\<close> r have sp: "split_on CHR ''.'' s = [w, f]" by simp
      then have "s = w @ CHR ''.'' # f" using split_on_pair by blast
      with sp assms show thesis
        by (intro frac) (simp_all add: is_amount_def dec_parts_def)
    next
      case (Cons x xs)
      with \<open>split_on CHR ''.'' s = w # r\<close> r assms show thesis
        by (simp add: is_amount_def)
    qed
  qed
qed

lemma dec_val_nonneg [simp]: "0 \<le> dec_val s"
  by (simp add: dec_val_def)

lemma dec_val_scaled: "dec_val s * 10 ^ dec_places s = of_nat (dec_scaled s)"
  by (simp add: dec_val_def)

subsection \<open>Printing with a fixed number of decimals\<close>

definition fixed_string :: "nat \<Rightarrow> nat \<Rightarrow> string" where
  "fixed_string d n =
     (if d = 0 then digits_of_nat n
      else digits_of_nat (n div 10 ^ d) @ CHR ''.'' #
           pad_start d CHR ''0'' (digits_of_nat (n mod 10 ^ d)))"

lemma is_numeral_frac_part: "0 < d \<Longrightarrow> is_numeral (pad_start d CHR ''0'' (digits_of_nat n))"
  by (simp add: is_numeral_def flip: length_greater_0_conv)

lemma length_frac_part:
  "0 < d \<Longrightarrow> length (pad_start d CHR ''0'' (digits_of_nat (n mod 10 ^ d))) = d"
  using length_digits_of_nat_le [of "n mod 10 ^ d" d] by simp

lemma is_amount_fixed_string [simp]: "is_amount (fixed_string d n)"
  by (simp add: fixed_string_def is_numeral_frac_part)

lemma dec_places_fixed_string [simp]: "dec_places (fixed_string d n) = d"
  by (simp add: fixed_string_def dec_places_def is_numeral_frac_part length_frac_part
      del: length_pad_start)

lemma dec_scaled_fixed_string [simp]: "dec_scaled (fixed_string d n) = n"
  by (simp add: fixed_string_def dec_scaled_def is_numeral_frac_part nat_of_digits_append
      length_frac_part div_mult_mod_eq del: length_pad_start)

lemma dec_val_fixed_string [simp]: "dec_val (fixed_string d n) = of_nat n / 10 ^ d"
  by (simp add: dec_val_def)

subsection \<open>Amount validators\<close>

text \<open>
  JavaScript's \<open>a < b\<close> on strings is the lexicographic order of the code units.
\<close>

fun str_less :: "string \<Rightarrow> string \<Rightarrow> bool" where
  "str_less [] [] = False"
| "str_less [] (y # ys) = True"
| "str_less (x # xs) [] = False"
| "str_less (x # xs) (y # ys) =
     (char_code x < char_code y \<or> (x = y \<and> str_less xs ys))"

lemma digit_eq_iff: "is_digit c \<Longrightarrow> is_digit d \<Longrightarrow> digit_val c = digit_val d \<longleftrightarrow> c = d"
  using digit_char_digit_val by metis

lemma digit_code_less_iff:
  "is_digit c \<Longrightarrow> is_digit d \<Longrightarrow> char_code c < char_code d \<longleftrightarrow> digit_val c < digit_val d"
  by (auto simp: is_digit_def digit_val_def)

text \<open>On digit strings of one length the string order is the numeric order.\<close>

lemma str_less_digits:
  assumes "list_all is_digit s" "list_all is_digit t" "length s = length t"
  shows "str_less s t \<longleftrightarrow> nat_of_digits s < nat_of_digits t"
  using assms(3,1,2)
proof (induction s t rule: list_induct2)
  case Nil
  show ?case by simp
next
  case (Cons c s d t)
  then have dig: "is_digit c" "is_digit d" "list_all is_digit s" "list_all is_digit t" by auto
  define p where "p = (10::nat) ^ length s"
  have b: "nat_of_digits s < p" "nat_of_digits t < p"
    using nat_of_digits_less [OF dig(3)] nat_of_digits_less [OF dig(4)] Cons.hyps
    by (simp_all add: p_def)
  have lt: "digit_val a * p + x < digit_val e * p + y"
    if "digit_val a < digit_val e" "x < p" "y < p" for a e x y
  proof -
    have "digit_val a * p + x < Suc (digit_val a) * p" using that by simp
    also have "\<dots> \<le> digit_val e * p" using that(1) by (intro mult_right_mono) auto
    finally show ?thesis by simp
  qed
  consider "digit_val c < digit_val d" | "c = d" | "digit_val d < digit_val c"
    using digit_eq_iff [OF dig(1,2)] by linarith
  then show ?case
  proof cases
    case 1
    with lt [of c d] b have "digit_val c * p + nat_of_digits s < digit_val d * p + nat_of_digits t"
      by blast
    with 1 Cons.hyps dig show ?thesis by (simp add: digit_code_less_iff p_def)
  next
    case 2
    with Cons dig show ?thesis by simp
  next
    case 3
    with lt [of d c] b have "digit_val d * p + nat_of_digits t < digit_val c * p + nat_of_digits s"
      by blast
    with 3 Cons.hyps dig show ?thesis by (auto simp: digit_code_less_iff p_def)
  qed
qed

text \<open>
  \<open>SettlementAmountString\<close>: an amount string that does not exceed \<open>10^15\<close>, decided
  on the text: by the length of the integer part, then by string comparison.
\<close>

definition max_settlement_digits :: string where
  "max_settlement_digits = ''1000000000000000''"

definition settlement_amount_string :: "string \<Rightarrow> bool" where
  "settlement_amount_string v \<longleftrightarrow>
     is_amount v \<and>
     (let (int_part, dec_part) = dec_parts v in
        if length int_part > length max_settlement_digits then False
        else if length int_part < length max_settlement_digits then True
        else if str_less max_settlement_digits int_part then False
        else if str_less int_part max_settlement_digits then True
        else dec_part = [] \<or> list_all (\<lambda>c. c = CHR ''0'') dec_part)"

text \<open>\<open>ASSET_DECIMALS\<close> and \<open>validateAmountPrecision\<close> of \<open>currency.ts\<close>.\<close>

definition asset_decimals :: "(string, nat) jsmap" where
  "asset_decimals = [(''USDC'', 7), (''EURT'', 7), (''NGN'', 2)]"

definition currency_codes :: "string list" where
  "currency_codes = [''USDC'', ''EURT'', ''NGN'']"

definition validate_amount_precision :: "string \<Rightarrow> string \<Rightarrow> bool" where
  "validate_amount_precision amount asset =
     (case map_of asset_decimals asset of
        None \<Rightarrow> False
      | Some decimals \<Rightarrow>
          (case split_on CHR ''.'' amount of
             [] \<Rightarrow> True
           | [_] \<Rightarrow> True
           | _ # f # _ \<Rightarrow> length f \<le> decimals))"

lemma max_settlement_digits_props [simp]:
  "length max_settlement_digits = 16" "list_all is_digit max_settlement_digits"
  "nat_of_digits max_settlement_digits = 10 ^ 15"
  by (simp_all add: max_settlement_digits_def is_digit_def char_code_def digit_val_def)

lemma dec_val_parts:
  "dec_val v = of_nat (nat_of_digits (fst (dec_parts v))) +
     of_nat (nat_of_digits (snd (dec_parts v))) / 10 ^ dec_places v"
  by (simp add: dec_val_def dec_scaled_def nat_of_digits_append dec_places_def add_divide_distrib)

lemma is_amount_digits:
  "is_amount s \<Longrightarrow> is_numeral (fst (dec_parts s)) \<and> list_all is_digit (snd (dec_parts s))"
  by (erule is_amountE) (auto simp: is_numeral_def)

lemma nat_of_digits_eq_0_iff:
  "list_all is_digit s \<Longrightarrow> nat_of_digits s = 0 \<longleftrightarrow> list_all (\<lambda>c. c = CHR ''0'') s"
proof (induction s)
  case Nil
  show ?case by simp
next
  case (Cons c s)
  have "is_digit CHR ''0''" "digit_val CHR ''0'' = 0"
    by (simp_all add: is_digit_def digit_val_def char_code_def)
  with Cons digit_eq_iff [of c "CHR ''0''"] show ?case by auto
qed

lemma frac_part_less_1:
  assumes "is_amount s"
  shows "of_nat (nat_of_digits (snd (dec_parts s))) / 10 ^ dec_places s < (1::rat)"
proof -
  have "nat_of_digits (snd (dec_parts s)) < 10 ^ dec_places s"
    using nat_of_digits_less is_amount_digits [OF assms] by (simp add: dec_places_def)
  then have "(of_nat (nat_of_digits (snd (dec_parts s))) :: rat) < of_nat (10 ^ dec_places s)"
    by (simp only: of_nat_less_iff)
  then show ?thesis by simp
qed

text \<open>
  C5: \<open>SettlementAmountString\<close>, which decides the ceiling by the length of the integer part
  and by string comparison, accepts exactly the amount strings of value at most \<open>10^15\<close>
  whose integer part has at most sixteen digits; in particular nothing above the ceiling.
\<close>

theorem settlement_amount_string_exact:
  "settlement_amount_string v \<longleftrightarrow>
     is_amount v \<and> length (fst (dec_parts v)) \<le> 16 \<and> dec_val v \<le> 10 ^ 15"
proof (cases "is_amount v")
  case False
  then show ?thesis by (simp add: settlement_amount_string_def)
next
  case True
  obtain w f where p: "dec_parts v = (w, f)" by fastforce
  with is_amount_digits [OF True] have w: "list_all is_digit w" and f: "list_all is_digit f"
    by (auto simp: is_numeral_def)
  define r where "r = (of_nat (nat_of_digits f) / 10 ^ dec_places v :: rat)"
  have v: "dec_val v = of_nat (nat_of_digits w) + r"
    by (simp add: dec_val_parts p r_def)
  have r1: "r < 1" using frac_part_less_1 [OF True] by (simp add: p r_def)
  have r0: "0 \<le> r" "r = 0 \<longleftrightarrow> nat_of_digits f = 0" by (simp_all add: r_def)
  have lo: "dec_val v \<le> 10 ^ 15" if "nat_of_digits w < 10 ^ 15"
  proof -
    from that have "Suc (nat_of_digits w) \<le> 10 ^ 15" by simp
    then have "(of_nat (Suc (nat_of_digits w)) :: rat) \<le> of_nat (10 ^ 15)"
      by (simp only: of_nat_le_iff)
    with v r1 show ?thesis by simp
  qed
  have hi: "dec_val v > 10 ^ 15" if "10 ^ 15 < nat_of_digits w"
  proof -
    from that have "(of_nat (10 ^ 15) :: rat) < of_nat (nat_of_digits w)"
      by (simp only: of_nat_less_iff)
    with v r0 show ?thesis by simp
  qed
  have eq: "dec_val v \<le> 10 ^ 15 \<longleftrightarrow> list_all (\<lambda>c. c = CHR ''0'') f" if "nat_of_digits w = 10 ^ 15"
    using that v r0 nat_of_digits_eq_0_iff [OF f] by auto
  have short: "nat_of_digits w < 10 ^ 15" if "length w < 16"
  proof -
    have "nat_of_digits w < 10 ^ length w" by (rule nat_of_digits_less [OF w])
    also have "\<dots> \<le> 10 ^ 15" using that by (intro power_increasing) auto
    finally show ?thesis .
  qed
  consider "length w > 16" | "length w < 16" | "length w = 16" by linarith
  then show ?thesis
  proof cases
    case 3
    then have cmp: "str_less w max_settlement_digits \<longleftrightarrow> nat_of_digits w < 10 ^ 15"
      "str_less max_settlement_digits w \<longleftrightarrow> 10 ^ 15 < nat_of_digits w"
      using str_less_digits [of w max_settlement_digits] str_less_digits [of max_settlement_digits w] w
      by simp_all
    consider "nat_of_digits w < 10 ^ 15" | "nat_of_digits w = 10 ^ 15" | "nat_of_digits w > 10 ^ 15"
      by linarith
    then show ?thesis
      by cases (use 3 True cmp lo hi eq in \<open>auto simp: settlement_amount_string_def p\<close>)
  qed (use True short lo in \<open>auto simp: settlement_amount_string_def p\<close>)
qed

end
