(* ===== verification/JsNumber.thy ===== *)
theory JsNumber
  imports Decimal
begin

section \<open>Parsing numbers as JavaScript does\<close>

text \<open>
  \<open>parseInt(s, 10)\<close>: leading white space, an optional sign, the longest run of digits;
  \<open>NaN\<close> (\<open>None\<close>) when there is no digit. Exact: every value the program parses this way is
  far below \<open>2^53\<close>.
\<close>

definition parse_int :: "string \<Rightarrow> int option" where
  "parse_int s =
     (let t = dropWhile is_space s;
          neg = (take 1 t = ''-'');
          u = (if take 1 t = ''-'' \<or> take 1 t = ''+'' then drop 1 t else t);
          ds = takeWhile is_digit u
      in if ds = [] then None
         else Some (if neg then - int (nat_of_digits ds) else int (nat_of_digits ds)))"

text \<open>\<open>String(n)\<close> for an integer.\<close>

definition string_of_int :: "int \<Rightarrow> string" where
  "string_of_int n = (if n < 0 then CHR ''-'' # digits_of_nat (nat (- n)) else digits_of_nat (nat n))"

text \<open>
  \<open>parseFloat(s)\<close>: the longest prefix that is a decimal literal, rounded to binary64 by the
  argument \<open>fl\<close>; \<open>None\<close> when there is none (\<open>NaN\<close>) or the literal is an infinity, the two
  cases every caller treats alike.
\<close>

definition decimal_value :: "string \<Rightarrow> string \<Rightarrow> int \<Rightarrow> rat" where
  "decimal_value whole fr ex =
     (let m = of_nat (nat_of_digits (whole @ fr)) :: rat;
          e = ex - int (length fr)
      in if 0 \<le> e then m * 10 ^ nat e else m / 10 ^ nat (- e))"

definition parse_exponent :: "string \<Rightarrow> int" where
  "parse_exponent s =
     (if take 1 s = ''e'' \<or> take 1 s = ''E''
      then (let t = drop 1 s;
                neg = (take 1 t = ''-'');
                u = (if take 1 t = ''-'' \<or> take 1 t = ''+'' then drop 1 t else t);
                n = int (nat_of_digits (takeWhile is_digit u))
            in if neg then - n else n)
      else 0)"

definition parse_float :: "(rat \<Rightarrow> rat) \<Rightarrow> string \<Rightarrow> rat option" where
  "parse_float fl s =
     (let t = dropWhile is_space s;
          neg = (take 1 t = ''-'');
          u = (if take 1 t = ''-'' \<or> take 1 t = ''+'' then drop 1 t else t);
          whole = takeWhile is_digit u;
          after = dropWhile is_digit u;
          fr = (if take 1 after = ''.'' then takeWhile is_digit (drop 1 after) else []);
          tail = (if take 1 after = ''.'' then dropWhile is_digit (drop 1 after) else after)
      in if whole = [] \<and> fr = [] then None
         else let v = fl (decimal_value whole fr (parse_exponent tail)) in Some (if neg then - v else v))"

end
