(* ===== verification/WebhookTargets.thy ===== *)
theory WebhookTargets
  imports JsNumber
begin

section \<open>Webhook targets and headers (\<open>shared/validation/webhookSchema.ts\<close>)\<close>

text \<open>
  The address checks that keep webhook calls away from private networks, the host allowlist,
  the schema of webhook URLs and of custom headers, the DNS cache and the rate limit of the
  validation endpoint. The WHATWG URL parser is the argument \<open>parse_url\<close>, a DNS lookup the
  argument \<open>dns\<close>; the theorems hold for all of them.
\<close>

subsection \<open>IP literals (\<open>node:net\<close>)\<close>

text \<open>\<open>net.isIPv4\<close>: four decimal octets without leading zeros.\<close>

definition is_octet :: "string \<Rightarrow> bool" where
  "is_octet s = (is_numeral s \<and> length s \<le> 3 \<and> (length s = 1 \<or> hd s \<noteq> CHR ''0'') \<and> nat_of_digits s \<le> 255)"

definition is_ipv4 :: "string \<Rightarrow> bool" where
  "is_ipv4 s = (let parts = split_on CHR ''.'' s in length parts = 4 \<and> list_all is_octet parts)"

definition is_hex_char :: "char \<Rightarrow> bool" where
  "is_hex_char c \<longleftrightarrow> is_digit c \<or> (97 \<le> char_code c \<and> char_code c \<le> 102) \<or> (65 \<le> char_code c \<and> char_code c \<le> 70)"

definition is_hex_group :: "string \<Rightarrow> bool" where
  "is_hex_group s = (1 \<le> length s \<and> length s \<le> 4 \<and> list_all is_hex_char s)"

text \<open>The number of 16-bit groups of a colon-separated part, the last of which may be an IPv4 address.\<close>

fun group_count :: "string list \<Rightarrow> nat option" where
  "group_count [] = Some 0"
| "group_count [g] = (if is_hex_group g then Some 1 else if is_ipv4 g then Some 2 else None)"
| "group_count (g # gs) =
     (if is_hex_group g then (case group_count gs of Some n \<Rightarrow> Some (Suc n) | None \<Rightarrow> None) else None)"

fun split_double_colon :: "string \<Rightarrow> (string \<times> string) option" where
  "split_double_colon (c # d # s) =
     (if c = CHR '':'' \<and> d = CHR '':'' then Some ([], s)
      else (case split_double_colon (d # s) of Some (l, r) \<Rightarrow> Some (c # l, r) | None \<Rightarrow> None))"
| "split_double_colon _ = None"

definition colon_parts :: "string \<Rightarrow> string list" where
  "colon_parts s = (if s = [] then [] else split_on CHR '':'' s)"

definition is_zone_char :: "char \<Rightarrow> bool" where
  "is_zone_char c \<longleftrightarrow> is_digit c \<or> is_upper c \<or> is_lower c \<or> c \<in> {CHR ''-'', CHR ''.'', CHR '':''}"

text \<open>\<open>net.isIPv6\<close>: eight groups, or at most seven around one \<open>::\<close>, and an optional zone.\<close>

definition is_ipv6 :: "string \<Rightarrow> bool" where
  "is_ipv6 s =
     (let addr = takeWhile (\<lambda>c. c \<noteq> CHR ''%'') s;
          rest = dropWhile (\<lambda>c. c \<noteq> CHR ''%'') s;
          zone_ok = (rest = [] \<or> (tl rest \<noteq> [] \<and> list_all is_zone_char (tl rest)))
      in zone_ok \<and>
        (case split_double_colon addr of
           None \<Rightarrow> group_count (colon_parts addr) = Some 8
         | Some (l, r) \<Rightarrow>
             list_all is_hex_group (colon_parts l) \<and>
             (case group_count (colon_parts r) of
                None \<Rightarrow> False
              | Some n \<Rightarrow> length (colon_parts l) + n \<le> 7)))"

definition net_is_ip :: "string \<Rightarrow> nat" where
  "net_is_ip s = (if is_ipv4 s then 4 else if is_ipv6 s then 6 else 0)"

subsection \<open>Restricted addresses\<close>

definition restricted_octets :: "nat \<Rightarrow> nat \<Rightarrow> bool" where
  "restricted_octets b0 b1 =
     (b0 = 0 \<or> b0 = 10 \<or> (b0 = 100 \<and> 64 \<le> b1 \<and> b1 \<le> 127) \<or> b0 = 127 \<or>
      (b0 = 169 \<and> b1 = 254) \<or> (b0 = 172 \<and> 16 \<le> b1 \<and> b1 \<le> 31) \<or>
      (b0 = 192 \<and> b1 = 0) \<or> (b0 = 192 \<and> b1 = 168) \<or> (b0 = 198 \<and> (b1 = 18 \<or> b1 = 19)) \<or>
      (b0 = 198 \<and> b1 = 51) \<or> (b0 = 203 \<and> b1 = 0) \<or> (224 \<le> b0 \<and> b0 \<le> 239) \<or> 240 \<le> b0)"

definition is_restricted_ipv4 :: "string \<Rightarrow> bool" where
  "is_restricted_ipv4 ip =
     (let parts = map nat_of_digits (split_on CHR ''.'' ip)
      in if length parts \<noteq> 4 \<or> list_ex (\<lambda>p. p > 255) parts then True
         else restricted_octets (parts ! 0) (parts ! 1))"

definition starts_with :: "string \<Rightarrow> string \<Rightarrow> bool" where
  "starts_with p s = (take (length p) s = p)"

definition ends_with :: "string \<Rightarrow> string \<Rightarrow> bool" where
  "ends_with p s = (length p \<le> length s \<and> drop (length s - length p) s = p)"

definition is_restricted_ipv6 :: "string \<Rightarrow> bool" where
  "is_restricted_ipv6 ip =
     (let lower = to_lower ip
      in if lower \<in> {''::'', ''::1'', ''0:0:0:0:0:0:0:1'', ''0:0:0:0:0:0:0:0''} then True
         else if starts_with ''::ffff:'' lower \<and> is_ipv4 (drop 7 lower)
         then is_restricted_ipv4 (drop 7 lower)
         else if starts_with ''fc'' lower \<or> starts_with ''fd'' lower then True
         else if starts_with ''fe'' lower \<and> 4 < length lower \<and>
             lower ! 2 \<in> {CHR ''8'', CHR ''9'', CHR ''a'', CHR ''b''} \<and>
             is_hex_char (lower ! 3) \<and> lower ! 4 = CHR '':'' then True
         else False)"

definition is_private_or_restricted_ip :: "string \<Rightarrow> bool" where
  "is_private_or_restricted_ip ip =
     (if net_is_ip ip = 0 then False
      else if net_is_ip ip = 4 then is_restricted_ipv4 ip
      else is_restricted_ipv6 ip)"

subsection \<open>The host allowlist and the test-target check\<close>

definition host_matches :: "string \<Rightarrow> string \<Rightarrow> bool" where
  "host_matches normalized_host pattern =
     (let p = trim (to_lower pattern)
      in if p = ''*'' then True
         else if starts_with ''*.'' p
         then ends_with (drop 1 p) normalized_host \<or> normalized_host = drop 2 p
         else normalized_host = p)"

definition is_host_allowed :: "string \<Rightarrow> string list \<Rightarrow> bool" where
  "is_host_allowed host allowed_hosts =
     (if allowed_hosts = [] then False
      else list_ex (host_matches (trim (to_lower host))) allowed_hosts)"

record url_parts =
  u_protocol :: string
  u_hostname :: string

datatype target_refusal =
    InvalidUrlFormat
  | InvalidScheme string
  | HostNotListed string
  | RestrictedAddress string
  | NoAddresses string
  | ResolvedRestricted string string
  | DnsFailed string string

definition validate_webhook_test_target ::
  "(string \<Rightarrow> url_parts option) \<Rightarrow> (string \<Rightarrow> (string, string list) result) \<Rightarrow> string \<Rightarrow> string list \<Rightarrow>
   (target_refusal, unit) result" where
  "validate_webhook_test_target parse_url dns url_string allowed_hosts =
     (case parse_url url_string of
        None \<Rightarrow> throw InvalidUrlFormat
      | Some url \<Rightarrow>
        if u_protocol url \<noteq> ''http:'' \<and> u_protocol url \<noteq> ''https:'' then throw (InvalidScheme (u_protocol url))
        else let hostname = u_hostname url in
        if \<not> is_host_allowed hostname allowed_hosts then throw (HostNotListed hostname)
        else if net_is_ip hostname \<noteq> 0 then
          (if is_private_or_restricted_ip hostname then throw (RestrictedAddress hostname) else return_ok ())
        else (case dns hostname of
            Inl e \<Rightarrow> throw (DnsFailed hostname e)
          | Inr addresses \<Rightarrow>
            if addresses = [] then throw (NoAddresses hostname)
            else (case find is_private_or_restricted_ip addresses of
                Some ip \<Rightarrow> throw (ResolvedRestricted ip hostname)
              | None \<Rightarrow> return_ok ())))"

subsection \<open>The schema of webhook URLs\<close>

text \<open>\<open>PRIVATE_HOST_PATTERN\<close>: \<open>\d{1,3}\<close> octets, so also values above 255.\<close>

definition octet_like :: "string \<Rightarrow> bool" where
  "octet_like s = (is_numeral s \<and> length s \<le> 3)"

definition private_host_pattern :: "string \<Rightarrow> bool" where
  "private_host_pattern host =
     (let parts = split_on CHR ''.'' host
      in to_lower host = ''localhost'' \<or> host = ''::1'' \<or> host = ''[::1]'' \<or> host = ''0.0.0.0'' \<or>
        (length parts = 4 \<and>
          ((parts ! 0 = ''127'' \<and> octet_like (parts ! 1) \<or>
            parts ! 0 = ''10'' \<and> octet_like (parts ! 1) \<or>
            parts ! 0 = ''192'' \<and> parts ! 1 = ''168'' \<or>
            parts ! 0 = ''172'' \<and> length (parts ! 1) = 2 \<and> is_numeral (parts ! 1) \<and>
              16 \<le> nat_of_digits (parts ! 1) \<and> nat_of_digits (parts ! 1) \<le> 31) \<and>
           octet_like (parts ! 2) \<and> octet_like (parts ! 3))))"

definition is_private_or_localhost :: "(string \<Rightarrow> url_parts option) \<Rightarrow> string \<Rightarrow> bool" where
  "is_private_or_localhost parse_url s =
     (case parse_url s of Some url \<Rightarrow> private_host_pattern (u_hostname url) | None \<Rightarrow> False)"

record validation_context =
  vc_is_production :: bool
  vc_env :: string

text \<open>\<open>process_env\<close> is \<open>process.env.NODE_ENV\<close>, read when the caller passes nothing.\<close>

definition create_validation_context :: "string option \<Rightarrow> string option \<Rightarrow> validation_context" where
  "create_validation_context process_env node_env =
     (let env = (case node_env of Some e \<Rightarrow> e
        | None \<Rightarrow> (case process_env of Some e \<Rightarrow> e | None \<Rightarrow> ''development''))
      in \<lparr> vc_is_production = (env = ''production''), vc_env = env \<rparr>)"

datatype url_issue = NotAUrl | UrlTooLong | HttpsRequired | PrivateTarget

definition webhook_url_issues ::
  "(string \<Rightarrow> url_parts option) \<Rightarrow> string option \<Rightarrow> string option \<Rightarrow> string \<Rightarrow> url_issue list" where
  "webhook_url_issues parse_url process_env node_env url =
     (let production = vc_is_production (create_validation_context process_env node_env)
      in (if parse_url url = None then [NotAUrl] else []) @
         (if length url > 2048 then [UrlTooLong] else []) @
         (if \<not> production then []
          else (if \<not> starts_with ''https://'' url then [HttpsRequired] else []) @
               (if is_private_or_localhost parse_url url then [PrivateTarget] else [])))"

subsection \<open>Custom headers\<close>

definition http_token_char :: "char \<Rightarrow> bool" where
  "http_token_char c \<longleftrightarrow> is_digit c \<or> is_upper c \<or> is_lower c \<or>
     c \<in> {CHR ''!'', CHR ''#'', CHR ''$'', CHR ''%'', CHR ''&'', CHR 39, CHR ''*'', CHR ''+'', CHR ''-'',
          CHR ''.'', CHR ''^'', CHR ''_'', CHR 96, CHR ''|'', CHR ''~''}"

definition http_token_pattern :: "string \<Rightarrow> bool" where
  "http_token_pattern s \<longleftrightarrow> s \<noteq> [] \<and> list_all http_token_char s"

definition reserved_webhook_header_names :: "string list" where
  "reserved_webhook_header_names =
     [''content-type'', ''x-bettapay-signature'', ''host'', ''content-length'', ''transfer-encoding'', ''connection'']"

definition max_custom_webhook_headers :: nat where
  "max_custom_webhook_headers = 20"

definition webhook_headers_schema :: "(string, string) jsmap \<Rightarrow> bool" where
  "webhook_headers_schema headers \<longleftrightarrow>
     list_all (\<lambda>(k, v). length v \<le> 4096) headers \<and>
     length headers \<le> max_custom_webhook_headers \<and>
     list_all (\<lambda>(k, v). http_token_pattern k) headers \<and>
     list_all (\<lambda>(k, v). to_lower k \<notin> set reserved_webhook_header_names) headers \<and>
     list_all (\<lambda>(k, v). CHR 13 \<notin> set v \<and> CHR 10 \<notin> set v) headers"

subsection \<open>The DNS cache and the validation endpoint\<close>

record dns_entry =
  dn_addresses :: "string list"
  dn_timestamp :: nat

definition dns_cache_ttl_ms :: nat where
  "dns_cache_ttl_ms = 60000"

text \<open>
  \<open>resolveWithCache\<close> for a URL that parses (an unparsable one throws, \<open>None\<close>); \<open>dns\<close> is
  \<open>dns.promises.resolve4\<close>, \<open>later\<close> the time after it.
\<close>

definition resolve_with_cache ::
  "(string \<Rightarrow> url_parts option) \<Rightarrow> (string \<Rightarrow> string list option) \<Rightarrow> nat \<Rightarrow> nat \<Rightarrow>
   (string, dns_entry) jsmap \<Rightarrow> string \<Rightarrow> ((string, dns_entry) jsmap \<times> string list) option" where
  "resolve_with_cache parse_url dns now later cache url =
     (case parse_url url of None \<Rightarrow> None
      | Some u \<Rightarrow>
        let hostname = u_hostname u;
            fresh = (case map_of cache hostname of
               Some e \<Rightarrow> if int now - int (dn_timestamp e) < int dns_cache_ttl_ms then Some (dn_addresses e) else None
             | None \<Rightarrow> None)
        in (case fresh of
              Some addresses \<Rightarrow> Some (cache, addresses)
            | None \<Rightarrow> (case dns hostname of
                Some addresses \<Rightarrow>
                  Some (js_set hostname \<lparr> dn_addresses = addresses, dn_timestamp = later \<rparr> cache, addresses)
              | None \<Rightarrow> Some (cache, []))))"

definition webhook_validate_rate_limit :: int where
  "webhook_validate_rate_limit = 10"

text \<open>What \<open>checkWebhookRateLimit\<close> does with the reply of \<open>INCR\<close>: whether it sets the expiry, whether it allows.\<close>

definition check_webhook_rate_limit :: "int \<Rightarrow> bool \<times> bool" where
  "check_webhook_rate_limit count = (count = 1, count \<le> webhook_validate_rate_limit)"

record webhook_validation =
  wv_valid :: bool
  wv_error :: "string option"
  wv_status :: nat

definition validate_webhook_url ::
  "(string \<Rightarrow> url_parts option) \<Rightarrow> (string \<Rightarrow> string list option) \<Rightarrow> (string \<Rightarrow> nat option) \<Rightarrow>
   nat \<Rightarrow> nat \<Rightarrow> int \<Rightarrow> (string, dns_entry) jsmap \<Rightarrow> string \<Rightarrow>
   ((string, dns_entry) jsmap \<times> webhook_validation) option" where
  "validate_webhook_url parse_url dns head now later count cache url =
     (if \<not> snd (check_webhook_rate_limit count)
      then Some (cache, \<lparr> wv_valid = False,
        wv_error = Some ''Rate limit exceeded. Please try again later.'', wv_status = 429 \<rparr>)
      else (case resolve_with_cache parse_url dns now later cache url of
          None \<Rightarrow> None
        | Some (cache', addresses) \<Rightarrow>
          if addresses = []
          then Some (cache', \<lparr> wv_valid = False, wv_error = Some ''Could not resolve webhook URL'', wv_status = 400 \<rparr>)
          else (case head url of
              Some status \<Rightarrow>
                if 200 \<le> status \<and> status \<le> 299
                then Some (cache', \<lparr> wv_valid = True, wv_error = None, wv_status = status \<rparr>)
                else Some (cache', \<lparr> wv_valid = False, wv_error = Some ''Webhook URL is not reachable'', wv_status = status \<rparr>)
            | None \<Rightarrow> Some (cache', \<lparr> wv_valid = False,
                wv_error = Some ''Webhook URL is not reachable'', wv_status = 400 \<rparr>))))"

subsection \<open>The blocked IPv4 networks\<close>

text \<open>
  The specification: an address as a number, and the networks in CIDR notation that the check
  of the octets blocks.
\<close>

definition ipv4_value :: "nat \<Rightarrow> nat \<Rightarrow> nat \<Rightarrow> nat \<Rightarrow> nat" where
  "ipv4_value a b c d = ((a * 256 + b) * 256 + c) * 256 + d"

definition dotted :: "nat \<Rightarrow> nat \<Rightarrow> nat \<Rightarrow> nat \<Rightarrow> string" where
  "dotted a b c d = digits_of_nat a @ CHR ''.'' # digits_of_nat b @ CHR ''.'' #
     digits_of_nat c @ CHR ''.'' # digits_of_nat d"

definition in_cidr :: "nat \<Rightarrow> nat \<times> nat \<Rightarrow> bool" where
  "in_cidr x n = (x div 2 ^ (32 - snd n) = fst n div 2 ^ (32 - snd n))"

text \<open>The blocks the two-octet comparisons of the code amount to.\<close>

definition restricted_networks :: "(nat \<times> nat) list" where
  "restricted_networks =
     [(ipv4_value 0 0 0 0, 8), (ipv4_value 10 0 0 0, 8), (ipv4_value 100 64 0 0, 10),
      (ipv4_value 127 0 0 0, 8), (ipv4_value 169 254 0 0, 16), (ipv4_value 172 16 0 0, 12),
      (ipv4_value 192 0 0 0, 16), (ipv4_value 192 168 0 0, 16), (ipv4_value 198 18 0 0, 15),
      (ipv4_value 198 51 0 0, 16), (ipv4_value 203 0 0 0, 16), (ipv4_value 224 0 0 0, 4),
      (ipv4_value 240 0 0 0, 4)]"

lemma hd_digits_of_nat: "0 < n \<Longrightarrow> hd (digits_of_nat n) \<noteq> CHR ''0''"
proof (induction n rule: digits_of_nat.induct)
  case (1 n)
  show ?case
  proof (cases "n < 10")
    case True
    have "digit_char n \<noteq> CHR ''0''"
    proof
      assume "digit_char n = CHR ''0''"
      then have "digit_val (digit_char n) = 0" by (simp add: digit_val_def char_code_def)
      with True 1(2) show False by simp
    qed
    with True show ?thesis by (subst digits_of_nat.simps) simp
  next
    case False
    with 1 show ?thesis by (subst digits_of_nat.simps) simp
  qed
qed

lemma octet_bound:
  assumes "n \<le> 255" shows "is_octet (digits_of_nat n)"
proof -
  have "length (digits_of_nat n) \<le> 3" by (rule length_digits_of_nat_le) (use assms in simp_all)
  moreover have "length (digits_of_nat n) = 1 \<or> hd (digits_of_nat n) \<noteq> CHR ''0''"
    using hd_digits_of_nat [of n] by (cases "n = 0") (simp_all add: digits_of_nat.simps [of 0])
  ultimately show ?thesis using assms by (simp add: is_octet_def)
qed

lemma no_dot: "CHR ''.'' \<notin> set (digits_of_nat n)"
  using digits_of_nat_digits [of n] by (auto simp: list_all_iff is_digit_def char_code_def)

lemma split_dotted:
  "split_on CHR ''.'' (dotted a b c d) = [digits_of_nat a, digits_of_nat b, digits_of_nat c, digits_of_nat d]"
  by (simp add: dotted_def split_on_append_sep split_on_no_sep no_dot)

lemma dotted_is_ipv4:
  "a \<le> 255 \<Longrightarrow> b \<le> 255 \<Longrightarrow> c \<le> 255 \<Longrightarrow> d \<le> 255 \<Longrightarrow> net_is_ip (dotted a b c d) = 4"
  by (simp add: net_is_ip_def is_ipv4_def split_dotted octet_bound)

lemma div_high: "r < k \<Longrightarrow> (q * k + r) div k = (q::nat)"
  by (simp add: div_mult_self3)

lemma div_part: "0 < k \<Longrightarrow> (a * (k * m) + b) div k = a * m + (b::nat) div k"
proof -
  assume "0 < k"
  then have "(b + (a * m) * k) div k = a * m + b div k" by simp
  moreover have "a * (k * m) + b = b + (a * m) * k" by (simp add: ac_simps)
  ultimately show ?thesis by metis
qed

lemma prefix_values:
  assumes "b \<le> 255" "c \<le> 255" "d \<le> 255"
  shows "ipv4_value a b c d div 2 ^ 24 = a"
    "ipv4_value a b c d div 2 ^ 16 = a * 256 + b"
    "ipv4_value a b c d div 2 ^ 22 = a * 4 + b div 64"
    "ipv4_value a b c d div 2 ^ 20 = a * 16 + b div 16"
    "ipv4_value a b c d div 2 ^ 17 = a * 128 + b div 2"
    "ipv4_value a b c d div 2 ^ 28 = a div 16"
proof -
  have q: "ipv4_value a b c d div 65536 = a * 256 + b"
  proof -
    have "ipv4_value a b c d = (a * 256 + b) * 65536 + (c * 256 + d)" by (simp add: ipv4_value_def)
    moreover have "c * 256 + d < 65536" using assms by simp
    ultimately show ?thesis by (simp only: div_high)
  qed
  show "ipv4_value a b c d div 2 ^ 16 = a * 256 + b" using q by simp
  have h: "ipv4_value a b c d div (65536 * k) = (a * 256 + b) div k" for k
    by (simp add: div_mult2_eq q)
  show "ipv4_value a b c d div 2 ^ 24 = a" using h [of 256] assms(1) by simp
  show "ipv4_value a b c d div 2 ^ 22 = a * 4 + b div 64"
    using h [of 64] div_part [of 64 a 4 b] by simp
  show "ipv4_value a b c d div 2 ^ 20 = a * 16 + b div 16"
    using h [of 16] div_part [of 16 a 16 b] by simp
  show "ipv4_value a b c d div 2 ^ 17 = a * 128 + b div 2"
    using h [of 2] div_part [of 2 a 128 b] by simp
  have "(a * 256 + b) div (256 * 16) = a div 16"
    using assms(1) by (simp add: div_mult2_eq)
  then show "ipv4_value a b c d div 2 ^ 28 = a div 16"
    using h [of 4096] by simp
qed

lemma div_range: "0 < k \<Longrightarrow> b div k = q \<longleftrightarrow> q * k \<le> b \<and> b < q * k + (k::nat)"
proof
  assume k: "0 < k" and q: "b div k = q"
  have "b div k * k + b mod k = b" "b mod k < k" using k by simp_all
  then show "q * k \<le> b \<and> b < q * k + k" unfolding q by linarith
next
  assume "0 < k" "q * k \<le> b \<and> b < q * k + k"
  then show "b div k = q" by (intro div_nat_eqI) (simp_all add: mult.commute)
qed

lemma digit_pair:
  assumes "x < k" "y < (k::nat)"
  shows "a * k + x = c * k + y \<longleftrightarrow> a = c \<and> x = y"
proof
  assume e: "a * k + x = c * k + y"
  then have "a = c" using div_high [OF assms(1), of a] div_high [OF assms(2), of c] by simp
  with e show "a = c \<and> x = y" by simp
qed simp

lemma restricted_octets_cidr:
  assumes "a \<le> 255" "b \<le> 255" "c \<le> 255" "d \<le> 255"
  shows "restricted_octets a b \<longleftrightarrow> list_ex (in_cidr (ipv4_value a b c d)) restricted_networks"
proof -
  have "list_ex (in_cidr (ipv4_value a b c d)) restricted_networks \<longleftrightarrow>
      (a = 0 \<or> a = 10 \<or> a * 4 + b div 64 = 401 \<or> a = 127 \<or> a * 256 + b = 43518 \<or>
       a * 16 + b div 16 = 2753 \<or> a * 256 + b = 49152 \<or> a * 256 + b = 49320 \<or>
       a * 128 + b div 2 = 25353 \<or> a * 256 + b = 50739 \<or> a * 256 + b = 51968 \<or>
       a div 16 = 14 \<or> a div 16 = 15)"
    unfolding restricted_networks_def in_cidr_def
    using prefix_values [OF assms(2-4), of a] by (simp add: ipv4_value_def)
  also have "\<dots> \<longleftrightarrow> restricted_octets a b"
  proof -
    have "a * 4 + b div 64 = 401 \<longleftrightarrow> a = 100 \<and> b div 64 = 1"
      using digit_pair [of "b div 64" 4 1 a 100] assms(2) by simp
    moreover have "a * 16 + b div 16 = 2753 \<longleftrightarrow> a = 172 \<and> b div 16 = 1"
      using digit_pair [of "b div 16" 16 1 a 172] assms(2) by simp
    moreover have "a * 128 + b div 2 = 25353 \<longleftrightarrow> a = 198 \<and> b div 2 = 9"
      using digit_pair [of "b div 2" 128 9 a 198] assms(2) by simp
    moreover have "b div 64 = 1 \<longleftrightarrow> 64 \<le> b \<and> b \<le> 127" using div_range [of 64 b 1] by auto
    moreover have "b div 16 = 1 \<longleftrightarrow> 16 \<le> b \<and> b \<le> 31" using div_range [of 16 b 1] by auto
    moreover have "b div 2 = 9 \<longleftrightarrow> b = 18 \<or> b = 19" using div_range [of 2 b 9] by auto
    moreover have "a * 256 + b = 43518 \<longleftrightarrow> a = 169 \<and> b = 254"
      "a * 256 + b = 49152 \<longleftrightarrow> a = 192 \<and> b = 0" "a * 256 + b = 49320 \<longleftrightarrow> a = 192 \<and> b = 168"
      "a * 256 + b = 50739 \<longleftrightarrow> a = 198 \<and> b = 51" "a * 256 + b = 51968 \<longleftrightarrow> a = 203 \<and> b = 0"
      using digit_pair [of b 256 254 a 169] digit_pair [of b 256 0 a 192] digit_pair [of b 256 168 a 192]
        digit_pair [of b 256 51 a 198] digit_pair [of b 256 0 a 203] assms(2) by simp_all
    moreover have "a div 16 = 14 \<longleftrightarrow> 224 \<le> a \<and> a \<le> 239" using div_range [of 16 a 14] by auto
    moreover have "a div 16 = 15 \<longleftrightarrow> 240 \<le> a" using div_range [of 16 a 15] assms(1) by auto
    ultimately show ?thesis unfolding restricted_octets_def by argo
  qed
  finally show ?thesis by simp
qed

lemma private_ip_dotted:
  assumes "a \<le> 255" "b \<le> 255" "c \<le> 255" "d \<le> 255"
  shows "is_private_or_restricted_ip (dotted a b c d) \<longleftrightarrow>
    list_ex (in_cidr (ipv4_value a b c d)) restricted_networks"
proof -
  have "is_private_or_restricted_ip (dotted a b c d) = restricted_octets a b"
    using assms by (simp add: is_private_or_restricted_ip_def dotted_is_ipv4 is_restricted_ipv4_def split_dotted)
  with restricted_octets_cidr [OF assms] show ?thesis by simp
qed

subsection \<open>Properties\<close>

text \<open>
  The networks the comments of \<open>isPrivateOrRestrictedIp\<close> name, and the three blocks the code
  takes where the comments name /24 networks inside them.
\<close>

definition documented_networks :: "(nat \<times> nat) list" where
  "documented_networks =
     [(ipv4_value 0 0 0 0, 8), (ipv4_value 10 0 0 0, 8), (ipv4_value 100 64 0 0, 10),
      (ipv4_value 127 0 0 0, 8), (ipv4_value 169 254 0 0, 16), (ipv4_value 172 16 0 0, 12),
      (ipv4_value 192 0 0 0, 24), (ipv4_value 192 0 2 0, 24), (ipv4_value 192 168 0 0, 16),
      (ipv4_value 198 18 0 0, 15), (ipv4_value 198 51 100 0, 24), (ipv4_value 203 0 113 0, 24),
      (ipv4_value 224 0 0 0, 4), (ipv4_value 240 0 0 0, 4)]"

definition widened_networks :: "(nat \<times> nat) list" where
  "widened_networks = [(ipv4_value 192 0 0 0, 16), (ipv4_value 198 51 0 0, 16), (ipv4_value 203 0 0 0, 16)]"

lemma cidr_24_16:
  assumes "in_cidr x (n, 24)" "n div 65536 = m div 65536"
  shows "in_cidr x (m, 16)"
proof -
  have "x div 256 div 256 = n div 256 div 256" using assms(1) by (simp add: in_cidr_def)
  then have "x div 65536 = n div 65536" by (simp flip: div_mult2_eq)
  with assms(2) show ?thesis by (simp add: in_cidr_def)
qed

lemma restricted_networks_split:
  "list_ex (in_cidr x) restricted_networks \<longleftrightarrow>
   list_ex (in_cidr x) documented_networks \<or> list_ex (in_cidr x) widened_networks"
proof -
  have "in_cidr x (ipv4_value 192 0 0 0, 24) \<Longrightarrow> in_cidr x (ipv4_value 192 0 0 0, 16)"
    "in_cidr x (ipv4_value 192 0 2 0, 24) \<Longrightarrow> in_cidr x (ipv4_value 192 0 0 0, 16)"
    "in_cidr x (ipv4_value 198 51 100 0, 24) \<Longrightarrow> in_cidr x (ipv4_value 198 51 0 0, 16)"
    "in_cidr x (ipv4_value 203 0 113 0, 24) \<Longrightarrow> in_cidr x (ipv4_value 203 0 0 0, 16)"
    by (erule cidr_24_16, simp add: ipv4_value_def)+
  then show ?thesis
    unfolding restricted_networks_def documented_networks_def widened_networks_def
    by (simp only: list_ex_iff list.set insert_iff empty_iff bex_simps) blast
qed

text \<open>
  C18: The address filter, exactly: an IPv4 address is blocked if and only if it lies in one of
  the networks the comments of the function name (loopback, private, link-local with the cloud
  metadata address, shared, test, benchmarking, multicast and reserved ranges), in CIDR
  arithmetic on its 32-bit value, or in 192.0.0.0/16, 198.51.0.0/16 or 203.0.0.0/16: there the
  code compares two octets where the comments name /24 networks, so it blocks public addresses
  too, and no documented address passes.
\<close>

theorem restricted_ipv4_exact:
  assumes "a \<le> 255" "b \<le> 255" "c \<le> 255" "d \<le> 255"
  shows "is_private_or_restricted_ip (dotted a b c d) \<longleftrightarrow>
    list_ex (in_cidr (ipv4_value a b c d)) documented_networks \<or>
    list_ex (in_cidr (ipv4_value a b c d)) widened_networks"
  using private_ip_dotted [OF assms] restricted_networks_split by simp

text \<open>The metadata address is blocked, a public resolver is not, and a public address of 192.0.0.0/16 is.\<close>

theorem restricted_ipv4_exact_witness:
  "is_private_or_restricted_ip (dotted 169 254 169 254) \<and> \<not> is_private_or_restricted_ip (dotted 8 8 8 8) \<and>
   is_private_or_restricted_ip (dotted 192 0 78 24) \<and> \<not> list_ex (in_cidr (ipv4_value 192 0 78 24)) documented_networks"
proof -
  have "list_ex (in_cidr (ipv4_value 169 254 169 254)) documented_networks"
    "\<not> list_ex (in_cidr (ipv4_value 8 8 8 8)) documented_networks"
    "\<not> list_ex (in_cidr (ipv4_value 8 8 8 8)) widened_networks"
    "\<not> list_ex (in_cidr (ipv4_value 192 0 78 24)) documented_networks"
    "list_ex (in_cidr (ipv4_value 192 0 78 24)) widened_networks" by code_simp+
  with restricted_ipv4_exact [of 169 254 169 254] restricted_ipv4_exact [of 8 8 8 8] restricted_ipv4_exact [of 192 0 78 24]
  show ?thesis by simp
qed

text \<open>
  what the webhook test endpoint lets through: a target is accepted if and only if its URL
  parses with scheme http or https, its host is on the allowlist, and every address the request
  could reach (the literal itself, or each address DNS returned, at least one) is outside the
  restricted ranges.
\<close>

theorem webhook_test_target_exact:
  "validate_webhook_test_target parse_url dns url hosts = Inr () \<longleftrightarrow>
    (\<exists>u. parse_url url = Some u \<and> u_protocol u \<in> {''http:'', ''https:''} \<and>
      is_host_allowed (u_hostname u) hosts \<and>
      (if net_is_ip (u_hostname u) \<noteq> 0 then \<not> is_private_or_restricted_ip (u_hostname u)
       else \<exists>ips. dns (u_hostname u) = Inr ips \<and> ips \<noteq> [] \<and>
         list_all (\<lambda>ip. \<not> is_private_or_restricted_ip ip) ips))"
  by (auto simp: list_all_iff validate_webhook_test_target_def Let_def find_None_iff dest: find_SomeD
      split: option.splits sum.splits if_splits)

end
