(* ===== verification/Transitions.thy ===== *)
theory Transitions
  imports Prelude
begin

section \<open>Status state machines (\<open>shared/validation/schemas.ts\<close>)\<close>

text \<open>
  The transition tables of payments and settlements, the lookup
  \<open>isValidTransition\<close> and the settlement engine's \<open>validateTransition\<close>. A status is the
  string the program stores.
\<close>

type_synonym transition_table = "(string, string list) jsmap"

definition payment_status_transitions :: transition_table where
  "payment_status_transitions =
     [(''initiated'', [''completed'', ''failed'', ''cancelled'']),
      (''completed'', []), (''failed'', []), (''cancelled'', [])]"

definition settlement_status_transitions :: transition_table where
  "settlement_status_transitions =
     [(''pending'', [''processing'', ''failed'']),
      (''processing'', [''completed'', ''failed'']),
      (''completed'', []), (''failed'', [])]"

text \<open>\<open>const allowed = transitions[from] ?? []; return allowed.includes(to)\<close>\<close>

definition is_valid_transition :: "transition_table \<Rightarrow> string \<Rightarrow> string \<Rightarrow> bool" where
  "is_valid_transition transitions from to =
     (let allowed = (case map_of transitions from of None \<Rightarrow> [] | Some ss \<Rightarrow> ss)
      in to \<in> set allowed)"

datatype transition_error = InvalidTransition string string

definition validate_transition :: "string \<Rightarrow> string \<Rightarrow> (transition_error, unit) result" where
  "validate_transition current nxt =
     (if current = nxt then return_ok ()
      else if \<not> is_valid_transition settlement_status_transitions current nxt
      then throw (InvalidTransition current nxt)
      else return_ok ())"

subsection \<open>The step relation of a table\<close>

text \<open>
  A status history moves by valid transitions; writing the current status again is accepted
  and changes nothing.
\<close>

inductive status_step :: "transition_table \<Rightarrow> string \<Rightarrow> string \<Rightarrow> bool"
  for T :: transition_table where
  stay: "status_step T s s"
| move: "is_valid_transition T s t \<Longrightarrow> status_step T s t"

inductive status_reach :: "transition_table \<Rightarrow> string \<Rightarrow> string \<Rightarrow> bool"
  for T :: transition_table where
  refl: "status_reach T s s"
| step: "status_reach T s t \<Longrightarrow> status_step T t u \<Longrightarrow> status_reach T s u"

inductive_cases status_step_from: "status_step T s t"

definition terminal :: "transition_table \<Rightarrow> string \<Rightarrow> bool" where
  "terminal T s \<longleftrightarrow> (\<forall>t. \<not> is_valid_transition T s t)"

lemma settlement_transitions:
  "is_valid_transition settlement_status_transitions s t \<longleftrightarrow>
     (s = ''pending'' \<and> (t = ''processing'' \<or> t = ''failed'')) \<or>
     (s = ''processing'' \<and> (t = ''completed'' \<or> t = ''failed''))"
  by (auto simp: is_valid_transition_def settlement_status_transitions_def)

lemma payment_transitions:
  "is_valid_transition payment_status_transitions s t \<longleftrightarrow>
     s = ''initiated'' \<and> (t = ''completed'' \<or> t = ''failed'' \<or> t = ''cancelled'')"
  by (auto simp: is_valid_transition_def payment_status_transitions_def)

lemma validate_transition_ok_iff:
  "validate_transition s t = Inr () \<longleftrightarrow> status_step settlement_status_transitions s t"
  by (auto simp: validate_transition_def intro: status_step.intros elim: status_step_from)

lemma validate_transition_cases:
  "validate_transition s t = (if s = t \<or> is_valid_transition settlement_status_transitions s t
     then Inr () else Inl (InvalidTransition s t))"
  by (simp add: validate_transition_def)

lemma terminal_settlement: "terminal settlement_status_transitions s \<longleftrightarrow> s \<noteq> ''pending'' \<and> s \<noteq> ''processing''"
  by (auto simp: terminal_def settlement_transitions)

lemma terminal_payment: "terminal payment_status_transitions s \<longleftrightarrow> s \<noteq> ''initiated''"
  by (auto simp: terminal_def payment_transitions)

lemma terminal_reach: "status_reach T s t \<Longrightarrow> terminal T s \<Longrightarrow> t = s"
  by (induction rule: status_reach.induct) (auto simp: terminal_def elim: status_step_from)

subsection \<open>Histories\<close>

text \<open>The statuses of one settlement in the order written, each write accepted.\<close>

fun accepted_history :: "string list \<Rightarrow> bool" where
  "accepted_history (s # t # h) \<longleftrightarrow>
     validate_transition s t = Inr () \<and> accepted_history (t # h)"
| "accepted_history _ = True"

lemma accepted_history_tl: "accepted_history (s # h) \<Longrightarrow> accepted_history h"
  by (cases h) auto

lemma accepted_history_drop: "accepted_history h \<Longrightarrow> accepted_history (drop i h)"
proof (induction i arbitrary: h)
  case 0
  then show ?case by simp
next
  case (Suc i)
  then show ?case by (cases h) (auto dest: accepted_history_tl)
qed

lemma history_step:
  "accepted_history (s # t # h) \<Longrightarrow> t = s \<or> is_valid_transition settlement_status_transitions s t"
  by (auto simp: validate_transition_cases split: if_splits)

lemma history_terminal:
  "accepted_history (s # h) \<Longrightarrow> terminal settlement_status_transitions s \<Longrightarrow> set h \<subseteq> {s}"
proof (induction h)
  case Nil
  then show ?case by simp
next
  case (Cons t h)
  then have "t = s" using history_step [of s t h] by (auto simp: terminal_def)
  with Cons show ?case by auto
qed

lemma remdups_adj_const: "set h \<subseteq> {s} \<Longrightarrow> remdups_adj (s # h) = [s]"
  by (induction h) auto

lemma history_terminal_length:
  "accepted_history (s # h) \<Longrightarrow> terminal settlement_status_transitions s \<Longrightarrow>
   remdups_adj (s # h) = [s]"
  by (intro remdups_adj_const history_terminal)

lemma history_processing_length:
  "accepted_history (''processing'' # h) \<Longrightarrow> length (remdups_adj (''processing'' # h)) \<le> 2"
proof (induction h)
  case Nil
  then show ?case by simp
next
  case (Cons t h)
  have tl: "accepted_history (t # h)" by (rule accepted_history_tl [OF Cons.prems])
  show ?case
  proof (cases "t = ''processing''")
    case True
    with Cons tl show ?thesis by simp
  next
    case False
    then have "terminal settlement_status_transitions t"
      using history_step [OF Cons.prems] by (auto simp: settlement_transitions terminal_settlement)
    from history_terminal_length [OF tl this] False show ?thesis by auto
  qed
qed

lemma history_pending_length:
  "accepted_history (''pending'' # h) \<Longrightarrow> length (remdups_adj (''pending'' # h)) \<le> 3"
proof (induction h)
  case Nil
  then show ?case by simp
next
  case (Cons t h)
  have tl: "accepted_history (t # h)" by (rule accepted_history_tl [OF Cons.prems])
  have "t = ''pending'' \<or> t = ''processing'' \<or> t = ''failed''"
    using history_step [OF Cons.prems] by (auto simp: settlement_transitions)
  then show ?case
  proof (elim disjE)
    assume "t = ''pending''"
    with Cons tl show ?case by simp
  next
    assume "t = ''processing''"
    with history_processing_length tl show ?case by fastforce
  next
    assume t: "t = ''failed''"
    then have "terminal settlement_status_transitions t" by (simp add: terminal_settlement)
    from history_terminal_length [OF tl this] t show ?case by simp
  qed
qed

lemma history_completed:
  "accepted_history (''pending'' # h) \<Longrightarrow> ''completed'' \<in> set h \<Longrightarrow> ''processing'' \<in> set h"
proof (induction h)
  case Nil
  then show ?case by simp
next
  case (Cons t h)
  have tl: "accepted_history (t # h)" by (rule accepted_history_tl [OF Cons.prems(1)])
  have "t = ''pending'' \<or> t = ''processing'' \<or> t = ''failed''"
    using history_step [OF Cons.prems(1)] by (auto simp: settlement_transitions)
  then show ?case
    using Cons tl history_terminal [OF tl] by (auto simp: terminal_settlement)
qed

text \<open>
  C2: along any sequence of status writes the settlement engine accepts, starting from
  \<open>pending\<close>: the status changes at most twice, \<open>completed\<close> occurs only after
  \<open>processing\<close>, and a \<open>completed\<close> or \<open>failed\<close> settlement keeps its status for ever.
\<close>

theorem settlement_history_sound:
  assumes "accepted_history (''pending'' # h)"
  shows "length (remdups_adj (''pending'' # h)) \<le> 3 \<and>
    (''completed'' \<in> set h \<longrightarrow> ''processing'' \<in> set h) \<and>
    (\<forall>i j. i \<le> j \<longrightarrow> j < length h \<longrightarrow> h ! i \<in> {''completed'', ''failed''} \<longrightarrow> h ! j = h ! i)"
proof -
  have "h ! j = h ! i"
    if "i \<le> j" "j < length h" "h ! i \<in> {''completed'', ''failed''}" for i j
  proof -
    have d: "drop i h = h ! i # drop (Suc i) h" using that by (simp add: Cons_nth_drop_Suc)
    have "accepted_history (h ! i # drop (Suc i) h)"
      unfolding d [symmetric] by (rule accepted_history_drop [OF accepted_history_tl [OF assms]])
    moreover have "terminal settlement_status_transitions (h ! i)"
      using that(3) by (auto simp: terminal_settlement)
    ultimately have sub: "set (drop (Suc i) h) \<subseteq> {h ! i}" by (rule history_terminal)
    have "h ! j = drop i h ! (j - i)" using that by simp
    then have "h ! j \<in> insert (h ! i) (set (drop (Suc i) h))"
      using that nth_mem [of "j - i" "drop i h"] by (simp add: d)
    with sub show ?thesis by auto
  qed
  then show ?thesis
    using history_pending_length [OF assms] history_completed [OF assms] by blast
qed

theorem settlement_history_sound_witness:
  "accepted_history [''pending'', ''processing'', ''processing'', ''completed''] \<and>
   length (remdups_adj [''pending'', ''processing'', ''processing'', ''completed'']) \<le> 3"
proof -
  have h: "accepted_history [''pending'', ''processing'', ''processing'', ''completed'']"
    by code_simp
  show ?thesis using h settlement_history_sound [OF h] by blast
qed

text \<open>
  C7: a payment status that has left \<open>initiated\<close> admits no further transition, and from
  \<open>initiated\<close> exactly the three terminal statuses are accepted.
\<close>

theorem payment_transition_exact:
  "is_valid_transition payment_status_transitions s t =
     (s = ''initiated'' \<and> t \<in> {''completed'', ''failed'', ''cancelled''})"
  by (auto simp: payment_transitions)

end
