(* ===== verification/BigNum.thy ===== *)
theory BigNum
  imports Decimal
begin

section \<open>The decimal arithmetic library\<close>

text \<open>
  All monetary arithmetic goes through the package \<open>bignumber.js\<close>, which is not part of
  the repository. It is a parameter of the model: \<open>'n bignum_ops\<close> is the record of the
  functions the sources call, and the locale \<open>bignumber\<close> states their documented
  behaviour under the one configuration the program sets
  (\<open>ROUNDING_MODE: ROUND_DOWN\<close>, with the default \<open>DECIMAL_PLACES: 20\<close>). \<open>val\<close> is the
  rational a value stands for, \<open>None\<close> for \<open>NaN\<close> and the infinities. A reference
  implementation over scaled integers closes the theory and interprets the locale.
\<close>

record 'n bignum_ops =
  bn_parse :: "string \<Rightarrow> 'n"          \<comment> \<open>\<open>new BigNumber(s)\<close>\<close>
  bn_number :: "rat \<Rightarrow> 'n"            \<comment> \<open>\<open>new BigNumber(n)\<close> for a JavaScript number\<close>
  bn_plus :: "'n \<Rightarrow> 'n \<Rightarrow> 'n"
  bn_minus :: "'n \<Rightarrow> 'n \<Rightarrow> 'n"
  bn_times :: "'n \<Rightarrow> 'n \<Rightarrow> 'n"
  bn_div :: "'n \<Rightarrow> 'n \<Rightarrow> 'n"
  bn_pow :: "'n \<Rightarrow> nat \<Rightarrow> 'n"
  bn_abs :: "'n \<Rightarrow> 'n"
  bn_trunc :: "'n \<Rightarrow> 'n"              \<comment> \<open>\<open>integerValue(ROUND_DOWN)\<close>\<close>
  bn_is_finite :: "'n \<Rightarrow> bool"
  bn_eq :: "'n \<Rightarrow> 'n \<Rightarrow> bool"
  bn_less :: "'n \<Rightarrow> 'n \<Rightarrow> bool"
  bn_to_fixed :: "'n \<Rightarrow> nat \<Rightarrow> string"
  bn_to_string :: "'n \<Rightarrow> string"

abbreviation bn_zero :: "'n bignum_ops \<Rightarrow> 'n" where
  "bn_zero B \<equiv> bn_number B 0"

abbreviation bn_greater :: "'n bignum_ops \<Rightarrow> 'n \<Rightarrow> 'n \<Rightarrow> bool" where
  "bn_greater B a b \<equiv> bn_less B b a"

definition bn_le :: "'n bignum_ops \<Rightarrow> 'n \<Rightarrow> 'n \<Rightarrow> bool" where
  "bn_le B a b \<longleftrightarrow> bn_less B a b \<or> bn_eq B a b"

text \<open>Rounding towards zero at \<open>d\<close> decimal places.\<close>

definition round_down :: "nat \<Rightarrow> rat \<Rightarrow> rat" where
  "round_down d x =
     (if 0 \<le> x then of_int \<lfloor>x * 10 ^ d\<rfloor> else - of_int \<lfloor>- x * 10 ^ d\<rfloor>) / 10 ^ d"

lemma round_down_nonneg [simp]: "0 \<le> x \<Longrightarrow> 0 \<le> round_down d x"
  by (simp add: round_down_def)

lemma round_down_le: "0 \<le> x \<Longrightarrow> round_down d x \<le> x"
  by (simp add: round_down_def divide_le_eq)

locale bignumber =
  fixes B :: "'n bignum_ops"
    and val :: "'n \<Rightarrow> rat option"
  assumes val_parse: "is_amount s \<Longrightarrow> val (bn_parse B s) = Some (dec_val s)"
    and val_number: "\<bar>i\<bar> \<le> 2 ^ 53 \<Longrightarrow> val (bn_number B (of_int i)) = Some (of_int i)"
    and val_plus: "val a = Some x \<Longrightarrow> val b = Some y \<Longrightarrow> val (bn_plus B a b) = Some (x + y)"
    and val_minus: "val a = Some x \<Longrightarrow> val b = Some y \<Longrightarrow> val (bn_minus B a b) = Some (x - y)"
    and val_times: "val a = Some x \<Longrightarrow> val b = Some y \<Longrightarrow> val (bn_times B a b) = Some (x * y)"
    and val_div: "val a = Some x \<Longrightarrow> val b = Some y \<Longrightarrow> y \<noteq> 0 \<Longrightarrow>
      val (bn_div B a b) = Some (round_down 20 (x / y))"
    and val_pow: "val a = Some x \<Longrightarrow> val (bn_pow B a k) = Some (x ^ k)"
    and val_abs: "val a = Some x \<Longrightarrow> val (bn_abs B a) = Some \<bar>x\<bar>"
    and val_trunc: "val a = Some x \<Longrightarrow> val (bn_trunc B a) = Some (round_down 0 x)"
    and finite_iff: "bn_is_finite B a \<longleftrightarrow> val a \<noteq> None"
    and eq_iff: "val a = Some x \<Longrightarrow> val b = Some y \<Longrightarrow> bn_eq B a b \<longleftrightarrow> x = y"
    and less_iff: "val a = Some x \<Longrightarrow> val b = Some y \<Longrightarrow> bn_less B a b \<longleftrightarrow> x < y"
    and to_fixed: "val a = Some x \<Longrightarrow> 0 \<le> x \<Longrightarrow>
      bn_to_fixed B a d = fixed_string d (nat \<lfloor>x * 10 ^ d\<rfloor>)"
    and parse_to_string: "val a \<noteq> None \<Longrightarrow> val (bn_parse B (bn_to_string B a)) = val a"
begin

lemma val_small_nat: "n \<le> 2 ^ 53 \<Longrightarrow> val (bn_number B (of_nat n)) = Some (of_nat n)"
  using val_number [of "int n"] by simp

lemma val_zero [simp]: "val (bn_number B 0) = Some 0"
  using val_number [of 0] by simp

lemma val_numeral: "numeral k \<le> (2::int) ^ 53 \<Longrightarrow> val (bn_number B (numeral k)) = Some (numeral k)"
  using val_number [of "numeral k"] by simp

lemma le_iff: "val a = Some x \<Longrightarrow> val b = Some y \<Longrightarrow> bn_le B a b \<longleftrightarrow> x \<le> y"
  by (auto simp: bn_le_def eq_iff less_iff)

lemma val_fixed_string [simp]: "val (bn_parse B (fixed_string d n)) = Some (of_nat n / 10 ^ d)"
  by (simp add: val_parse)

text \<open>A sum over a list, as the reductions of the sources compute it.\<close>

lemma val_fold_plus:
  assumes "\<And>r. r \<in> set rs \<Longrightarrow> val (f r) = Some (g r)" "val z = Some z'"
  shows "val (fold (\<lambda>r acc. bn_plus B acc (f r)) rs z) = Some (z' + sum_list (map g rs))"
  using assms
proof (induction rs arbitrary: z z')
  case Nil
  then show ?case by simp
next
  case (Cons r rs)
  then have "val (bn_plus B z (f r)) = Some (z' + g r)" by (simp add: val_plus)
  with Cons show ?case by (simp add: add.assoc)
qed

end

subsection \<open>A reference implementation: scaled integers\<close>

text \<open>
  A value is a coefficient and a scale, \<open>c / 10 ^ k\<close>, or \<open>None\<close> for \<open>NaN\<close>. It is
  the representation \<open>bignumber.js\<close> documents (a decimal coefficient and an exponent),
  without the infinities.
\<close>

type_synonym dec = "(int \<times> nat) option"

fun dec_value :: "dec \<Rightarrow> rat option" where
  "dec_value None = None"
| "dec_value (Some (c, k)) = Some (of_int c / 10 ^ k)"

definition dec_unsigned :: "string \<Rightarrow> dec" where
  "dec_unsigned s = (if is_amount s then Some (int (dec_scaled s), dec_places s) else None)"

definition dec_neg :: "dec \<Rightarrow> dec" where
  "dec_neg = map_option (\<lambda>(c, k). (- c, k))"

definition dec_parse :: "string \<Rightarrow> dec" where
  "dec_parse s =
     (case s of [] \<Rightarrow> None
      | x # t \<Rightarrow> if x = CHR ''-'' then dec_neg (dec_unsigned t) else dec_unsigned s)"

definition dec_of_rat :: "nat \<Rightarrow> rat \<Rightarrow> dec" where
  "dec_of_rat d x = Some (if 0 \<le> x then \<lfloor>x * 10 ^ d\<rfloor> else - \<lfloor>- x * 10 ^ d\<rfloor>, d)"

definition dec_lift1 :: "(int \<times> nat \<Rightarrow> dec) \<Rightarrow> dec \<Rightarrow> dec" where
  "dec_lift1 f a = (case a of None \<Rightarrow> None | Some p \<Rightarrow> f p)"

definition dec_lift2 :: "(int \<times> nat \<Rightarrow> int \<times> nat \<Rightarrow> dec) \<Rightarrow> dec \<Rightarrow> dec \<Rightarrow> dec" where
  "dec_lift2 f a b = (case (a, b) of (Some p, Some q) \<Rightarrow> f p q | _ \<Rightarrow> None)"

definition dec_cmp :: "(rat \<Rightarrow> rat \<Rightarrow> bool) \<Rightarrow> dec \<Rightarrow> dec \<Rightarrow> bool" where
  "dec_cmp R a b = (case (dec_value a, dec_value b) of (Some x, Some y) \<Rightarrow> R x y | _ \<Rightarrow> False)"

definition dec_signed :: "(nat \<Rightarrow> string) \<Rightarrow> int \<Rightarrow> string" where
  "dec_signed f c = (if c < 0 then CHR ''-'' # f (nat (- c)) else f (nat c))"

definition dec_to_fixed :: "dec \<Rightarrow> nat \<Rightarrow> string" where
  "dec_to_fixed a d =
     (case dec_value a of None \<Rightarrow> ''NaN''
      | Some x \<Rightarrow> dec_signed (fixed_string d)
          (if 0 \<le> x then \<lfloor>x * 10 ^ d\<rfloor> else - \<lfloor>- x * 10 ^ d\<rfloor>))"

definition dec_to_string :: "dec \<Rightarrow> string" where
  "dec_to_string a = (case a of None \<Rightarrow> ''NaN'' | Some (c, k) \<Rightarrow> dec_signed (fixed_string k) c)"

definition dec_ops :: "dec bignum_ops" where
  "dec_ops =
     \<lparr>bn_parse = dec_parse,
      bn_number = dec_of_rat 20,
      bn_plus = dec_lift2 (\<lambda>(c, k) (e, l). Some (c * 10 ^ l + e * 10 ^ k, k + l)),
      bn_minus = dec_lift2 (\<lambda>(c, k) (e, l). Some (c * 10 ^ l - e * 10 ^ k, k + l)),
      bn_times = dec_lift2 (\<lambda>(c, k) (e, l). Some (c * e, k + l)),
      bn_div = dec_lift2 (\<lambda>(c, k) (e, l).
        if e = 0 then None else dec_of_rat 20 ((of_int c / 10 ^ k) / (of_int e / 10 ^ l))),
      bn_pow = (\<lambda>a n. dec_lift1 (\<lambda>(c, k). Some (c ^ n, k * n)) a),
      bn_abs = dec_lift1 (\<lambda>(c, k). Some (\<bar>c\<bar>, k)),
      bn_trunc = dec_lift1 (\<lambda>(c, k). dec_of_rat 0 (of_int c / 10 ^ k)),
      bn_is_finite = (\<lambda>a. a \<noteq> None),
      bn_eq = dec_cmp (=),
      bn_less = dec_cmp (<),
      bn_to_fixed = dec_to_fixed,
      bn_to_string = dec_to_string\<rparr>"

lemma dec_value_eq_Some_iff:
  "dec_value a = Some x \<longleftrightarrow> (\<exists>c k. a = Some (c, k) \<and> x = of_int c / 10 ^ k)"
  by (cases a rule: dec_value.cases) auto

lemma dec_value_of_rat [simp]: "dec_value (dec_of_rat d x) = Some (round_down d x)"
  by (simp add: dec_of_rat_def round_down_def)

lemma dec_value_unsigned [simp]:
  "is_amount s \<Longrightarrow> dec_value (dec_unsigned s) = Some (dec_val s)"
  by (simp add: dec_unsigned_def dec_val_def)

lemma dec_value_neg [simp]: "dec_value (dec_neg a) = map_option uminus (dec_value a)"
  by (cases a rule: dec_value.cases) (auto simp: dec_neg_def)

lemma is_amount_hd: "is_amount s \<Longrightarrow> \<exists>c t. s = c # t \<and> is_digit c"
  by (erule is_amountE) (auto simp: is_numeral_def neq_Nil_conv)

lemma dec_value_parse [simp]: "is_amount s \<Longrightarrow> dec_value (dec_parse s) = Some (dec_val s)"
proof -
  assume s: "is_amount s"
  then obtain c t where "s = c # t" "is_digit c" using is_amount_hd by blast
  moreover from this have "c \<noteq> CHR ''-''" by (auto simp: is_digit_def char_code_def)
  ultimately have "dec_parse s = dec_unsigned s" by (simp add: dec_parse_def)
  with s show ?thesis by simp
qed

lemma dec_parse_signed:
  "dec_value (dec_parse (dec_signed (fixed_string k) c)) = Some (of_int c / 10 ^ k)"
  by (cases "c < 0") (simp_all add: dec_signed_def, simp add: dec_parse_def)

lemma round_down_int [simp]: "round_down d (of_int i) = of_int i"
proof -
  have "\<lfloor>of_int i * (10::rat) ^ d\<rfloor> = i * 10 ^ d" for i :: int
    using floor_of_int [of "i * 10 ^ d", where ?'a = rat] by simp
  from this [of i] this [of "- i"] show ?thesis
    by (simp add: round_down_def)
qed

interpretation dec: bignumber dec_ops dec_value
proof unfold_locales
  fix a b :: dec and x y :: rat
  assume "dec_value a = Some x" "dec_value b = Some y"
  then obtain c k e l where
    ab: "a = Some (c, k)" "b = Some (e, l)" "x = of_int c / 10 ^ k" "y = of_int e / 10 ^ l"
    by (auto simp: dec_value_eq_Some_iff)
  show "dec_value (bn_plus dec_ops a b) = Some (x + y)"
    "dec_value (bn_minus dec_ops a b) = Some (x - y)"
    "dec_value (bn_times dec_ops a b) = Some (x * y)"
    by (simp_all add: ab dec_ops_def dec_lift2_def field_simps power_add)
  show "y \<noteq> 0 \<Longrightarrow> dec_value (bn_div dec_ops a b) = Some (round_down 20 (x / y))"
    by (simp add: ab dec_ops_def dec_lift2_def)
  show "bn_eq dec_ops a b \<longleftrightarrow> x = y" "bn_less dec_ops a b \<longleftrightarrow> x < y"
    by (simp_all add: ab dec_ops_def dec_cmp_def)
next
  fix a :: dec and x :: rat and n :: nat
  assume v: "dec_value a = Some x"
  then obtain c k where a: "a = Some (c, k)" "x = of_int c / 10 ^ k"
    by (auto simp: dec_value_eq_Some_iff)
  show "dec_value (bn_pow dec_ops a n) = Some (x ^ n)"
    by (simp add: a dec_ops_def dec_lift1_def power_divide power_mult)
  show "dec_value (bn_abs dec_ops a) = Some \<bar>x\<bar>"
    "dec_value (bn_trunc dec_ops a) = Some (round_down 0 x)"
    by (simp_all add: a dec_ops_def dec_lift1_def)
  show "0 \<le> x \<Longrightarrow> bn_to_fixed dec_ops a n = fixed_string n (nat \<lfloor>x * 10 ^ n\<rfloor>)"
  proof -
    assume "0 \<le> x"
    then have "\<not> \<lfloor>x * 10 ^ n\<rfloor> < 0" by (simp add: not_less)
    with v \<open>0 \<le> x\<close> show ?thesis
      by (simp add: dec_ops_def dec_to_fixed_def dec_signed_def del: floor_less_zero)
  qed
next
  fix a :: dec
  show "bn_is_finite dec_ops a \<longleftrightarrow> dec_value a \<noteq> None"
    by (cases a rule: dec_value.cases) (simp_all add: dec_ops_def)
  assume "dec_value a \<noteq> None"
  then obtain c k where a: "a = Some (c, k)" by (cases a rule: dec_value.cases) auto
  then show "dec_value (bn_parse dec_ops (bn_to_string dec_ops a)) = dec_value a"
    by (simp add: dec_ops_def dec_to_string_def dec_parse_signed)
qed (simp_all add: dec_ops_def)

end
