(* ===== verification/SettlementAmounts.thy ===== *)
theory SettlementAmounts
  imports BigNum
begin

section \<open>Fee and net amounts (\<open>settlement-amounts.ts\<close>, \<open>settlement-properties.ts\<close>)\<close>

text \<open>
  The pure arithmetic of a settlement: the discount of a merchant's monthly volume, the
  effective fee, fee and net amount at the precision of the input, the audit snapshot and
  its schema, the runtime invariant check, and the per-asset fee schedule. JavaScript
  numbers (basis points, volumes) are rationals: the integers that occur are exact, and the
  rounding of a double subtraction of two non-integers is not modelled.
\<close>

subsection \<open>Assets\<close>

datatype rounding_mode = RoundDown | RoundHalfUp | RoundUp

record asset_precision_config =
  asset_code :: string
  decimals :: nat
  rounding_mode :: rounding_mode

definition asset_precision_mappings :: "(string, asset_precision_config) jsmap" where
  "asset_precision_mappings =
     [(''USDC'', \<lparr>asset_code = ''USDC'', decimals = 7, rounding_mode = RoundDown\<rparr>),
      (''EURT'', \<lparr>asset_code = ''EURT'', decimals = 6, rounding_mode = RoundDown\<rparr>),
      (''XLM'', \<lparr>asset_code = ''XLM'', decimals = 7, rounding_mode = RoundDown\<rparr>),
      (''NGN'', \<lparr>asset_code = ''NGN'', decimals = 2, rounding_mode = RoundDown\<rparr>)]"

definition get_asset_precision :: "string \<Rightarrow> asset_precision_config" where
  "get_asset_precision asset =
     (let normalized = to_upper asset in
      case map_of asset_precision_mappings normalized of
        Some c \<Rightarrow> c
      | None \<Rightarrow> \<lparr>asset_code = normalized, decimals = 2, rounding_mode = RoundDown\<rparr>)"

definition is_supported_asset :: "string \<Rightarrow> bool" where
  "is_supported_asset asset = js_has (to_upper asset) asset_precision_mappings"

definition max_settlement_base_units :: string where
  "max_settlement_base_units = ''100000000''"

definition max_settlement_amount :: string where
  "max_settlement_amount = ''1000000000000000''"

definition get_max_settlement_amount_for_asset :: "'n bignum_ops \<Rightarrow> string option \<Rightarrow> string" where
  "get_max_settlement_amount_for_asset B asset =
     (case asset of
        None \<Rightarrow> max_settlement_amount
      | Some a \<Rightarrow>
          if a = [] then max_settlement_amount
          else (case map_of asset_precision_mappings (to_upper a) of
                  None \<Rightarrow> max_settlement_amount
                | Some config \<Rightarrow>
                    bn_to_fixed B
                      (bn_times B (bn_parse B max_settlement_base_units)
                        (bn_pow B (bn_number B 10) (decimals config))) 0))"

subsection \<open>Volume discounts\<close>

record discount_tier =
  volume_usd :: rat
  discount_bps :: rat

definition sort_tiers_desc :: "discount_tier list \<Rightarrow> discount_tier list" where
  "sort_tiers_desc = sort_key (\<lambda>t. - volume_usd t)"

definition resolve_volume_discount :: "rat \<Rightarrow> discount_tier list \<Rightarrow> rat" where
  "resolve_volume_discount monthly_volume tiers =
     (if tiers = [] \<or> monthly_volume \<le> 0 then 0
      else (case find (\<lambda>t. volume_usd t \<le> monthly_volume) (sort_tiers_desc tiers) of
              Some tier \<Rightarrow> discount_bps tier
            | None \<Rightarrow> 0))"

subsection \<open>The fee snapshot and its schema\<close>

record fee_snapshot =
  fee_bps_applied :: rat
  max_fee_bps_applied :: rat
  discount_applied :: rat
  monthly_volume_at_time :: rat
  fee_version :: string

definition fee_version_constant :: string where
  "fee_version_constant = ''1.0''"

text \<open>\<open>z.number().int().min(0).max(10000)\<close>\<close>

definition bps_ok :: "rat \<Rightarrow> bool" where
  "bps_ok x \<longleftrightarrow> of_int \<lfloor>x\<rfloor> = x \<and> 0 \<le> x \<and> x \<le> 10000"

definition fee_snapshot_ok :: "fee_snapshot \<Rightarrow> bool" where
  "fee_snapshot_ok s \<longleftrightarrow>
     bps_ok (fee_bps_applied s) \<and> bps_ok (max_fee_bps_applied s) \<and> bps_ok (discount_applied s) \<and>
     0 \<le> monthly_volume_at_time s \<and> fee_version s \<noteq> []"

subsection \<open>The invariant check\<close>

datatype invariant_violation = NotFinite | FeePlusNet | NegativeFee | NetAboveGross | FeeBpsRange

datatype amount_error =
    AmountExceedsMax string string "string option"  \<comment> \<open>\<open>SettlementAmountError\<close>\<close>
  | InvalidFeeSnapshot                              \<comment> \<open>\<open>SettlementAmountError\<close>\<close>
  | InvariantViolated invariant_violation           \<comment> \<open>\<open>Error\<close>\<close>

text \<open>The errors a route turns into a 422: the instances of \<open>SettlementAmountError\<close>.\<close>

fun is_settlement_amount_error :: "amount_error \<Rightarrow> bool" where
  "is_settlement_amount_error (InvariantViolated _) = False"
| "is_settlement_amount_error _ = True"

definition assert_settlement_invariants ::
    "'n bignum_ops \<Rightarrow> string \<Rightarrow> string \<Rightarrow> string \<Rightarrow> rat option \<Rightarrow> (amount_error, unit) result" where
  "assert_settlement_invariants B gross_amount fee_amount net_amount fee_bps =
     (let gross = bn_parse B gross_amount;
          fee = bn_parse B fee_amount;
          net = bn_parse B net_amount
      in if \<not> bn_is_finite B gross \<or> \<not> bn_is_finite B fee \<or> \<not> bn_is_finite B net
         then throw (InvariantViolated NotFinite)
         else if \<not> bn_eq B (bn_plus B fee net) gross then throw (InvariantViolated FeePlusNet)
         else if bn_less B fee (bn_zero B) then throw (InvariantViolated NegativeFee)
         else if bn_greater B net gross then throw (InvariantViolated NetAboveGross)
         else (case fee_bps of
                 None \<Rightarrow> return_ok ()
               | Some bps \<Rightarrow>
                   if bps < 0 \<or> 10000 < bps then throw (InvariantViolated FeeBpsRange)
                   else return_ok ()))"

subsection \<open>The computation\<close>

record settlement_amounts =
  gross_of :: string
  fee_of :: string
  net_of :: string
  snapshot_of :: fee_snapshot

definition compute_settlement_amounts ::
    "'n bignum_ops \<Rightarrow> string \<Rightarrow> rat \<Rightarrow> rat \<Rightarrow> discount_tier list \<Rightarrow> string option \<Rightarrow>
      (amount_error, settlement_amounts) result" where
  "compute_settlement_amounts B gross_amount_str fee_bps monthly_volume discount_tiers asset =
     (let gross = bn_parse B gross_amount_str;
          effective_max = get_max_settlement_amount_for_asset B asset
      in if bn_greater B gross (bn_parse B effective_max)
         then throw (AmountExceedsMax gross_amount_str effective_max asset)
         else
           let discount = min (resolve_volume_discount monthly_volume discount_tiers) fee_bps;
               effective_fee_bps = max 0 (fee_bps - discount);
               fee = bn_div B (bn_times B gross (bn_number B effective_fee_bps)) (bn_number B 10000);
               input_decimals = dec_places gross_amount_str;
               fee_str = bn_to_fixed B fee input_decimals;
               net_str = bn_to_fixed B (bn_minus B gross (bn_parse B fee_str)) input_decimals;
               snap = \<lparr>fee_bps_applied = effective_fee_bps, max_fee_bps_applied = fee_bps,
                       discount_applied = discount, monthly_volume_at_time = monthly_volume,
                       fee_version = fee_version_constant\<rparr>
           in if \<not> fee_snapshot_ok snap then throw InvalidFeeSnapshot
              else result_bind
                (assert_settlement_invariants B gross_amount_str fee_str net_str (Some fee_bps))
                (\<lambda>_. return_ok \<lparr>gross_of = gross_amount_str, fee_of = fee_str, net_of = net_str,
                                snapshot_of = snap\<rparr>))"

record fee_schedule_item =
  sched_asset :: string
  sched_bps :: rat

definition resolve_fee_bps_for_asset ::
    "string \<Rightarrow> fee_schedule_item list option \<Rightarrow> rat \<Rightarrow> rat" where
  "resolve_fee_bps_for_asset asset fee_schedules default_bps =
     (case fee_schedules of
        None \<Rightarrow> default_bps
      | Some ss \<Rightarrow>
          if ss = [] then default_bps
          else (case find (\<lambda>s. sched_asset s = asset) ss of
                  Some s \<Rightarrow> sched_bps s
                | None \<Rightarrow> default_bps))"

definition compute_settlement_amounts_with_schedule ::
    "'n bignum_ops \<Rightarrow> string \<Rightarrow> string \<Rightarrow> fee_schedule_item list option \<Rightarrow> rat \<Rightarrow>
      (amount_error, settlement_amounts) result" where
  "compute_settlement_amounts_with_schedule B gross_amount_str asset fee_schedules default_bps =
     compute_settlement_amounts B gross_amount_str
       (resolve_fee_bps_for_asset asset fee_schedules default_bps) 0 [] (Some asset)"

subsection \<open>Lemmas: discounts\<close>

lemma set_sort_tiers [simp]: "set (sort_tiers_desc tiers) = set tiers"
  by (simp add: sort_tiers_desc_def)

lemma find_sorted_max:
  assumes "sorted (map (\<lambda>t. - f t) xs)" "find (\<lambda>t. f t \<le> (v::rat)) xs = Some t"
  shows "t \<in> set xs \<and> f t \<le> v \<and> (\<forall>t' \<in> set xs. f t' \<le> v \<longrightarrow> f t' \<le> f t)"
  using assms
proof (induction xs)
  case Nil
  then show ?case by simp
next
  case (Cons x xs)
  then show ?case by (cases "f x \<le> v") auto
qed

lemma resolve_volume_discount_cases:
  obtains "resolve_volume_discount v tiers = 0"
      "v \<le> 0 \<or> (\<forall>t \<in> set tiers. v < volume_usd t)"
    | t where "0 < v" "t \<in> set tiers" "volume_usd t \<le> v"
      "\<forall>t' \<in> set tiers. volume_usd t' \<le> v \<longrightarrow> volume_usd t' \<le> volume_usd t"
      "resolve_volume_discount v tiers = discount_bps t"
proof (cases "v \<le> 0 \<or> tiers = []")
  case True
  with that(1) show thesis by (auto simp: resolve_volume_discount_def)
next
  case False
  show thesis
  proof (cases "find (\<lambda>t. volume_usd t \<le> v) (sort_tiers_desc tiers)")
    case None
    with False that(1) show thesis
      by (auto simp: resolve_volume_discount_def find_None_iff not_le)
  next
    case (Some t)
    have "sorted (map (\<lambda>t. - volume_usd t) (sort_tiers_desc tiers))"
      by (simp add: sort_tiers_desc_def)
    from find_sorted_max [OF this Some] False Some that(2) [of t] show thesis
      by (auto simp: resolve_volume_discount_def)
  qed
qed

lemma resolve_volume_discount_nonneg:
  assumes "\<forall>t \<in> set tiers. 0 \<le> discount_bps t"
  shows "0 \<le> resolve_volume_discount v tiers"
  by (rule resolve_volume_discount_cases [of v tiers]) (use assms in auto)

lemma resolve_volume_discount_int:
  assumes "\<forall>t \<in> set tiers. discount_bps t \<in> \<int>"
  shows "resolve_volume_discount v tiers \<in> \<int>"
  by (rule resolve_volume_discount_cases [of v tiers]) (use assms in auto)

lemma bps_ok_iff: "bps_ok x \<longleftrightarrow> x \<in> \<int> \<and> 0 \<le> x \<and> x \<le> 10000"
proof -
  have "of_int \<lfloor>x\<rfloor> = x \<longleftrightarrow> x \<in> \<int>"
    using Ints_of_int [of "\<lfloor>x\<rfloor>", where ?'a = rat] by (metis Ints_cases floor_of_int)
  then show ?thesis unfolding bps_ok_def by blast
qed

lemma bps_okE: "bps_ok x \<Longrightarrow> \<exists>n. x = of_nat n \<and> n \<le> 10000"
proof -
  assume "bps_ok x"
  then obtain z where z: "x = of_int z" "0 \<le> z" "z \<le> 10000"
    by (auto simp: bps_ok_iff elim!: Ints_cases)
  then show ?thesis by (intro exI [of _ "nat z"]) simp
qed

text \<open>The clamp: discount and effective fee stay inside \<open>[0, feeBps]\<close>.\<close>

lemma effective_fee_bounds:
  assumes "0 \<le> d" "0 \<le> b"
  shows "0 \<le> max 0 (b - min d b) \<and> max 0 (b - min d b) \<le> (b::rat)"
    and "0 \<le> min d b \<and> min d b \<le> b" and "max 0 (b - min d b) + min d b = b"
  using assms by auto

subsection \<open>Lemmas: the computation over a lawful decimal library\<close>

definition max_settlement_value :: "string option \<Rightarrow> rat" where
  "max_settlement_value asset =
     (case asset of
        None \<Rightarrow> 10 ^ 15
      | Some a \<Rightarrow>
          (case map_of asset_precision_mappings (to_upper a) of
             None \<Rightarrow> 10 ^ 15
           | Some config \<Rightarrow> 10 ^ (8 + decimals config)))"

lemma legacy_max_amount:
  "is_amount max_settlement_amount" "dec_val max_settlement_amount = 10 ^ 15"
  "is_amount max_settlement_base_units" "dec_val max_settlement_base_units = 10 ^ 8"
  by (simp_all add: max_settlement_amount_def max_settlement_base_units_def is_amount_def
      is_numeral_def is_digit_def char_code_def dec_val_def dec_scaled_def dec_places_def
      dec_parts_def digit_val_def)

lemma no_empty_asset: "map_of asset_precision_mappings (to_upper []) = None"
  by (simp add: asset_precision_mappings_def to_upper_def)

text \<open>The fee in units of the last decimal place of the input.\<close>

definition fee_units :: "string \<Rightarrow> rat \<Rightarrow> nat" where
  "fee_units g e = nat \<lfloor>round_down 20 (dec_val g * e / 10000) * 10 ^ dec_places g\<rfloor>"

lemma fee_units_le:
  assumes "0 \<le> e" "e \<le> 10000"
  shows "of_nat (fee_units g e) \<le> dec_val g * e / 10000 * 10 ^ dec_places g"
    and "fee_units g e \<le> dec_scaled g"
proof -
  define x where "x = dec_val g * e / 10000"
  have x0: "0 \<le> x" using assms by (simp add: x_def)
  have "round_down 20 x * 10 ^ dec_places g \<le> x * 10 ^ dec_places g"
    by (intro mult_right_mono round_down_le x0) simp
  moreover have "0 \<le> round_down 20 x * 10 ^ dec_places g" using x0 by simp
  then have "(of_nat (fee_units g e) :: rat) \<le> round_down 20 x * 10 ^ dec_places g"
    by (simp add: fee_units_def x_def [symmetric])
  ultimately have le: "of_nat (fee_units g e) \<le> x * 10 ^ dec_places g" by linarith
  then show "of_nat (fee_units g e) \<le> dec_val g * e / 10000 * 10 ^ dec_places g"
    by (simp add: x_def)
  have "x \<le> dec_val g" using mult_left_mono [OF assms(2) dec_val_nonneg [of g]] by (simp add: x_def)
  then have "x * 10 ^ dec_places g \<le> of_nat (dec_scaled g)"
    by (simp flip: dec_val_scaled)
  with le have "(of_nat (fee_units g e) :: rat) \<le> of_nat (dec_scaled g)" by linarith
  then show "fee_units g e \<le> dec_scaled g" by (simp only: of_nat_le_iff)
qed

text \<open>Up to twenty input decimals the library's division limit is invisible.\<close>

lemma floor_div_int:
  assumes "0 < m"
  shows "\<lfloor>of_int \<lfloor>x * of_int m\<rfloor> / (of_int m :: rat)\<rfloor> = \<lfloor>x :: rat\<rfloor>"
proof (rule floor_unique)
  have "of_int \<lfloor>x\<rfloor> * of_int m \<le> x * of_int m"
    using assms by (intro mult_right_mono) auto
  then have "\<lfloor>x\<rfloor> * m \<le> \<lfloor>x * of_int m\<rfloor>" by (simp add: le_floor_iff)
  then have "(of_int (\<lfloor>x\<rfloor> * m) :: rat) \<le> of_int \<lfloor>x * of_int m\<rfloor>" by (simp only: of_int_le_iff)
  then show "of_int \<lfloor>x\<rfloor> \<le> of_int \<lfloor>x * of_int m\<rfloor> / (of_int m :: rat)"
    using assms by (simp add: le_divide_eq)
  have "x * of_int m < (of_int \<lfloor>x\<rfloor> + 1) * of_int m"
    using assms floor_correct [of x] by (intro mult_strict_right_mono) auto
  then have "of_int \<lfloor>x * of_int m\<rfloor> < (of_int \<lfloor>x\<rfloor> + 1) * (of_int m :: rat)"
    using of_int_floor_le [of "x * of_int m"] by (rule order_le_less_trans [rotated])
  then show "of_int \<lfloor>x * of_int m\<rfloor> / of_int m < of_int \<lfloor>x\<rfloor> + (1 :: rat)"
    using assms by (simp add: divide_less_eq)
qed

context bignumber
begin

lemma val_max_settlement:
  "val (bn_parse B (get_max_settlement_amount_for_asset B asset)) = Some (max_settlement_value asset)"
proof -
  have p: "val (bn_parse B max_settlement_amount) = Some (10 ^ 15)"
    "val (bn_parse B max_settlement_base_units) = Some (10 ^ 8)"
    using legacy_max_amount by (simp_all add: val_parse)
  have t: "val (bn_times B (bn_parse B max_settlement_base_units) (bn_pow B (bn_number B 10) k)) =
      Some (10 ^ (8 + k))" for k
    using p(2) val_numeral [of "num.Bit0 (num.Bit1 (num.Bit0 num.One))"]
    by (simp add: val_times val_pow power_add)
  have f: "bn_to_fixed B (bn_times B (bn_parse B max_settlement_base_units)
      (bn_pow B (bn_number B 10) k)) 0 = fixed_string 0 (10 ^ (8 + k))" for k
    by (subst to_fixed [OF t]) (simp_all add: floor_power nat_power_eq)
  show ?thesis
    using p(1) no_empty_asset
    by (auto simp: get_max_settlement_amount_for_asset_def max_settlement_value_def f
        simp del: power_Suc split: option.splits)
qed

text \<open>
  Fee and net strings are printed at the input's precision, and their values are the fee
  units and the rest.
\<close>

lemma fee_string:
  assumes "is_amount g" "bps_ok e"
  shows "bn_to_fixed B (bn_div B (bn_times B (bn_parse B g) (bn_number B e)) (bn_number B 10000))
    (dec_places g) = fixed_string (dec_places g) (fee_units g e)"
proof -
  obtain n where n: "e = of_nat n" "n \<le> 10000" using bps_okE [OF assms(2)] by blast
  have "val (bn_number B e) = Some e" using val_small_nat [of n] n by simp
  moreover have "val (bn_number B 10000) = Some 10000"
    using val_small_nat [of 10000] by simp
  ultimately have "val (bn_div B (bn_times B (bn_parse B g) (bn_number B e)) (bn_number B 10000)) =
      Some (round_down 20 (dec_val g * e / 10000))"
    using assms(1) by (simp add: val_parse val_times val_div)
  from to_fixed [OF this] show ?thesis
    using n by (simp add: fee_units_def)
qed

lemma net_string:
  assumes "is_amount g" "u \<le> dec_scaled g"
  shows "bn_to_fixed B (bn_minus B (bn_parse B g) (bn_parse B (fixed_string (dec_places g) u)))
    (dec_places g) = fixed_string (dec_places g) (dec_scaled g - u)"
proof -
  have v: "val (bn_minus B (bn_parse B g) (bn_parse B (fixed_string (dec_places g) u))) =
      Some (of_nat (dec_scaled g - u) / 10 ^ dec_places g)"
    using assms by (simp add: val_parse val_minus dec_val_def diff_divide_distrib)
  show ?thesis by (subst to_fixed [OF v]) simp_all
qed

lemma invariants_hold:
  assumes "is_amount g" "u \<le> dec_scaled g" "0 \<le> b" "b \<le> 10000"
  shows "assert_settlement_invariants B g (fixed_string (dec_places g) u)
    (fixed_string (dec_places g) (dec_scaled g - u)) (Some b) = Inr ()"
proof -
  define p where "p = (10::rat) ^ dec_places g"
  have p: "p > 0" by (simp add: p_def)
  have vg: "val (bn_parse B g) = Some (of_nat (dec_scaled g) / p)"
    using assms(1) by (simp add: val_parse dec_val_def p_def)
  have vf: "val (bn_parse B (fixed_string (dec_places g) k)) = Some (of_nat k / p)" for k
    by (simp add: p_def)
  have vs: "val (bn_plus B (bn_parse B (fixed_string (dec_places g) u))
      (bn_parse B (fixed_string (dec_places g) (dec_scaled g - u)))) = Some (of_nat (dec_scaled g) / p)"
    using assms(2) by (subst val_plus [OF vf vf]) (simp add: add_divide_distrib [symmetric])
  have "\<not> bn_less B (bn_parse B (fixed_string (dec_places g) u)) (bn_zero B)"
    using less_iff [OF vf val_zero] p by (simp add: divide_less_0_iff)
  moreover have "\<not> bn_less B (bn_parse B g)
      (bn_parse B (fixed_string (dec_places g) (dec_scaled g - u)))"
    using less_iff [OF vg vf] p assms(2) by (simp add: divide_less_cancel not_less)
  moreover have "bn_eq B (bn_plus B (bn_parse B (fixed_string (dec_places g) u))
      (bn_parse B (fixed_string (dec_places g) (dec_scaled g - u)))) (bn_parse B g)"
    using eq_iff [OF vs vg] by simp
  ultimately show ?thesis
    using assms(3,4) vg vf by (simp add: assert_settlement_invariants_def Let_def finite_iff)
qed

end

context bignumber
begin

text \<open>What the computation returns, on every branch.\<close>

lemma compute_eq:
  assumes g: "is_amount g"
    and d0: "0 \<le> resolve_volume_discount v tiers"
    and b: "bps_ok b"
  defines "d \<equiv> min (resolve_volume_discount v tiers) b"
  defines "e \<equiv> max 0 (b - d)"
  defines "k \<equiv> dec_places g"
  shows "compute_settlement_amounts B g b v tiers asset =
    (if max_settlement_value asset < dec_val g
     then Inl (AmountExceedsMax g (get_max_settlement_amount_for_asset B asset) asset)
     else if \<not> bps_ok d \<or> v < 0 then Inl InvalidFeeSnapshot
     else Inr \<lparr>gross_of = g, fee_of = fixed_string k (fee_units g e),
               net_of = fixed_string k (dec_scaled g - fee_units g e),
               snapshot_of = \<lparr>fee_bps_applied = e, max_fee_bps_applied = b, discount_applied = d,
                 monthly_volume_at_time = v, fee_version = fee_version_constant\<rparr>\<rparr>)"
proof -
  have b0: "0 \<le> b" "b \<le> 10000" using b by (simp_all add: bps_ok_iff)
  have e0: "0 \<le> e" "e \<le> 10000" using effective_fee_bounds [OF d0 b0(1)] b0
    by (simp_all add: e_def d_def)
  have ed: "bps_ok e \<longleftrightarrow> bps_ok d"
    using effective_fee_bounds [OF d0 b0(1)] b by (auto simp: bps_ok_iff e_def d_def)
  have gt: "bn_less B (bn_parse B (get_max_settlement_amount_for_asset B asset)) (bn_parse B g) \<longleftrightarrow>
      max_settlement_value asset < dec_val g"
    using less_iff [OF val_max_settlement] val_parse [OF g] by blast
  have snap: "fee_snapshot_ok \<lparr>fee_bps_applied = e, max_fee_bps_applied = b, discount_applied = d,
      monthly_volume_at_time = v, fee_version = fee_version_constant\<rparr> \<longleftrightarrow> bps_ok d \<and> 0 \<le> v"
    using b by (auto simp: fee_snapshot_ok_def fee_version_constant_def ed)
  have fee: "bn_to_fixed B (bn_div B (bn_times B (bn_parse B g) (bn_number B e)) (bn_number B 10000)) k =
      fixed_string k (fee_units g e)" if "bps_ok d"
    using fee_string [OF g] that ed by (simp add: k_def)
  have net: "bn_to_fixed B (bn_minus B (bn_parse B g) (bn_parse B (fixed_string k (fee_units g e)))) k =
      fixed_string k (dec_scaled g - fee_units g e)"
    using net_string [OF g fee_units_le(2) [OF e0]] by (simp add: k_def)
  have inv: "assert_settlement_invariants B g (fixed_string k (fee_units g e))
      (fixed_string k (dec_scaled g - fee_units g e)) (Some b) = Inr ()"
    using invariants_hold [OF g fee_units_le(2) [OF e0] b0] by (simp add: k_def)
  show ?thesis
    by (auto simp: compute_settlement_amounts_def Let_def gt snap fee net inv
        d_def [symmetric] e_def [symmetric] k_def [symmetric])
qed

end

lemma fee_units_exact:
  assumes "0 \<le> e" "dec_places g \<le> 20"
  shows "fee_units g e = nat \<lfloor>dec_val g * e / 10000 * 10 ^ dec_places g\<rfloor>"
proof -
  define x where "x = dec_val g * e / 10000"
  define k where "k = dec_places g"
  have x0: "0 \<le> x" using assms by (simp add: x_def)
  have p: "(10::rat) ^ 20 = 10 ^ k * of_int (10 ^ (20 - k))"
    using assms(2) by (simp add: k_def flip: power_add)
  have "round_down 20 x * 10 ^ k = of_int \<lfloor>x * 10 ^ 20\<rfloor> / 10 ^ 20 * 10 ^ k"
    using x0 unfolding round_down_def by (simp only: if_True)
  also have "\<dots> = of_int \<lfloor>x * 10 ^ 20\<rfloor> / of_int (10 ^ (20 - k))"
    unfolding p by simp
  also have "\<lfloor>x * 10 ^ 20\<rfloor> = \<lfloor>x * 10 ^ k * of_int (10 ^ (20 - k))\<rfloor>"
    by (simp only: p mult.assoc)
  finally have "\<lfloor>round_down 20 x * 10 ^ k\<rfloor> = \<lfloor>x * 10 ^ k\<rfloor>"
    using floor_div_int [of "10 ^ (20 - k)" "x * 10 ^ k"] by simp
  then show ?thesis by (simp add: fee_units_def x_def k_def)
qed

lemma settlement_amounts_add_up:
  assumes B: "bignumber B val" and g: "is_amount g" and b: "bps_ok b"
    and t: "\<forall>t \<in> set tiers. 0 \<le> discount_bps t"
    and r: "compute_settlement_amounts B g b v tiers asset = Inr r"
  shows "gross_of r = g \<and>
    is_amount (fee_of r) \<and> dec_places (fee_of r) = dec_places g \<and>
    is_amount (net_of r) \<and> dec_places (net_of r) = dec_places g \<and>
    dec_val (fee_of r) + dec_val (net_of r) = dec_val g \<and>
    fee_bps_applied (snapshot_of r) + discount_applied (snapshot_of r) = b \<and>
    0 \<le> fee_bps_applied (snapshot_of r) \<and>
    dec_val (fee_of r) \<le> dec_val g * fee_bps_applied (snapshot_of r) / 10000"
proof -
  define d where "d = min (resolve_volume_discount v tiers) b"
  define e where "e = max 0 (b - d)"
  define u where "u = fee_units g e"
  define p where "p = (10::rat) ^ dec_places g"
  have d0: "0 \<le> resolve_volume_discount v tiers" by (rule resolve_volume_discount_nonneg [OF t])
  have b0: "0 \<le> b" "b \<le> 10000" using b by (simp_all add: bps_ok_iff)
  have e0: "0 \<le> e" "e \<le> 10000" "e + d = b"
    using effective_fee_bounds [OF d0 b0(1)] b0 by (simp_all add: e_def d_def)
  have req: "r = \<lparr>gross_of = g, fee_of = fixed_string (dec_places g) u,
      net_of = fixed_string (dec_places g) (dec_scaled g - u),
      snapshot_of = \<lparr>fee_bps_applied = e, max_fee_bps_applied = b, discount_applied = d,
        monthly_volume_at_time = v, fee_version = fee_version_constant\<rparr>\<rparr>"
    using r bignumber.compute_eq [OF B g d0 b, of asset]
    by (simp add: d_def e_def u_def split: if_splits)
  have "u \<le> dec_scaled g" and "of_nat u \<le> dec_val g * e / 10000 * p"
    using fee_units_le [OF e0(1,2), of g] by (simp_all add: u_def p_def)
  then show ?thesis
    using e0 by (simp add: req dec_val_def p_def field_simps)
qed

lemma settlement_fee_floor:
  assumes B: "bignumber B val" and g: "is_amount g" and b: "bps_ok b"
    and t: "\<forall>t \<in> set tiers. 0 \<le> discount_bps t"
    and r: "compute_settlement_amounts B g b v tiers asset = Inr r"
    and places: "dec_places g \<le> 20"
  shows "dec_val (fee_of r) =
    of_int \<lfloor>dec_val g * fee_bps_applied (snapshot_of r) / 10000 * 10 ^ dec_places g\<rfloor> / 10 ^ dec_places g"
proof -
  define d where "d = min (resolve_volume_discount v tiers) b"
  define e where "e = max 0 (b - d)"
  have d0: "0 \<le> resolve_volume_discount v tiers" by (rule resolve_volume_discount_nonneg [OF t])
  have e0: "0 \<le> e" by (simp add: e_def)
  have "fee_of r = fixed_string (dec_places g) (fee_units g e)" "fee_bps_applied (snapshot_of r) = e"
    using r bignumber.compute_eq [OF B g d0 b, of asset]
    by (auto simp: d_def e_def split: if_splits)
  then show ?thesis
    using e0 by (simp add: fee_units_exact [OF e0 places])
qed

lemma applied_bps_ok:
  assumes "compute_settlement_amounts B g b v tiers asset = Inr r"
  shows "bps_ok (fee_bps_applied (snapshot_of r))"
  using assms by (auto simp: compute_settlement_amounts_def Let_def fee_snapshot_ok_def result_bind_Inr_iff split: if_splits)

subsection \<open>Properties\<close>

text \<open>
  C1: whenever \<open>computeSettlementAmounts\<close> returns, for a fee rule in \<open>[0, 10000]\<close> and
  non-negative discounts, fee plus net is exactly the gross amount, both are amount strings
  with exactly the input's decimals, the snapshot's effective rate plus the discount is the
  base rate, and the fee is at most the effective rate of the gross (never overcharged).
\<close>

theorem settlement_amounts_conserved:
  assumes B: "bignumber B val" and g: "is_amount g" and b: "bps_ok b"
    and t: "\<forall>t \<in> set tiers. 0 \<le> discount_bps t"
    and r: "compute_settlement_amounts B g b v tiers asset = Inr r"
  shows "gross_of r = g \<and>
    is_amount (fee_of r) \<and> dec_places (fee_of r) = dec_places g \<and>
    is_amount (net_of r) \<and> dec_places (net_of r) = dec_places g \<and>
    dec_val (fee_of r) + dec_val (net_of r) = dec_val g \<and>
    fee_bps_applied (snapshot_of r) + discount_applied (snapshot_of r) = b \<and>
    0 \<le> fee_bps_applied (snapshot_of r) \<and>
    dec_val (fee_of r) \<le> dec_val g * fee_bps_applied (snapshot_of r) / 10000"
  by (rule settlement_amounts_add_up [OF assms])

theorem settlement_amounts_conserved_witness:
  "\<exists>r. compute_settlement_amounts dec_ops ''1500.55'' 100 20000
        [\<lparr>volume_usd = 10000, discount_bps = 10\<rparr>, \<lparr>volume_usd = 50000, discount_bps = 25\<rparr>] None = Inr r \<and>
     fee_of r = ''13.50'' \<and> dec_val (fee_of r) + dec_val (net_of r) = dec_val ''1500.55''"
proof -
  let ?ts = "[\<lparr>volume_usd = 10000, discount_bps = 10\<rparr>, \<lparr>volume_usd = 50000, discount_bps = 25\<rparr>]"
  have c: "compute_settlement_amounts dec_ops ''1500.55'' 100 20000 ?ts None =
    Inr \<lparr>gross_of = ''1500.55'', fee_of = ''13.50'', net_of = ''1487.05'',
      snapshot_of = \<lparr>fee_bps_applied = 90, max_fee_bps_applied = 100, discount_applied = 10,
        monthly_volume_at_time = 20000, fee_version = ''1.0''\<rparr>\<rparr>"
    by code_simp
  have h: "is_amount ''1500.55''" "bps_ok 100" "\<forall>t \<in> set ?ts. 0 \<le> discount_bps t"
    by code_simp+
  show ?thesis
    using c settlement_amounts_conserved [OF dec.bignumber_axioms h c] by simp
qed

text \<open>
  C3: the outcome of \<open>computeSettlementAmounts\<close> on every branch: it refuses exactly the
  amounts above the cap, it reports an invalid snapshot exactly for a negative volume or a
  fractional discount, and the runtime invariant check behind it never fires.
\<close>

theorem settlement_amounts_outcome:
  assumes B: "bignumber B val" and g: "is_amount g" and b: "bps_ok b"
    and t: "\<forall>t \<in> set tiers. 0 \<le> discount_bps t"
  shows "case compute_settlement_amounts B g b v tiers asset of
      Inr r \<Rightarrow> dec_val g \<le> max_settlement_value asset \<and> 0 \<le> v \<and>
        min (resolve_volume_discount v tiers) b \<in> \<int>
    | Inl (AmountExceedsMax g' m a) \<Rightarrow> max_settlement_value asset < dec_val g \<and> g' = g \<and> a = asset
    | Inl InvalidFeeSnapshot \<Rightarrow> dec_val g \<le> max_settlement_value asset \<and>
        (v < 0 \<or> min (resolve_volume_discount v tiers) b \<notin> \<int>)
    | Inl (InvariantViolated _) \<Rightarrow> False"
proof -
  have d0: "0 \<le> resolve_volume_discount v tiers" by (rule resolve_volume_discount_nonneg [OF t])
  have b0: "0 \<le> b" "b \<le> 10000" using b by (simp_all add: bps_ok_iff)
  have "0 \<le> min (resolve_volume_discount v tiers) b" "min (resolve_volume_discount v tiers) b \<le> 10000"
    using d0 b0 by auto
  then show ?thesis
    using bignumber.compute_eq [OF B g d0 b, of asset]
    by (auto simp: bps_ok_iff not_less)
qed

theorem settlement_amounts_outcome_witness:
  "compute_settlement_amounts dec_ops ''2000000000000000'' 100 0 [] None =
     Inl (AmountExceedsMax ''2000000000000000'' ''1000000000000000'' None) \<and>
   max_settlement_value None < dec_val ''2000000000000000''"
proof -
  have h: "is_amount ''2000000000000000''" "bps_ok 100" "\<forall>t \<in> set []. 0 \<le> discount_bps t"
    by code_simp+
  have c: "compute_settlement_amounts dec_ops ''2000000000000000'' 100 0 [] None =
     Inl (AmountExceedsMax ''2000000000000000'' ''1000000000000000'' None)"
    by code_simp
  show ?thesis
    using c settlement_amounts_outcome [OF dec.bignumber_axioms h, where v = 0 and asset = None] by simp
qed

text \<open>
  for inputs of at most twenty decimals the fee is the exact product rounded down at the
  input's last decimal: it is short of the exact fee by less than one such unit.
\<close>

theorem settlement_fee_exact:
  assumes B: "bignumber B val" and g: "is_amount g" and b: "bps_ok b"
    and t: "\<forall>t \<in> set tiers. 0 \<le> discount_bps t"
    and r: "compute_settlement_amounts B g b v tiers asset = Inr r"
    and places: "dec_places g \<le> 20"
  shows "dec_val (fee_of r) =
    of_int \<lfloor>dec_val g * fee_bps_applied (snapshot_of r) / 10000 * 10 ^ dec_places g\<rfloor> / 10 ^ dec_places g"
  by (rule settlement_fee_floor [OF B g b t r places])

theorem settlement_fee_exact_witness:
  "\<exists>r. compute_settlement_amounts dec_ops ''99.99'' 250 0 [] (Some ''usdc'') = Inr r \<and>
     dec_val (fee_of r) =
       of_int \<lfloor>dec_val ''99.99'' * fee_bps_applied (snapshot_of r) / 10000 * 10 ^ dec_places ''99.99''\<rfloor>
         / 10 ^ dec_places ''99.99''"
proof -
  have c: "compute_settlement_amounts dec_ops ''99.99'' 250 0 [] (Some ''usdc'') =
    Inr \<lparr>gross_of = ''99.99'', fee_of = ''2.49'', net_of = ''97.50'',
      snapshot_of = \<lparr>fee_bps_applied = 250, max_fee_bps_applied = 250, discount_applied = 0,
        monthly_volume_at_time = 0, fee_version = ''1.0''\<rparr>\<rparr>"
    by code_simp
  have h: "is_amount ''99.99''" "bps_ok 250" "\<forall>t \<in> set []. 0 \<le> discount_bps t"
    and p: "dec_places ''99.99'' \<le> 20"
    by code_simp+
  show ?thesis
    using c settlement_fee_exact [OF dec.bignumber_axioms h c p] by blast
qed

text \<open>
  C5: \<open>resolveVolumeDiscount\<close> selects the tier with the highest threshold the volume
  reaches, whatever the order of the list, and gives no discount otherwise.
\<close>

theorem volume_discount_highest_tier:
  "(resolve_volume_discount v tiers = 0 \<and> (v \<le> 0 \<or> (\<forall>t \<in> set tiers. v < volume_usd t))) \<or>
   (\<exists>t \<in> set tiers. volume_usd t \<le> v \<and> resolve_volume_discount v tiers = discount_bps t \<and>
      (\<forall>t' \<in> set tiers. volume_usd t' \<le> v \<longrightarrow> volume_usd t' \<le> volume_usd t))"
  by (rule resolve_volume_discount_cases [of v tiers]) auto

theorem volume_discount_highest_tier_witness:
  "(resolve_volume_discount 60000 [\<lparr>volume_usd = 10000, discount_bps = 10\<rparr>,
      \<lparr>volume_usd = 50000, discount_bps = 25\<rparr>] = 25) \<and>
   (\<exists>t \<in> set [\<lparr>volume_usd = 10000, discount_bps = 10\<rparr>, \<lparr>volume_usd = 50000, discount_bps = 25\<rparr>].
      discount_bps t = 25)"
proof -
  let ?ts = "[\<lparr>volume_usd = 10000, discount_bps = 10\<rparr>, \<lparr>volume_usd = 50000, discount_bps = 25\<rparr>]"
  have c: "resolve_volume_discount 60000 ?ts = 25" by code_simp
  with volume_discount_highest_tier [of 60000 ?ts] show ?thesis by auto
qed

end
