(* ===== verification/SettlementStore.thy ===== *)
theory SettlementStore
  imports Transitions SettlementAmounts
begin

section \<open>The settlement table and its adapter (\<open>prisma-adapter.ts\<close>)\<close>

text \<open>
  The rows of the \<open>Settlement\<close> table (\<open>prisma/schema.prisma\<close>), the interface of the
  Prisma client the settlement engine uses on it, and the two concurrency-safe helpers:
  creation guarded by the unique constraints and the update guarded by a version.
  Timestamps are milliseconds since the epoch, as integers.

  The Prisma client and PostgreSQL are not part of the repository: they are the parameter
  \<open>'db store_ops\<close>, whose documented behaviour is the locale \<open>settlement_store\<close>.
\<close>

record settlement =
  s_id :: string
  s_merchant_id :: string
  s_total_amount :: string
  s_gross_amount :: string
  s_fee_amount :: string
  s_net_amount :: string
  s_fee_bps :: rat
  s_asset :: string
  s_status :: string
  s_webhook_url :: "string option"
  s_webhook_headers :: "(string, string) jsmap option"
  s_batch_id :: "string option"
  s_initiated_at :: int
  s_completed_at :: "int option"
  s_idempotency_key :: "string option"
  s_idempotency_key_expires_at :: "int option"
  s_fee_snapshot :: "fee_snapshot option"
  s_superseded_by :: "string option"
  s_version :: nat

text \<open>
  The calls: \<open>findUnique\<close> by id and by idempotency key, \<open>findMany\<close> with a filter, an
  order and an optional \<open>take\<close>, \<open>create\<close> (\<open>P2002\<close> on a duplicate id or key) and
  \<open>updateMany\<close>, which returns the number of changed rows. \<open>DbFailure\<close> is any other
  error of the database, with its code and its message; such failures are inputs of the
  operations below (a call may fail at any time), not results of the store.
\<close>

datatype db_error = P2002 | RecordNotFound | DbFailure (failure_code: string) (failure_message: string)

record 'db store_ops =
  st_find :: "'db \<Rightarrow> string \<Rightarrow> settlement option"
  st_find_key :: "'db \<Rightarrow> string \<Rightarrow> settlement option"
  st_find_many :: "'db \<Rightarrow> (settlement \<Rightarrow> bool) \<Rightarrow> (settlement \<Rightarrow> settlement \<Rightarrow> bool) \<Rightarrow>
    nat option \<Rightarrow> settlement list"
  st_create :: "'db \<Rightarrow> settlement \<Rightarrow> (db_error, 'db) result"
  st_update_many :: "'db \<Rightarrow> (settlement \<Rightarrow> bool) \<Rightarrow> (settlement \<Rightarrow> settlement) \<Rightarrow> 'db \<times> nat"

definition take_opt :: "nat option \<Rightarrow> 'a list \<Rightarrow> 'a list" where
  "take_opt n xs = (case n of None \<Rightarrow> xs | Some k \<Rightarrow> take k xs)"

text \<open>
  The \<open>data\<close> of an update: the columns the settlement engine ever updates, each written
  when present.
\<close>

record settlement_update =
  up_status :: "string option"
  up_completed_at :: "int option"
  up_batch_id :: "string option"
  up_superseded_by :: "string option"

definition no_update :: settlement_update where
  "no_update = \<lparr> up_status = None, up_completed_at = None, up_batch_id = None, up_superseded_by = None \<rparr>"

definition apply_update :: "settlement_update \<Rightarrow> settlement \<Rightarrow> settlement" where
  "apply_update u r = r \<lparr>
     s_status := (case up_status u of Some s \<Rightarrow> s | None \<Rightarrow> s_status r),
     s_completed_at := (case up_completed_at u of Some t \<Rightarrow> Some t | None \<Rightarrow> s_completed_at r),
     s_batch_id := (case up_batch_id u of Some b \<Rightarrow> Some b | None \<Rightarrow> s_batch_id r),
     s_superseded_by := (case up_superseded_by u of Some i \<Rightarrow> Some i | None \<Rightarrow> s_superseded_by r) \<rparr>"

text \<open>An update writes neither the primary key nor the idempotency key.\<close>

definition key_preserving :: "(settlement \<Rightarrow> settlement) \<Rightarrow> bool" where
  "key_preserving f \<longleftrightarrow> (\<forall>r. s_id (f r) = s_id r \<and> s_idempotency_key (f r) = s_idempotency_key r)"

text \<open>
  A usable \<open>orderBy\<close>: total and transitive. Without \<open>orderBy\<close> every order is allowed.
\<close>

definition any_order :: "settlement \<Rightarrow> settlement \<Rightarrow> bool" where
  "any_order a b = True"

definition row_order :: "(settlement \<Rightarrow> settlement \<Rightarrow> bool) \<Rightarrow> bool" where
  "row_order le \<longleftrightarrow> (\<forall>a b. le a b \<or> le b a) \<and> (\<forall>a b c. le a b \<longrightarrow> le b c \<longrightarrow> le a c)"

lemma row_order_any [simp]: "row_order any_order"
  by (simp add: row_order_def any_order_def)

lemma key_preserving_apply_update [simp]: "key_preserving (apply_update u)"
  by (simp add: key_preserving_def apply_update_def)

locale settlement_store =
  fixes S :: "'db store_ops"
    and invar :: "'db \<Rightarrow> bool"
  assumes find_id: "invar db \<Longrightarrow> st_find S db i = Some r \<Longrightarrow> s_id r = i"
    and find_key: "invar db \<Longrightarrow> st_find_key S db k = Some r \<longleftrightarrow>
      (\<exists>i. st_find S db i = Some r) \<and> s_idempotency_key r = Some k"
    and finite_rows: "invar db \<Longrightarrow> finite {r. \<exists>i. st_find S db i = Some r}"
    and find_many: "invar db \<Longrightarrow> row_order le \<Longrightarrow>
      \<exists>xs. st_find_many S db P le n = take_opt n xs \<and> distinct xs \<and> sorted_wrt le xs \<and>
        set xs = {r. P r \<and> (\<exists>i. st_find S db i = Some r)}"
    and create_conflict: "invar db \<Longrightarrow>
      st_find S db (s_id r) \<noteq> None \<or>
        (\<exists>k. s_idempotency_key r = Some k \<and> st_find_key S db k \<noteq> None) \<Longrightarrow>
      st_create S db r = Inl P2002"
    and create_fresh: "invar db \<Longrightarrow> st_find S db (s_id r) = None \<Longrightarrow>
      (\<And>k. s_idempotency_key r = Some k \<Longrightarrow> st_find_key S db k = None) \<Longrightarrow>
      \<exists>db'. st_create S db r = Inr db' \<and> invar db' \<and> st_find S db' = (st_find S db)(s_id r \<mapsto> r)"
    and update_many: "invar db \<Longrightarrow> key_preserving f \<Longrightarrow>
      \<exists>db'. st_update_many S db P f = (db', card {r. P r \<and> (\<exists>i. st_find S db i = Some r)}) \<and>
        invar db' \<and> st_find S db' = (\<lambda>i. map_option (\<lambda>r. if P r then f r else r) (st_find S db i))"
begin

text \<open>The rows that match a condition on the primary key: one or none.\<close>

lemma matching_id:
  assumes "invar db"
  shows "{r. (s_id r = i \<and> P r) \<and> (\<exists>j. st_find S db j = Some r)} =
    (case st_find S db i of Some r \<Rightarrow> if P r then {r} else {} | None \<Rightarrow> {})"
  using find_id [OF assms] by (auto split: option.splits)

lemma update_by_id:
  assumes "invar db" "key_preserving f"
  obtains db' where
    "st_update_many S db (\<lambda>r. s_id r = i \<and> P r) f =
       (db', case st_find S db i of Some r \<Rightarrow> if P r then 1 else 0 | None \<Rightarrow> 0)"
    "invar db'"
    "st_find S db' = (case st_find S db i of
        Some r \<Rightarrow> if P r then (st_find S db)(i \<mapsto> f r) else st_find S db
      | None \<Rightarrow> st_find S db)"
proof -
  let ?P = "\<lambda>r. s_id r = i \<and> P r"
  obtain db' where db': "st_update_many S db ?P f =
      (db', card {r. ?P r \<and> (\<exists>j. st_find S db j = Some r)})" "invar db'"
    "st_find S db' = (\<lambda>j. map_option (\<lambda>r. if ?P r then f r else r) (st_find S db j))"
    using update_many [OF assms, of ?P] by blast
  have "card {r. ?P r \<and> (\<exists>j. st_find S db j = Some r)} =
      (case st_find S db i of Some r \<Rightarrow> if P r then 1 else 0 | None \<Rightarrow> 0)"
    using matching_id [OF assms(1), of i P] by (simp split: option.splits)
  moreover have "map_option (\<lambda>r. if ?P r then f r else r) (st_find S db j) =
      (case st_find S db i of
        Some r \<Rightarrow> if P r then (st_find S db)(i \<mapsto> f r) else st_find S db
      | None \<Rightarrow> st_find S db) j" for j
    using find_id [OF assms(1), of j] by (cases "st_find S db j") (auto split: option.splits)
  ultimately show thesis
    by (intro that [of db']) (auto simp: db'(1,2) db'(3) fun_eq_iff)
qed

end

subsection \<open>A reference implementation\<close>

text \<open>
  A table kept as a list of rows. It shows that the laws above are consistent and lets the
  operations be run on concrete tables.
\<close>

type_synonym table = "settlement list"

primrec insert_row :: "(settlement \<Rightarrow> settlement \<Rightarrow> bool) \<Rightarrow> settlement \<Rightarrow> table \<Rightarrow> table" where
  "insert_row le r [] = [r]"
| "insert_row le r (x # xs) = (if le r x then r # x # xs else x # insert_row le r xs)"

definition order_rows :: "(settlement \<Rightarrow> settlement \<Rightarrow> bool) \<Rightarrow> table \<Rightarrow> table" where
  "order_rows le rs = foldr (insert_row le) rs []"

lemma set_insert_row [simp]: "set (insert_row le r rs) = insert r (set rs)"
  by (induction rs) auto

lemma set_order_rows [simp]: "set (order_rows le rs) = set rs"
  by (induction rs) (auto simp: order_rows_def)

lemma distinct_insert_row [simp]: "distinct (insert_row le r rs) \<longleftrightarrow> r \<notin> set rs \<and> distinct rs"
  by (induction rs) auto

lemma distinct_order_rows [simp]: "distinct (order_rows le rs) \<longleftrightarrow> distinct rs"
proof (induction rs)
  case (Cons r rs)
  then show ?case using set_order_rows [of le rs] by (simp add: order_rows_def)
qed (simp add: order_rows_def)

lemma sorted_insert_row:
  assumes "row_order le" shows "sorted_wrt le rs \<Longrightarrow> sorted_wrt le (insert_row le r rs)"
  using assms by (induction rs) (auto simp: row_order_def)

lemma sorted_order_rows: "row_order le \<Longrightarrow> sorted_wrt le (order_rows le rs)"
  by (induction rs) (auto simp: order_rows_def sorted_insert_row)

definition same_key :: "settlement \<Rightarrow> settlement \<Rightarrow> bool" where
  "same_key r x \<longleftrightarrow> s_id x = s_id r \<or>
     (s_idempotency_key r \<noteq> None \<and> s_idempotency_key x = s_idempotency_key r)"

definition tab_ops :: "table store_ops" where
  "tab_ops = \<lparr>
     st_find = (\<lambda>db i. find (\<lambda>r. s_id r = i) db),
     st_find_key = (\<lambda>db k. find (\<lambda>r. s_idempotency_key r = Some k) db),
     st_find_many = (\<lambda>db P le n. take_opt n (order_rows le (filter P db))),
     st_create = (\<lambda>db r. if list_ex (same_key r) db then Inl P2002 else Inr (db @ [r])),
     st_update_many = (\<lambda>db P f. (map (\<lambda>r. if P r then f r else r) db, length (filter P db))) \<rparr>"

definition tab_invar :: "table \<Rightarrow> bool" where
  "tab_invar db \<longleftrightarrow> distinct (map s_id db) \<and>
     distinct (filter (\<lambda>k. k \<noteq> None) (map s_idempotency_key db))"

lemma distinct_map_find:
  "distinct (map f xs) \<Longrightarrow> find (\<lambda>x. f x = k) xs = Some x \<longleftrightarrow> x \<in> set xs \<and> f x = k"
  by (induction xs) (auto simp: image_iff)

lemma distinct_some_find:
  "distinct (filter (\<lambda>k. k \<noteq> None) (map f xs)) \<Longrightarrow>
   find (\<lambda>x. f x = Some k) xs = Some x \<longleftrightarrow> x \<in> set xs \<and> f x = Some k"
proof (induction xs)
  case (Cons a xs)
  have "a' = a" if "a' \<in> set xs" "f a' = Some k" "f a = Some k" for a'
    using Cons.prems that by (auto simp: image_iff)
  with Cons show ?case by (auto split: if_splits)
qed simp

lemma tab_find_iff:
  "tab_invar db \<Longrightarrow> st_find tab_ops db i = Some r \<longleftrightarrow> r \<in> set db \<and> s_id r = i"
  by (simp add: tab_ops_def tab_invar_def distinct_map_find)

lemma tab_find_key_iff:
  "tab_invar db \<Longrightarrow> st_find_key tab_ops db k = Some r \<longleftrightarrow> r \<in> set db \<and> s_idempotency_key r = Some k"
  by (simp add: tab_ops_def tab_invar_def distinct_some_find)

lemma tab_stored: "tab_invar db \<Longrightarrow> (\<exists>i. st_find tab_ops db i = Some r) \<longleftrightarrow> r \<in> set db"
  by (simp add: tab_find_iff)

lemma tab_find_append:
  "st_find tab_ops (db @ [r]) i =
     (case st_find tab_ops db i of Some x \<Rightarrow> Some x | None \<Rightarrow> if s_id r = i then Some r else None)"
  by (induction db) (auto simp: tab_ops_def)

lemma tab_find_map:
  "key_preserving f \<Longrightarrow>
   st_find tab_ops (map (\<lambda>r. if P r then f r else r) db) i =
     map_option (\<lambda>r. if P r then f r else r) (st_find tab_ops db i)"
  by (induction db) (auto simp: tab_ops_def key_preserving_def)

interpretation tab: settlement_store tab_ops tab_invar
proof
  fix db :: table and i k P le n and r :: settlement
  assume inv: "tab_invar db"
  show "s_id r = i" if "st_find tab_ops db i = Some r"
    using that by (simp add: tab_find_iff inv)
  show "(st_find_key tab_ops db k = Some r) =
      ((\<exists>i. st_find tab_ops db i = Some r) \<and> s_idempotency_key r = Some k)"
    by (simp add: tab_find_key_iff tab_stored inv)
  show "finite {r. \<exists>i. st_find tab_ops db i = Some r}"
    by (simp add: tab_stored inv)
  show "\<exists>xs. st_find_many tab_ops db P le n = take_opt n xs \<and> distinct xs \<and> sorted_wrt le xs \<and>
      set xs = {r. P r \<and> (\<exists>i. st_find tab_ops db i = Some r)}" if "row_order le"
    using inv that
    by (intro exI [of _ "order_rows le (filter P db)"])
       (auto simp: tab_ops_def tab_invar_def sorted_order_rows distinct_map distinct_map_find)
  show "st_create tab_ops db r = Inl P2002"
    if "st_find tab_ops db (s_id r) \<noteq> None \<or>
        (\<exists>k. s_idempotency_key r = Some k \<and> st_find_key tab_ops db k \<noteq> None)"
  proof -
    from that have "\<exists>x\<in>set db. same_key r x"
      by (fastforce simp: tab_find_iff tab_find_key_iff inv same_key_def)
    then show ?thesis by (simp add: tab_ops_def list_ex_iff)
  qed
next
  fix db :: table and r :: settlement
  assume inv: "tab_invar db" and new: "st_find tab_ops db (s_id r) = None"
    and key: "\<And>k. s_idempotency_key r = Some k \<Longrightarrow> st_find_key tab_ops db k = None"
  have ids: "s_id x \<noteq> s_id r" if "x \<in> set db" for x
    using new that by (auto simp: tab_ops_def find_None_iff)
  have keys: "s_idempotency_key x \<noteq> s_idempotency_key r"
    if "x \<in> set db" "s_idempotency_key r \<noteq> None" for x
    using key that by (fastforce simp: tab_ops_def find_None_iff)
  have "\<not> list_ex (same_key r) db"
    using ids keys by (fastforce simp: list_ex_iff same_key_def)
  then have "st_create tab_ops db r = Inr (db @ [r])" by (simp add: tab_ops_def)
  moreover have "tab_invar (db @ [r])"
    using inv ids keys by (fastforce simp: tab_invar_def image_iff)
  moreover have "st_find tab_ops (db @ [r]) = (st_find tab_ops db)(s_id r \<mapsto> r)"
    using new by (auto simp: tab_find_append fun_eq_iff split: option.splits)
  ultimately show "\<exists>db'. st_create tab_ops db r = Inr db' \<and> tab_invar db' \<and>
      st_find tab_ops db' = (st_find tab_ops db)(s_id r \<mapsto> r)" by blast
next
  fix db :: table and P and f :: "settlement \<Rightarrow> settlement"
  assume inv: "tab_invar db" and kp: "key_preserving f"
  let ?g = "\<lambda>r. if P r then f r else r"
  have m: "map s_id (map ?g db) = map s_id db"
    "map s_idempotency_key (map ?g db) = map s_idempotency_key db"
    using kp by (auto simp: key_preserving_def)
  have "tab_invar (map ?g db)" using inv unfolding tab_invar_def m .
  moreover have "length (filter P db) = card {r. P r \<and> (\<exists>i. st_find tab_ops db i = Some r)}"
  proof -
    have "distinct (filter P db)" using inv by (simp add: tab_invar_def distinct_map)
    moreover have "set (filter P db) = {r. P r \<and> (\<exists>i. st_find tab_ops db i = Some r)}"
      by (auto simp: tab_find_iff inv)
    ultimately show ?thesis by (metis distinct_card)
  qed
  ultimately show "\<exists>db'. st_update_many tab_ops db P f =
        (db', card {r. P r \<and> (\<exists>i. st_find tab_ops db i = Some r)}) \<and> tab_invar db' \<and>
      st_find tab_ops db' = (\<lambda>i. map_option ?g (st_find tab_ops db i))"
    by (intro exI [of _ "map ?g db"] conjI)
       (simp_all add: tab_find_map [OF kp] fun_eq_iff, simp add: tab_ops_def)
qed

end
