(* ===== verification/SettlementAdapter.thy ===== *)
theory SettlementAdapter
  imports Traffic SettlementStore
begin

section \<open>Concurrency-safe writes (\<open>prisma-adapter.ts\<close>, status guard of \<open>index.ts\<close>)\<close>

text \<open>
  \<open>createSettlementWithUniqueGuard\<close>, \<open>updateSettlementWithOptimisticLock\<close> and the
  Prisma client extension that checks a status transition before \<open>update\<close> and
  \<open>updateMany\<close>. Every call to the database may fail: the faults are an argument, one
  for each call site of the operation.
\<close>

datatype adapter_error =
    Db db_error
  | VersionConflict string string nat
  | UniqueConstraint string
  | QueryTimeout string nat
  | BadTransition transition_error

definition error_code :: "adapter_error \<Rightarrow> string option" where
  "error_code e = (case e of Db P2002 \<Rightarrow> Some ''P2002'' | Db RecordNotFound \<Rightarrow> Some ''P2025''
     | Db (DbFailure c m) \<Rightarrow> Some c | _ \<Rightarrow> None)"

definition error_message :: "adapter_error \<Rightarrow> string" where
  "error_message e = (case e of
       Db P2002 \<Rightarrow> ''Unique constraint failed''
     | Db RecordNotFound \<Rightarrow> ''An operation failed because it depends on one or more records that were required but not found''
     | Db (DbFailure c m) \<Rightarrow> m
     | VersionConflict ty i v \<Rightarrow>
         ''Version conflict on '' @ ty @ '' '' @ i @ '': expected version '' @ digits_of_nat v
     | UniqueConstraint m \<Rightarrow> m
     | QueryTimeout op ms \<Rightarrow>
         ''Query timeout: '' @ op @ '' exceeded '' @ digits_of_nat ms @ ''ms statement timeout''
     | BadTransition (InvalidTransition s t) \<Rightarrow>
         ''Invalid status transition from '' @ s @ '' to '' @ t)"

definition is_query_timeout :: "adapter_error \<Rightarrow> bool" where
  "is_query_timeout e = (error_code e = Some ''57014'' \<or> str_includes (error_message e) ''statement timeout'')"

definition settlement_query_timeout_ms :: nat where
  "settlement_query_timeout_ms = 5000"

text \<open>
  \<open>withQueryTimeout\<close>: \<open>SET LOCAL\<close>, the operation, \<open>SET LOCAL\<close> back, an error of any of
  the three translated. What the operation wrote stays written when clearing fails.
\<close>

definition with_query_timeout ::
  "string \<Rightarrow> nat \<Rightarrow> db_error option \<Rightarrow> db_error option \<Rightarrow>
   ('db \<Rightarrow> 'db \<times> (adapter_error, 'a) result) \<Rightarrow> 'db \<Rightarrow> 'db \<times> (adapter_error, 'a) result" where
  "with_query_timeout operation timeout set_fault clear_fault fn db =
     (let caught = (\<lambda>e. if is_query_timeout e then throw (QueryTimeout operation timeout) else throw e)
      in case set_fault of
        Some e \<Rightarrow> (db, caught (Db e))
      | None \<Rightarrow> (case fn db of
            (db', Inl e) \<Rightarrow> (db', caught e)
          | (db', Inr a) \<Rightarrow> (case clear_fault of Some e \<Rightarrow> (db', caught (Db e)) | None \<Rightarrow> (db', return_ok a))))"

text \<open>The calls of the two helpers, each of which may fail.\<close>

datatype db_call = SetTimeout | ClearTimeout | Create | FindById | FindByKey | UpdateMany | GuardRead

type_synonym faults = "db_call \<Rightarrow> db_error option"

abbreviation no_faults :: faults where
  "no_faults \<equiv> \<lambda>_. None"

definition faulty :: "faults \<Rightarrow> db_call \<Rightarrow> 'a \<Rightarrow> (adapter_error, 'a) result" where
  "faulty flt c a = (case flt c of Some e \<Rightarrow> throw (Db e) | None \<Rightarrow> return_ok a)"

lemma faulty_none [simp]: "flt c = None \<Longrightarrow> faulty flt c a = Inr a"
  by (simp add: faulty_def)

subsection \<open>Creation\<close>

text \<open>
  An empty string is falsy, so a lookup by an empty id or key is skipped, as in the code.
\<close>

definition existing_settlement ::
  "'db store_ops \<Rightarrow> faults \<Rightarrow> 'db \<Rightarrow> settlement \<Rightarrow> (adapter_error, settlement) result" where
  "existing_settlement S flt db data =
     result_bind (if s_id data \<noteq> [] then faulty flt FindById (st_find S db (s_id data)) else return_ok None)
       (\<lambda>by_id. case by_id of Some r \<Rightarrow> return_ok r | None \<Rightarrow>
         result_bind
           (case s_idempotency_key data of
              Some k \<Rightarrow> if k \<noteq> [] then faulty flt FindByKey (st_find_key S db k) else return_ok None
            | None \<Rightarrow> return_ok None)
           (\<lambda>by_key. case by_key of Some r \<Rightarrow> return_ok r | None \<Rightarrow>
             throw (UniqueConstraint ''Settlement unique constraint violated but existing record not found'')))"

definition create_settlement_with_unique_guard ::
  "'db store_ops \<Rightarrow> faults \<Rightarrow> 'db \<Rightarrow> settlement \<Rightarrow> 'db \<times> (adapter_error, settlement) result" where
  "create_settlement_with_unique_guard S flt db data =
     with_query_timeout ''createSettlement'' settlement_query_timeout_ms (flt SetTimeout) (flt ClearTimeout)
       (\<lambda>db. case (case flt Create of Some e \<Rightarrow> Inl e | None \<Rightarrow> st_create S db data) of
          Inr db' \<Rightarrow> (db', return_ok data)
        | Inl P2002 \<Rightarrow> (db, existing_settlement S flt db data)
        | Inl e \<Rightarrow> (db, throw (Db e))) db"

subsection \<open>The status guard\<close>

text \<open>
  \<open>prismaBase.$extends\<close>: when a status is written, the current status is read first and
  the transition validated, for \<open>updateMany\<close> on every row the filter selects.
\<close>

fun validate_all :: "string \<Rightarrow> settlement list \<Rightarrow> (adapter_error, unit) result" where
  "validate_all nxt [] = return_ok ()"
| "validate_all nxt (r # rs) =
     (case validate_transition (s_status r) nxt of
        Inl e \<Rightarrow> throw (BadTransition e)
      | Inr _ \<Rightarrow> validate_all nxt rs)"

text \<open>
  The guard awaits its read before it runs the query, so other requests may write between the
  two: \<open>env\<close> is what they do to the table until the request is done.
\<close>

definition update_many_guard ::
  "'db store_ops \<Rightarrow> faults \<Rightarrow> 'db \<Rightarrow> (settlement \<Rightarrow> bool) \<Rightarrow> settlement_update \<Rightarrow>
   (adapter_error, unit) result" where
  "update_many_guard S flt db P u =
     (case up_status u of
        None \<Rightarrow> return_ok ()
      | Some nxt \<Rightarrow> if nxt = [] then return_ok ()
          else result_bind (faulty flt GuardRead (st_find_many S db P any_order None)) (validate_all nxt))"

definition update_many_write ::
  "'db store_ops \<Rightarrow> faults \<Rightarrow> 'db \<Rightarrow> (settlement \<Rightarrow> bool) \<Rightarrow> settlement_update \<Rightarrow>
   (settlement \<Rightarrow> settlement) \<Rightarrow> 'db \<times> (adapter_error, nat) result" where
  "update_many_write S flt db P u post =
     (case flt UpdateMany of
        Some e \<Rightarrow> (db, throw (Db e))
      | None \<Rightarrow> (case st_update_many S db P (\<lambda>r. post (apply_update u r)) of (db', n) \<Rightarrow> (db', return_ok n)))"

definition guarded_update_many_between ::
  "'db store_ops \<Rightarrow> faults \<Rightarrow> ('db \<Rightarrow> 'db) \<Rightarrow> 'db \<Rightarrow> (settlement \<Rightarrow> bool) \<Rightarrow> settlement_update \<Rightarrow>
   (settlement \<Rightarrow> settlement) \<Rightarrow> 'db \<times> (adapter_error, nat) result" where
  "guarded_update_many_between S flt env db P u post =
     (case update_many_guard S flt db P u of
        Inl e \<Rightarrow> (env db, throw e)
      | Inr _ \<Rightarrow> update_many_write S flt (env db) P u post)"

text \<open>\<open>prisma.settlement.update({ where: { id }, data })\<close>: \<open>P2025\<close> when there is no such row.\<close>

definition update_guard ::
  "'db store_ops \<Rightarrow> faults \<Rightarrow> 'db \<Rightarrow> string \<Rightarrow> settlement_update \<Rightarrow> (adapter_error, unit) result" where
  "update_guard S flt db i u =
     (case up_status u of
        None \<Rightarrow> return_ok ()
      | Some nxt \<Rightarrow> if nxt = [] then return_ok ()
          else result_bind (faulty flt GuardRead (st_find S db i))
            (\<lambda>cur. case cur of None \<Rightarrow> return_ok () | Some r \<Rightarrow> validate_all nxt [r]))"

definition update_write ::
  "'db store_ops \<Rightarrow> faults \<Rightarrow> 'db \<Rightarrow> string \<Rightarrow> settlement_update \<Rightarrow>
   'db \<times> (adapter_error, settlement) result" where
  "update_write S flt db i u =
     (case flt UpdateMany of
        Some e \<Rightarrow> (db, throw (Db e))
      | None \<Rightarrow> (case st_update_many S db (\<lambda>r. s_id r = i) (apply_update u) of
            (db', n) \<Rightarrow> (case st_find S db' i of
                Some r \<Rightarrow> (db', return_ok r)
              | None \<Rightarrow> (db', throw (Db RecordNotFound)))))"

definition guarded_update_between ::
  "'db store_ops \<Rightarrow> faults \<Rightarrow> ('db \<Rightarrow> 'db) \<Rightarrow> 'db \<Rightarrow> string \<Rightarrow> settlement_update \<Rightarrow>
   'db \<times> (adapter_error, settlement) result" where
  "guarded_update_between S flt env db i u =
     (case update_guard S flt db i u of
        Inl e \<Rightarrow> (env db, throw e)
      | Inr _ \<Rightarrow> update_write S flt (env db) i u)"

text \<open>The runs of the two in which nobody writes between the guard and the query.\<close>

abbreviation guarded_update_many ::
  "'db store_ops \<Rightarrow> faults \<Rightarrow> 'db \<Rightarrow> (settlement \<Rightarrow> bool) \<Rightarrow> settlement_update \<Rightarrow>
   (settlement \<Rightarrow> settlement) \<Rightarrow> 'db \<times> (adapter_error, nat) result" where
  "guarded_update_many S flt \<equiv> guarded_update_many_between S flt (\<lambda>db. db)"

abbreviation guarded_update ::
  "'db store_ops \<Rightarrow> faults \<Rightarrow> 'db \<Rightarrow> string \<Rightarrow> settlement_update \<Rightarrow>
   'db \<times> (adapter_error, settlement) result" where
  "guarded_update S flt \<equiv> guarded_update_between S flt (\<lambda>db. db)"

lemmas guarded_update_many_defs = guarded_update_many_between_def update_many_guard_def update_many_write_def

lemmas guarded_update_defs = guarded_update_between_def update_guard_def update_write_def

subsection \<open>The optimistic lock\<close>

text \<open>\<open>version: { increment: 1 }\<close>\<close>

definition bump :: "settlement \<Rightarrow> settlement" where
  "bump r = r \<lparr> s_version := s_version r + 1 \<rparr>"

definition optimistic_update_between ::
  "'db store_ops \<Rightarrow> faults \<Rightarrow> ('db \<Rightarrow> 'db) \<Rightarrow> 'db \<Rightarrow> string \<Rightarrow> nat \<Rightarrow> settlement_update \<Rightarrow>
   'db \<times> (adapter_error, settlement) result" where
  "optimistic_update_between S flt env db i expected u =
     with_query_timeout ''updateSettlement'' settlement_query_timeout_ms (flt SetTimeout) (flt ClearTimeout)
       (\<lambda>db. case guarded_update_many_between S flt env db (\<lambda>r. s_id r = i \<and> s_version r = expected) u
                bump of
          (db', Inl e) \<Rightarrow> (db', throw e)
        | (db', Inr n) \<Rightarrow>
            if n = 0 then (db', throw (VersionConflict ''Settlement'' i expected))
            else (case flt FindById of
                Some e \<Rightarrow> (db', throw (Db e))
              | None \<Rightarrow> (case st_find S db' i of
                    None \<Rightarrow> (db', throw (VersionConflict ''Settlement'' i expected))
                  | Some r \<Rightarrow> (db', return_ok r)))) db"

abbreviation update_settlement_with_optimistic_lock ::
  "'db store_ops \<Rightarrow> faults \<Rightarrow> 'db \<Rightarrow> string \<Rightarrow> nat \<Rightarrow> settlement_update \<Rightarrow>
   'db \<times> (adapter_error, settlement) result" where
  "update_settlement_with_optimistic_lock S flt \<equiv> optimistic_update_between S flt (\<lambda>db. db)"

subsection \<open>What one write does\<close>

definition status_allowed :: "settlement_update \<Rightarrow> settlement \<Rightarrow> bool" where
  "status_allowed u r = (case up_status u of None \<Rightarrow> True
     | Some nxt \<Rightarrow> nxt = [] \<or> validate_transition (s_status r) nxt = Inr ())"

text \<open>The error as \<open>withQueryTimeout\<close> rethrows it.\<close>

definition update_error :: "adapter_error \<Rightarrow> adapter_error" where
  "update_error e = (if is_query_timeout e
     then QueryTimeout ''updateSettlement'' settlement_query_timeout_ms else e)"

lemma validate_all_ok:
  "validate_all nxt rs = Inr () \<longleftrightarrow> (\<forall>r\<in>set rs. validate_transition (s_status r) nxt = Inr ())"
  by (induction rs) (auto split: sum.splits)

lemma apply_update_id [simp]: "s_id (apply_update u r) = s_id r"
  and apply_update_key [simp]: "s_idempotency_key (apply_update u r) = s_idempotency_key r"
  and apply_update_version [simp]: "s_version (apply_update u r) = s_version r"
  and apply_update_status: "s_status (apply_update u r) = (case up_status u of Some s \<Rightarrow> s | None \<Rightarrow> s_status r)"
  by (simp_all add: apply_update_def)

lemma apply_update_step:
  assumes "status_allowed u r" "up_status u \<noteq> Some []"
  shows "status_step settlement_status_transitions (s_status r) (s_status (apply_update u r))"
  using assms
  by (auto simp: status_allowed_def apply_update_status validate_transition_ok_iff
      split: option.splits intro: status_step.stay)

lemma bump_simps [simp]:
  "s_id (bump r) = s_id r" "s_status (bump r) = s_status r"
  "s_idempotency_key (bump r) = s_idempotency_key r" "s_version (bump r) = Suc (s_version r)"
  by (simp_all add: bump_def)

text \<open>
  How a table may move under writes of the client: rows stay, their status moves by accepted
  transitions, their version never decreases.
\<close>

definition row_moves :: "settlement \<Rightarrow> settlement \<Rightarrow> bool" where
  "row_moves r r' \<longleftrightarrow> status_reach settlement_status_transitions (s_status r) (s_status r') \<and>
     s_version r \<le> s_version r'"

lemma status_reach_trans:
  "status_reach T t u \<Longrightarrow> status_reach T s t \<Longrightarrow> status_reach T s u"
  by (induction rule: status_reach.induct) (auto intro: status_reach.step)

lemma status_reach_one: "status_step T s t \<Longrightarrow> status_reach T s t"
  by (rule status_reach.step [OF status_reach.refl])

lemma row_moves_refl [simp]: "row_moves r r"
  by (simp add: row_moves_def status_reach.refl)

lemma row_moves_trans: "row_moves r s \<Longrightarrow> row_moves s t \<Longrightarrow> row_moves r t"
  by (auto simp: row_moves_def intro: status_reach_trans)

definition table_moves :: "'db store_ops \<Rightarrow> 'db \<Rightarrow> 'db \<Rightarrow> bool" where
  "table_moves S db db' \<longleftrightarrow>
     (\<forall>i r. st_find S db i = Some r \<longrightarrow> (\<exists>r'. st_find S db' i = Some r' \<and> row_moves r r'))"

lemma table_moves_refl [simp]: "table_moves S db db"
  by (auto simp: table_moves_def)

lemma table_moves_trans: "table_moves S a b \<Longrightarrow> table_moves S b c \<Longrightarrow> table_moves S a c"
  unfolding table_moves_def by (meson row_moves_trans)

lemma with_query_timeout_db:
  "fst (with_query_timeout op ms sf cf fn db) = (if sf = None then fst (fn db) else db)"
  by (auto simp: with_query_timeout_def Let_def split: option.splits prod.splits sum.splits)

lemma with_query_timeout_ok:
  "with_query_timeout op ms sf cf fn db = (db', Inr a) \<Longrightarrow> fn db = (db', Inr a)"
  by (auto simp: with_query_timeout_def Let_def split: option.splits prod.splits sum.splits if_splits)

context settlement_store
begin

lemma find_many_any:
  assumes "invar db"
  shows "set (st_find_many S db P any_order None) = {r. P r \<and> (\<exists>i. st_find S db i = Some r)}"
  using find_many [OF assms row_order_any, of P None] by (auto simp: take_opt_def)

lemma guarded_update_many_cases:
  assumes inv: "invar db" and kp: "key_preserving post"
    and run: "guarded_update_many S flt db P u post = (db', res)"
  shows "(db' = db \<and> \<not> is_ok res) \<or>
    (invar db' \<and> res = Inr (card {r. P r \<and> (\<exists>i. st_find S db i = Some r)}) \<and>
     st_find S db' = (\<lambda>i. map_option (\<lambda>r. if P r then post (apply_update u r) else r) (st_find S db i)) \<and>
     (\<forall>i r. st_find S db i = Some r \<longrightarrow> P r \<longrightarrow> status_allowed u r))"
proof -
  have kp': "key_preserving (\<lambda>r. post (apply_update u r))"
    using kp by (simp add: key_preserving_def)
  obtain db1 where db1: "st_update_many S db P (\<lambda>r. post (apply_update u r)) =
      (db1, card {r. P r \<and> (\<exists>i. st_find S db i = Some r)})" "invar db1"
    "st_find S db1 = (\<lambda>i. map_option (\<lambda>r. if P r then post (apply_update u r) else r) (st_find S db i))"
    using update_many [OF inv kp', of P] by blast
  have "status_allowed u r" if "st_find S db i = Some r" "P r" "up_status u = Some nxt"
    "validate_all nxt (st_find_many S db P any_order None) = Inr ()" for i r nxt
    using that find_many_any [OF inv, of P] by (auto simp: status_allowed_def validate_all_ok)
  then show ?thesis
    using run db1
    by (auto simp: guarded_update_many_defs Let_def faulty_def result_bind_def status_allowed_def
        split: option.splits if_splits sum.splits)
qed

lemma guarded_update_many_moves:
  assumes inv: "invar db" and kp: "key_preserving post"
    and st: "\<And>r. s_status (post r) = s_status r" "\<And>r. s_version r \<le> s_version (post r)"
    and u: "up_status u \<noteq> Some []"
  shows "invar (fst (guarded_update_many S flt db P u post)) \<and>
    table_moves S db (fst (guarded_update_many S flt db P u post))"
proof -
  obtain db' res where run: "guarded_update_many S flt db P u post = (db', res)" by fastforce
  have "row_moves r (post (apply_update u r))" if "status_allowed u r" for r
    using status_reach_one [OF apply_update_step [OF that u]] st(2) [of "apply_update u r"]
    by (simp add: row_moves_def st(1))
  with guarded_update_many_cases [OF inv kp run] show ?thesis
    using inv by (auto simp: run table_moves_def)
qed

lemma guarded_update_moves:
  assumes inv: "invar db" and u: "up_status u \<noteq> Some []"
  shows "invar (fst (guarded_update S flt db i u)) \<and> table_moves S db (fst (guarded_update S flt db i u))"
proof -
  obtain db1 where db1: "st_update_many S db (\<lambda>r. s_id r = i \<and> True) (apply_update u) =
       (db1, case st_find S db i of Some r \<Rightarrow> if True then 1 else 0 | None \<Rightarrow> 0)" "invar db1"
    "st_find S db1 = (case st_find S db i of
        Some r \<Rightarrow> if True then (st_find S db)(i \<mapsto> apply_update u r) else st_find S db
      | None \<Rightarrow> st_find S db)"
    by (rule update_by_id [OF inv key_preserving_apply_update])
  have mv: "row_moves r (apply_update u r)" if "status_allowed u r" for r
    using status_reach_one [OF apply_update_step [OF that u]] by (simp add: row_moves_def)
  have "table_moves S db db1" if "\<And>r. st_find S db i = Some r \<Longrightarrow> status_allowed u r"
    using that mv db1(3) by (auto simp: table_moves_def split: option.splits)
  moreover have "status_allowed u r"
    if "st_find S db i = Some r" "validate_all nxt [r] = Inr ()" "up_status u = Some nxt" for r nxt
    using that by (auto simp: status_allowed_def split: sum.splits)
  ultimately show ?thesis
    using inv db1(1,2)
    by (auto simp: guarded_update_defs Let_def faulty_def result_bind_def status_allowed_def
        split: option.splits if_splits sum.splits prod.splits)
qed

lemma create_guard_moves:
  assumes inv: "invar db"
  shows "invar (fst (create_settlement_with_unique_guard S flt db data)) \<and>
    table_moves S db (fst (create_settlement_with_unique_guard S flt db data))"
proof (cases "st_create S db data")
  case (Inl e)
  with inv show ?thesis
    by (auto simp: create_settlement_with_unique_guard_def with_query_timeout_db
        split: option.splits db_error.splits)
next
  case (Inr db1)
  have new: "st_find S db (s_id data) = None \<and>
      (\<forall>k. s_idempotency_key data = Some k \<longrightarrow> st_find_key S db k = None)"
  proof -
    have "\<not> (st_find S db (s_id data) \<noteq> None \<or>
        (\<exists>k. s_idempotency_key data = Some k \<and> st_find_key S db k \<noteq> None))"
    proof
      assume "st_find S db (s_id data) \<noteq> None \<or>
        (\<exists>k. s_idempotency_key data = Some k \<and> st_find_key S db k \<noteq> None)"
      from create_conflict [OF inv this] Inr show False by simp
    qed
    then show ?thesis by auto
  qed
  then obtain db2 where "st_create S db data = Inr db2" "invar db2"
    "st_find S db2 = (st_find S db)(s_id data \<mapsto> data)"
    using create_fresh [OF inv, of data] by blast
  with Inr have "invar db1" "st_find S db1 = (st_find S db)(s_id data \<mapsto> data)" by auto
  with new inv show ?thesis
    by (auto simp: create_settlement_with_unique_guard_def with_query_timeout_db Inr table_moves_def
        split: option.splits db_error.splits)
qed

lemma create_guard_find:
  assumes inv: "invar db" and r: "st_find S db i = Some r"
  shows "st_find S (fst (create_settlement_with_unique_guard S flt db data)) i = Some r"
proof (cases "st_create S db data")
  case (Inl e)
  then have "fst (create_settlement_with_unique_guard S flt db data) = db"
    by (auto simp: create_settlement_with_unique_guard_def with_query_timeout_db
        split: option.splits db_error.splits)
  with r show ?thesis by simp
next
  case (Inr db1)
  have "st_find S db (s_id data) = None" "\<And>k. s_idempotency_key data = Some k \<Longrightarrow> st_find_key S db k = None"
    using create_conflict [OF inv, of data] Inr by fastforce+
  from create_fresh [OF inv this] Inr r \<open>st_find S db (s_id data) = None\<close>
  have "st_find S db1 i = Some r" by (auto split: if_splits)
  with r show ?thesis
    by (auto simp: create_settlement_with_unique_guard_def with_query_timeout_db Inr
        split: option.splits db_error.splits)
qed

lemma key_preserving_bump [simp]: "key_preserving bump"
  by (simp add: key_preserving_def)

lemma lock_db:
  "fst (update_settlement_with_optimistic_lock S flt db i k u) =
     (if flt SetTimeout = None
      then fst (guarded_update_many S flt db (\<lambda>r. s_id r = i \<and> s_version r = k) u bump) else db)"
  by (auto simp: optimistic_update_between_def with_query_timeout_db
      split: prod.splits sum.splits option.splits)

lemma lock_moves:
  assumes "invar db" "up_status u \<noteq> Some []"
  shows "invar (fst (update_settlement_with_optimistic_lock S flt db i k u)) \<and>
    table_moves S db (fst (update_settlement_with_optimistic_lock S flt db i k u))"
  using guarded_update_many_moves [OF assms(1) key_preserving_bump _ _ assms(2)] assms(1)
  by (simp add: lock_db)

lemma lock_ok:
  assumes inv: "invar db"
    and run: "update_settlement_with_optimistic_lock S flt db i k u = (db', Inr x)"
  obtains r where "st_find S db i = Some r" "s_version r = k" "x = bump (apply_update u r)"
    "status_allowed u r" "st_find S db' i = Some x" "\<And>j. j \<noteq> i \<Longrightarrow> st_find S db' j = st_find S db j"
proof -
  let ?P = "\<lambda>r. s_id r = i \<and> s_version r = k"
  obtain db1 res where g: "guarded_update_many S flt db ?P u bump = (db1, res)" by fastforce
  from with_query_timeout_ok [OF run [unfolded optimistic_update_between_def]]
  obtain n where n: "res = Inr n" "n \<noteq> 0" "st_find S db1 i = Some x" "db1 = db'"
    by (auto simp: g split: sum.splits if_splits option.splits)
  from guarded_update_many_cases [OF inv key_preserving_bump g]
  have c: "n = card {r. ?P r \<and> (\<exists>j. st_find S db j = Some r)}"
    "st_find S db' = (\<lambda>j. map_option (\<lambda>r. if ?P r then bump (apply_update u r) else r) (st_find S db j))"
    "\<forall>j r. st_find S db j = Some r \<longrightarrow> ?P r \<longrightarrow> status_allowed u r"
    using n by auto
  have "{r. ?P r \<and> (\<exists>j. st_find S db j = Some r)} \<noteq> {}"
    using n(2) c(1) by (metis card.empty)
  then obtain r where r: "s_id r = i" "s_version r = k" "st_find S db i = Some r"
    using find_id [OF inv] by fastforce
  show thesis
  proof (rule that [of r])
    show "st_find S db' j = st_find S db j" if "j \<noteq> i" for j
      using that c(2) find_id [OF inv, of j] by (cases "st_find S db j") auto
  qed (use r c n in auto)
qed

end

subsection \<open>Sequences of writes\<close>

text \<open>
  Any interleaving of client operations by any number of workers and handlers, as the order
  in which the database executes them. Each operation carries its own faults.
\<close>

datatype client_op =
    CreateOp faults settlement
  | UpdateOp faults string settlement_update
  | UpdateManyOp faults "settlement \<Rightarrow> bool" settlement_update
  | LockOp faults string nat settlement_update

fun exec_op :: "'db store_ops \<Rightarrow> client_op \<Rightarrow> 'db \<Rightarrow> 'db \<times> bool" where
  "exec_op S (CreateOp flt data) db =
     (case create_settlement_with_unique_guard S flt db data of (db', res) \<Rightarrow> (db', is_ok res))"
| "exec_op S (UpdateOp flt i u) db = (case guarded_update S flt db i u of (db', res) \<Rightarrow> (db', is_ok res))"
| "exec_op S (UpdateManyOp flt P u) db =
     (case guarded_update_many S flt db P u id of (db', res) \<Rightarrow> (db', is_ok res))"
| "exec_op S (LockOp flt i k u) db =
     (case update_settlement_with_optimistic_lock S flt db i k u of (db', res) \<Rightarrow> (db', is_ok res))"

fun exec_ops :: "'db store_ops \<Rightarrow> client_op list \<Rightarrow> 'db \<Rightarrow> 'db \<times> bool list" where
  "exec_ops S [] db = (db, [])"
| "exec_ops S (op # ops) db =
     (case exec_op S op db of (db1, ok) \<Rightarrow> case exec_ops S ops db1 of (db2, oks) \<Rightarrow> (db2, ok # oks))"

text \<open>No operation writes the empty status (the schema's statuses are not empty).\<close>

fun op_status_ok :: "client_op \<Rightarrow> bool" where
  "op_status_ok (CreateOp flt data) = True"
| "op_status_ok (UpdateOp flt i u) = (up_status u \<noteq> Some [])"
| "op_status_ok (UpdateManyOp flt P u) = (up_status u \<noteq> Some [])"
| "op_status_ok (LockOp flt i k u) = (up_status u \<noteq> Some [])"

fun is_lock :: "string \<Rightarrow> nat \<Rightarrow> client_op \<Rightarrow> bool" where
  "is_lock i k (LockOp flt j l u) = (j = i \<and> l = k)"
| "is_lock i k _ = False"

definition wins :: "'db store_ops \<Rightarrow> string \<Rightarrow> nat \<Rightarrow> client_op list \<Rightarrow> 'db \<Rightarrow> nat" where
  "wins S i k ops db =
     length (filter (\<lambda>(op, ok). is_lock i k op \<and> ok) (zip ops (snd (exec_ops S ops db))))"

context settlement_store
begin

lemma exec_op_moves:
  assumes "invar db" "op_status_ok op"
  shows "invar (fst (exec_op S op db)) \<and> table_moves S db (fst (exec_op S op db))"
proof (cases op)
  case (CreateOp flt data)
  with create_guard_moves [OF assms(1), of flt data] show ?thesis by (auto split: prod.splits)
next
  case (UpdateOp flt i u)
  with guarded_update_moves [OF assms(1), of u flt i] assms(2) show ?thesis by (auto split: prod.splits)
next
  case (UpdateManyOp flt P u)
  with guarded_update_many_moves [OF assms(1), of id u flt P] assms(2) show ?thesis
    by (auto simp: key_preserving_def split: prod.splits)
next
  case (LockOp flt i k u)
  with lock_moves [OF assms(1), of u flt i k] assms(2) show ?thesis by (auto split: prod.splits)
qed

lemma exec_ops_moves:
  "invar db \<Longrightarrow> list_all op_status_ok ops \<Longrightarrow>
   invar (fst (exec_ops S ops db)) \<and> table_moves S db (fst (exec_ops S ops db))"
proof (induction ops arbitrary: db)
  case Nil
  then show ?case by simp
next
  case (Cons op ops)
  let ?db1 = "fst (exec_op S op db)"
  have m: "invar ?db1" "table_moves S db ?db1" using exec_op_moves Cons.prems by auto
  with Cons.IH [of ?db1] Cons.prems show ?case
    by (auto split: prod.splits intro: table_moves_trans)
qed

text \<open>A lock with an old version never succeeds again.\<close>

lemma stale_lock_fails:
  assumes "invar db" "st_find S db i = Some r" "k < s_version r" "is_lock i k op"
  shows "\<not> snd (exec_op S op db)"
proof (cases op)
  case (LockOp flt j l u)
  with assms have op: "op = LockOp flt i k u" by simp
  show ?thesis
  proof
    assume "snd (exec_op S op db)"
    then obtain db' x where "update_settlement_with_optimistic_lock S flt db i k u = (db', Inr x)"
      by (auto simp: op is_ok_def split: prod.splits sum.splits)
    then show False using lock_ok [OF assms(1)] assms(2,3) by (metis option.inject less_irrefl)
  qed
qed (use assms in auto)

lemma wins_Cons:
  "wins S i k (op # ops) db =
     (if is_lock i k op \<and> snd (exec_op S op db) then 1 else 0) + wins S i k ops (fst (exec_op S op db))"
  by (auto simp: wins_def split: prod.splits)

lemma wins_stale:
  "invar db \<Longrightarrow> list_all op_status_ok ops \<Longrightarrow> st_find S db i = Some r \<Longrightarrow> k < s_version r \<Longrightarrow>
   wins S i k ops db = 0"
proof (induction ops arbitrary: db r)
  case Nil
  then show ?case by (simp add: wins_def)
next
  case (Cons op ops)
  let ?db1 = "fst (exec_op S op db)"
  have m: "invar ?db1" "table_moves S db ?db1" using exec_op_moves Cons.prems by auto
  then obtain r' where "st_find S ?db1 i = Some r'" "s_version r \<le> s_version r'"
    using Cons.prems(3) by (auto simp: table_moves_def row_moves_def)
  with Cons m have "wins S i k ops ?db1 = 0" by auto
  then show ?case using stale_lock_fails [OF Cons.prems(1,3,4)] by (auto simp: wins_Cons)
qed

lemma wins_at_most_one:
  "invar db \<Longrightarrow> list_all op_status_ok ops \<Longrightarrow> wins S i k ops db \<le> 1"
proof (induction ops arbitrary: db)
  case Nil
  then show ?case by (simp add: wins_def)
next
  case (Cons op ops)
  let ?db1 = "fst (exec_op S op db)"
  have m: "invar ?db1" using exec_op_moves Cons.prems by auto
  show ?case
  proof (cases "is_lock i k op \<and> snd (exec_op S op db)")
    case True
    then obtain flt u db' x where "op = LockOp flt i k u" and
      run: "update_settlement_with_optimistic_lock S flt db i k u = (db', Inr x)" and db': "?db1 = db'"
      by (cases op) (auto simp: is_ok_def split: prod.splits sum.splits)
    obtain r where "s_version r = k" "x = bump (apply_update u r)" "st_find S db' i = Some x"
      by (rule lock_ok [OF Cons.prems(1) run])
    then have "st_find S ?db1 i = Some x" "k < s_version x" by (simp_all add: db')
    with wins_stale [OF m] Cons.prems show ?thesis by (simp add: wins_Cons)
  next
    case False
    with Cons m show ?thesis by (auto simp: wins_Cons)
  qed
qed

lemma create_guard_idempotent:
  assumes inv: "invar db" and i: "s_id data \<noteq> []" and k: "s_idempotency_key data \<noteq> Some []"
  obtains db' r where
    "create_settlement_with_unique_guard S no_faults db data = (db', Inr r)"
    "create_settlement_with_unique_guard S no_faults db' data = (db', Inr r)"
    "invar db'" "st_find S db' (s_id r) = Some r"
    "st_find S db' = (st_find S db)(s_id r \<mapsto> r)"
    "s_id r = s_id data \<or> (s_idempotency_key r = s_idempotency_key data \<and> s_idempotency_key data \<noteq> None)"
proof -
  let ?confl = "\<lambda>db. st_find S db (s_id data) \<noteq> None \<or>
      (\<exists>k. s_idempotency_key data = Some k \<and> st_find_key S db k \<noteq> None)"
  let ?winner = "\<lambda>db. case st_find S db (s_id data) of Some r \<Rightarrow> r
      | None \<Rightarrow> the (st_find_key S db (the (s_idempotency_key data)))"
  have confl: "create_settlement_with_unique_guard S no_faults db data = (db, Inr (?winner db))"
    if "invar db" "?confl db" for db
    using create_conflict [OF that] that(2) i k
    by (auto simp: create_settlement_with_unique_guard_def with_query_timeout_def existing_settlement_def
        split: option.splits)
  have stored: "st_find S db (s_id (?winner db)) = Some (?winner db) \<and>
      (s_id (?winner db) = s_id data \<or>
       (s_idempotency_key (?winner db) = s_idempotency_key data \<and> s_idempotency_key data \<noteq> None))"
    if "invar db" "?confl db" for db
    using that find_id [OF that(1)] find_key [OF that(1)] by (fastforce split: option.splits)
  show thesis
  proof (cases "?confl db")
    case True
    show ?thesis
      using stored [OF inv True]
      by (intro that [OF confl [OF inv True] confl [OF inv True] inv]) (auto simp: fun_upd_idem)
  next
    case False
    then obtain db1 where db1: "st_create S db data = Inr db1" "invar db1"
      "st_find S db1 = (st_find S db)(s_id data \<mapsto> data)"
      using create_fresh [OF inv, of data] by blast
    have "create_settlement_with_unique_guard S no_faults db data = (db1, Inr data)"
      by (simp add: create_settlement_with_unique_guard_def with_query_timeout_def db1(1))
    moreover have "create_settlement_with_unique_guard S no_faults db1 data = (db1, Inr data)"
      using confl [OF db1(2)] by (simp add: db1(3))
    ultimately show ?thesis using db1 by (intro that) auto
  qed
qed

end

subsection \<open>The status route of the gateway (\<open>api-gateway/src/index.ts\<close>)\<close>

text \<open>
  The gateway has a Prisma client without the guard: its route reads the settlement, checks the
  transition and then updates by id. \<open>env\<close> is what other requests write in between.
\<close>

datatype patch_answer =
    SettlementMissing
  | TransitionRefused string string
  | SettlementPatched settlement
  | PatchFailed adapter_error

definition patch_update :: "string \<Rightarrow> int \<Rightarrow> settlement_update" where
  "patch_update status now = no_update \<lparr> up_status := Some status,
     up_completed_at := (if status = ''completed'' \<or> status = ''failed'' then Some now else None) \<rparr>"

definition patch_settlement_status ::
  "'db store_ops \<Rightarrow> faults \<Rightarrow> ('db \<Rightarrow> 'db) \<Rightarrow> string \<Rightarrow> string \<Rightarrow> int \<Rightarrow> 'db \<Rightarrow> 'db \<times> patch_answer" where
  "patch_settlement_status S flt env i status now db =
     (case faulty flt FindById (st_find S db i) of
        Inl e \<Rightarrow> (env db, PatchFailed e)
      | Inr None \<Rightarrow> (env db, SettlementMissing)
      | Inr (Some r) \<Rightarrow>
          if \<not> is_valid_transition settlement_status_transitions (s_status r) status
          then (env db, TransitionRefused (s_status r) status)
          else (case update_write S flt (env db) i (patch_update status now) of
              (db', Inr r') \<Rightarrow> (db', SettlementPatched r')
            | (db', Inl e) \<Rightarrow> (db', PatchFailed e)))"

subsection \<open>Interleaved reads and writes\<close>

text \<open>
  The requests of any number of workers and handlers: each begins by the read of its guard and
  ends by its write, and any steps of others run between the two. \<open>seen\<close> is the table the guard
  of a request has read. A creation is one query, as is the update of the settlements of a
  deleted merchant.
\<close>

datatype table_request =
    EngineWrite client_op
  | StatusPatch faults string string int
  | MerchantCascade string int

definition cascade_settlements :: "'db store_ops \<Rightarrow> string \<Rightarrow> int \<Rightarrow> 'db \<Rightarrow> 'db" where
  "cascade_settlements S m now db =
     fst (st_update_many S db (\<lambda>r. s_merchant_id r = m \<and> s_status r = ''pending'')
       (apply_update (patch_update ''failed'' now)))"

fun finish :: "'db store_ops \<Rightarrow> table_request \<Rightarrow> 'db \<Rightarrow> 'db \<Rightarrow> 'db" where
  "finish S (EngineWrite (CreateOp flt data)) seen db = fst (create_settlement_with_unique_guard S flt db data)"
| "finish S (EngineWrite (UpdateOp flt i u)) seen db = fst (guarded_update_between S flt (\<lambda>_. db) seen i u)"
| "finish S (EngineWrite (UpdateManyOp flt P u)) seen db =
     fst (guarded_update_many_between S flt (\<lambda>_. db) seen P u id)"
| "finish S (EngineWrite (LockOp flt i k u)) seen db =
     (if flt SetTimeout = None then fst (optimistic_update_between S flt (\<lambda>_. db) seen i k u) else db)"
| "finish S (StatusPatch flt i status now) seen db = fst (patch_settlement_status S flt (\<lambda>_. db) i status now seen)"
| "finish S (MerchantCascade m now) seen db = cascade_settlements S m now db"

abbreviation table_steps :: "'db store_ops \<Rightarrow> table_request traffic_event list \<Rightarrow> (table_request, 'db) traffic \<Rightarrow> (table_request, 'db) traffic" where
  "table_steps S \<equiv> traffic_run (finish S)"

text \<open>The rows a request writes, and the runs in which it still finds them as its guard read them.\<close>

fun writes_row :: "table_request \<Rightarrow> settlement \<Rightarrow> bool" where
  "writes_row (EngineWrite (CreateOp flt data)) r = False"
| "writes_row (EngineWrite (UpdateOp flt i u)) r = (s_id r = i)"
| "writes_row (EngineWrite (UpdateManyOp flt P u)) r = P r"
| "writes_row (EngineWrite (LockOp flt i k u)) r = (s_id r = i \<and> s_version r = k)"
| "writes_row (StatusPatch flt i status now) r = (s_id r = i)"
| "writes_row (MerchantCascade m now) r = False"

definition finds_row :: "'db store_ops \<Rightarrow> string \<Rightarrow> table_request \<Rightarrow> 'db \<Rightarrow> 'db \<Rightarrow> bool" where
  "finds_row S i q seen db = (case st_find S db i of
     None \<Rightarrow> True | Some r \<Rightarrow> \<not> writes_row q r \<or> st_find S seen i = Some r)"

fun request_status_ok :: "table_request \<Rightarrow> bool" where
  "request_status_ok (EngineWrite op) = op_status_ok op"
| "request_status_ok (StatusPatch flt i status now) = True"
| "request_status_ok (MerchantCascade m now) = True"

context settlement_store
begin

text \<open>What a write does to a stored row, when it does not fail.\<close>

definition row_effect :: "(settlement \<Rightarrow> bool) \<Rightarrow> (settlement \<Rightarrow> settlement) \<Rightarrow> 'db \<Rightarrow> 'db \<Rightarrow> bool" where
  "row_effect P f db db' \<longleftrightarrow> invar db' \<and>
     (\<forall>j r. st_find S db j = Some r \<longrightarrow> st_find S db' j = Some (if P r then f r else r))"

lemma row_effect_same: "invar db \<Longrightarrow> row_effect (\<lambda>_. False) id db db"
  by (simp add: row_effect_def)

lemma row_effect_update_many:
  assumes "invar db" "key_preserving f"
  shows "row_effect P f db (fst (st_update_many S db P f))"
  using update_many [OF assms, of P] by (auto simp: row_effect_def)

lemma update_write_effect:
  assumes "invar db"
  shows "row_effect (\<lambda>_. False) id db (fst (update_write S flt db i u)) \<or>
    row_effect (\<lambda>r. s_id r = i) (apply_update u) db (fst (update_write S flt db i u))"
  using row_effect_update_many [OF assms key_preserving_apply_update, of "\<lambda>r. s_id r = i" u] row_effect_same [OF assms]
  by (auto simp: update_write_def split: option.splits prod.splits)

lemma update_many_write_effect:
  assumes "invar db" "key_preserving post"
  shows "row_effect (\<lambda>_. False) id db (fst (update_many_write S flt db P u post)) \<or>
    row_effect P (\<lambda>r. post (apply_update u r)) db (fst (update_many_write S flt db P u post))"
proof -
  have "key_preserving (\<lambda>r. post (apply_update u r))" using assms(2) by (simp add: key_preserving_def)
  from row_effect_update_many [OF assms(1) this, of P] row_effect_same [OF assms(1)] show ?thesis
    by (auto simp: update_many_write_def split: option.splits prod.splits)
qed

lemma update_guard_allows:
  "update_guard S flt seen i u = Inr x \<Longrightarrow> st_find S seen i = Some r \<Longrightarrow> status_allowed u r"
  by (auto simp: update_guard_def status_allowed_def faulty_def result_bind_def
      split: option.splits if_splits sum.splits)

lemma update_many_guard_allows:
  assumes "invar seen" "update_many_guard S flt seen P u = Inr x" "st_find S seen i = Some r" "P r"
  shows "status_allowed u r"
  using assms(2-4) find_many_any [OF assms(1), of P]
  by (auto simp: update_many_guard_def status_allowed_def faulty_def result_bind_def validate_all_ok
      split: option.splits if_splits sum.splits)

definition row_may :: "table_request \<Rightarrow> 'db \<Rightarrow> settlement \<Rightarrow> settlement \<Rightarrow> bool" where
  "row_may q seen r r' \<longleftrightarrow> s_version r \<le> s_version r' \<and>
     ((writes_row q r \<longrightarrow> st_find S seen (s_id r) = Some r) \<longrightarrow>
        status_step settlement_status_transitions (s_status r) (s_status r'))"

lemma row_may_same [simp]: "row_may q seen r r"
  by (simp add: row_may_def status_step.stay)

text \<open>The one lemma on the end of a request: what it may do to any stored row.\<close>

lemma finish_effect:
  assumes inv: "invar seen" "invar db" and ok: "request_status_ok q" and r: "st_find S db i = Some r"
  shows "invar (finish S q seen db) \<and> (\<exists>r'. st_find S (finish S q seen db) i = Some r' \<and> row_may q seen r r')"
proof -
  have i: "s_id r = i" using find_id [OF inv(2) r] .
  have effect: "invar db' \<and> (\<exists>r'. st_find S db' i = Some r' \<and> row_may q seen r r')"
    if "row_effect (\<lambda>_. False) id db db' \<or> row_effect P f db db'" and "P r \<Longrightarrow> row_may q seen r (f r)" for P f db'
    using that r by (cases "P r") (auto simp: row_effect_def)
  have wr: "row_may q seen r r'"
    if "writes_row q r" "up_status u \<noteq> Some []" "s_version r \<le> s_version r'" "s_status r' = s_status (apply_update u r)"
      "st_find S seen i = Some r \<Longrightarrow> status_allowed u r" for u r'
    using that apply_update_step [of u r] i by (simp add: row_may_def)
  show ?thesis
  proof (cases q)
    case (EngineWrite op)
    show ?thesis
    proof (cases op)
      case (CreateOp flt data)
      have "fst (create_settlement_with_unique_guard S flt db data) = db \<or>
          st_find S (fst (create_settlement_with_unique_guard S flt db data)) i = Some r"
        using create_guard_find [OF inv(2)] r by metis
      with create_guard_moves [OF inv(2), of flt data] EngineWrite CreateOp r show ?thesis by auto
    next
      case (UpdateOp flt j u)
      have q: "q = EngineWrite (UpdateOp flt j u)" using EngineWrite UpdateOp by simp
      show ?thesis
      proof (cases "update_guard S flt seen j u")
        case (Inr x)
        have "row_may q seen r (apply_update u r)" if "s_id r = j"
          using that ok q update_guard_allows [OF Inr] i by (intro wr [where u = u]) auto
        from effect [OF update_write_effect [OF inv(2), of flt j u] this] show ?thesis
          by (simp add: q guarded_update_between_def Inr)
      qed (use inv r in \<open>simp add: q guarded_update_between_def\<close>)
    next
      case (UpdateManyOp flt P u)
      have q: "q = EngineWrite (UpdateManyOp flt P u)" using EngineWrite UpdateManyOp by simp
      show ?thesis
      proof (cases "update_many_guard S flt seen P u")
        case (Inr x)
        have "row_may q seen r (id (apply_update u r))" if "P r"
          using that ok q update_many_guard_allows [OF inv(1) Inr] i by (intro wr [where u = u]) auto
        from effect [OF update_many_write_effect [OF inv(2), of id flt P u] this] show ?thesis
          by (simp add: q guarded_update_many_between_def Inr key_preserving_def)
      qed (use inv r in \<open>simp add: q guarded_update_many_between_def\<close>)
    next
      case (LockOp flt j k u)
      have q: "q = EngineWrite (LockOp flt j k u)" using EngineWrite LockOp by simp
      let ?P = "\<lambda>r. s_id r = j \<and> s_version r = k"
      show ?thesis
      proof (cases "flt SetTimeout = None")
        case True
        have fin: "finish S q seen db = fst (guarded_update_many_between S flt (\<lambda>_. db) seen ?P u bump)"
          by (auto simp: q True optimistic_update_between_def with_query_timeout_db split: prod.splits sum.splits option.splits)
        show ?thesis
        proof (cases "update_many_guard S flt seen ?P u")
          case (Inr x)
          have "row_may q seen r (bump (apply_update u r))" if "?P r"
            using that ok q update_many_guard_allows [OF inv(1) Inr] i by (intro wr [where u = u]) auto
          from effect [OF update_many_write_effect [OF inv(2) key_preserving_bump, of flt ?P u] this] show ?thesis
            by (simp add: fin guarded_update_many_between_def Inr)
        qed (use inv r in \<open>simp add: fin guarded_update_many_between_def\<close>)
      qed (use inv r in \<open>simp add: q del: not_None_eq\<close>)
    qed
  next
    case (StatusPatch flt j status now)
    show ?thesis
    proof (cases "\<exists>x. faulty flt FindById (st_find S seen j) = Inr (Some x) \<and>
        is_valid_transition settlement_status_transitions (s_status x) status")
      case True
      then obtain x where x: "faulty flt FindById (st_find S seen j) = Inr (Some x)"
        "is_valid_transition settlement_status_transitions (s_status x) status" by blast
      then have fin: "finish S q seen db = fst (update_write S flt db j (patch_update status now))"
        by (auto simp: StatusPatch patch_settlement_status_def split: prod.splits sum.splits)
      have "st_find S seen j = Some x" using x(1) by (auto simp: faulty_def split: option.splits)
      then have "row_may q seen r (apply_update (patch_update status now) r)" if "s_id r = j"
        using that i x(2) StatusPatch
        by (auto simp: row_may_def apply_update_status patch_update_def no_update_def intro: status_step.move)
      from effect [OF update_write_effect [OF inv(2), of flt j "patch_update status now"] this] show ?thesis
        by (simp add: fin)
    next
      case False
      then have "finish S q seen db = db"
        by (auto simp: StatusPatch patch_settlement_status_def split: sum.splits option.splits)
      with inv r show ?thesis by simp
    qed
  next
    case (MerchantCascade m now)
    have "row_may q seen r (apply_update (patch_update ''failed'' now) r)" if "s_merchant_id r = m \<and> s_status r = ''pending''"
      using that by (auto simp: row_may_def apply_update_status patch_update_def no_update_def settlement_transitions
          intro: status_step.move)
    from effect [OF disjI2 [OF row_effect_update_many [OF inv(2) key_preserving_apply_update]] this] MerchantCascade
    show ?thesis by (simp add: cascade_settlements_def)
  qed
qed

lemma table_steps_row:
  assumes "invar db" "list_all (event_ok request_status_ok) xs" "st_find S db i = Some r"
  shows "\<exists>r'. st_find S (fst (table_steps S xs (db, Map.empty))) i = Some r' \<and> s_version r \<le> s_version r' \<and>
    (undisturbed (finish S) (finds_row S i) xs (db, Map.empty) \<longrightarrow>
       status_reach settlement_status_transitions (s_status r) (s_status r'))"
proof (rule traffic_run_row [where row = "\<lambda>db r. st_find S db i = Some r" and invar = invar and ok = request_status_ok
    and same = "\<lambda>r q seen db. st_find S db i = Some r \<and> finds_row S i q seen db"])
  fix q seen d r
  assume pre: "invar seen" "invar d" "request_status_ok q" "st_find S d i = Some r"
  note id = find_id [OF pre(2,4)]
  from finish_effect [OF pre] obtain r1 where
    "invar (finish S q seen d)" "st_find S (finish S q seen d) i = Some r1" "row_may q seen r r1" by blast
  then show "invar (finish S q seen d) \<and> (\<exists>r'. st_find S (finish S q seen d) i = Some r' \<and> s_version r \<le> s_version r' \<and>
      (st_find S d i = Some r \<and> finds_row S i q seen d \<longrightarrow>
        status_reach settlement_status_transitions (s_status r) (s_status r')))"
    using id pre(4) by (auto simp: row_may_def finds_row_def intro: status_reach_one)
qed (use assms in \<open>auto intro: status_reach.refl status_reach_trans order.trans\<close>)

end

subsection \<open>Properties\<close>

text \<open>
  C5: creation is idempotent and never fails on a race: without database faults
  \<open>createSettlementWithUniqueGuard\<close> always returns a settlement, the returned row is the
  one stored and carries the requested id or idempotency key, at most this row is added to the
  table and no other row changes, and a repetition (the losing racer) returns the same row and
  changes nothing.
\<close>

theorem create_guard_is_idempotent:
  assumes "settlement_store S invar" "invar db"
    and "s_id data \<noteq> []" "s_idempotency_key data \<noteq> Some []"
  shows "\<exists>db' r. create_settlement_with_unique_guard S no_faults db data = (db', Inr r) \<and>
    create_settlement_with_unique_guard S no_faults db' data = (db', Inr r) \<and>
    st_find S db' = (st_find S db)(s_id r \<mapsto> r) \<and>
    (s_id r = s_id data \<or>
      (s_idempotency_key r = s_idempotency_key data \<and> s_idempotency_key data \<noteq> None))"
  using settlement_store.create_guard_idempotent [OF assms] by metis

definition sample_settlement :: "string \<Rightarrow> string option \<Rightarrow> settlement" where
  "sample_settlement i k = \<lparr> s_id = i, s_merchant_id = ''m1'', s_total_amount = ''10'', s_gross_amount = ''10'',
     s_fee_amount = ''1'', s_net_amount = ''9'', s_fee_bps = 1000, s_asset = ''USDC'',
     s_status = ''pending'', s_webhook_url = None, s_webhook_headers = None, s_batch_id = None,
     s_initiated_at = 0, s_completed_at = None, s_idempotency_key = k,
     s_idempotency_key_expires_at = None, s_fee_snapshot = None, s_superseded_by = None, s_version = 0 \<rparr>"

definition sample_table :: table where
  "sample_table = [sample_settlement ''s1'' (Some ''k1''), sample_settlement ''s2'' None]"

lemma sample_table_ok [simp]: "tab_invar sample_table"
  by (simp add: tab_invar_def sample_table_def sample_settlement_def)

theorem create_guard_is_idempotent_witness:
  "\<exists>db' r. create_settlement_with_unique_guard tab_ops no_faults sample_table
        (sample_settlement ''s9'' (Some ''k1'')) = (db', Inr r) \<and>
     create_settlement_with_unique_guard tab_ops no_faults db'
        (sample_settlement ''s9'' (Some ''k1'')) = (db', Inr r)"
  using create_guard_is_idempotent
    [OF tab.settlement_store_axioms sample_table_ok, of "sample_settlement ''s9'' (Some ''k1'')"]
  by (auto simp: sample_settlement_def)

text \<open>
  C5: Whatever reads and writes of the settlement table the workers, the handlers of the engine
  and the routes of the gateway interleave, in whatever order and with whatever database
  faults, a stored settlement is never lost and its version never decreases. Its status moves
  only along accepted transitions (so \<open>completed\<close> and \<open>failed\<close> are final) as long as every
  request that writes the row finds it as its guard has read it: the guard and the query are
  two round trips, and \<open>guard_race\<close> below shows what happens otherwise.
\<close>

theorem client_writes_sound:
  assumes "settlement_store S invar" "invar db" "list_all (event_ok request_status_ok) xs"
    and "st_find S db i = Some r"
  shows "\<exists>r'. st_find S (fst (table_steps S xs (db, Map.empty))) i = Some r' \<and> s_version r \<le> s_version r' \<and>
    (undisturbed (finish S) (finds_row S i) xs (db, Map.empty) \<longrightarrow>
       status_reach settlement_status_transitions (s_status r) (s_status r') \<and>
       (s_status r \<in> {''completed'', ''failed''} \<longrightarrow> s_status r' = s_status r))"
proof -
  from settlement_store.table_steps_row [OF assms] obtain r' where
    "st_find S (fst (table_steps S xs (db, Map.empty))) i = Some r'" "s_version r \<le> s_version r'"
    "undisturbed (finish S) (finds_row S i) xs (db, Map.empty) \<longrightarrow> status_reach settlement_status_transitions (s_status r) (s_status r')"
    by blast
  moreover have "s_status r' = s_status r"
    if "status_reach settlement_status_transitions (s_status r) (s_status r')" "s_status r \<in> {''completed'', ''failed''}"
    using that terminal_reach [of settlement_status_transitions "s_status r"] by (auto simp: terminal_settlement)
  ultimately show ?thesis by blast
qed

definition status_write :: "string \<Rightarrow> settlement_update" where
  "status_write s = no_update \<lparr> up_status := Some s \<rparr>"

definition sample_ops :: "client_op list" where
  "sample_ops = [UpdateOp no_faults ''s1'' (status_write ''processing''),
     LockOp no_faults ''s1'' 0 (no_update \<lparr> up_superseded_by := Some ''s2'' \<rparr>),
     LockOp no_faults ''s1'' 0 (no_update \<lparr> up_superseded_by := Some ''s3'' \<rparr>),
     UpdateOp no_faults ''s1'' (status_write ''completed''),
     UpdateOp no_faults ''s1'' (status_write ''failed'')]"

lemma sample_ops_ok [simp]: "list_all op_status_ok sample_ops"
  by (simp add: sample_ops_def status_write_def no_update_def)

text \<open>A worker and the status route overlap, and the settlement the worker completes next.\<close>

definition sample_steps :: "table_request traffic_event list" where
  "sample_steps = [Begin 1 (EngineWrite (UpdateOp no_faults ''s1'' (status_write ''processing''))),
     Begin 2 (StatusPatch no_faults ''s2'' ''failed'' 7), Finish 1, Finish 2,
     Begin 1 (EngineWrite (UpdateOp no_faults ''s1'' (status_write ''completed''))), Finish 1,
     Begin 3 (StatusPatch no_faults ''s1'' ''failed'' 8), Finish 3]"

theorem client_writes_sound_witness:
  "status_reach settlement_status_transitions ''pending''
     (s_status (the (st_find tab_ops (fst (table_steps tab_ops sample_steps (sample_table, Map.empty))) ''s1'')))"
proof -
  have ok: "list_all (event_ok request_status_ok) sample_steps"
    by (simp add: sample_steps_def status_write_def no_update_def)
  have u: "undisturbed (finish tab_ops) (finds_row tab_ops ''s1'') sample_steps (sample_table, Map.empty)" by code_simp
  have f: "st_find tab_ops sample_table ''s1'' = Some (sample_settlement ''s1'' (Some ''k1''))"
    by (simp add: sample_table_def sample_settlement_def tab_ops_def)
  show ?thesis
    using client_writes_sound [OF tab.settlement_store_axioms sample_table_ok ok f] u
    by (auto simp: sample_settlement_def)
qed

text \<open>
  Two requests that read the guard of one processing settlement before either writes: the one
  that writes last wins, and a completed settlement becomes failed.
\<close>

lemma guard_race:
  "let st = table_steps tab_ops [Begin 1 (EngineWrite (UpdateOp no_faults ''s1'' (status_write ''processing''))), Finish 1,
        Begin 1 (EngineWrite (UpdateOp no_faults ''s1'' (status_write ''completed''))),
        Begin 2 (StatusPatch no_faults ''s1'' ''failed'' 8), Finish 1] (sample_table, Map.empty)
   in map_option s_status (st_find tab_ops (fst st) ''s1'') = Some ''completed'' \<and>
      map_option s_status (st_find tab_ops (fst (table_steps tab_ops [Finish 2] st)) ''s1'') = Some ''failed''"
  by code_simp



text \<open>
  a successful optimistic update has applied exactly the requested data to the row with
  the expected version and incremented the version, changing no other row.
\<close>

theorem optimistic_lock_effect:
  assumes "settlement_store S invar" "invar db"
    and "update_settlement_with_optimistic_lock S flt db i k u = (db', Inr x)"
  shows "\<exists>r. st_find S db i = Some r \<and> s_version r = k \<and>
    x = (apply_update u r)\<lparr> s_version := k + 1 \<rparr> \<and> st_find S db' = (st_find S db)(i \<mapsto> x)"
proof -
  obtain r where r: "st_find S db i = Some r" "s_version r = k" "x = bump (apply_update u r)"
    "st_find S db' i = Some x" "\<And>j. j \<noteq> i \<Longrightarrow> st_find S db' j = st_find S db j"
    by (rule settlement_store.lock_ok [OF assms]) blast
  then have "st_find S db' = (st_find S db)(i \<mapsto> x)" by (auto simp: fun_eq_iff)
  with r show ?thesis by (auto simp: bump_def)
qed

theorem optimistic_lock_effect_witness:
  "\<exists>x. snd (update_settlement_with_optimistic_lock tab_ops no_faults sample_table ''s1'' 0
       (status_write ''failed'')) = Inr x \<and> s_version x = 1 \<and> s_status x = ''failed''"
proof -
  let ?run = "update_settlement_with_optimistic_lock tab_ops no_faults sample_table ''s1'' 0
       (status_write ''failed'')"
  have "is_ok (snd ?run) \<and> map_option s_status (st_find tab_ops (fst ?run) ''s1'') = Some ''failed''"
    by code_simp
  then obtain db' x where run: "?run = (db', Inr x)" "map_option s_status (st_find tab_ops db' ''s1'') = Some ''failed''"
    by (cases ?run) (auto simp: is_ok_def split: sum.splits)
  from optimistic_lock_effect [OF tab.settlement_store_axioms sample_table_ok run(1)] run
  show ?thesis by auto
qed

end
