(* ===== verification/RedisSemaphore.thy ===== *)
theory RedisSemaphore
  imports JsNumber
begin

section \<open>The per-merchant semaphore (\<open>redis-semaphore.ts\<close>)\<close>

text \<open>
  The three Lua scripts over a Redis sorted set, the functions that run them, the heartbeat,
  and the invariant that at most \<open>maxConcurrent\<close> slots of a merchant are held.

  Redis is not part of the repository: its commands are the parameter \<open>'r redis_ops\<close>, and
  the locale \<open>redis_zsets\<close> states what their documentation says. \<open>r_advance\<close> is the
  passing of time on the server, in milliseconds, which expires keys. Scripts are atomic.
\<close>

record 'r redis_ops =
  z_remrangebyscore :: "'r \<Rightarrow> string \<Rightarrow> int \<Rightarrow> int \<Rightarrow> 'r"
  z_card :: "'r \<Rightarrow> string \<Rightarrow> nat"
  z_add :: "'r \<Rightarrow> string \<Rightarrow> int \<Rightarrow> string \<Rightarrow> 'r"
  z_score :: "'r \<Rightarrow> string \<Rightarrow> string \<Rightarrow> int option"
  z_rem :: "'r \<Rightarrow> string \<Rightarrow> string \<Rightarrow> 'r \<times> nat"
  r_expire :: "'r \<Rightarrow> string \<Rightarrow> nat \<Rightarrow> 'r"
  r_del :: "'r \<Rightarrow> string \<Rightarrow> 'r"
  r_advance :: "'r \<Rightarrow> nat \<Rightarrow> 'r"

definition drop_range :: "int \<Rightarrow> int \<Rightarrow> (string \<rightharpoonup> int) \<Rightarrow> (string \<rightharpoonup> int)" where
  "drop_range lo hi f = (\<lambda>m. case f m of Some s \<Rightarrow> if lo \<le> s \<and> s \<le> hi then None else Some s | None \<Rightarrow> None)"

text \<open>
  \<open>mem st k\<close> is the sorted set stored at key \<open>k\<close>, \<open>ttl st k\<close> the remaining lifetime of the
  key in milliseconds; the lifetime of an absent (empty) key has no meaning.
\<close>

locale redis_zsets =
  fixes R :: "'r redis_ops"
    and invar :: "'r \<Rightarrow> bool"
    and mem :: "'r \<Rightarrow> string \<Rightarrow> string \<rightharpoonup> int"
    and ttl :: "'r \<Rightarrow> string \<Rightarrow> nat option"
  assumes finite_mem: "invar st \<Longrightarrow> finite (dom (mem st k))"
    and remrange: "invar st \<Longrightarrow> invar (z_remrangebyscore R st k lo hi) \<and>
      mem (z_remrangebyscore R st k lo hi) = (mem st)(k := drop_range lo hi (mem st k)) \<and>
      (\<forall>k'. mem (z_remrangebyscore R st k lo hi) k' \<noteq> Map.empty \<longrightarrow>
         ttl (z_remrangebyscore R st k lo hi) k' = ttl st k')"
    and card_mem: "invar st \<Longrightarrow> z_card R st k = card (dom (mem st k))"
    and add_mem: "invar st \<Longrightarrow> invar (z_add R st k s m) \<and>
      mem (z_add R st k s m) = (mem st)(k := (mem st k)(m \<mapsto> s)) \<and>
      (\<forall>k'. mem st k' \<noteq> Map.empty \<longrightarrow> ttl (z_add R st k s m) k' = ttl st k')"
    and score_mem: "invar st \<Longrightarrow> z_score R st k m = mem st k m"
    and rem_mem: "invar st \<Longrightarrow> \<exists>st'. z_rem R st k m = (st', if mem st k m = None then 0 else 1) \<and>
      invar st' \<and> mem st' = (mem st)(k := (mem st k)(m := None)) \<and>
      (\<forall>k'. mem st' k' \<noteq> Map.empty \<longrightarrow> ttl st' k' = ttl st k')"
    and expire_mem: "invar st \<Longrightarrow> invar (r_expire R st k n) \<and> mem (r_expire R st k n) = mem st \<and>
      (mem st k \<noteq> Map.empty \<longrightarrow> ttl (r_expire R st k n) = (ttl st)(k \<mapsto> n * 1000))"
    and del_mem: "invar st \<Longrightarrow> invar (r_del R st k) \<and> mem (r_del R st k) = (mem st)(k := Map.empty) \<and>
      (\<forall>k'. k' \<noteq> k \<longrightarrow> ttl (r_del R st k) k' = ttl st k')"
    and advance_mem: "invar st \<Longrightarrow> invar (r_advance R st ms) \<and>
      (\<forall>k. mem (r_advance R st ms) k =
         (case ttl st k of Some t \<Rightarrow> if t \<le> ms then Map.empty else mem st k | None \<Rightarrow> mem st k)) \<and>
      (\<forall>k. mem (r_advance R st ms) k \<noteq> Map.empty \<longrightarrow>
         ttl (r_advance R st ms) k = map_option (\<lambda>t. t - ms) (ttl st k))"

subsection \<open>A reference implementation\<close>

type_synonym zentry = "(string \<times> int) list \<times> nat option"
type_synonym zstate = "(string, zentry) jsmap"

definition zs_get :: "zstate \<Rightarrow> string \<Rightarrow> zentry" where
  "zs_get st k = (case map_of st k of Some v \<Rightarrow> v | None \<Rightarrow> ([], None))"

definition zs_put :: "string \<Rightarrow> zentry \<Rightarrow> zstate \<Rightarrow> zstate" where
  "zs_put k v st = AList.update k v st"

definition zs_age :: "nat \<Rightarrow> zentry \<Rightarrow> zentry" where
  "zs_age ms v = (case snd v of None \<Rightarrow> v
     | Some t \<Rightarrow> if t \<le> ms then ([], None) else (fst v, Some (t - ms)))"

lemma zs_get_put [simp]: "zs_get (zs_put k v st) = (zs_get st)(k := v)"
  by (auto simp: zs_get_def zs_put_def update_conv' fun_eq_iff)

lemma zs_get_age [simp]: "zs_get (map (\<lambda>(k, v). (k, zs_age ms v)) st) k = zs_age ms (zs_get st k)"
proof -
  have "map_of (map (\<lambda>(k, v). (k, zs_age ms v)) st) k = map_option (zs_age ms) (map_of st k)"
    by (induction st) auto
  moreover have "zs_age ms ([], None) = ([], None)" by (simp add: zs_age_def)
  ultimately show ?thesis by (simp add: zs_get_def split: option.splits)
qed

definition zs_ops :: "zstate redis_ops" where
  "zs_ops = \<lparr>
     z_remrangebyscore = (\<lambda>st k lo hi.
        zs_put k (filter (\<lambda>(m, s). lo \<le> s \<longrightarrow> \<not> s \<le> hi) (fst (zs_get st k)), snd (zs_get st k)) st),
     z_card = (\<lambda>st k. length (fst (zs_get st k))),
     z_add = (\<lambda>st k s m. zs_put k (AList.update m s (fst (zs_get st k)), snd (zs_get st k)) st),
     z_score = (\<lambda>st k m. map_of (fst (zs_get st k)) m),
     z_rem = (\<lambda>st k m. (zs_put k (AList.delete m (fst (zs_get st k)), snd (zs_get st k)) st,
        if map_of (fst (zs_get st k)) m = None then 0 else 1)),
     r_expire = (\<lambda>st k n. zs_put k (fst (zs_get st k), Some (n * 1000)) st),
     r_del = (\<lambda>st k. zs_put k ([], None) st),
     r_advance = (\<lambda>st ms. map (\<lambda>(k, v). (k, zs_age ms v)) st) \<rparr>"

definition zs_invar :: "zstate \<Rightarrow> bool" where
  "zs_invar st \<longleftrightarrow> (\<forall>k. distinct (map fst (fst (zs_get st k))))"

definition zs_mem :: "zstate \<Rightarrow> string \<Rightarrow> string \<rightharpoonup> int" where
  "zs_mem st k = map_of (fst (zs_get st k))"

definition zs_ttl :: "zstate \<Rightarrow> string \<Rightarrow> nat option" where
  "zs_ttl st k = snd (zs_get st k)"

lemma map_of_filter_range:
  "distinct (map fst xs) \<Longrightarrow>
   map_of (filter (\<lambda>(m, s). lo \<le> s \<longrightarrow> \<not> s \<le> hi) xs) = drop_range lo hi (map_of xs)"
proof (induction xs)
  case (Cons x xs)
  have "map_of xs (fst x) = None" using Cons.prems by (simp add: map_of_eq_None_iff)
  with Cons show ?case by (auto simp: drop_range_def fun_eq_iff split: option.splits)
qed (simp add: drop_range_def fun_eq_iff)

interpretation zs: redis_zsets zs_ops zs_invar zs_mem zs_ttl
proof
  fix st :: zstate and k m :: string and s lo hi :: int and n ms :: nat
  assume inv: "zs_invar st"
  show "finite (dom (zs_mem st k))" by (simp add: zs_mem_def finite_dom_map_of)
  show "z_card zs_ops st k = card (dom (zs_mem st k))"
    using inv distinct_card [of "map fst (fst (zs_get st k))"]
    by (simp add: zs_mem_def zs_ops_def zs_invar_def dom_map_of_conv_image_fst)
  show "z_score zs_ops st k m = zs_mem st k m" by (simp add: zs_ops_def zs_mem_def)
  show "zs_invar (z_remrangebyscore zs_ops st k lo hi) \<and>
      zs_mem (z_remrangebyscore zs_ops st k lo hi) = (zs_mem st)(k := drop_range lo hi (zs_mem st k)) \<and>
      (\<forall>k'. zs_mem (z_remrangebyscore zs_ops st k lo hi) k' \<noteq> Map.empty \<longrightarrow>
         zs_ttl (z_remrangebyscore zs_ops st k lo hi) k' = zs_ttl st k')"
    using inv
    by (auto simp: zs_ops_def zs_invar_def zs_mem_def zs_ttl_def fun_eq_iff map_of_filter_range
        intro: distinct_map_filter)
  show "zs_invar (z_add zs_ops st k s m) \<and>
      zs_mem (z_add zs_ops st k s m) = (zs_mem st)(k := (zs_mem st k)(m \<mapsto> s)) \<and>
      (\<forall>k'. zs_mem st k' \<noteq> Map.empty \<longrightarrow> zs_ttl (z_add zs_ops st k s m) k' = zs_ttl st k')"
    using inv by (auto simp: zs_ops_def zs_invar_def zs_mem_def zs_ttl_def fun_eq_iff distinct_update)
  show "\<exists>st'. z_rem zs_ops st k m = (st', if zs_mem st k m = None then 0 else 1) \<and>
      zs_invar st' \<and> zs_mem st' = (zs_mem st)(k := (zs_mem st k)(m := None)) \<and>
      (\<forall>k'. zs_mem st' k' \<noteq> Map.empty \<longrightarrow> zs_ttl st' k' = zs_ttl st k')"
    using inv
    by (intro exI [of _ "fst (z_rem zs_ops st k m)"])
       (auto simp: zs_ops_def zs_invar_def zs_mem_def zs_ttl_def fun_eq_iff distinct_delete)
  show "zs_invar (r_expire zs_ops st k n) \<and> zs_mem (r_expire zs_ops st k n) = zs_mem st \<and>
      (zs_mem st k \<noteq> Map.empty \<longrightarrow> zs_ttl (r_expire zs_ops st k n) = (zs_ttl st)(k \<mapsto> n * 1000))"
    using inv by (auto simp: zs_ops_def zs_invar_def zs_mem_def zs_ttl_def fun_eq_iff)
  show "zs_invar (r_del zs_ops st k) \<and> zs_mem (r_del zs_ops st k) = (zs_mem st)(k := Map.empty) \<and>
      (\<forall>k'. k' \<noteq> k \<longrightarrow> zs_ttl (r_del zs_ops st k) k' = zs_ttl st k')"
    using inv by (auto simp: zs_ops_def zs_invar_def zs_mem_def zs_ttl_def fun_eq_iff)
  have age: "fst (zs_age ms v) = (case snd v of Some t \<Rightarrow> if t \<le> ms then [] else fst v | None \<Rightarrow> fst v)"
    "snd (zs_age ms v) = (case snd v of Some t \<Rightarrow> if t \<le> ms then None else Some (t - ms) | None \<Rightarrow> None)"
    for v by (auto simp: zs_age_def split: option.splits)
  show "zs_invar (r_advance zs_ops st ms) \<and>
      (\<forall>k. zs_mem (r_advance zs_ops st ms) k =
         (case zs_ttl st k of Some t \<Rightarrow> if t \<le> ms then Map.empty else zs_mem st k | None \<Rightarrow> zs_mem st k)) \<and>
      (\<forall>k. zs_mem (r_advance zs_ops st ms) k \<noteq> Map.empty \<longrightarrow>
         zs_ttl (r_advance zs_ops st ms) k = map_option (\<lambda>t. t - ms) (zs_ttl st k))"
    using inv by (auto simp: zs_ops_def zs_invar_def zs_mem_def zs_ttl_def age split: option.splits)
qed

subsection \<open>Options\<close>

record semaphore_options =
  so_max_concurrent :: "int option"
  so_ttl_seconds :: "nat option"
  so_prefix :: "string option"

definition no_options :: semaphore_options where
  "no_options = \<lparr> so_max_concurrent = None, so_ttl_seconds = None, so_prefix = None \<rparr>"

record resolved_options =
  ro_max_concurrent :: int
  ro_ttl_seconds :: nat
  ro_prefix :: string

definition default_max_concurrent :: int where
  "default_max_concurrent = 3"

definition default_ttl_seconds :: nat where
  "default_ttl_seconds = 60"

text \<open>\<open>env\<close> is \<open>process.env.MERCHANT_MAX_CONCURRENCY\<close>.\<close>

definition resolve :: "string option \<Rightarrow> semaphore_options \<Rightarrow> resolved_options" where
  "resolve env opts =
     (let parsed_env = (case env of Some v \<Rightarrow> if v = [] then None else parse_int v | None \<Rightarrow> None);
          default_limit = (case parsed_env of
             Some n \<Rightarrow> if n > 0 then n else default_max_concurrent
           | None \<Rightarrow> default_max_concurrent)
      in \<lparr> ro_max_concurrent = (case so_max_concurrent opts of Some n \<Rightarrow> n | None \<Rightarrow> default_limit),
           ro_ttl_seconds = (case so_ttl_seconds opts of Some n \<Rightarrow> n | None \<Rightarrow> default_ttl_seconds),
           ro_prefix = (case so_prefix opts of Some p \<Rightarrow> p | None \<Rightarrow> ''semaphore:settlement'') \<rparr>)"

definition semaphore_key :: "resolved_options \<Rightarrow> string \<Rightarrow> string" where
  "semaphore_key ro merchant = ro_prefix ro @ '':'' @ merchant"

lemma semaphore_key_inj: "semaphore_key ro m = semaphore_key ro m' \<longleftrightarrow> m = m'"
  by (simp add: semaphore_key_def)

subsection \<open>The scripts and the functions that run them\<close>

definition acquire_script ::
  "'r redis_ops \<Rightarrow> 'r \<Rightarrow> string \<Rightarrow> int \<Rightarrow> int \<Rightarrow> int \<Rightarrow> string \<Rightarrow> nat \<Rightarrow> 'r \<times> int" where
  "acquire_script R st key now window max_conc member ttl_seconds =
     (let st1 = z_remrangebyscore R st key 0 (now - window);
          count = z_card R st1 key
      in if int count \<ge> max_conc then (st1, 0)
         else let st2 = z_add R st1 key now member;
                  st3 = r_expire R st2 key ttl_seconds
              in (st3, 1))"

definition renew_script :: "'r redis_ops \<Rightarrow> 'r \<Rightarrow> string \<Rightarrow> int \<Rightarrow> string \<Rightarrow> nat \<Rightarrow> 'r \<times> int" where
  "renew_script R st key now member ttl_seconds =
     (if z_score R st key member = None then (st, 0)
      else let st1 = z_add R st key now member;
               st2 = r_expire R st1 key ttl_seconds
           in (st2, 1))"

definition release_script :: "'r redis_ops \<Rightarrow> 'r \<Rightarrow> string \<Rightarrow> string \<Rightarrow> 'r \<times> nat" where
  "release_script R st key member =
     (case z_rem R st key member of (st1, removed) \<Rightarrow>
        if z_card R st1 key = 0 then (r_del R st1 key, removed) else (st1, removed))"

text \<open>The token: the clock and what \<open>Math.random().toString(36).slice(2)\<close> returned.\<close>

definition member_token :: "nat \<Rightarrow> string \<Rightarrow> string" where
  "member_token now rnd = digits_of_nat now @ '':'' @ rnd"

definition acquire_semaphore ::
  "'r redis_ops \<Rightarrow> string option \<Rightarrow> 'r \<Rightarrow> nat \<Rightarrow> string \<Rightarrow> string \<Rightarrow> semaphore_options \<Rightarrow>
   'r \<times> string option" where
  "acquire_semaphore R env st now rnd merchant opts =
     (let ro = resolve env opts;
          member = member_token now rnd
      in case acquire_script R st (semaphore_key ro merchant) (int now) (int (ro_ttl_seconds ro * 1000))
              (ro_max_concurrent ro) member (ro_ttl_seconds ro) of
        (st', acquired) \<Rightarrow> (st', if acquired = 1 then Some member else None))"

definition renew_semaphore ::
  "'r redis_ops \<Rightarrow> string option \<Rightarrow> 'r \<Rightarrow> nat \<Rightarrow> string \<Rightarrow> string \<Rightarrow> semaphore_options \<Rightarrow> 'r \<times> bool" where
  "renew_semaphore R env st now merchant member opts =
     (let ro = resolve env opts
      in case renew_script R st (semaphore_key ro merchant) (int now) member (ro_ttl_seconds ro) of
        (st', renewed) \<Rightarrow> (st', renewed = 1))"

definition release_semaphore ::
  "'r redis_ops \<Rightarrow> string option \<Rightarrow> 'r \<Rightarrow> string \<Rightarrow> string \<Rightarrow> semaphore_options \<Rightarrow> 'r \<times> bool" where
  "release_semaphore R env st merchant member opts =
     (let ro = resolve env opts
      in case release_script R st (semaphore_key ro merchant) member of
        (st', removed) \<Rightarrow> (st', removed = 1))"

definition get_active_count ::
  "'r redis_ops \<Rightarrow> string option \<Rightarrow> 'r \<Rightarrow> nat \<Rightarrow> string \<Rightarrow> semaphore_options \<Rightarrow> 'r \<times> nat" where
  "get_active_count R env st now merchant opts =
     (let ro = resolve env opts;
          st' = z_remrangebyscore R st (semaphore_key ro merchant) 0
                  (int now - int (ro_ttl_seconds ro * 1000))
      in (st', z_card R st' (semaphore_key ro merchant)))"

text \<open>
  The heartbeat: its period, one firing of its timer (whose renewal may fail), and
  \<open>stop\<close>, which may be called more than once.
\<close>

record renewal_handle =
  rh_interval_ms :: nat
  rh_timer_active :: bool
  rh_stopped :: bool

datatype renewal_event = SlotLost | RenewalError

definition start_semaphore_renewal :: "string option \<Rightarrow> semaphore_options \<Rightarrow> renewal_handle" where
  "start_semaphore_renewal env opts =
     \<lparr> rh_interval_ms = max 1000 (ro_ttl_seconds (resolve env opts) * 1000 div 3),
       rh_timer_active = True, rh_stopped = False \<rparr>"

definition renewal_fire ::
  "'r redis_ops \<Rightarrow> string option \<Rightarrow> bool \<Rightarrow> 'r \<Rightarrow> nat \<Rightarrow> string \<Rightarrow> string \<Rightarrow> semaphore_options \<Rightarrow>
   renewal_handle \<Rightarrow> 'r \<times> renewal_event list" where
  "renewal_fire R env redis_fails st now merchant member opts h =
     (if \<not> rh_timer_active h then (st, [])
      else if redis_fails then (st, [RenewalError])
      else (case renew_semaphore R env st now merchant member opts of
          (st', held) \<Rightarrow> (st', if held then [] else [SlotLost])))"

definition renewal_stop :: "renewal_handle \<Rightarrow> renewal_handle" where
  "renewal_stop h = (if rh_stopped h then h
     else h \<lparr> rh_stopped := True, rh_timer_active := False \<rparr>)"

subsection \<open>Histories of semaphore operations\<close>

text \<open>
  Any interleaving of the operations of all workers, with the passing of time. The ghost map
  \<open>held\<close> remembers when each token was last acquired or renewed by a call that reported success.
\<close>

datatype sem_event =
    Acquire string string
  | Renew string string
  | Release string string
  | Count string
  | Elapse nat

record 'r sem_state =
  sm_redis :: 'r
  sm_now :: nat
  sm_held :: "string \<times> string \<rightharpoonup> nat"

fun sem_step :: "'r redis_ops \<Rightarrow> string option \<Rightarrow> semaphore_options \<Rightarrow> sem_event \<Rightarrow>
    'r sem_state \<Rightarrow> 'r sem_state" where
  "sem_step R env opts (Acquire m rnd) s =
     (case acquire_semaphore R env (sm_redis s) (sm_now s) rnd m opts of
        (st, None) \<Rightarrow> s \<lparr> sm_redis := st \<rparr>
      | (st, Some tok) \<Rightarrow> s \<lparr> sm_redis := st, sm_held := (sm_held s)((m, tok) \<mapsto> sm_now s) \<rparr>)"
| "sem_step R env opts (Renew m tok) s =
     (case renew_semaphore R env (sm_redis s) (sm_now s) m tok opts of
        (st, ok) \<Rightarrow> s \<lparr> sm_redis := st,
          sm_held := (if ok then (sm_held s)((m, tok) \<mapsto> sm_now s) else sm_held s) \<rparr>)"
| "sem_step R env opts (Release m tok) s =
     (case release_semaphore R env (sm_redis s) m tok opts of
        (st, ok) \<Rightarrow> s \<lparr> sm_redis := st, sm_held := (sm_held s)((m, tok) := None) \<rparr>)"
| "sem_step R env opts (Count m) s =
     s \<lparr> sm_redis := fst (get_active_count R env (sm_redis s) (sm_now s) m opts) \<rparr>"
| "sem_step R env opts (Elapse ms) s =
     s \<lparr> sm_redis := r_advance R (sm_redis s) ms, sm_now := sm_now s + ms \<rparr>"

declare sem_step.simps [simp del]

definition sem_run :: "'r redis_ops \<Rightarrow> string option \<Rightarrow> semaphore_options \<Rightarrow> sem_event list \<Rightarrow>
    'r sem_state \<Rightarrow> 'r sem_state" where
  "sem_run R env opts evs s = fold (sem_step R env opts) evs s"

text \<open>The tokens of a merchant whose last successful heartbeat is within the window.\<close>

definition live_tokens :: "string option \<Rightarrow> semaphore_options \<Rightarrow> string \<Rightarrow> 'r sem_state \<Rightarrow> string set" where
  "live_tokens env opts m s =
     {tok. \<exists>t. sm_held s (m, tok) = Some t \<and> sm_now s < t + ro_ttl_seconds (resolve env opts) * 1000}"

definition elapsed :: "sem_event list \<Rightarrow> nat" where
  "elapsed evs = sum_list (map (\<lambda>e. case e of Elapse ms \<Rightarrow> ms | _ \<Rightarrow> 0) evs)"

lemma sem_run_simps [simp]:
  "sem_run R env opts [] s = s"
  "sem_run R env opts (e # evs) s = sem_run R env opts evs (sem_step R env opts e s)"
  by (simp_all add: sem_run_def)

lemma elapsed_simps [simp]:
  "elapsed [] = 0"
  "elapsed (e # evs) = (case e of Elapse ms \<Rightarrow> ms | _ \<Rightarrow> 0) + elapsed evs"
  by (simp_all add: elapsed_def)

abbreviation window_ms :: "string option \<Rightarrow> semaphore_options \<Rightarrow> nat" where
  "window_ms env opts \<equiv> ro_ttl_seconds (resolve env opts) * 1000"

abbreviation slot_key :: "string option \<Rightarrow> semaphore_options \<Rightarrow> string \<Rightarrow> string" where
  "slot_key env opts \<equiv> semaphore_key (resolve env opts)"

lemma dom_drop_range: "dom (drop_range lo hi f) \<subseteq> dom f"
  by (auto simp: drop_range_def split: option.splits)

lemma drop_range_keep: "f m = Some s \<Longrightarrow> hi < s \<Longrightarrow> drop_range lo hi f m = Some s"
  by (simp add: drop_range_def)

context redis_zsets
begin

lemma acquire_script_cases:
  assumes inv: "invar st" and run: "acquire_script R st key now window mx tok ttls = (st', b)"
  shows "invar st' \<and>
    (if b = 1
     then mem st' = (mem st)(key := (drop_range 0 (now - window) (mem st key))(tok \<mapsto> now)) \<and>
       ttl st' key = Some (ttls * 1000) \<and>
       int (card (dom (drop_range 0 (now - window) (mem st key)))) < mx
     else mem st' = (mem st)(key := drop_range 0 (now - window) (mem st key)) \<and>
       (mem st' key \<noteq> Map.empty \<longrightarrow> ttl st' key = ttl st key)) \<and>
    (\<forall>k. k \<noteq> key \<longrightarrow> mem st k \<noteq> Map.empty \<longrightarrow> ttl st' k = ttl st k)"
proof -
  let ?st1 = "z_remrangebyscore R st key 0 (now - window)"
  have 1: "invar ?st1" "mem ?st1 = (mem st)(key := drop_range 0 (now - window) (mem st key))"
    "\<And>k. mem ?st1 k \<noteq> Map.empty \<Longrightarrow> ttl ?st1 k = ttl st k"
    using remrange [OF inv] by auto
  let ?st2 = "z_add R ?st1 key now tok"
  have 2: "invar ?st2" "mem ?st2 = (mem ?st1)(key := (mem ?st1 key)(tok \<mapsto> now))"
    "\<And>k. mem ?st1 k \<noteq> Map.empty \<Longrightarrow> ttl ?st2 k = ttl ?st1 k"
    using add_mem [OF 1(1)] by auto
  let ?st3 = "r_expire R ?st2 key ttls"
  have "mem ?st2 key \<noteq> Map.empty" by (simp add: 2(2))
  then have 3: "invar ?st3" "mem ?st3 = mem ?st2" "ttl ?st3 = (ttl ?st2)(key \<mapsto> ttls * 1000)"
    using expire_mem [OF 2(1)] by auto
  show ?thesis
    using run 1 2 3 card_mem [OF 1(1), of key]
    by (auto simp: acquire_script_def Let_def split: if_splits)
qed

lemma renew_script_cases:
  assumes inv: "invar st" and run: "renew_script R st key now tok ttls = (st', b)"
  shows "if mem st key tok = None then st' = st \<and> b = 0
    else invar st' \<and> b = 1 \<and> mem st' = (mem st)(key := (mem st key)(tok \<mapsto> now)) \<and>
      ttl st' key = Some (ttls * 1000) \<and>
      (\<forall>k. k \<noteq> key \<longrightarrow> mem st k \<noteq> Map.empty \<longrightarrow> ttl st' k = ttl st k)"
proof -
  let ?st1 = "z_add R st key now tok"
  have 1: "invar ?st1" "mem ?st1 = (mem st)(key := (mem st key)(tok \<mapsto> now))"
    "\<And>k. mem st k \<noteq> Map.empty \<Longrightarrow> ttl ?st1 k = ttl st k"
    using add_mem [OF inv] by auto
  let ?st2 = "r_expire R ?st1 key ttls"
  have "mem ?st1 key \<noteq> Map.empty" by (simp add: 1(2))
  then have 2: "invar ?st2" "mem ?st2 = mem ?st1" "ttl ?st2 = (ttl ?st1)(key \<mapsto> ttls * 1000)"
    using expire_mem [OF 1(1)] by auto
  show ?thesis
    using run 1 2 score_mem [OF inv, of key tok]
    by (auto simp: renew_script_def Let_def split: if_splits)
qed

lemma release_script_cases:
  assumes inv: "invar st" and run: "release_script R st key tok = (st', n)"
  shows "invar st' \<and> n = (if mem st key tok = None then 0 else 1) \<and>
    mem st' = (mem st)(key := (mem st key)(tok := None)) \<and>
    (\<forall>k. mem st' k \<noteq> Map.empty \<longrightarrow> ttl st' k = ttl st k)"
proof -
  obtain st1 where 1: "z_rem R st key tok = (st1, if mem st key tok = None then 0 else 1)"
    "invar st1" "mem st1 = (mem st)(key := (mem st key)(tok := None))"
    "\<And>k. mem st1 k \<noteq> Map.empty \<Longrightarrow> ttl st1 k = ttl st k"
    using rem_mem [OF inv] by blast
  show ?thesis
  proof (cases "z_card R st1 key = 0")
    case False
    with run 1 show ?thesis by (auto simp: release_script_def)
  next
    case True
    then have e: "mem st1 key = Map.empty"
      using card_mem [OF 1(2), of key] finite_mem [OF 1(2), of key] by simp
    have d: "invar (r_del R st1 key)" "mem (r_del R st1 key) = (mem st1)(key := Map.empty)"
      "\<And>k. k \<noteq> key \<Longrightarrow> ttl (r_del R st1 key) k = ttl st1 k"
      using del_mem [OF 1(2)] by auto
    have "(mem st1)(key := Map.empty) = mem st1" using e by (metis fun_upd_triv)
    with d(2) have dm: "mem (r_del R st1 key) = mem st1" by simp
    have "ttl (r_del R st1 key) k = ttl st k" if "mem st1 k \<noteq> Map.empty" for k
      using that e d(3) 1(4) by metis
    with run 1 True d(1) dm show ?thesis by (auto simp: release_script_def)
  qed
qed

definition slots_bounded :: "string option \<Rightarrow> semaphore_options \<Rightarrow> 'r sem_state \<Rightarrow> bool" where
  "slots_bounded env opts s \<longleftrightarrow>
     (\<forall>m. int (card (dom (mem (sm_redis s) (slot_key env opts m)))) \<le> max 0 (ro_max_concurrent (resolve env opts)))"

definition slot_kept :: "string option \<Rightarrow> semaphore_options \<Rightarrow> 'r sem_state \<Rightarrow> string \<Rightarrow> string \<Rightarrow> nat \<Rightarrow> bool" where
  "slot_kept env opts s m tok t \<longleftrightarrow>
     t \<le> sm_now s \<and>
     (sm_now s < t + window_ms env opts \<longrightarrow>
        mem (sm_redis s) (slot_key env opts m) tok = Some (int t) \<and>
        (\<exists>r. ttl (sm_redis s) (slot_key env opts m) = Some r \<and> t + window_ms env opts \<le> sm_now s + r))"

definition sem_inv :: "string option \<Rightarrow> semaphore_options \<Rightarrow> 'r sem_state \<Rightarrow> bool" where
  "sem_inv env opts s \<longleftrightarrow> invar (sm_redis s) \<and> slots_bounded env opts s \<and>
     (\<forall>m tok t. sm_held s (m, tok) = Some t \<longrightarrow> slot_kept env opts s m tok t)"

lemma slot_kept_same:
  assumes k: "slot_kept env opts s m tok t" and now: "sm_now s' = sm_now s"
    and mem: "mem (sm_redis s') (slot_key env opts m) = mem (sm_redis s) (slot_key env opts m)"
    and ttl: "mem (sm_redis s) (slot_key env opts m) \<noteq> Map.empty \<Longrightarrow>
      ttl (sm_redis s') (slot_key env opts m) = ttl (sm_redis s) (slot_key env opts m)"
  shows "slot_kept env opts s' m tok t"
proof -
  have "mem (sm_redis s) (slot_key env opts m) \<noteq> Map.empty" if "sm_now s < t + window_ms env opts"
    using k that by (auto simp: slot_kept_def)
  with k ttl show ?thesis by (simp add: slot_kept_def now mem)
qed

lemma sem_inv_acquire:
  assumes inv: "sem_inv env opts s"
  shows "sem_inv env opts (sem_step R env opts (Acquire m rnd) s)"
proof -
  let ?ro = "resolve env opts" and ?k = "slot_key env opts" and ?W = "window_ms env opts"
  let ?now = "sm_now s" and ?st = "sm_redis s"
  let ?tok = "member_token ?now rnd"
  let ?dropped = "drop_range 0 (int ?now - int ?W) (mem ?st (?k m))"
  obtain st' b where run: "acquire_script R ?st (?k m) (int ?now) (int ?W) (ro_max_concurrent ?ro)
      ?tok (ro_ttl_seconds ?ro) = (st', b)" by fastforce
  have I: "invar ?st" "slots_bounded env opts s"
    "\<And>m tok t. sm_held s (m, tok) = Some t \<Longrightarrow> slot_kept env opts s m tok t"
    using inv by (auto simp: sem_inv_def)
  note c = acquire_script_cases [OF I(1) run]
  have step: "sem_step R env opts (Acquire m rnd) s =
      (if b = 1 then s \<lparr> sm_redis := st', sm_held := (sm_held s)((m, ?tok) \<mapsto> ?now) \<rparr>
       else s \<lparr> sm_redis := st' \<rparr>)"
    using run by (simp add: sem_step.simps acquire_semaphore_def Let_def)
  have fin: "finite (dom (mem ?st (?k m')))" for m' by (rule finite_mem [OF I(1)])
  have le: "card (dom ?dropped) \<le> card (dom (mem ?st (?k m)))"
    by (rule card_mono [OF fin dom_drop_range])
  have bounded: "int (card (dom (mem st' (?k m')))) \<le> max 0 (ro_max_concurrent ?ro)" for m'
  proof (cases "m' = m")
    case False
    then show ?thesis using c I(2) by (simp add: slots_bounded_def semaphore_key_inj split: if_splits)
  next
    case True
    have "finite (dom ?dropped)" by (rule finite_subset [OF dom_drop_range fin])
    then have "card (insert ?tok (dom ?dropped)) \<le> Suc (card (dom ?dropped))"
      by (simp add: card_insert_if)
    moreover have "int (card (dom (mem ?st (?k m)))) \<le> max 0 (ro_max_concurrent ?ro)"
      using I(2) by (simp add: slots_bounded_def)
    ultimately show ?thesis using True c le by (cases "b = 1") auto
  qed
  have kept: "slot_kept env opts (sem_step R env opts (Acquire m rnd) s) m' tok t"
    if "sm_held s (m', tok) = Some t" "\<not> (b = 1 \<and> m' = m \<and> tok = ?tok)" for m' tok t
  proof (cases "m' = m \<and> ?now < t + ?W")
    case True
    then have "int ?now - int ?W < int t" by simp
    moreover have "slot_kept env opts s m tok t" using I(3) that True by blast
    ultimately have d: "?dropped tok = Some (int t)" "t \<le> ?now"
      "\<exists>r. ttl ?st (?k m) = Some r \<and> t + ?W \<le> ?now + r"
      using True by (auto simp: slot_kept_def intro: drop_range_keep)
    then have "?dropped \<noteq> Map.empty" by auto
    with c d that True show ?thesis
      by (auto simp: step slot_kept_def)
  next
    case False
    have k: "slot_kept env opts s m' tok t" using I(3) that(1) by blast
    show ?thesis
    proof (cases "m' = m")
      case True
      with False k show ?thesis by (simp add: step slot_kept_def)
    next
      case False
      then have "?k m' \<noteq> ?k m" by (simp add: semaphore_key_inj)
      with c show ?thesis by (intro slot_kept_same [OF k]) (simp_all add: step split: if_splits)
    qed
  qed
  have new: "slot_kept env opts (sem_step R env opts (Acquire m rnd) s) m ?tok ?now" if "b = 1"
    using c that by (auto simp: step slot_kept_def)
  let ?s' = "sem_step R env opts (Acquire m rnd) s"
  have s': "sm_redis ?s' = st'"
    "sm_held ?s' = (if b = 1 then (sm_held s)((m, ?tok) \<mapsto> ?now) else sm_held s)"
    by (simp_all add: step)
  have "slot_kept env opts ?s' m' tok t" if "sm_held ?s' (m', tok) = Some t" for m' tok t
    using that kept [of m' tok t] new by (auto simp: s'(2)  split: if_splits)
  moreover have "slots_bounded env opts ?s'" unfolding slots_bounded_def s'(1) using bounded by blast
  moreover have "invar st'" using c by blast
  ultimately show ?thesis by (simp add: sem_inv_def s'(1))
qed

lemma sem_inv_renew:
  assumes inv: "sem_inv env opts s"
  shows "sem_inv env opts (sem_step R env opts (Renew m tok) s)"
proof -
  let ?ro = "resolve env opts" and ?k = "slot_key env opts" and ?W = "window_ms env opts"
  let ?now = "sm_now s" and ?st = "sm_redis s"
  obtain st' b where run: "renew_script R ?st (?k m) (int ?now) tok (ro_ttl_seconds ?ro) = (st', b)"
    by fastforce
  have I: "invar ?st" "slots_bounded env opts s"
    "\<And>m tok t. sm_held s (m, tok) = Some t \<Longrightarrow> slot_kept env opts s m tok t"
    using inv by (auto simp: sem_inv_def)
  note c = renew_script_cases [OF I(1) run]
  have step: "sem_step R env opts (Renew m tok) s = s \<lparr> sm_redis := st',
       sm_held := (if b = 1 then (sm_held s)((m, tok) \<mapsto> ?now) else sm_held s) \<rparr>"
    using run by (simp add: sem_step.simps renew_semaphore_def Let_def)
  show ?thesis
  proof (cases "mem ?st (?k m) tok = None")
    case True
    with c inv show ?thesis by (simp add: step)
  next
    case False
    with c have c: "invar st'" "b = 1" "mem st' = (mem ?st)(?k m := (mem ?st (?k m))(tok \<mapsto> int ?now))"
      "ttl st' (?k m) = Some ?W" "\<And>k. k \<noteq> ?k m \<Longrightarrow> mem ?st k \<noteq> Map.empty \<Longrightarrow> ttl st' k = ttl ?st k"
      by auto
    have dom: "dom (mem st' k) = dom (mem ?st k)" for k
      using False by (auto simp: c(3))
    have kept: "slot_kept env opts (sem_step R env opts (Renew m tok) s) m' tok' t"
      if "sm_held s (m', tok') = Some t" "(m', tok') \<noteq> (m, tok)" for m' tok' t
    proof -
      have k: "slot_kept env opts s m' tok' t" using I(3) that(1) by blast
      show ?thesis
      proof (cases "m' = m")
        case True
        with k that(2) c show ?thesis by (auto simp: step slot_kept_def)
      next
        case False
        then have "?k m' \<noteq> ?k m" by (simp add: semaphore_key_inj)
        with c show ?thesis by (intro slot_kept_same [OF k]) (simp_all add: step)
      qed
    qed
    have "slot_kept env opts (sem_step R env opts (Renew m tok) s) m tok ?now"
      using c by (auto simp: step slot_kept_def)
    with kept dom c(1,2) I(2) show ?thesis
      by (auto simp: sem_inv_def slots_bounded_def step split: if_splits)
  qed
qed

lemma sem_inv_release:
  assumes inv: "sem_inv env opts s"
  shows "sem_inv env opts (sem_step R env opts (Release m tok) s)"
proof -
  let ?k = "slot_key env opts" and ?st = "sm_redis s"
  obtain st' n where run: "release_script R ?st (?k m) tok = (st', n)" by fastforce
  have I: "invar ?st" "slots_bounded env opts s"
    "\<And>m tok t. sm_held s (m, tok) = Some t \<Longrightarrow> slot_kept env opts s m tok t"
    using inv by (auto simp: sem_inv_def)
  note c = release_script_cases [OF I(1) run]
  have step: "sem_step R env opts (Release m tok) s =
      s \<lparr> sm_redis := st', sm_held := (sm_held s)((m, tok) := None) \<rparr>"
    using run by (simp add: sem_step.simps release_semaphore_def Let_def)
  have "card (dom (mem st' k)) \<le> card (dom (mem ?st k))" for k
    by (rule card_mono [OF finite_mem [OF I(1)]]) (use c in \<open>auto split: if_splits\<close>)
  then have "slots_bounded env opts (sem_step R env opts (Release m tok) s)"
    using I(2) by (auto simp: slots_bounded_def step) (meson of_nat_mono order_trans)
  moreover have "slot_kept env opts (sem_step R env opts (Release m tok) s) m' tok' t"
    if "sm_held s (m', tok') = Some t" "(m', tok') \<noteq> (m, tok)" for m' tok' t
  proof -
    have k: "slot_kept env opts s m' tok' t" using I(3) that(1) by blast
    have "mem st' (?k m') tok' = mem ?st (?k m') tok'"
      using c that(2) by (auto simp: semaphore_key_inj)
    moreover from this have "mem st' (?k m') \<noteq> Map.empty" if "mem ?st (?k m') tok' = Some x" for x
      using that by auto
    ultimately show ?thesis using k c by (auto simp: step slot_kept_def)
  qed
  ultimately show ?thesis using c by (auto simp: sem_inv_def step split: if_splits)
qed

lemma sem_inv_count:
  assumes inv: "sem_inv env opts s"
  shows "sem_inv env opts (sem_step R env opts (Count m) s)"
proof -
  let ?k = "slot_key env opts" and ?st = "sm_redis s" and ?W = "window_ms env opts"
  let ?lo = "int (sm_now s) - int ?W"
  let ?st' = "z_remrangebyscore R ?st (?k m) 0 ?lo"
  have I: "invar ?st" "slots_bounded env opts s"
    "\<And>m tok t. sm_held s (m, tok) = Some t \<Longrightarrow> slot_kept env opts s m tok t"
    using inv by (auto simp: sem_inv_def)
  have c: "invar ?st'" "mem ?st' = (mem ?st)(?k m := drop_range 0 ?lo (mem ?st (?k m)))"
    "\<And>k. mem ?st' k \<noteq> Map.empty \<Longrightarrow> ttl ?st' k = ttl ?st k"
    using remrange [OF I(1)] by auto
  have step: "sem_step R env opts (Count m) s = s \<lparr> sm_redis := ?st' \<rparr>"
    by (simp add: sem_step.simps get_active_count_def Let_def)
  have "card (dom (mem ?st' k)) \<le> card (dom (mem ?st k))" for k
    by (rule card_mono [OF finite_mem [OF I(1)]]) (use c(2) dom_drop_range in \<open>auto split: if_splits\<close>)
  then have "slots_bounded env opts (sem_step R env opts (Count m) s)"
    using I(2) by (auto simp: slots_bounded_def step) (meson of_nat_mono order_trans)
  moreover have "slot_kept env opts (sem_step R env opts (Count m) s) m' tok t"
    if "sm_held s (m', tok) = Some t" for m' tok t
  proof -
    have k: "slot_kept env opts s m' tok t" using I(3) that by blast
    have "mem ?st' (?k m') tok = Some (int t)" if "sm_now s < t + ?W"
      using k that c(2) by (auto simp: slot_kept_def intro!: drop_range_keep)
    moreover from this have "mem ?st' (?k m') \<noteq> Map.empty" if "sm_now s < t + ?W"
      using that by auto
    ultimately show ?thesis using k c(3) by (auto simp: step slot_kept_def)
  qed
  ultimately show ?thesis using c(1) by (simp add: sem_inv_def step)
qed

lemma sem_inv_elapse:
  assumes inv: "sem_inv env opts s"
  shows "sem_inv env opts (sem_step R env opts (Elapse ms) s)"
proof -
  let ?k = "slot_key env opts" and ?st = "sm_redis s" and ?W = "window_ms env opts"
  let ?st' = "r_advance R ?st ms"
  have I: "invar ?st" "slots_bounded env opts s"
    "\<And>m tok t. sm_held s (m, tok) = Some t \<Longrightarrow> slot_kept env opts s m tok t"
    using inv by (auto simp: sem_inv_def)
  have c: "invar ?st'"
    "\<And>k. mem ?st' k = (case ttl ?st k of Some t \<Rightarrow> if t \<le> ms then Map.empty else mem ?st k | None \<Rightarrow> mem ?st k)"
    "\<And>k. mem ?st' k \<noteq> Map.empty \<Longrightarrow> ttl ?st' k = map_option (\<lambda>t. t - ms) (ttl ?st k)"
    using advance_mem [OF I(1)] by auto
  have "card (dom (mem ?st' k)) \<le> card (dom (mem ?st k))" for k
    by (rule card_mono [OF finite_mem [OF I(1)]]) (auto simp: c(2) split: option.splits if_splits)
  then have "slots_bounded env opts (sem_step R env opts (Elapse ms) s)"
    using I(2) by (auto simp: slots_bounded_def sem_step.simps) (meson of_nat_mono order_trans)
  moreover have "slot_kept env opts (sem_step R env opts (Elapse ms) s) m' tok t"
    if "sm_held s (m', tok) = Some t" for m' tok t
  proof -
    have k: "slot_kept env opts s m' tok t" using I(3) that by blast
    have "mem ?st' (?k m') tok = Some (int t) \<and>
        (\<exists>r. ttl ?st' (?k m') = Some r \<and> t + ?W \<le> sm_now s + ms + r)"
      if live: "sm_now s + ms < t + ?W"
    proof -
      from k live obtain r where r: "mem ?st (?k m') tok = Some (int t)" "ttl ?st (?k m') = Some r"
        "t + ?W \<le> sm_now s + r" by (auto simp: slot_kept_def)
      with live have m: "mem ?st' (?k m') = mem ?st (?k m')" by (auto simp: c(2))
      moreover have "mem ?st' (?k m') \<noteq> Map.empty" unfolding m using r(1) by auto
      then have "ttl ?st' (?k m') = Some (r - ms)"
        using c(3) r(2) by simp
      ultimately show ?thesis using r live by auto
    qed
    with k show ?thesis by (auto simp: slot_kept_def sem_step.simps)
  qed
  ultimately show ?thesis using c(1) by (simp add: sem_inv_def sem_step.simps)
qed

lemma sem_inv_run: "sem_inv env opts s \<Longrightarrow> sem_inv env opts (sem_run R env opts evs s)"
proof (induction evs arbitrary: s)
  case (Cons e evs)
  then show ?case
    using sem_inv_acquire sem_inv_renew sem_inv_release sem_inv_count sem_inv_elapse
    by (cases e) simp_all
qed simp

lemma live_in_set:
  assumes inv: "sem_inv env opts s"
  shows "live_tokens env opts m s \<subseteq> dom (mem (sm_redis s) (slot_key env opts m))"
  using inv by (fastforce simp: live_tokens_def sem_inv_def slot_kept_def)

lemma live_bounded:
  assumes inv: "sem_inv env opts s"
  shows "finite (live_tokens env opts m s) \<and>
    int (card (live_tokens env opts m s)) \<le> max 0 (ro_max_concurrent (resolve env opts))"
proof -
  have fin: "finite (dom (mem (sm_redis s) (slot_key env opts m)))"
    using inv by (auto simp: sem_inv_def intro: finite_mem)
  have "int (card (dom (mem (sm_redis s) (slot_key env opts m)))) \<le>
      max 0 (ro_max_concurrent (resolve env opts))"
    using inv by (simp add: sem_inv_def slots_bounded_def)
  with finite_subset [OF live_in_set [OF inv] fin] card_mono [OF fin live_in_set [OF inv]]
  show ?thesis by (meson of_nat_mono order_trans)
qed

lemma sem_inv_start:
  assumes "invar st" "\<forall>m. mem st (slot_key env opts m) = Map.empty"
  shows "sem_inv env opts \<lparr> sm_redis = st, sm_now = now, sm_held = Map.empty \<rparr>"
  using assms by (simp add: sem_inv_def slots_bounded_def)

lemma renew_live:
  assumes inv: "sem_inv env opts s" and t: "sm_held s (m, tok) = Some t"
    and live: "sm_now s < t + window_ms env opts"
  shows "snd (renew_semaphore R env (sm_redis s) (sm_now s) m tok opts)"
proof -
  have mem: "mem (sm_redis s) (slot_key env opts m) tok = Some (int t)" and i: "invar (sm_redis s)"
    using inv t live by (auto simp: sem_inv_def slot_kept_def)
  obtain st' b where run: "renew_script R (sm_redis s) (slot_key env opts m) (int (sm_now s)) tok
      (ro_ttl_seconds (resolve env opts)) = (st', b)" by fastforce
  from renew_script_cases [OF i run] mem have "b = 1" by simp
  with run show ?thesis by (simp add: renew_semaphore_def Let_def)
qed

text \<open>Nobody but its owner removes a slot that is renewed in time.\<close>

lemma held_step:
  assumes t: "sm_held s (m, tok) = Some t" and rel: "e \<noteq> Release m tok"
    and le: "t \<le> sm_now s"
  shows "\<exists>t'\<ge>t. t' \<le> sm_now (sem_step R env opts e s) \<and> sm_held (sem_step R env opts e s) (m, tok) = Some t'"
  using assms by (cases e) (auto simp: sem_step.simps split: prod.splits option.splits)

lemma now_step: "sm_now (sem_step R env opts e s) = sm_now s + (case e of Elapse ms \<Rightarrow> ms | _ \<Rightarrow> 0)"
  by (cases e) (auto simp: sem_step.simps split: prod.splits option.splits)

lemma now_run: "sm_now (sem_run R env opts evs s) = sm_now s + elapsed evs"
  by (induction evs arbitrary: s) (simp_all add: now_step)

lemma held_run:
  "sm_held s (m, tok) = Some t \<Longrightarrow> t \<le> sm_now s \<Longrightarrow> Release m tok \<notin> set evs \<Longrightarrow>
   \<exists>t'\<ge>t. sm_held (sem_run R env opts evs s) (m, tok) = Some t'"
proof (induction evs arbitrary: s t)
  case (Cons e evs)
  obtain t1 where t1: "t1 \<ge> t" "t1 \<le> sm_now (sem_step R env opts e s)"
    "sm_held (sem_step R env opts e s) (m, tok) = Some t1"
    using held_step [OF Cons.prems(1) _ Cons.prems(2), of e] Cons.prems(3) by auto
  with Cons.IH [OF t1(3,2)] Cons.prems(3) show ?case by fastforce
qed auto

lemma heartbeat_run:
  assumes inv: "sem_inv env opts s" and t: "sm_held s (m, tok) = Some t"
    and rel: "Release m tok \<notin> set evs" and time: "sm_now s + elapsed evs < t + window_ms env opts"
  shows "snd (renew_semaphore R env (sm_redis (sem_run R env opts evs s))
     (sm_now (sem_run R env opts evs s)) m tok opts)"
proof -
  have "t \<le> sm_now s" using inv t by (auto simp: sem_inv_def slot_kept_def)
  then obtain t' where "t' \<ge> t" "sm_held (sem_run R env opts evs s) (m, tok) = Some t'"
    using held_run [OF t _ rel] by blast
  with renew_live [OF sem_inv_run [OF inv]] time show ?thesis by (simp add: now_run)
qed

end

subsection \<open>Properties\<close>

definition sem_start :: "'r \<Rightarrow> nat \<Rightarrow> 'r sem_state" where
  "sem_start st now = \<lparr> sm_redis = st, sm_now = now, sm_held = Map.empty \<rparr>"

text \<open>
  C7: the concurrency limit: after any interleaving of acquire, renew, release and count calls
  by any workers for any merchants, with any passage of time, the tokens of a merchant whose
  last successful acquire or renewal is within the TTL number at most \<open>maxConcurrent\<close>.
\<close>

theorem semaphore_limit:
  assumes "redis_zsets R invar mem ttl" "invar st"
    and "\<forall>m. mem st (semaphore_key (resolve env opts) m) = Map.empty"
  shows "finite (live_tokens env opts m (sem_run R env opts evs (sem_start st now))) \<and>
    int (card (live_tokens env opts m (sem_run R env opts evs (sem_start st now))))
      \<le> max 0 (ro_max_concurrent (resolve env opts))"
  unfolding sem_start_def
  using redis_zsets.live_bounded [OF assms(1) redis_zsets.sem_inv_run [OF assms(1)
        redis_zsets.sem_inv_start [OF assms]]] .

definition empty_redis :: zstate where
  "empty_redis = []"

lemma empty_redis_ok [simp]: "zs_invar empty_redis" "zs_mem empty_redis k = Map.empty"
  by (simp_all add: empty_redis_def zs_invar_def zs_mem_def zs_get_def)

definition three_slots :: semaphore_options where
  "three_slots = no_options \<lparr> so_max_concurrent := Some 2 \<rparr>"

definition sample_events :: "sem_event list" where
  "sample_events = [Acquire ''m1'' ''a'', Elapse 1000, Acquire ''m1'' ''b'', Acquire ''m1'' ''c'',
     Renew ''m1'' (member_token 5 ''a''), Elapse 20000, Release ''m1'' (member_token 1005 ''b''),
     Acquire ''m1'' ''d'']"

theorem semaphore_limit_witness:
  "int (card (live_tokens None three_slots ''m1''
     (sem_run zs_ops None three_slots sample_events (sem_start empty_redis 5)))) \<le> 2 \<and>
   z_card zs_ops (sm_redis (sem_run zs_ops None three_slots sample_events (sem_start empty_redis 5)))
     ''semaphore:settlement:m1'' = 2"
proof -
  have "z_card zs_ops (sm_redis (sem_run zs_ops None three_slots sample_events (sem_start empty_redis 5)))
     ''semaphore:settlement:m1'' = 2"
    by code_simp
  moreover have "ro_max_concurrent (resolve None three_slots) = 2" by code_simp
  ultimately show ?thesis
    using semaphore_limit [OF zs.redis_zsets_axioms, of empty_redis None three_slots "''m1''" sample_events 5]
    by simp
qed

text \<open>
  the heartbeat keeps the slot: a token acquired or renewed less than the TTL ago and not
  released by its owner is still renewable, whatever all other jobs do in the meantime; in
  particular no other job's acquire or release can take the slot away.
\<close>

theorem heartbeat_keeps_slot:
  assumes "redis_zsets R invar mem ttl" "invar st"
    and "\<forall>m. mem st (semaphore_key (resolve env opts) m) = Map.empty"
    and "s = sem_run R env opts evs0 (sem_start st now)"
    and "sm_held s (m, tok) = Some t"
    and "Release m tok \<notin> set evs"
    and "sm_now s + elapsed evs < t + ro_ttl_seconds (resolve env opts) * 1000"
  shows "snd (renew_semaphore R env (sm_redis (sem_run R env opts evs s))
    (sm_now (sem_run R env opts evs s)) m tok opts)"
proof -
  have "redis_zsets.sem_inv invar mem ttl env opts s"
    unfolding assms(4) sem_start_def
    by (rule redis_zsets.sem_inv_run [OF assms(1) redis_zsets.sem_inv_start [OF assms(1-3)]])
  from redis_zsets.heartbeat_run [OF assms(1) this assms(5-7)] show ?thesis .
qed

theorem heartbeat_keeps_slot_witness:
  "snd (renew_semaphore zs_ops None
     (sm_redis (sem_run zs_ops None three_slots [Elapse 20000, Release ''m1'' ''x'', Acquire ''m1'' ''z'']
        (sem_run zs_ops None three_slots [Acquire ''m1'' ''a''] (sem_start empty_redis 5))))
     (sm_now (sem_run zs_ops None three_slots [Elapse 20000, Release ''m1'' ''x'', Acquire ''m1'' ''z'']
        (sem_run zs_ops None three_slots [Acquire ''m1'' ''a''] (sem_start empty_redis 5))))
     ''m1'' (member_token 5 ''a'') three_slots)"
proof -
  have held: "sm_held (sem_run zs_ops None three_slots [Acquire ''m1'' ''a''] (sem_start empty_redis 5))
      (''m1'', member_token 5 ''a'') = Some 5" by code_simp
  have now: "sm_now (sem_run zs_ops None three_slots [Acquire ''m1'' ''a''] (sem_start empty_redis 5))
      + elapsed [Elapse 20000, Release ''m1'' ''x'', Acquire ''m1'' ''z'']
      < 5 + ro_ttl_seconds (resolve None three_slots) * 1000" by code_simp
  have tok: "member_token 5 ''a'' = ''5:a''" by code_simp
  show ?thesis
    by (rule heartbeat_keeps_slot [OF zs.redis_zsets_axioms, OF empty_redis_ok(1) _ refl held _ now])
       (simp_all add: tok)
qed

text \<open>
  release is scoped to its token and idempotent: it removes exactly the caller's slot,
  reports whether it was there, and a second release of the same token reports false and
  leaves every slot of every merchant in place.
\<close>

theorem release_scoped:
  assumes "redis_zsets R invar mem ttl" "invar st"
  shows "\<exists>st'. release_semaphore R env st m tok opts =
      (st', mem st (semaphore_key (resolve env opts) m) tok \<noteq> None) \<and>
    mem st' = (mem st)(semaphore_key (resolve env opts) m :=
      (mem st (semaphore_key (resolve env opts) m))(tok := None)) \<and>
    snd (release_semaphore R env st' m tok opts) = False \<and>
    mem (fst (release_semaphore R env st' m tok opts)) = mem st'"
proof -
  let ?k = "semaphore_key (resolve env opts) m"
  obtain st' n where run: "release_script R st ?k tok = (st', n)" by fastforce
  obtain st'' n' where run': "release_script R st' ?k tok = (st'', n')" by fastforce
  from redis_zsets.release_script_cases [OF assms run]
  have c: "invar st'" "n = (if mem st ?k tok = None then 0 else 1)"
    "mem st' = (mem st)(?k := (mem st ?k)(tok := None))" by auto
  from redis_zsets.release_script_cases [OF assms(1) c(1) run'] c(3)
  have "n' = 0" "mem st'' = mem st'" by (auto simp: fun_eq_iff)
  with run run' c show ?thesis by (auto simp: release_semaphore_def Let_def)
qed

theorem release_scoped_witness:
  "snd (release_semaphore zs_ops None empty_redis ''m1'' ''t'' no_options) = False"
  using release_scoped [OF zs.redis_zsets_axioms, OF empty_redis_ok(1), of None "''m1''" "''t''" no_options]
  by auto

end
