(* ===== verification/JsonCanon.thy ===== *)
theory JsonCanon
  imports JsNumber "HOL-Library.Multiset" "HOL-Library.List_Lexorder" "HOL-Library.Char_ord"
begin

section \<open>Canonical JSON (\<open>shared/webhook-delivery/index.ts\<close>, \<open>canonicalize\<close>)\<close>

text \<open>
  The JSON values a webhook payload is built from, their canonical serialization with sorted
  keys, and the proof that it does not depend on the order in which keys were inserted.
  \<open>JDrop\<close> is a value \<open>JSON.stringify\<close> drops: \<open>undefined\<close>, a function or a symbol;
  \<open>JNonFinite\<close> is \<open>NaN\<close> or an infinity. The printing of finite numbers is the argument
  \<open>num\<close>: the result holds for every printer.
\<close>

datatype json =
    JNull
  | JBool bool
  | JNum rat
  | JNonFinite
  | JStr string
  | JArr "json list"
  | JObj "(string \<times> json) list"
  | JDrop

definition is_json_value :: "json \<Rightarrow> bool" where
  "is_json_value v = (v \<noteq> JDrop)"

text \<open>\<open>JSON.stringify(s)\<close> for a string\<close>

definition hex_digit :: "nat \<Rightarrow> char" where
  "hex_digit n = (''0123456789abcdef'' ! n)"

definition escape_char :: "char \<Rightarrow> string" where
  "escape_char c =
     (let n = char_code c
      in if n = 34 then [CHR 92, CHR 34]
         else if n = 92 then [CHR 92, CHR 92]
         else if n = 8 then CHR 92 # ''b''
         else if n = 12 then CHR 92 # ''f''
         else if n = 10 then CHR 92 # ''n''
         else if n = 13 then CHR 92 # ''r''
         else if n = 9 then CHR 92 # ''t''
         else if n < 32 then CHR 92 # ''u00'' @ [hex_digit (n div 16), hex_digit (n mod 16)]
         else [c])"

definition json_string :: "string \<Rightarrow> string" where
  "json_string s = [CHR 34] @ concat (map escape_char s) @ [CHR 34]"

fun join :: "string \<Rightarrow> string list \<Rightarrow> string" where
  "join sep [] = []"
| "join sep [x] = x"
| "join sep (x # y # xs) = x @ sep @ join sep (y # xs)"

definition json_colon :: "string \<Rightarrow> string \<Rightarrow> string" where
  "json_colon k v = json_string k @ '':'' @ v"

text \<open>
  \<open>canonicalize\<close>: the entries of an object are serialized, the dropped ones filtered out and
  the rest sorted by key, which is the order of \<open>Array.prototype.sort\<close> on strings.
\<close>

fun canonicalize :: "(rat \<Rightarrow> string) \<Rightarrow> json \<Rightarrow> string" where
  "canonicalize num JNull = ''null''"
| "canonicalize num (JArr vs) =
     ''['' @ join '','' (map (\<lambda>v. if is_json_value v then canonicalize num v else ''null'') vs) @ '']''"
| "canonicalize num (JObj kvs) =
     ''{'' @ join '',''
        (map (\<lambda>(k, s). json_colon k s)
          (sort_key fst (map (\<lambda>(k, v). (k, canonicalize num v)) (filter (\<lambda>(k, v). is_json_value v) kvs))))
     @ ''}''"
| "canonicalize num JNonFinite = ''null''"
| "canonicalize num (JNum q) = num q"
| "canonicalize num (JStr s) = json_string s"
| "canonicalize num (JBool b) = (if b then ''true'' else ''false'')"
| "canonicalize num JDrop = []"

subsection \<open>Reserialization\<close>

text \<open>
  Two values are the same payload when they differ only in the order of object keys and in
  dropped entries, at any depth. Keys of an object are distinct.
\<close>

fun keys_distinct :: "json \<Rightarrow> bool" where
  "keys_distinct (JArr vs) = list_all keys_distinct vs"
| "keys_distinct (JObj kvs) = (distinct (map fst kvs) \<and> list_all (\<lambda>(k, v). keys_distinct v) kvs)"
| "keys_distinct _ = True"

inductive same_payload :: "json \<Rightarrow> json \<Rightarrow> bool" where
  same: "same_payload v v"
| elements: "list_all2 same_payload vs ws \<Longrightarrow> same_payload (JArr vs) (JArr ws)"
| entries: "map fst kvs = map fst lws \<Longrightarrow> list_all2 same_payload (map snd kvs) (map snd lws) \<Longrightarrow>
    same_payload (JObj kvs) (JObj lws)"
| reorder: "mset kvs = mset lws \<Longrightarrow> same_payload (JObj kvs) (JObj lws)"
| dropped: "same_payload (JObj kvs) (JObj (filter (\<lambda>(k, v). is_json_value v) kvs))"
| trans: "same_payload u v \<Longrightarrow> same_payload v w \<Longrightarrow> same_payload u w"

lemma sort_key_permuted:
  assumes "mset xs = mset ys" "distinct (map fst xs)"
  shows "sort_key fst xs = sort_key fst ys"
proof (rule properties_for_sort_key)
  show "mset (sort_key fst ys) = mset xs" using assms(1) by simp
  show "sorted (map fst (sort_key fst ys))" by simp
  fix k assume "k \<in> set (sort_key fst ys)"
  have "filter (\<lambda>x. fst k = fst x) zs = (if \<exists>v. (fst k, v) \<in> set zs then [(fst k, THE v. (fst k, v) \<in> set zs)] else [])"
    if "distinct (map fst zs)" for zs :: "('a \<times> 'b) list"
    using that
  proof (induction zs)
    case (Cons z zs)
    obtain a b where z: "z = (a, b)" by force
    have none: "filter (\<lambda>x. a = fst x) zs = []" using Cons.prems z by (auto simp: filter_empty_conv)
    show ?case
    proof (cases "fst k = a")
      case True
      have "(a, v) \<notin> set zs" for v using Cons.prems z by force
      then have "(THE v. (a, v) \<in> set (z # zs)) = b" using z by auto
      with True none z show ?thesis by auto
    next
      case False
      have "(THE v. (fst k, v) \<in> set (z # zs)) = (THE v. (fst k, v) \<in> set zs)" using False z by auto
      with False Cons z show ?thesis by auto
    qed
  qed simp
  moreover have "distinct (map fst (sort_key fst ys))"
    using assms by (metis distinct_sort mset_map mset_sort mset_eq_imp_distinct_iff)
  moreover have "set (sort_key fst ys) = set xs" using assms(1) by (metis mset_sort set_mset_mset)
  ultimately show "filter (\<lambda>x. fst k = fst x) (sort_key fst ys) = filter (\<lambda>x. fst k = fst x) xs"
    using assms(2) by simp
qed

lemma is_json_value_same: "same_payload v w \<Longrightarrow> is_json_value v \<longleftrightarrow> is_json_value w"
  by (induction rule: same_payload.induct) (auto simp: is_json_value_def)

definition obj_items :: "(rat \<Rightarrow> string) \<Rightarrow> (string \<times> json) list \<Rightarrow> (string \<times> string) list" where
  "obj_items num kvs = map (\<lambda>(k, v). (k, canonicalize num v)) (filter (\<lambda>(k, v). is_json_value v) kvs)"

lemma canonicalize_obj:
  "canonicalize num (JObj kvs) =
     ''{'' @ join '','' (map (\<lambda>(k, s). json_colon k s) (sort_key fst (obj_items num kvs))) @ ''}''"
  by (simp add: obj_items_def)

lemma distinct_obj_items: "distinct (map fst kvs) \<Longrightarrow> distinct (map fst (obj_items num kvs))"
  by (induction kvs) (force simp: obj_items_def)+

lemma obj_items_entries:
  assumes "map fst kvs = map fst lws" "list_all2 same_payload (map snd kvs) (map snd lws)"
    "list_all2 (\<lambda>v w. canonicalize num v = canonicalize num w) (map snd kvs) (map snd lws)"
  shows "obj_items num kvs = obj_items num lws"
proof -
  have "length kvs = length lws" using assms(1) map_eq_imp_length_eq by blast
  then show ?thesis using assms
  proof (induction kvs lws rule: list_induct2)
    case (Cons x xs y ys)
    then show ?case
      using is_json_value_same [of "snd x" "snd y"]
      by (auto simp: obj_items_def split: prod.splits)
  qed (simp add: obj_items_def)
qed

lemma list_all_snd: "list_all (\<lambda>(k, v). P v) kvs \<longleftrightarrow> list_all P (map snd kvs)"
  by (induction kvs) auto

lemma list_all2_keys:
  "list_all2 (\<lambda>x y. same_payload x y \<and> (keys_distinct x \<longrightarrow>
     keys_distinct y \<and> canonicalize num x = canonicalize num y)) vs ws \<Longrightarrow>
   list_all keys_distinct vs \<Longrightarrow>
   list_all keys_distinct ws \<and> list_all2 same_payload vs ws \<and>
   list_all2 (\<lambda>v w. canonicalize num v = canonicalize num w) vs ws"
  by (induction rule: list_all2_induct) auto

lemma canonical_elements:
  "list_all2 same_payload vs ws \<Longrightarrow>
   list_all2 (\<lambda>v w. canonicalize num v = canonicalize num w) vs ws \<Longrightarrow>
   canonicalize num (JArr vs) = canonicalize num (JArr ws)"
proof -
  assume a: "list_all2 same_payload vs ws"
    "list_all2 (\<lambda>v w. canonicalize num v = canonicalize num w) vs ws"
  have "map (\<lambda>v. if is_json_value v then canonicalize num v else ''null'') vs =
      map (\<lambda>v. if is_json_value v then canonicalize num v else ''null'') ws"
    using a by (induction rule: list_all2_induct) (auto simp: is_json_value_same)
  then show ?thesis by simp
qed

lemma same_payload_canonical:
  "same_payload v w \<Longrightarrow> keys_distinct v \<Longrightarrow>
   keys_distinct w \<and> canonicalize num v = canonicalize num w"
proof (induction rule: same_payload.induct)
  case (elements vs ws)
  then have "list_all2 (\<lambda>x y. same_payload x y \<and> (keys_distinct x \<longrightarrow>
      keys_distinct y \<and> canonicalize num x = canonicalize num y)) vs ws" by simp
  from list_all2_keys [OF this] elements(2) canonical_elements show ?case by simp
next
  case (entries kvs lws)
  then have "list_all2 (\<lambda>x y. same_payload x y \<and> (keys_distinct x \<longrightarrow>
      keys_distinct y \<and> canonicalize num x = canonicalize num y)) (map snd kvs) (map snd lws)" by simp
  from list_all2_keys [OF this] entries(1,3) obj_items_entries [of kvs lws num]
  show ?case by (simp add: canonicalize_obj list_all_snd del: canonicalize.simps)
next
  case (reorder kvs lws)
  have s: "set kvs = set lws" using reorder(1) by (metis set_mset_mset)
  have "mset (map fst kvs) = mset (map fst lws)" using reorder(1) by simp
  then have d: "distinct (map fst lws)" using reorder(2) by (metis keys_distinct.simps(2) mset_eq_imp_distinct_iff)
  have "mset (obj_items num kvs) = mset (obj_items num lws)"
    using reorder(1) by (simp add: obj_items_def)
  from sort_key_permuted [OF this distinct_obj_items] reorder(2) s d
  show ?case by (simp add: canonicalize_obj list_all_iff del: canonicalize.simps)
next
  case (dropped kvs)
  have "obj_items num (filter (\<lambda>(k, v). is_json_value v) kvs) = obj_items num kvs"
    by (simp add: obj_items_def)
  with dropped show ?case
    by (auto simp: canonicalize_obj list_all_iff distinct_map_filter simp del: canonicalize.simps)
qed auto

subsection \<open>Property\<close>

text \<open>
  C17: the canonical form, and with it every signature computed over it, does not change when a
  payload is parsed and serialized again: reordering the keys of any object and dropping the
  entries \<open>JSON.stringify\<close> drops, at any depth, leaves \<open>canonicalize\<close> unchanged.
\<close>

theorem canonicalize_reserialization:
  assumes "same_payload v w" "keys_distinct v"
  shows "canonicalize num v = canonicalize num w"
  using same_payload_canonical [OF assms] by blast

theorem canonicalize_reserialization_witness:
  "canonicalize (\<lambda>_. ''1'') (JObj [(''b'', JStr ''x''), (''a'', JNum 1), (''u'', JDrop)]) =
   canonicalize (\<lambda>_. ''1'') (JObj [(''a'', JNum 1), (''b'', JStr ''x'')])"
proof -
  have "same_payload (JObj [(''b'', JStr ''x''), (''a'', JNum 1), (''u'', JDrop)])
      (JObj [(''b'', JStr ''x''), (''a'', JNum 1)])"
    using same_payload.dropped [of "[(''b'', JStr ''x''), (''a'', JNum 1), (''u'', JDrop)]"]
    by (simp add: is_json_value_def)
  moreover have "same_payload (JObj [(''b'', JStr ''x''), (''a'', JNum 1)])
      (JObj [(''a'', JNum 1), (''b'', JStr ''x'')])"
    by (rule same_payload.reorder) simp
  ultimately have "same_payload (JObj [(''b'', JStr ''x''), (''a'', JNum 1), (''u'', JDrop)])
      (JObj [(''a'', JNum 1), (''b'', JStr ''x'')])" by (rule same_payload.trans)
  from canonicalize_reserialization [OF this] show ?thesis by simp
qed

end
