(* ===== verification/RedisStrings.thy ===== *)
theory RedisStrings
  imports JsNumber
begin

section \<open>Redis string keys\<close>

text \<open>
  The Redis commands on strings the services use, as the parameter \<open>'r kv_ops\<close>: \<open>GET\<close>,
  \<open>SET [PX]\<close>, \<open>SET PX NX\<close>, \<open>INCR\<close>, \<open>PEXPIRE\<close> and \<open>DEL\<close>, each at an explicit time of the
  server in milliseconds. The locale states the documented behaviour through \<open>entry\<close>, the
  value stored under a key with the time it expires.
\<close>

record 'r kv_ops =
  kv_get :: "'r \<Rightarrow> nat \<Rightarrow> string \<Rightarrow> string option"
  kv_set :: "'r \<Rightarrow> nat \<Rightarrow> string \<Rightarrow> string \<Rightarrow> nat option \<Rightarrow> 'r"
  kv_set_nx :: "'r \<Rightarrow> nat \<Rightarrow> string \<Rightarrow> string \<Rightarrow> nat \<Rightarrow> 'r \<times> bool"
  kv_incr :: "'r \<Rightarrow> nat \<Rightarrow> string \<Rightarrow> 'r \<times> int"
  kv_pexpire :: "'r \<Rightarrow> nat \<Rightarrow> string \<Rightarrow> nat \<Rightarrow> 'r"
  kv_del :: "'r \<Rightarrow> nat \<Rightarrow> string \<Rightarrow> 'r"

type_synonym kv_entry = "string \<times> nat option"

definition kv_live :: "nat \<Rightarrow> kv_entry option \<Rightarrow> string option" where
  "kv_live now e = (case e of None \<Rightarrow> None
     | Some (v, None) \<Rightarrow> Some v
     | Some (v, Some t) \<Rightarrow> if now < t then Some v else None)"

definition kv_counter :: "string option \<Rightarrow> int" where
  "kv_counter v = (case v of None \<Rightarrow> 0 | Some s \<Rightarrow> (case parse_int s of Some n \<Rightarrow> n | None \<Rightarrow> 0))"

definition kv_expiry :: "nat \<Rightarrow> kv_entry option \<Rightarrow> nat option" where
  "kv_expiry now e = (if kv_live now e = None then None else (case e of Some (v, t) \<Rightarrow> t | None \<Rightarrow> None))"

locale redis_strings =
  fixes R :: "'r kv_ops"
    and invar :: "'r \<Rightarrow> bool"
    and entry :: "'r \<Rightarrow> string \<rightharpoonup> kv_entry"
  assumes get_entry: "invar st \<Longrightarrow> kv_get R st now k = kv_live now (entry st k)"
    and set_entry: "invar st \<Longrightarrow> invar (kv_set R st now k v ttl) \<and>
      entry (kv_set R st now k v ttl) = (entry st)(k \<mapsto> (v, map_option (\<lambda>t. now + t) ttl))"
    and set_nx_entry: "invar st \<Longrightarrow> \<exists>st'. invar st' \<and>
      kv_set_nx R st now k v px = (st', kv_live now (entry st k) = None) \<and>
      (if kv_live now (entry st k) = None then entry st' = (entry st)(k \<mapsto> (v, Some (now + px)))
       else entry st' = entry st)"
    and incr_entry: "invar st \<Longrightarrow> \<exists>st'. invar st' \<and>
      kv_incr R st now k = (st', kv_counter (kv_live now (entry st k)) + 1) \<and>
      entry st' = (entry st)(k \<mapsto>
        (string_of_int (kv_counter (kv_live now (entry st k)) + 1), kv_expiry now (entry st k)))"
    and pexpire_entry: "invar st \<Longrightarrow> invar (kv_pexpire R st now k px) \<and>
      entry (kv_pexpire R st now k px) = (case kv_live now (entry st k) of
          None \<Rightarrow> entry st | Some v \<Rightarrow> (entry st)(k \<mapsto> (v, Some (now + px))))"
    and del_entry: "invar st \<Longrightarrow> invar (kv_del R st now k) \<and> entry (kv_del R st now k) = (entry st)(k := None)"
begin

lemma set_nx_cases:
  assumes "invar st" "kv_set_nx R st now k v px = (st', ok)"
  shows "invar st' \<and> ok = (kv_live now (entry st k) = None) \<and>
    entry st' = (if ok then (entry st)(k \<mapsto> (v, Some (now + px))) else entry st)"
  using set_nx_entry [OF assms(1), of now k v px] assms(2) by (auto split: if_splits)

end

lemma kv_live_some: "kv_live now (Some (v, Some t)) = (if now < t then Some v else None)"
  by (simp add: kv_live_def)

lemma kv_live_mono: "kv_live now e = None \<Longrightarrow> now \<le> now' \<Longrightarrow> kv_live now' e = None"
  by (auto simp: kv_live_def split: option.splits if_splits)

subsection \<open>A reference implementation\<close>

type_synonym kv_store = "(string, kv_entry) jsmap"

definition kvs_ops :: "kv_store kv_ops" where
  "kvs_ops = \<lparr>
     kv_get = (\<lambda>st now k. kv_live now (map_of st k)),
     kv_set = (\<lambda>st now k v ttl. js_set k (v, map_option (\<lambda>t. now + t) ttl) st),
     kv_set_nx = (\<lambda>st now k v ttl. if kv_live now (map_of st k) = None
        then (js_set k (v, Some (now + ttl)) st, True) else (st, False)),
     kv_incr = (\<lambda>st now k. let n = kv_counter (kv_live now (map_of st k)) + 1
        in (js_set k (string_of_int n, kv_expiry now (map_of st k)) st, n)),
     kv_pexpire = (\<lambda>st now k ttl. case kv_live now (map_of st k) of None \<Rightarrow> st
        | Some v \<Rightarrow> js_set k (v, Some (now + ttl)) st),
     kv_del = (\<lambda>st now k. js_delete k st) \<rparr>"

interpretation kvs: redis_strings kvs_ops "\<lambda>_. True" map_of
  by unfold_locales (auto simp: kvs_ops_def Let_def split: option.splits)

end
