(* ===== verification/WebhookDelivery.thy ===== *)
theory WebhookDelivery
  imports JsonCanon RedisStrings WebhookTargets
begin

section \<open>Webhook delivery (\<open>shared/webhook-delivery/index.ts\<close>)\<close>

text \<open>
  Signing and verification, the queue options, one delivery attempt of the worker with its
  deduplication claim in Redis, and the dead-letter hook. Third-party parts are arguments:
  \<open>hmac secret data\<close> is the hexadecimal HMAC-SHA256, \<open>num\<close> prints numbers, \<open>fetch\<close> is the
  HTTP client (\<open>None\<close> when it throws or is aborted), \<open>R\<close> are the Redis commands.
\<close>

record webhook_job =
  wj_event_id :: "string option"
  wj_trace_id :: "string option"
  wj_url :: string
  wj_event :: json
  wj_signing_secret :: "string option"
  wj_version :: "string option"
  wj_headers :: "(string, string) jsmap option"

record webhook_defaults =
  wd_attempts :: nat
  wd_backoff_delay :: nat
  wd_concurrency :: nat
  wd_timeout_ms :: nat
  wd_remove_on_complete :: nat
  wd_remove_on_fail :: nat

definition webhook_default_values :: webhook_defaults where
  "webhook_default_values = \<lparr> wd_attempts = 5, wd_backoff_delay = 1000, wd_concurrency = 10,
     wd_timeout_ms = 5000, wd_remove_on_complete = 100, wd_remove_on_fail = 500 \<rparr>"

text \<open>\<open>env\<close> is \<open>process.env.WEBHOOK_CONCURRENCY\<close>.\<close>

definition resolve_webhook_concurrency :: "string option \<Rightarrow> nat \<Rightarrow> nat" where
  "resolve_webhook_concurrency env default_value =
     (case env of
        Some v \<Rightarrow> if v = [] then default_value
          else (case parse_int v of Some n \<Rightarrow> if n > 0 then nat n else default_value | None \<Rightarrow> default_value)
      | None \<Rightarrow> default_value)"

subsection \<open>Queue options\<close>

datatype keep_failed = KeepAll | KeepCount nat

record webhook_queue_options =
  wq_remove_on_complete :: "nat option"
  wq_remove_on_fail :: "keep_failed option"
  wq_attempts :: "nat option"
  wq_backoff_delay :: "nat option"

record job_options =
  jo_attempts :: nat
  jo_backoff_delay :: nat
  jo_remove_on_complete :: nat
  jo_remove_on_fail :: keep_failed

definition create_webhook_queue :: "webhook_queue_options \<Rightarrow> job_options" where
  "create_webhook_queue opts =
     (let d = webhook_default_values
      in \<lparr> jo_attempts = (case wq_attempts opts of Some n \<Rightarrow> n | None \<Rightarrow> wd_attempts d),
           jo_backoff_delay = (case wq_backoff_delay opts of Some n \<Rightarrow> n | None \<Rightarrow> wd_backoff_delay d),
           jo_remove_on_complete = (case wq_remove_on_complete opts of Some n \<Rightarrow> n | None \<Rightarrow> wd_remove_on_complete d),
           jo_remove_on_fail = (case wq_remove_on_fail opts of
              Some KeepAll \<Rightarrow> KeepAll
            | Some (KeepCount n) \<Rightarrow> KeepCount n
            | None \<Rightarrow> KeepCount (wd_remove_on_fail d)) \<rparr>)"

subsection \<open>Signatures\<close>

definition sign_payload :: "(string \<Rightarrow> string \<Rightarrow> string) \<Rightarrow> nat \<Rightarrow> string \<Rightarrow> string \<Rightarrow> string" where
  "sign_payload hmac now_ms body secret =
     (let timestamp = digits_of_nat (now_ms div 1000)
      in ''t='' @ timestamp @ '',s='' @ hmac secret (timestamp @ ''.'' @ body))"

record verify_options =
  vo_max_age :: "int option"
  vo_now :: "int option"

definition is_hex_lower :: "char \<Rightarrow> bool" where
  "is_hex_lower c \<longleftrightarrow> is_digit c \<or> (97 \<le> char_code c \<and> char_code c \<le> 102)"

text \<open>The match of \<open>/^t=(\d+),s=([0-9a-f]{64})$/\<close>.\<close>

definition parse_signature :: "string \<Rightarrow> (string \<times> string) option" where
  "parse_signature s =
     (let ds = takeWhile is_digit (drop 2 s);
          rest = dropWhile is_digit (drop 2 s);
          h = drop 3 rest
      in if take 2 s = ''t='' \<and> ds \<noteq> [] \<and> take 3 rest = '',s='' \<and> length h = 64 \<and> list_all is_hex_lower h
         then Some (ds, h) else None)"

text \<open>
  \<open>Number(ds)\<close> is finite below the largest double; \<open>String(Number(ds))\<close> is the number without
  leading zeros below \<open>2^53\<close> and a rounded one above, for which \<open>big\<close> stands. Comparing the
  two hexadecimal digests as byte buffers is comparing them as strings.
\<close>

definition js_finite :: "nat \<Rightarrow> bool" where
  "js_finite n = (n < 2 ^ 1024 - 2 ^ 970)"

definition js_number_string :: "(string \<Rightarrow> string) \<Rightarrow> string \<Rightarrow> string" where
  "js_number_string big ds =
     (if nat_of_digits ds < 2 ^ 53 then digits_of_nat (nat_of_digits ds) else big ds)"

definition verify_signature ::
  "(string \<Rightarrow> string \<Rightarrow> string) \<Rightarrow> (string \<Rightarrow> string) \<Rightarrow> nat \<Rightarrow> string \<Rightarrow> string \<Rightarrow> string \<Rightarrow> verify_options \<Rightarrow> bool" where
  "verify_signature hmac big now_ms body secret signature opts =
     (case parse_signature signature of
        None \<Rightarrow> False
      | Some (ds, provided) \<Rightarrow>
        let timestamp = nat_of_digits ds;
            now = (case vo_now opts of Some n \<Rightarrow> n | None \<Rightarrow> int (now_ms div 1000));
            too_old = (case vo_max_age opts of
               None \<Rightarrow> False
             | Some age \<Rightarrow> \<not> js_finite timestamp \<or> now - int timestamp > age)
        in if too_old then False
           else hmac secret (js_number_string big ds @ ''.'' @ body) = provided)"

subsection \<open>One delivery attempt\<close>

record http_request =
  rq_url :: string
  rq_headers :: "(string, string) jsmap"
  rq_body :: string

datatype attempt_outcome =
    Duplicate
  | DedupUnavailable
  | Delivered nat
  | HttpFailure nat
  | NetworkFailure

definition attempt_failed :: "attempt_outcome \<Rightarrow> bool" where
  "attempt_failed out = (case out of Duplicate \<Rightarrow> False | Delivered _ \<Rightarrow> False | _ \<Rightarrow> True)"

definition reserved_header_names :: "string list" where
  "reserved_header_names = [''content-type'', ''x-bettapay-signature'']"

definition webhook_request ::
  "(string \<Rightarrow> string \<Rightarrow> string) \<Rightarrow> (rat \<Rightarrow> string) \<Rightarrow> nat \<Rightarrow> webhook_job \<Rightarrow> http_request" where
  "webhook_request hmac num now job =
     (let version = (case wj_version job of Some v \<Rightarrow> v | None \<Rightarrow> ''1.0'');
          body = canonicalize num (JObj [(''version'', JStr version), (''event'', wj_event job)]);
          custom = fold (\<lambda>(k, v) hs. if to_lower k \<in> set reserved_header_names then hs else js_set k v hs)
            (case wj_headers job of Some hs \<Rightarrow> hs | None \<Rightarrow> []) [];
          typed = js_set ''Content-Type'' ''application/json'' custom;
          headers = (case wj_signing_secret job of
             Some s \<Rightarrow> if s = [] then typed else js_set ''X-BettaPay-Signature'' (sign_payload hmac now body s) typed
           | None \<Rightarrow> typed)
      in \<lparr> rq_url = wj_url job, rq_headers = headers, rq_body = body \<rparr>)"

definition dedup_ttl_ms :: nat where
  "dedup_ttl_ms = 3600000"

text \<open>The claim: whether to go on, skip, or fail because Redis failed.\<close>

definition dedup_key :: "string \<Rightarrow> string" where
  "dedup_key event_id = ''webhook_sent:'' @ event_id"

definition dedup_check ::
  "'r kv_ops option \<Rightarrow> bool \<Rightarrow> 'r \<Rightarrow> nat \<Rightarrow> webhook_job \<Rightarrow> 'r \<times> attempt_outcome option" where
  "dedup_check redis redis_fails st now job =
     (case (redis, wj_event_id job) of
        (Some R, Some event_id) \<Rightarrow>
          if event_id = [] then (st, None)
          else if redis_fails then (st, Some DedupUnavailable)
          else (case kv_set_nx R st now (dedup_key event_id) ''1'' dedup_ttl_ms of
             (st', True) \<Rightarrow> (st', None)
           | (st', False) \<Rightarrow> (st', Some Duplicate))
      | _ \<Rightarrow> (st, None))"

definition deliver_attempt ::
  "(string \<Rightarrow> string \<Rightarrow> string) \<Rightarrow> (rat \<Rightarrow> string) \<Rightarrow> 'r kv_ops option \<Rightarrow> bool \<Rightarrow>
   (http_request \<Rightarrow> nat option) \<Rightarrow> 'r \<Rightarrow> nat \<Rightarrow> webhook_job \<Rightarrow> 'r \<times> http_request list \<times> attempt_outcome" where
  "deliver_attempt hmac num redis redis_fails fetch st now job =
     (case dedup_check redis redis_fails st now job of
        (st', Some out) \<Rightarrow> (st', [], out)
      | (st', None) \<Rightarrow>
          let rq = webhook_request hmac num now job
          in (st', [rq],
              case fetch rq of
                None \<Rightarrow> NetworkFailure
              | Some status \<Rightarrow> if 200 \<le> status \<and> status \<le> 299 then Delivered status else HttpFailure status))"

text \<open>The \<open>failed\<close> hook: what is added to the dead-letter queue; its own failure is only logged.\<close>

definition on_webhook_failed :: "bool \<Rightarrow> nat \<Rightarrow> nat option \<Rightarrow> webhook_job option \<Rightarrow> webhook_job list" where
  "on_webhook_failed dlq_fails attempts_made job_attempts job =
     (case job of None \<Rightarrow> []
      | Some j \<Rightarrow>
        if attempts_made \<ge> (case job_attempts of Some n \<Rightarrow> n | None \<Rightarrow> wd_attempts webhook_default_values)
        then (if dlq_fails then [] else [j]) else [])"

subsection \<open>Sequences of attempts\<close>

text \<open>
  Attempts of any jobs by any workers in the order Redis serves them, each with its time, the
  availability of Redis and the reply of the target. The result lists the requests sent, with
  the event and the time.
\<close>

record attempt_input =
  ai_job :: webhook_job
  ai_now :: nat
  ai_redis_fails :: bool
  ai_fetch :: "http_request \<Rightarrow> nat option"

fun run_attempts ::
  "(string \<Rightarrow> string \<Rightarrow> string) \<Rightarrow> (rat \<Rightarrow> string) \<Rightarrow> 'r kv_ops \<Rightarrow> attempt_input list \<Rightarrow> 'r \<Rightarrow>
   (string option \<times> nat) list" where
  "run_attempts hmac num R [] st = []"
| "run_attempts hmac num R (a # as) st =
     (case deliver_attempt hmac num (Some R) (ai_redis_fails a) (ai_fetch a) st (ai_now a) (ai_job a) of
        (st', sent, out) \<Rightarrow>
          map (\<lambda>_. (wj_event_id (ai_job a), ai_now a)) sent @ run_attempts hmac num R as st')"

lemma run_attempts_after:
  "\<forall>b\<in>set bs. t \<le> ai_now b \<Longrightarrow> \<forall>x\<in>set (run_attempts hmac num R bs s). t \<le> snd x"
proof (induction bs arbitrary: s)
  case (Cons b bs)
  obtain s' sent out where "deliver_attempt hmac num (Some R) (ai_redis_fails b) (ai_fetch b) s (ai_now b)
      (ai_job b) = (s', sent, out)" by (cases "deliver_attempt hmac num (Some R) (ai_redis_fails b)
      (ai_fetch b) s (ai_now b) (ai_job b)") auto
  with Cons show ?case by auto
qed simp

context redis_strings
begin

lemma dedup_check_cases:
  assumes inv: "invar st" and run: "dedup_check (Some R) rf st now job = (st', out)"
  shows "invar st' \<and>
    (case wj_event_id job of
       Some e \<Rightarrow> e \<noteq> [] \<longrightarrow> out = None \<longrightarrow>
         kv_live now (entry st (dedup_key e)) = None \<and>
         entry st' = (entry st)(dedup_key e \<mapsto> (''1'', Some (now + dedup_ttl_ms)))
     | None \<Rightarrow> True) \<and>
    (entry st' = entry st \<or> (\<exists>e. wj_event_id job = Some e \<and> e \<noteq> [] \<and> out = None))"
proof (cases "wj_event_id job")
  case None
  with inv run show ?thesis by (auto simp: dedup_check_def)
next
  case (Some e)
  obtain st1 ok where nx: "kv_set_nx R st now (dedup_key e) ''1'' dedup_ttl_ms = (st1, ok)" by fastforce
  from set_nx_cases [OF inv nx] run Some nx inv show ?thesis
    by (auto simp: dedup_check_def split: if_splits bool.splits)
qed

text \<open>An event claimed at \<open>t\<close> blocks every request for it before \<open>t\<close> plus one hour.\<close>

lemma claimed_blocks:
  "invar st \<Longrightarrow> entry st (dedup_key e) = Some (''1'', Some (t + dedup_ttl_ms)) \<Longrightarrow> e \<noteq> [] \<Longrightarrow>
   sorted_wrt (\<lambda>a b. ai_now a \<le> ai_now b) as \<Longrightarrow>
   \<forall>x\<in>set (run_attempts hmac num R as st). fst x = Some e \<longrightarrow> t + dedup_ttl_ms \<le> snd x"
proof (induction as arbitrary: st)
  case Nil
  then show ?case by simp
next
  case (Cons a as)
  obtain st' out where dc: "dedup_check (Some R) (ai_redis_fails a) st (ai_now a) (ai_job a) = (st', out)"
    by fastforce
  note c = dedup_check_cases [OF Cons.prems(1) dc]
  show ?case
  proof (cases "wj_event_id (ai_job a) = Some e \<and> out = None")
    case True
    with c Cons.prems(2,3) have "t + dedup_ttl_ms \<le> ai_now a"
      by (auto simp: kv_live_some split: if_splits)
    moreover have "\<forall>x\<in>set (run_attempts hmac num R as st'). ai_now a \<le> snd x"
      using Cons.prems(4) by (intro run_attempts_after) auto
    ultimately show ?thesis using Cons.prems(4) dc True
      by (fastforce simp: deliver_attempt_def Let_def split: prod.splits option.splits)
  next
    case False
    then have "entry st' (dedup_key e) = Some (''1'', Some (t + dedup_ttl_ms))"
      using c Cons.prems(2) by (auto simp: dedup_key_def)
    with Cons.IH [of st'] c Cons.prems False dc show ?thesis
      by (auto simp: deliver_attempt_def Let_def split: prod.splits option.splits)
  qed
qed

lemma attempts_spaced:
  "invar st \<Longrightarrow> sorted_wrt (\<lambda>a b. ai_now a \<le> ai_now b) as \<Longrightarrow>
   sorted_wrt (\<lambda>x y. fst x = fst y \<longrightarrow> fst x \<noteq> None \<longrightarrow> fst x \<noteq> Some [] \<longrightarrow> snd x + dedup_ttl_ms \<le> snd y)
     (run_attempts hmac num R as st)"
proof (induction as arbitrary: st)
  case Nil
  then show ?case by simp
next
  case (Cons a as)
  obtain st' out where dc: "dedup_check (Some R) (ai_redis_fails a) st (ai_now a) (ai_job a) = (st', out)"
    by fastforce
  note c = dedup_check_cases [OF Cons.prems(1) dc]
  have tail: "sorted_wrt (\<lambda>a b. ai_now a \<le> ai_now b) as" "invar st'" using Cons.prems c by auto
  note IH = Cons.IH [OF tail(2,1)]
  show ?case
  proof (cases out)
    case (Some x)
    with IH dc show ?thesis by (simp add: deliver_attempt_def)
  next
    case None
    have "\<forall>x\<in>set (run_attempts hmac num R as st'). fst x = Some e \<longrightarrow> ai_now a + dedup_ttl_ms \<le> snd x"
      if "wj_event_id (ai_job a) = Some e" "e \<noteq> []" for e
      using claimed_blocks [of st' e "ai_now a" as hmac num] c that None tail by auto
    with IH dc None show ?thesis by (fastforce simp: deliver_attempt_def Let_def)
  qed
qed

lemma retry_after_claim:
  assumes inv: "invar st" and e: "wj_event_id job = Some e" "e \<noteq> []"
    and first: "deliver_attempt hmac num (Some R) False fetch st now job = (st', sent, out)" "sent \<noteq> []"
    and soon: "now' < now + dedup_ttl_ms"
  shows "(\<exists>st''. deliver_attempt hmac num (Some R) False fetch' st' now' job = (st'', [], Duplicate) \<and> entry st'' = entry st')"
proof -
  obtain st1 o1 where dc: "dedup_check (Some R) False st now job = (st1, o1)" by fastforce
  with first have s: "st1 = st'" "o1 = None"
    by (auto simp: deliver_attempt_def Let_def split: option.splits)
  with dedup_check_cases [OF inv dc] e have
    "invar st'" "entry st' (dedup_key e) = Some (''1'', Some (now + dedup_ttl_ms))" by auto
  moreover obtain st2 ok where nx: "kv_set_nx R st' now' (dedup_key e) ''1'' dedup_ttl_ms = (st2, ok)" by fastforce
  ultimately have "\<not> ok" "entry st2 = entry st'"
    using set_nx_cases [of st' now' "dedup_key e" "''1''" dedup_ttl_ms st2 ok] soon by (auto simp: kv_live_some)
  with nx e show ?thesis by (auto simp: deliver_attempt_def dedup_check_def)
qed

end

subsection \<open>Properties\<close>

text \<open>
  C19: no duplicate deliveries: among all requests that any workers send, for any jobs and with
  any replies of the targets, two requests for the same event are at least an hour apart.
\<close>

theorem webhook_deliveries_spaced:
  assumes "redis_strings R invar entry" "invar st"
    and "sorted_wrt (\<lambda>a b. ai_now a \<le> ai_now b) as"
  shows "sorted_wrt (\<lambda>x y. fst x = fst y \<longrightarrow> fst x \<notin> {None, Some []} \<longrightarrow> snd x + 3600000 \<le> snd y)
    (run_attempts hmac num R as st)"
  using redis_strings.attempts_spaced [OF assms(1), OF assms(2,3), of hmac num]
  by (rule sorted_wrt_mono_rel [rotated]) (auto simp: dedup_ttl_ms_def)

definition sample_job :: webhook_job where
  "sample_job = \<lparr> wj_event_id = Some ''settlement:s1:completed'', wj_trace_id = None, wj_url = ''https://m.example'',
     wj_event = JObj [], wj_signing_secret = None, wj_version = None, wj_headers = None \<rparr>"

definition sample_attempt :: "nat \<Rightarrow> nat option \<Rightarrow> attempt_input" where
  "sample_attempt t reply = \<lparr> ai_job = sample_job, ai_now = t, ai_redis_fails = False, ai_fetch = (\<lambda>_. reply) \<rparr>"

theorem webhook_deliveries_spaced_witness:
  "run_attempts (\<lambda>_ _. []) (\<lambda>_. []) kvs_ops [sample_attempt 0 (Some 200), sample_attempt 10 (Some 200),
     sample_attempt 3600000 (Some 200)] [] =
     [(Some ''settlement:s1:completed'', 0), (Some ''settlement:s1:completed'', 3600000)] \<and>
   sorted_wrt (\<lambda>x y. fst x = fst y \<longrightarrow> fst x \<notin> {None, Some []} \<longrightarrow> snd x + 3600000 \<le> snd y)
     (run_attempts (\<lambda>_ _. []) (\<lambda>_. []) kvs_ops [sample_attempt 0 (Some 200), sample_attempt 10 (Some 200),
        sample_attempt 3600000 (Some 200)] [])"
proof
  show "run_attempts (\<lambda>_ _. []) (\<lambda>_. []) kvs_ops [sample_attempt 0 (Some 200), sample_attempt 10 (Some 200),
     sample_attempt 3600000 (Some 200)] [] =
     [(Some ''settlement:s1:completed'', 0), (Some ''settlement:s1:completed'', 3600000)]"
    by code_simp
qed (rule webhook_deliveries_spaced [OF kvs.redis_strings_axioms], simp_all add: sample_attempt_def)

text \<open>
  the deduplication claim outlives a failed attempt: once an attempt of a job with an event
  id has sent its request, whatever the target answered, every retry within the hour sends
  nothing and counts as a success, so the retries of the queue cannot redeliver the event.
\<close>

theorem webhook_retry_skipped:
  assumes "redis_strings R invar entry" "invar st"
    and "wj_event_id job = Some e" "e \<noteq> []"
    and "deliver_attempt hmac num (Some R) False fetch st now job = (st', sent, out)" "sent \<noteq> []"
    and "now' < now + 3600000"
  shows "snd (deliver_attempt hmac num (Some R) False fetch' st' now' job) = ([], Duplicate) \<and>
    \<not> attempt_failed Duplicate"
  using redis_strings.retry_after_claim [OF assms(1), OF assms(2-6), of now' fetch'] assms(7)
  by (auto simp: dedup_ttl_ms_def attempt_failed_def)

theorem webhook_retry_skipped_witness:
  "snd (snd (deliver_attempt (\<lambda>_ _. []) (\<lambda>_. []) (Some kvs_ops) False (\<lambda>_. Some 503) [] 0 sample_job)) = HttpFailure 503 \<and>
   snd (deliver_attempt (\<lambda>_ _. []) (\<lambda>_. []) (Some kvs_ops) False (\<lambda>_. Some 200)
     (fst (deliver_attempt (\<lambda>_ _. []) (\<lambda>_. []) (Some kvs_ops) False (\<lambda>_. Some 503) [] 0 sample_job)) 1000 sample_job)
     = ([], Duplicate)"
proof -
  obtain st' sent out where run: "deliver_attempt (\<lambda>_ _. []) (\<lambda>_. []) (Some kvs_ops) False (\<lambda>_. Some 503) [] 0 sample_job =
      (st', sent, out)" by (metis prod_cases3)
  have "case deliver_attempt (\<lambda>_ _. []) (\<lambda>_. []) (Some kvs_ops) False (\<lambda>_. Some 503) [] 0 sample_job of
      (st', sent, out) \<Rightarrow> length sent = 1 \<and> out = HttpFailure 503" by code_simp
  then have s: "sent \<noteq> []" "out = HttpFailure 503" by (auto simp: run)
  have e: "wj_event_id sample_job = Some ''settlement:s1:completed''" by (simp add: sample_job_def)
  from webhook_retry_skipped [OF kvs.redis_strings_axioms, OF TrueI e _ run s(1), of 1000 "\<lambda>_. Some 200"] s
  show ?thesis by (simp add: run)
qed

lemma digits_split:
  assumes "list_all is_digit ds" "\<not> is_digit c"
  shows "takeWhile is_digit (ds @ c # r) = ds" "dropWhile is_digit (ds @ c # r) = c # r"
  using assms by (auto simp: list_all_iff takeWhile_append2 dropWhile_append2)

lemma parse_signed:
  assumes "length h = 64" "list_all is_hex_lower h"
  shows "parse_signature (''t='' @ digits_of_nat n @ '',s='' @ h) = Some (digits_of_nat n, h)"
  using assms digits_split [of "digits_of_nat n" "CHR '',''" "''s='' @ h"]
  by (simp add: parse_signature_def is_digit_def char_code_def)

text \<open>
  C20: signatures: with an HMAC whose hexadecimal digest has 64 lowercase digits, a signature made
  by \<open>signPayload\<close> is accepted exactly when it is not older than the permitted age and the
  digest over the received body equals the digest over the signed one; so the untouched body
  with the right secret is always accepted.
\<close>

theorem signature_verification:
  assumes "\<forall>k m. length (hmac k m) = 64 \<and> list_all is_hex_lower (hmac k m)"
    and "signed_at div 1000 < 2 ^ 53"
  shows "verify_signature hmac big now_ms body secret (sign_payload hmac signed_at body' secret')
      \<lparr> vo_max_age = Some age, vo_now = None \<rparr> \<longleftrightarrow>
    int (now_ms div 1000) - int (signed_at div 1000) \<le> age \<and>
    hmac secret (digits_of_nat (signed_at div 1000) @ ''.'' @ body) =
      hmac secret' (digits_of_nat (signed_at div 1000) @ ''.'' @ body')"
proof -
  have "signed_at div 1000 < 2 ^ 1024 - 2 ^ 970" using assms(2) by (rule less_trans) simp
  then have "js_finite (signed_at div 1000)" unfolding js_finite_def .
  then show ?thesis
    using assms parse_signed [of "hmac secret' (digits_of_nat (signed_at div 1000) @ ''.'' @ body')" "signed_at div 1000"]
    by (auto simp: verify_signature_def sign_payload_def Let_def js_number_string_def)
qed

theorem signature_verification_witness:
  "verify_signature (\<lambda>_ _. replicate 64 (CHR ''a'')) id 400000 ''x'' ''k''
     (sign_payload (\<lambda>_ _. replicate 64 (CHR ''a'')) 200000 ''x'' ''k'') \<lparr> vo_max_age = Some 300, vo_now = None \<rparr>"
  using signature_verification [of "\<lambda>_ _. replicate 64 (CHR ''a'')" 200000 id 400000 "''x''" "''k''" "''x''" "''k''" 300]
  by (simp add: list_all_iff is_hex_lower_def char_code_def)

end
