(* ===== verification/SettlementWorker.thy ===== *)
theory SettlementWorker
  imports SettlementAdapter RedisSemaphore WebhookDelivery
begin

section \<open>The settlement worker (\<open>settlement-engine/src/index.ts\<close>, \<open>webhook-payload.ts\<close>)\<close>

text \<open>
  The job processor with its semaphore, the transition to \<open>processing\<close> and \<open>completed\<close>, the
  failure path and the release of the slot; the webhook payload; the job timeout; the
  dead-letter hook; the monthly volume. Failures of external calls are inputs; jobs added to
  queues are outputs.
\<close>

subsection \<open>The webhook payload\<close>

text \<open>A string or \<open>null\<close>; \<open>isodate\<close> prints a date.\<close>

definition json_opt :: "('a \<Rightarrow> json) \<Rightarrow> 'a option \<Rightarrow> json" where
  "json_opt f v = (case v of Some a \<Rightarrow> f a | None \<Rightarrow> JNull)"

definition json_snapshot :: "fee_snapshot \<Rightarrow> json" where
  "json_snapshot s = JObj
     [(''feeBpsApplied'', JNum (fee_bps_applied s)), (''maxFeeBpsApplied'', JNum (max_fee_bps_applied s)),
      (''discountApplied'', JNum (discount_applied s)), (''monthlyVolumeAtTime'', JNum (monthly_volume_at_time s)),
      (''feeVersion'', JStr (fee_version s))]"

definition build_settlement_webhook_data :: "(int \<Rightarrow> string) \<Rightarrow> settlement \<Rightarrow> json" where
  "build_settlement_webhook_data isodate s =
     (let snap = (case s_fee_snapshot s of
            Some f \<Rightarrow> if fee_snapshot_ok f then Some f else None
          | None \<Rightarrow> None)
      in JObj
        [(''id'', JStr (s_id s)), (''merchantId'', JStr (s_merchant_id s)), (''status'', JStr (s_status s)),
         (''asset'', JStr (s_asset s)), (''grossAmount'', JStr (s_gross_amount s)),
         (''feeAmount'', JStr (s_fee_amount s)), (''netAmount'', JStr (s_net_amount s)),
         (''feeBps'', JNum (s_fee_bps s)), (''feeSnapshot'', json_opt json_snapshot snap),
         (''feeVersion'', json_opt (\<lambda>f. JStr (fee_version f)) snap), (''createdAt'', JNull),
         (''completedAt'', json_opt (\<lambda>t. JStr (isodate t)) (s_completed_at s))])"

definition extract_webhook_headers :: "(string, string) jsmap option \<Rightarrow> (string, string) jsmap option" where
  "extract_webhook_headers raw =
     (case raw of Some hs \<Rightarrow> if webhook_headers_schema hs then Some hs else None | None \<Rightarrow> None)"

definition settlement_webhook_job ::
  "(int \<Rightarrow> string) \<Rightarrow> string \<Rightarrow> settlement \<Rightarrow> string \<Rightarrow> string option \<Rightarrow> webhook_job" where
  "settlement_webhook_job isodate outcome s url trace =
     \<lparr> wj_event_id = Some (''settlement:'' @ s_id s @ '':'' @ outcome), wj_trace_id = trace, wj_url = url,
       wj_event = JObj [(''event'', JStr (''settlement.'' @ outcome)), (''data'', build_settlement_webhook_data isodate s)],
       wj_signing_secret = None, wj_version = None, wj_headers = extract_webhook_headers (s_webhook_headers s) \<rparr>"

subsection \<open>Jobs\<close>

text \<open>
  The data of a \<open>process-settlement\<close> job. The reaper enqueues only the id, so every other
  field may be missing; a missing string in a template prints as \<open>undefined\<close>.
\<close>

record settlement_job =
  sj_id :: string
  sj_merchant_id :: "string option"
  sj_gross_amount :: "string option"
  sj_asset :: "string option"
  sj_trace_id :: "string option"

definition template_string :: "string option \<Rightarrow> string" where
  "template_string s = (case s of Some v \<Rightarrow> v | None \<Rightarrow> ''undefined'')"

definition get_merchant_max_concurrency :: "rat option \<Rightarrow> int" where
  "get_merchant_max_concurrency raw = (case raw of Some v \<Rightarrow> if v > 0 then floor v else 10 | None \<Rightarrow> 10)"

datatype job_error =
    RedisUnavailable
  | RequeueFailed
  | ConcurrencyLimit
  | WriteFailed adapter_error
  | WebhookQueueFailed
  | JobTimedOut nat

text \<open>Everything outside the processor that decides its course.\<close>

record job_env =
  je_clock :: "nat \<Rightarrow> nat \<times> string"
  je_acquire_fails :: "nat \<Rightarrow> bool"
  je_requeue_fails :: bool
  je_start_faults :: faults
  je_complete_faults :: faults
  je_fail_faults :: faults
  je_completed_at :: int
  je_failed_at :: int
  je_webhook_fails :: bool
  je_fail_webhook_fails :: bool
  je_release_fails :: bool

record ('db, 'r) engine =
  en_db :: 'db
  en_redis :: 'r
  en_requeued :: "(settlement_job \<times> nat) list"
  en_webhooks :: "webhook_job list"

definition max_retries :: nat where
  "max_retries = 3"

definition requeue_delay_ms :: nat where
  "requeue_delay_ms = 5000"

datatype acquire_outcome = Token string | Requeue | Limit | RedisDown | NoToken

text \<open>\<open>for (let attempt = 0; attempt <= maxRetries; attempt++)\<close>\<close>

fun acquire_loop ::
  "'r redis_ops \<Rightarrow> string option \<Rightarrow> semaphore_options \<Rightarrow> job_env \<Rightarrow> string \<Rightarrow> nat list \<Rightarrow> 'r \<Rightarrow> 'r \<times> acquire_outcome" where
  "acquire_loop R env opts je merchant [] st = (st, NoToken)"
| "acquire_loop R env opts je merchant (attempt # attempts) st =
     (if je_acquire_fails je attempt then (st, RedisDown)
      else (case acquire_semaphore R env st (fst (je_clock je attempt)) (snd (je_clock je attempt)) merchant opts of
          (st', Some tok) \<Rightarrow> (st', Token tok)
        | (st', None) \<Rightarrow> (st', if attempt < max_retries then Requeue else Limit)))"

text \<open>
  The body of the \<open>try\<close>: the two writes and the webhook of the completed settlement. The job
  awaits every query, so other requests write the table meanwhile: \<open>oth n\<close> is what they do in
  the \<open>n\<close>-th gap (before and inside each guarded write, those of the \<open>catch\<close> included).
\<close>

definition complete_settlement ::
  "'db store_ops \<Rightarrow> (int \<Rightarrow> string) \<Rightarrow> (nat \<Rightarrow> 'db \<Rightarrow> 'db) \<Rightarrow> job_env \<Rightarrow> settlement_job \<Rightarrow> ('db, 'r) engine \<Rightarrow>
   ('db, 'r) engine \<times> (job_error, unit) result" where
  "complete_settlement S isodate oth je job en =
     (case guarded_update_between S (je_start_faults je) (oth 1) (oth 0 (en_db en)) (sj_id job)
             (no_update \<lparr> up_status := Some ''processing'' \<rparr>) of
        (db1, Inl e) \<Rightarrow> (en \<lparr> en_db := db1 \<rparr>, throw (WriteFailed e))
      | (db1, Inr _) \<Rightarrow>
        (case guarded_update_between S (je_complete_faults je) (oth 3) (oth 2 db1) (sj_id job)
               (no_update \<lparr> up_status := Some ''completed'', up_completed_at := Some (je_completed_at je) \<rparr>) of
          (db2, Inl e) \<Rightarrow> (en \<lparr> en_db := db2 \<rparr>, throw (WriteFailed e))
        | (db2, Inr updated) \<Rightarrow>
          (let en2 = en \<lparr> en_db := db2 \<rparr>
           in case s_webhook_url updated of
                None \<Rightarrow> (en2, return_ok ())
              | Some url \<Rightarrow>
                if url = [] then (en2, return_ok ())
                else if je_webhook_fails je then (en2, throw WebhookQueueFailed)
                else (en2 \<lparr> en_webhooks := en_webhooks en2 @
                       [settlement_webhook_job isodate ''completed'' updated url (sj_trace_id job)] \<rparr>,
                     return_ok ()))))"

text \<open>The \<open>catch\<close>: the settlement is marked failed if the database still allows it.\<close>

definition fail_settlement ::
  "'db store_ops \<Rightarrow> (int \<Rightarrow> string) \<Rightarrow> (nat \<Rightarrow> 'db \<Rightarrow> 'db) \<Rightarrow> job_env \<Rightarrow> settlement_job \<Rightarrow> ('db, 'r) engine \<Rightarrow> ('db, 'r) engine" where
  "fail_settlement S isodate oth je job en =
     (case guarded_update_between S (je_fail_faults je) (oth 5) (oth 4 (en_db en)) (sj_id job)
             (no_update \<lparr> up_status := Some ''failed'', up_completed_at := Some (je_failed_at je) \<rparr>) of
        (db1, Inl _) \<Rightarrow> en \<lparr> en_db := db1 \<rparr>
      | (db1, Inr updated) \<Rightarrow>
        (let en1 = en \<lparr> en_db := db1 \<rparr>
         in case s_webhook_url updated of
              None \<Rightarrow> en1
            | Some url \<Rightarrow>
              if url = [] \<or> je_fail_webhook_fails je then en1
              else en1 \<lparr> en_webhooks := en_webhooks en1 @
                     [settlement_webhook_job isodate ''failed'' updated url (sj_trace_id job)] \<rparr>))"

text \<open>
  \<open>baseSettlementProcessor\<close>. The slot is acquired with the configured limit and released with
  the default options; \<open>env\<close> is \<open>MERCHANT_MAX_CONCURRENCY\<close> of the process, \<open>limit\<close> the validated one.
\<close>

definition worker_options :: "rat option \<Rightarrow> semaphore_options" where
  "worker_options limit = no_options \<lparr> so_max_concurrent := Some (get_merchant_max_concurrency limit) \<rparr>"

definition base_settlement_processor ::
  "'db store_ops \<Rightarrow> 'r redis_ops \<Rightarrow> (int \<Rightarrow> string) \<Rightarrow> string option \<Rightarrow> rat option \<Rightarrow>
   (nat \<Rightarrow> 'db \<Rightarrow> 'db) \<Rightarrow> job_env \<Rightarrow> settlement_job \<Rightarrow>
   ('db, 'r) engine \<Rightarrow> ('db, 'r) engine \<times> (job_error, unit) result" where
  "base_settlement_processor S R isodate env limit oth je job en =
     (let merchant = template_string (sj_merchant_id job)
      in case acquire_loop R env (worker_options limit) je merchant [0..<Suc max_retries] (en_redis en) of
        (st, RedisDown) \<Rightarrow> (en \<lparr> en_redis := st \<rparr>, throw RedisUnavailable)
      | (st, Limit) \<Rightarrow> (en \<lparr> en_redis := st \<rparr>, throw ConcurrencyLimit)
      | (st, Requeue) \<Rightarrow>
          if je_requeue_fails je then (en \<lparr> en_redis := st \<rparr>, throw RequeueFailed)
          else (en \<lparr> en_redis := st, en_requeued := en_requeued en @ [(job, requeue_delay_ms)] \<rparr>, return_ok ())
      | (st, tok) \<Rightarrow>
          (case complete_settlement S isodate oth je job (en \<lparr> en_redis := st \<rparr>) of
             (en1, res) \<Rightarrow>
               let en2 = (case res of Inl _ \<Rightarrow> fail_settlement S isodate oth je job en1 | Inr _ \<Rightarrow> en1);
                   en3 = (case tok of
                      Token t \<Rightarrow>
                        if je_release_fails je then en2
                        else en2 \<lparr> en_redis := fst (release_semaphore R env (en_redis en2) merchant t no_options) \<rparr>
                    | _ \<Rightarrow> en2)
               in (en3, res)))"

subsection \<open>Job timeout and dead letters\<close>

text \<open>
  \<open>Promise.race\<close> of the processor and a timer: \<open>duration\<close> is how long the processor takes,
  \<open>None\<close> when it never settles. A job that lost the race keeps running.
\<close>

definition with_job_timeout :: "nat option \<Rightarrow> (job_error, 'a) result \<Rightarrow> nat \<Rightarrow> (job_error, 'a) result" where
  "with_job_timeout duration res timeout_ms =
     (case duration of
        Some d \<Rightarrow> if d \<le> timeout_ms then res else throw (JobTimedOut timeout_ms)
      | None \<Rightarrow> throw (JobTimedOut timeout_ms))"

record dead_letter =
  dl_name :: string
  dl_job :: settlement_job
  dl_job_id :: string
  dl_attempts :: nat

text \<open>The \<open>failed\<close> handler of the worker, which BullMQ calls after every failed attempt.\<close>

definition on_settlement_failed :: "(string \<times> string \<times> settlement_job) option \<Rightarrow> dead_letter list" where
  "on_settlement_failed job =
     (case job of None \<Rightarrow> []
      | Some (job_id, name, data) \<Rightarrow>
          [\<lparr> dl_name = name, dl_job = data, dl_job_id = job_id, dl_attempts = 1 \<rparr>])"

subsection \<open>Monthly volume\<close>

text \<open>
  \<open>getMonthlyVolume\<close> as a function of the replies: of Redis (an error or the cached string) and
  of the database (an error or the sum). The result and what is written to the cache.
\<close>

definition monthly_volume_key :: "string \<Rightarrow> nat \<Rightarrow> nat \<Rightarrow> string" where
  "monthly_volume_key merchant year month =
     ''monthlyVol:'' @ merchant @ '':'' @ digits_of_nat year @ ''-'' @ pad_start 2 (CHR ''0'') (digits_of_nat month)"

definition get_monthly_volume ::
  "(rat \<Rightarrow> rat) \<Rightarrow> (unit, string option) result \<Rightarrow> (unit, string option) result \<Rightarrow> rat \<times> rat option" where
  "get_monthly_volume fl cached db =
     (let from_db = (case db of
            Inl _ \<Rightarrow> (0, None)
          | Inr month_sum \<Rightarrow>
            let volume = (case parse_float fl (case month_sum of Some s \<Rightarrow> s | None \<Rightarrow> ''0'') of Some v \<Rightarrow> v | None \<Rightarrow> 0)
            in (volume, Some volume))
      in case cached of
        Inr (Some s) \<Rightarrow> ((case parse_float fl s of Some v \<Rightarrow> v | None \<Rightarrow> 0), None)
      | _ \<Rightarrow> from_db)"

subsection \<open>What the processor guarantees\<close>

lemma acquire_loop_first:
  "acquire_loop R env opts je m (0 # as) st = (st', out) \<Longrightarrow> out \<noteq> Limit \<and> out \<noteq> NoToken"
  by (auto simp: max_retries_def split: if_splits option.splits prod.splits)

lemma attempts_unfold: "[0..<Suc max_retries] = 0 # [1..<Suc max_retries]"
  by (simp add: max_retries_def upt_rec)

locale settlement_worker =
  settlement_store S invar + redis_zsets R rinvar mem ttl
  for S :: "'db store_ops" and invar :: "'db \<Rightarrow> bool"
    and R :: "'r redis_ops" and rinvar :: "'r \<Rightarrow> bool"
    and mem :: "'r \<Rightarrow> string \<Rightarrow> string \<rightharpoonup> int" and ttl :: "'r \<Rightarrow> string \<Rightarrow> nat option"

interpretation ref_worker: settlement_worker tab_ops tab_invar zs_ops zs_invar zs_mem zs_ttl ..

lemma status_allowed_write:
  "up_status u = Some nxt \<Longrightarrow> nxt \<noteq> [] \<Longrightarrow>
   status_allowed u r \<longleftrightarrow> s_status r = nxt \<or> is_valid_transition settlement_status_transitions (s_status r) nxt"
  by (auto simp: status_allowed_def validate_transition_cases)

context settlement_store
begin

text \<open>Other requests leave the row \<open>i\<close> alone.\<close>

definition steady :: "string \<Rightarrow> ('db \<Rightarrow> 'db) \<Rightarrow> bool" where
  "steady i g \<longleftrightarrow> (\<forall>db. invar db \<longrightarrow> invar (g db) \<and> st_find S (g db) i = st_find S db i)"

lemma steadyD: "steady i g \<Longrightarrow> invar db \<Longrightarrow> invar (g db) \<and> st_find S (g db) i = st_find S db i"
  by (simp add: steady_def)

lemma guarded_write_row:
  assumes inv: "invar db" and r: "st_find S db i = Some r" and u: "up_status u = Some nxt" "nxt \<noteq> []"
    and env: "steady i env" and run: "guarded_update_between S flt env db i u = (db', res)"
  shows "invar db' \<and>
    (case res of
       Inl e \<Rightarrow> st_find S db' i = Some r \<and> (flt = no_faults \<longrightarrow> \<not> status_allowed u r)
     | Inr x \<Rightarrow> st_find S db' i = Some (apply_update u r) \<and> x = apply_update u r \<and> status_allowed u r) \<and>
    (\<forall>j. j \<noteq> i \<longrightarrow> st_find S db' j = st_find S (env db) j)"
proof -
  have e: "invar (env db)" "st_find S (env db) i = Some r" using steadyD [OF env inv] r by simp_all
  obtain db1 where db1: "st_update_many S (env db) (\<lambda>r. s_id r = i \<and> True) (apply_update u) = (db1, 1)" "invar db1"
    "st_find S db1 = (st_find S (env db))(i \<mapsto> apply_update u r)"
    using update_by_id [OF e(1) key_preserving_apply_update, of i "\<lambda>_. True" u] e(2) by auto
  have "status_allowed u r \<longleftrightarrow> validate_transition (s_status r) nxt = Inr ()"
    using u by (simp add: status_allowed_def)
  then show ?thesis
    using run r u e db1
    by (auto simp: guarded_update_defs faulty_def result_bind_def split: option.splits sum.splits)
qed

end

text \<open>No external call of the job fails.\<close>

definition healthy :: "job_env \<Rightarrow> bool" where
  "healthy je \<longleftrightarrow> je_start_faults je = no_faults \<and> je_complete_faults je = no_faults \<and>
     je_fail_faults je = no_faults \<and> \<not> je_webhook_fails je \<and> \<not> je_fail_webhook_fails je"

definition webhook_url_of :: "settlement \<Rightarrow> string option" where
  "webhook_url_of r = (case s_webhook_url r of Some url \<Rightarrow> if url = [] then None else Some url | None \<Rightarrow> None)"

definition new_webhooks :: "(int \<Rightarrow> string) \<Rightarrow> string \<Rightarrow> settlement \<Rightarrow> settlement_job \<Rightarrow> webhook_job list" where
  "new_webhooks isodate outcome r job = (case webhook_url_of r of
     Some url \<Rightarrow> [settlement_webhook_job isodate outcome r url (sj_trace_id job)] | None \<Rightarrow> [])"

definition completed_row :: "job_env \<Rightarrow> settlement \<Rightarrow> settlement" where
  "completed_row je r = r \<lparr> s_status := ''completed'', s_completed_at := Some (je_completed_at je) \<rparr>"

definition failed_row :: "job_env \<Rightarrow> settlement \<Rightarrow> settlement" where
  "failed_row je r = r \<lparr> s_status := ''failed'', s_completed_at := Some (je_failed_at je) \<rparr>"

definition processing_row :: "settlement \<Rightarrow> settlement" where
  "processing_row r = r \<lparr> s_status := ''processing'' \<rparr>"

text \<open>The rows a job may start, and the rows it may mark failed.\<close>

definition startable :: "settlement \<Rightarrow> bool" where
  "startable r \<longleftrightarrow> s_status r = ''pending'' \<or> s_status r = ''processing''"

definition failable :: "settlement \<Rightarrow> bool" where
  "failable r \<longleftrightarrow> s_status r \<in> {''pending'', ''processing'', ''failed''}"

text \<open>Which slot a job gets.\<close>

definition job_slot ::
  "'r redis_ops \<Rightarrow> string option \<Rightarrow> rat option \<Rightarrow> job_env \<Rightarrow> settlement_job \<Rightarrow> 'r \<Rightarrow> acquire_outcome" where
  "job_slot R env limit je job st =
     snd (acquire_loop R env (worker_options limit) je (template_string (sj_merchant_id job)) [0..<Suc max_retries] st)"

text \<open>
  The outcome of a job that has a slot: from the row \<open>r\<close> and the queued webhooks \<open>ws\<close> to \<open>r'\<close> and
  \<open>ws'\<close>, with the result \<open>res\<close>.
\<close>

definition job_done ::
  "(int \<Rightarrow> string) \<Rightarrow> job_env \<Rightarrow> settlement_job \<Rightarrow> settlement \<Rightarrow> settlement \<Rightarrow> (job_error, unit) result \<Rightarrow>
   webhook_job list \<Rightarrow> webhook_job list \<Rightarrow> bool" where
  "job_done isodate je job r r' res ws ws' \<longleftrightarrow>
     (case res of
        Inr _ \<Rightarrow> startable r \<and> r' = completed_row je r \<and>
          ws' = ws @ new_webhooks isodate ''completed'' (completed_row je r) job
      | Inl e \<Rightarrow> (healthy je \<longrightarrow> \<not> startable r) \<and>
          (r' = r \<and> ws' = ws \<and> (healthy je \<longrightarrow> \<not> failable r) \<or>
           startable r \<and> r' = processing_row r \<and> ws' = ws \<or>
           startable r \<and> r' = completed_row je r \<and> ws' = ws \<and> e = WebhookQueueFailed \<or>
           failable r \<and> r' = failed_row je r \<and>
             (ws' = ws @ new_webhooks isodate ''failed'' (failed_row je r) job \<or> je_fail_webhook_fails je \<and> ws' = ws)))"

abbreviation start_update :: settlement_update where
  "start_update \<equiv> no_update \<lparr> up_status := Some ''processing'' \<rparr>"

abbreviation complete_update :: "job_env \<Rightarrow> settlement_update" where
  "complete_update je \<equiv> no_update \<lparr> up_status := Some ''completed'', up_completed_at := Some (je_completed_at je) \<rparr>"

abbreviation fail_update :: "job_env \<Rightarrow> settlement_update" where
  "fail_update je \<equiv> no_update \<lparr> up_status := Some ''failed'', up_completed_at := Some (je_failed_at je) \<rparr>"

lemma worker_updates:
  "apply_update (complete_update je) (processing_row r) = completed_row je r"
  "apply_update (fail_update je) r = failed_row je r"
  by (simp_all add: apply_update_def no_update_def completed_row_def failed_row_def processing_row_def)

lemma processing_update: "apply_update start_update r = processing_row r"
  by (simp add: apply_update_def no_update_def processing_row_def)

lemma failed_processing: "failed_row je (processing_row r) = failed_row je r"
  by (simp add: failed_row_def processing_row_def)

lemma processing_status [simp]: "s_status (processing_row r) = ''processing''"
  by (simp add: processing_row_def)

lemma start_allowed:
  "status_allowed start_update r \<longleftrightarrow> startable r"
  by (auto simp: startable_def status_allowed_write [where nxt = "''processing''"] settlement_transitions)

lemma complete_allowed: "status_allowed (complete_update je) (processing_row r)"
  by (simp add: status_allowed_write [where nxt = "''completed''"] settlement_transitions apply_update_status)

lemma fail_allowed:
  "status_allowed (fail_update je) r \<longleftrightarrow> failable r"
  by (auto simp: failable_def status_allowed_write [where nxt = "''failed''"] settlement_transitions)

context settlement_store
begin

abbreviation quiet :: "(nat \<Rightarrow> 'db \<Rightarrow> 'db) \<Rightarrow> string \<Rightarrow> bool" where
  "quiet oth j \<equiv> \<forall>n db. st_find S (oth n db) j = st_find S db j"

lemma complete_settlement_row:
  assumes oth: "\<And>n. steady (sj_id job) (oth n)" and inv: "invar (en_db en)"
    and r: "st_find S (en_db en) (sj_id job) = Some r"
    and run: "complete_settlement S isodate oth je job en = (en', res)"
  shows "invar (en_db en') \<and> en_requeued en' = en_requeued en \<and>
    (case res of
       Inr _ \<Rightarrow> startable r \<and> st_find S (en_db en') (sj_id job) = Some (completed_row je r) \<and>
         en_webhooks en' = en_webhooks en @ new_webhooks isodate ''completed'' (completed_row je r) job
     | Inl e \<Rightarrow> en_webhooks en' = en_webhooks en \<and> (healthy je \<longrightarrow> \<not> startable r) \<and>
         (st_find S (en_db en') (sj_id job) = Some r \<and> e \<noteq> WebhookQueueFailed \<or>
          startable r \<and> st_find S (en_db en') (sj_id job) = Some (processing_row r) \<and> e \<noteq> WebhookQueueFailed \<or>
          startable r \<and> st_find S (en_db en') (sj_id job) = Some (completed_row je r) \<and> e = WebhookQueueFailed)) \<and>
    (\<forall>j. j \<noteq> sj_id job \<longrightarrow> quiet oth j \<longrightarrow> st_find S (en_db en') j = st_find S (en_db en) j)"
proof -
  let ?i = "sj_id job"
  have inv0: "invar (oth 0 (en_db en))" "st_find S (oth 0 (en_db en)) ?i = Some r" using steadyD [OF oth inv] r by simp_all
  obtain db1 r1 where 1: "guarded_update_between S (je_start_faults je) (oth 1) (oth 0 (en_db en)) ?i start_update = (db1, r1)"
    by fastforce
  note w1 = guarded_write_row [OF inv0 _ _ oth 1, of "''processing''"]
  show ?thesis
  proof (cases r1)
    case (Inl e)
    with w1 run 1 show ?thesis by (auto simp: complete_settlement_def start_allowed healthy_def)
  next
    case (Inr x)
    have inv2: "invar (oth 2 db1)" "st_find S (oth 2 db1) ?i = Some (processing_row r)" and st: "startable r"
      using w1 Inr steadyD [OF oth, of db1] by (auto simp: processing_update start_allowed)
    obtain db2 r2 where 2: "guarded_update_between S (je_complete_faults je) (oth 3) (oth 2 db1) ?i (complete_update je) = (db2, r2)"
      by fastforce
    note w2 = guarded_write_row [OF inv2 _ _ oth 2, of "''completed''"]
    have url: "s_webhook_url (completed_row je r) = s_webhook_url r" by (simp add: completed_row_def)
    show ?thesis
    proof (cases r2)
      case Inl2: (Inl e)
      with Inr w1 w2 run 1 2 st show ?thesis
        by (auto simp: complete_settlement_def healthy_def complete_allowed)
    next
      case Inr2: (Inr y)
      with Inr w1 w2 run 1 2 st show ?thesis
        by (auto simp: complete_settlement_def healthy_def worker_updates Let_def new_webhooks_def webhook_url_of_def
            split: option.splits if_splits)
    qed
  qed
qed

lemma fail_settlement_row:
  fixes isodate :: "int \<Rightarrow> string" and je :: job_env
  assumes oth: "\<And>n. steady (sj_id job) (oth n)" and inv: "invar (en_db en)"
    and r: "st_find S (en_db en) (sj_id job) = Some r"
  defines "en' \<equiv> fail_settlement S isodate oth je job en"
  shows "en_requeued en' = en_requeued en \<and>
    (st_find S (en_db en') (sj_id job) = Some r \<and> en_webhooks en' = en_webhooks en \<and> (healthy je \<longrightarrow> \<not> failable r) \<or>
     failable r \<and> st_find S (en_db en') (sj_id job) = Some (failed_row je r) \<and>
       (en_webhooks en' = en_webhooks en @ new_webhooks isodate ''failed'' (failed_row je r) job \<or>
        je_fail_webhook_fails je \<and> en_webhooks en' = en_webhooks en)) \<and>
    (\<forall>j. j \<noteq> sj_id job \<longrightarrow> quiet oth j \<longrightarrow> st_find S (en_db en') j = st_find S (en_db en) j)"
proof -
  let ?i = "sj_id job"
  have inv0: "invar (oth 4 (en_db en))" "st_find S (oth 4 (en_db en)) ?i = Some r" using steadyD [OF oth inv] r by simp_all
  obtain db1 r1 where 1: "guarded_update_between S (je_fail_faults je) (oth 5) (oth 4 (en_db en)) ?i (fail_update je) = (db1, r1)"
    by fastforce
  note w1 = guarded_write_row [OF inv0 _ _ oth 1, of "''failed''"]
  show ?thesis
    using w1 1
    by (cases r1) (auto simp: en'_def fail_settlement_def fail_allowed healthy_def worker_updates Let_def new_webhooks_def
        webhook_url_of_def split: option.splits)
qed

lemma processor_outcome:
  assumes oth: "\<And>n. steady (sj_id job) (oth n)" and inv: "invar (en_db en)"
    and r: "st_find S (en_db en) (sj_id job) = Some r"
    and run: "base_settlement_processor S R isodate env limit oth je job en = (en', res)"
  shows "(\<exists>r'. st_find S (en_db en') (sj_id job) = Some r' \<and>
      (case job_slot R env limit je job (en_redis en) of
         RedisDown \<Rightarrow> res = Inl RedisUnavailable \<and> r' = r \<and> en_requeued en' = en_requeued en \<and> en_webhooks en' = en_webhooks en
       | Requeue \<Rightarrow> r' = r \<and> en_webhooks en' = en_webhooks en \<and>
           (if je_requeue_fails je then res = Inl RequeueFailed \<and> en_requeued en' = en_requeued en
            else res = Inr () \<and> en_requeued en' = en_requeued en @ [(job, requeue_delay_ms)])
       | Token t \<Rightarrow> en_requeued en' = en_requeued en \<and> job_done isodate je job r r' res (en_webhooks en) (en_webhooks en')
       | _ \<Rightarrow> False)) \<and>
    (\<forall>j. j \<noteq> sj_id job \<longrightarrow> quiet oth j \<longrightarrow> st_find S (en_db en') j = st_find S (en_db en) j)"
proof -
  let ?m = "template_string (sj_merchant_id job)"
  obtain st out where a: "acquire_loop R env (worker_options limit) je ?m [0..<Suc max_retries] (en_redis en) = (st, out)"
    by fastforce
  then have slot: "job_slot R env limit je job (en_redis en) = out" by (simp add: job_slot_def)
  show ?thesis
  proof (cases "\<exists>t. out = Token t")
    case True
    then obtain t where t: "out = Token t" ..
    let ?en = "en \<lparr> en_redis := st \<rparr>"
    obtain en1 where c: "complete_settlement S isodate oth je job ?en = (en1, res)"
      and d: "en_db en' = en_db (case res of Inl _ \<Rightarrow> fail_settlement S isodate oth je job en1 | Inr _ \<Rightarrow> en1)"
        "en_requeued en' = en_requeued (case res of Inl _ \<Rightarrow> fail_settlement S isodate oth je job en1 | Inr _ \<Rightarrow> en1)"
        "en_webhooks en' = en_webhooks (case res of Inl _ \<Rightarrow> fail_settlement S isodate oth je job en1 | Inr _ \<Rightarrow> en1)"
      using run a t by (auto simp: base_settlement_processor_def Let_def split: prod.splits)
    have k: "invar (en_db en1)" "en_requeued en1 = en_requeued en"
      "\<forall>j. j \<noteq> sj_id job \<longrightarrow> quiet oth j \<longrightarrow> st_find S (en_db en1) j = st_find S (en_db en) j"
      using complete_settlement_row [OF oth _ _ c, of r] inv r by simp_all
    have w: "case res of
       Inr _ \<Rightarrow> startable r \<and> st_find S (en_db en1) (sj_id job) = Some (completed_row je r) \<and>
         en_webhooks en1 = en_webhooks en @ new_webhooks isodate ''completed'' (completed_row je r) job
     | Inl e \<Rightarrow> en_webhooks en1 = en_webhooks en \<and> (healthy je \<longrightarrow> \<not> startable r) \<and>
         (st_find S (en_db en1) (sj_id job) = Some r \<and> e \<noteq> WebhookQueueFailed \<or>
          startable r \<and> st_find S (en_db en1) (sj_id job) = Some (processing_row r) \<and> e \<noteq> WebhookQueueFailed \<or>
          startable r \<and> st_find S (en_db en1) (sj_id job) = Some (completed_row je r) \<and> e = WebhookQueueFailed)"
      using complete_settlement_row [OF oth _ _ c, of r] inv r by (simp split: sum.splits)
    show ?thesis
    proof (cases res)
      case (Inr x)
      with w k d slot t show ?thesis by (auto simp: job_done_def)
    next
      case (Inl e)
      have f: "en_requeued en' = en_requeued en1 \<and>
        (st_find S (en_db en') (sj_id job) = Some r1 \<and> en_webhooks en' = en_webhooks en1 \<and> (healthy je \<longrightarrow> \<not> failable r1) \<or>
         failable r1 \<and> st_find S (en_db en') (sj_id job) = Some (failed_row je r1) \<and>
           (en_webhooks en' = en_webhooks en1 @ new_webhooks isodate ''failed'' (failed_row je r1) job \<or>
            je_fail_webhook_fails je \<and> en_webhooks en' = en_webhooks en1)) \<and>
        (\<forall>j. j \<noteq> sj_id job \<longrightarrow> quiet oth j \<longrightarrow> st_find S (en_db en') j = st_find S (en_db en1) j)"
        if "st_find S (en_db en1) (sj_id job) = Some r1" for r1
        using fail_settlement_row [OF oth k(1) that, where isodate = isodate and je = je] d Inl by simp
      have wi: "en_webhooks en1 = en_webhooks en" "healthy je \<longrightarrow> \<not> startable r"
        "st_find S (en_db en1) (sj_id job) = Some r \<and> e \<noteq> WebhookQueueFailed \<or>
          startable r \<and> st_find S (en_db en1) (sj_id job) = Some (processing_row r) \<and> e \<noteq> WebhookQueueFailed \<or>
          startable r \<and> st_find S (en_db en1) (sj_id job) = Some (completed_row je r) \<and> e = WebhookQueueFailed"
        using w Inl by simp_all
      from wi(3) show ?thesis
      proof (elim disjE conjE)
        assume "st_find S (en_db en1) (sj_id job) = Some r" "e \<noteq> WebhookQueueFailed"
        with f [of r] wi k slot t Inl show ?thesis by (auto simp: job_done_def)
      next
        assume h: "startable r" "st_find S (en_db en1) (sj_id job) = Some (processing_row r)" "e \<noteq> WebhookQueueFailed"
        with f [OF h(2)] wi k slot t Inl show ?thesis by (auto simp: job_done_def failable_def startable_def failed_processing)
      next
        assume h: "startable r" "st_find S (en_db en1) (sj_id job) = Some (completed_row je r)" "e = WebhookQueueFailed"
        with f [OF h(2)] wi k slot t Inl show ?thesis
          by (auto simp: job_done_def failable_def completed_row_def)
      qed
    qed
  next
    case False
    have "out \<noteq> NoToken" "out \<noteq> Limit" using acquire_loop_first [OF a [unfolded attempts_unfold]] by simp_all
    with False run a slot r inv show ?thesis
      by (cases out) (auto simp: base_settlement_processor_def Let_def split: if_splits)
  qed
qed

end

context settlement_worker
begin

lemma fail_settlement_redis [simp]: "en_redis (fail_settlement S isodate oth je job en) = en_redis en"
  by (auto simp: fail_settlement_def Let_def split: prod.splits sum.splits option.splits)

lemma complete_settlement_redis:
  "complete_settlement S isodate oth je job en = (en', res) \<Longrightarrow> en_redis en' = en_redis en"
  by (auto simp: complete_settlement_def Let_def split: prod.splits sum.splits option.splits if_splits)

lemma acquire_frame:
  assumes inv: "rinvar st"
    and run: "acquire_semaphore R env st now rnd m opts = (st', tok)"
  shows "rinvar st' \<and> (\<forall>k. dom (mem st' k) \<subseteq> dom (mem st k) \<union>
    (if k = semaphore_key (resolve env opts) m then set_option tok else {}))"
proof -
  let ?ro = "resolve env opts"
  obtain st1 b where r: "acquire_script R st (semaphore_key ?ro m) (int now) (int (ro_ttl_seconds ?ro * 1000))
      (ro_max_concurrent ?ro) (member_token now rnd) (ro_ttl_seconds ?ro) = (st1, b)" by fastforce
  have "dom (drop_range 0 (int now - int (ro_ttl_seconds ?ro * 1000)) (mem st (semaphore_key ?ro m)))
      \<subseteq> dom (mem st (semaphore_key ?ro m))" by (rule dom_drop_range)
  with acquire_script_cases [OF inv r] run r show ?thesis
    by (auto simp: acquire_semaphore_def Let_def split: if_splits)
qed

lemma acquire_loop_frame:
  assumes inv: "rinvar st" and run: "acquire_loop R env opts je m as st = (st', out)"
  shows "rinvar st' \<and> (\<forall>k. dom (mem st' k) \<subseteq> dom (mem st k) \<union>
    (if k = semaphore_key (resolve env opts) m then (case out of Token t \<Rightarrow> {t} | _ \<Rightarrow> {}) else {}))"
proof (cases as)
  case Nil
  with assms show ?thesis by simp
next
  case (Cons a as')
  obtain st1 tok where a: "acquire_semaphore R env st (fst (je_clock je a)) (snd (je_clock je a)) m opts = (st1, tok)"
    by fastforce
  from acquire_frame [OF inv a] run Cons a inv show ?thesis
    by (auto split: if_splits option.splits acquire_outcome.splits)
qed

lemma worker_key: "semaphore_key (resolve env (worker_options limit)) m = semaphore_key (resolve env no_options) m"
  by (simp add: semaphore_key_def resolve_def Let_def worker_options_def no_options_def)

lemma processor_releases:
  assumes inv: "rinvar (en_redis en)" and rel: "\<not> je_release_fails je"
    and run: "base_settlement_processor S R isodate env limit oth je job en = (en', res)"
  shows "dom (mem (en_redis en') k) \<subseteq> dom (mem (en_redis en) k)"
proof -
  let ?m = "template_string (sj_merchant_id job)"
  obtain st out where a: "acquire_loop R env (worker_options limit) je ?m [0..<Suc max_retries] (en_redis en) = (st, out)"
    by fastforce
  note f = acquire_loop_frame [OF inv a]
  obtain en1 res1 where c: "complete_settlement S isodate oth je job (en \<lparr> en_redis := st \<rparr>) = (en1, res1)" by fastforce
  then have e1: "en_redis en1 = st" using complete_settlement_redis [OF c] by simp
  show ?thesis
  proof (cases "\<exists>t. out = Token t")
    case True
    then obtain t where Token: "out = Token t" ..
    obtain st2 n where r: "release_script R st (semaphore_key (resolve env no_options) ?m) t = (st2, n)" by fastforce
    have "en_redis en' = st2"
      using run a c e1 Token rel r
      by (auto simp: base_settlement_processor_def Let_def release_semaphore_def split: sum.splits)
    moreover have "mem st2 = (mem st)(semaphore_key (resolve env no_options) ?m :=
        (mem st (semaphore_key (resolve env no_options) ?m))(t := None))"
      using release_script_cases [OF _ r] f by blast
    ultimately show ?thesis using f Token by (auto simp: worker_key split: if_splits)
  next
    case False
    have "out \<noteq> NoToken" using acquire_loop_first [OF a [unfolded attempts_unfold]] by simp
    with False run a have "en_redis en' = st"
      by (cases out) (auto simp: base_settlement_processor_def Let_def split: if_splits)
    moreover have "dom (mem st k) \<subseteq> dom (mem (en_redis en) k) \<union> {}"
      using conjunct2 [OF f, THEN spec, of k] False by (cases out) (simp_all split: if_splits)
    ultimately show ?thesis by simp
  qed
qed

end

subsection \<open>Properties\<close>

text \<open>
  C8: The outcome of a settlement job on a stored row, for every answer of the semaphore and
  every failure of the database, the queues and Redis, while other requests write other rows.
  Without a slot the job is requeued with a delay of five seconds, or fails when Redis or the
  requeue does, and the row and the webhooks stay; the error after the last attempt is never
  raised. With a slot the job ends well exactly as the row becomes completed, with one webhook
  when the merchant has a URL; when it ends in an error the row is as it was, still processing,
  failed (announced, unless that fails too), or completed when only the webhook could not be
  queued. With no failure a pending or processing row is always completed, a failed one is
  failed again and any other is left alone. Every other row stays as the other requests leave
  it. The job timeout answers for the processor without stopping it, so all this holds of a
  timed out job once its processor ends.
\<close>

theorem settlement_job_outcome:
  assumes "settlement_store S invar"
    and "\<And>n db. invar db \<Longrightarrow> invar (oth n db) \<and> st_find S (oth n db) (sj_id job) = st_find S db (sj_id job)"
    and "invar (en_db en)" "st_find S (en_db en) (sj_id job) = Some r"
    and "base_settlement_processor S R isodate env limit oth je job en = (en', res)"
  shows "(\<exists>r'. st_find S (en_db en') (sj_id job) = Some r' \<and>
      (case job_slot R env limit je job (en_redis en) of
         RedisDown \<Rightarrow> res = Inl RedisUnavailable \<and> r' = r \<and> en_requeued en' = en_requeued en \<and> en_webhooks en' = en_webhooks en
       | Requeue \<Rightarrow> r' = r \<and> en_webhooks en' = en_webhooks en \<and>
           (if je_requeue_fails je then res = Inl RequeueFailed \<and> en_requeued en' = en_requeued en
            else res = Inr () \<and> en_requeued en' = en_requeued en @ [(job, requeue_delay_ms)])
       | Token t \<Rightarrow> en_requeued en' = en_requeued en \<and> job_done isodate je job r r' res (en_webhooks en) (en_webhooks en')
       | _ \<Rightarrow> False)) \<and>
    (\<forall>j. j \<noteq> sj_id job \<longrightarrow> (\<forall>n db. st_find S (oth n db) j = st_find S db j) \<longrightarrow>
       st_find S (en_db en') j = st_find S (en_db en) j)"
proof -
  have "\<And>n. settlement_store.steady S invar (sj_id job) (oth n)"
    using assms(2) by (simp add: settlement_store.steady_def [OF assms(1)])
  from settlement_store.processor_outcome [OF assms(1) this assms(3-5)] show ?thesis .
qed

definition sample_env :: job_env where
  "sample_env = \<lparr> je_clock = (\<lambda>_. (7, ''r'')), je_acquire_fails = (\<lambda>_. False), je_requeue_fails = False,
     je_start_faults = no_faults, je_complete_faults = no_faults, je_fail_faults = no_faults,
     je_completed_at = 99, je_failed_at = 99, je_webhook_fails = False, je_fail_webhook_fails = False,
     je_release_fails = False \<rparr>"

definition sample_sjob :: "string \<Rightarrow> settlement_job" where
  "sample_sjob i = \<lparr> sj_id = i, sj_merchant_id = Some ''m1'', sj_gross_amount = None, sj_asset = None, sj_trace_id = None \<rparr>"

definition sample_engine :: "(table, zstate) engine" where
  "sample_engine = \<lparr> en_db = sample_table, en_redis = empty_redis, en_requeued = [], en_webhooks = [] \<rparr>"

lemma sample_env_healthy: "healthy sample_env"
  by (simp add: healthy_def sample_env_def)

theorem settlement_job_outcome_witness:
  "\<exists>en'. base_settlement_processor tab_ops zs_ops (\<lambda>_. []) None None (\<lambda>_ db. db) sample_env (sample_sjob ''s1'') sample_engine = (en', Inr ()) \<and>
     map_option s_status (st_find tab_ops (en_db en') ''s1'') = Some ''completed''"
proof -
  have inv: "tab_invar (en_db sample_engine)" and id: "sj_id (sample_sjob ''s1'') = ''s1''"
    by (simp_all add: sample_engine_def sample_sjob_def)
  have row: "st_find tab_ops (en_db sample_engine) (sj_id (sample_sjob ''s1'')) = Some (sample_settlement ''s1'' (Some ''k1''))"
    by (simp add: sample_engine_def sample_sjob_def sample_table_def sample_settlement_def tab_ops_def)
  obtain en' res where run: "base_settlement_processor tab_ops zs_ops (\<lambda>_. []) None None (\<lambda>_ db. db) sample_env (sample_sjob ''s1'') sample_engine = (en', res)"
    by fastforce
  have "case job_slot zs_ops None None sample_env (sample_sjob ''s1'') (en_redis sample_engine) of Token t \<Rightarrow> True | _ \<Rightarrow> False"
    by code_simp
  then obtain t where slot: "job_slot zs_ops None None sample_env (sample_sjob ''s1'') (en_redis sample_engine) = Token t"
    by (auto split: acquire_outcome.splits)
  have "startable (sample_settlement ''s1'' (Some ''k1''))" by (simp add: startable_def sample_settlement_def)
  with settlement_job_outcome [OF tab.settlement_store_axioms _ inv row run] slot sample_env_healthy
  have "res = Inr () \<and> st_find tab_ops (en_db en') ''s1'' = Some (completed_row sample_env (sample_settlement ''s1'' (Some ''k1'')))"
    by (cases res) (auto simp: job_done_def id)
  with run show ?thesis by (simp add: completed_row_def)
qed

text \<open>
  a job never leaks its concurrency slot: on every path through the processor, whatever
  database, queue or Redis call before the release fails, no merchant's semaphore contains a
  token afterwards that it did not contain before.
\<close>

theorem settlement_job_releases_slot:
  assumes "redis_zsets R rinvar mem ttl" "rinvar (en_redis en)" "\<not> je_release_fails je"
    and "settlement_store S invar"
    and "base_settlement_processor S R isodate env limit oth je job en = (en', res)"
  shows "dom (mem (en_redis en') k) \<subseteq> dom (mem (en_redis en) k)"
  by (rule settlement_worker.processor_releases [OF settlement_worker.intro [OF assms(4,1)], OF assms(2,3,5)])

theorem settlement_job_releases_slot_witness:
  "dom (zs_mem (en_redis (fst (base_settlement_processor tab_ops zs_ops (\<lambda>_. []) None None (\<lambda>_ db. db) sample_env (sample_sjob ''s2'')
     sample_engine))) ''semaphore:settlement:m1'') = {}"
proof -
  obtain en' res where run: "base_settlement_processor tab_ops zs_ops (\<lambda>_. []) None None (\<lambda>_ db. db) sample_env (sample_sjob ''s2'') sample_engine = (en', res)"
    by fastforce
  have "zs_invar (en_redis sample_engine)" "\<not> je_release_fails sample_env"
    by (simp_all add: sample_engine_def sample_env_def)
  from settlement_job_releases_slot [OF zs.redis_zsets_axioms, OF this tab.settlement_store_axioms run]
  show ?thesis unfolding run fst_conv by (simp add: sample_engine_def)
qed

text \<open>
  at the concurrency limit the job is always put back on the queue with a delay of five
  seconds; the loop never reaches a second attempt, so the error after the maximum of retries
  is never raised.
\<close>

theorem settlement_job_requeued_at_limit:
  assumes "\<not> je_acquire_fails je 0" "\<not> je_requeue_fails je"
    and "acquire_semaphore R env (en_redis en) (fst (je_clock je 0)) (snd (je_clock je 0))
        (template_string (sj_merchant_id job)) (worker_options limit) = (st, None)"
  shows "base_settlement_processor S R isodate env limit oth je job en =
    (en \<lparr> en_redis := st, en_requeued := en_requeued en @ [(job, 5000)] \<rparr>, Inr ())"
proof -
  have "acquire_loop R env (worker_options limit) je (template_string (sj_merchant_id job))
      (0 # [1..<Suc max_retries]) (en_redis en) = (st, Requeue)"
    using assms by (simp add: max_retries_def)
  then show ?thesis
    using assms(2) by (simp add: base_settlement_processor_def Let_def attempts_unfold requeue_delay_ms_def del: upt_Suc)
qed

definition one_slot :: semaphore_options where
  "one_slot = no_options \<lparr> so_max_concurrent := Some 1 \<rparr>"

definition busy_engine :: "(table, zstate) engine" where
  "busy_engine = sample_engine \<lparr> en_redis := fst (acquire_semaphore zs_ops None empty_redis 7 ''x'' ''m1'' one_slot) \<rparr>"

lemma one_slot_options: "worker_options (Some 1) = one_slot"
  by (simp add: worker_options_def one_slot_def get_merchant_max_concurrency_def)

theorem settlement_job_requeued_at_limit_witness:
  "snd (base_settlement_processor tab_ops zs_ops (\<lambda>_. []) None (Some 1) (\<lambda>_ db. db) sample_env (sample_sjob ''s1'') busy_engine) = Inr ()"
proof -
  have "snd (acquire_semaphore zs_ops None (en_redis busy_engine) (fst (je_clock sample_env 0))
      (snd (je_clock sample_env 0)) (template_string (sj_merchant_id (sample_sjob ''s1''))) (worker_options (Some 1))) = None"
    unfolding one_slot_options by code_simp
  then obtain st where "acquire_semaphore zs_ops None (en_redis busy_engine) (fst (je_clock sample_env 0))
      (snd (je_clock sample_env 0)) (template_string (sj_merchant_id (sample_sjob ''s1''))) (worker_options (Some 1)) = (st, None)"
    by (metis prod.collapse)
  from settlement_job_requeued_at_limit [OF _ _ this] show ?thesis by (simp add: sample_env_def)
qed

end
