(* ===== verification/SettlementReaper.thy ===== *)
theory SettlementReaper
  imports SettlementWorker
begin

section \<open>The reaper of stuck settlements (\<open>settlement-reaper.ts\<close>)\<close>

text \<open>
  \<open>reapStuckSettlements\<close> reads up to 200 rows stuck in \<open>processing\<close>, claims each with a
  conditional update, enqueues a job for the claimed ones, and repeats while the batch was full.
  Faults of the claims and of the queue, and the failure of a read, are inputs. The loop has
  no bound of its own: it is a \<open>partial_function\<close>, and its termination is a theorem.
\<close>

definition reap_batch :: nat where
  "reap_batch = 200"

definition reaper_interval_ms :: nat where
  "reaper_interval_ms = 5 * 60 * 1000"

definition stuck_after_ms :: nat where
  "stuck_after_ms = 30 * 60 * 1000"

definition is_stuck :: "int \<Rightarrow> settlement \<Rightarrow> bool" where
  "is_stuck stuck_before r \<longleftrightarrow> s_status r = ''processing'' \<and> s_initiated_at r < stuck_before"

definition id_asc :: "settlement \<Rightarrow> settlement \<Rightarrow> bool" where
  "id_asc a b \<longleftrightarrow> s_id a \<le> s_id b"

definition reaper_job :: "string \<Rightarrow> settlement_job" where
  "reaper_job i = \<lparr> sj_id = i, sj_merchant_id = None, sj_gross_amount = None, sj_asset = None, sj_trace_id = None \<rparr>"

datatype reap_error = ReapWrite adapter_error | ReapQueue

record reap_env =
  re_claim_faults :: "string \<Rightarrow> faults"
  re_queue_fails :: "string \<Rightarrow> bool"

text \<open>The conditional claim of one row: how many rows it changed.\<close>

definition claim_stuck ::
  "'db store_ops \<Rightarrow> faults \<Rightarrow> int \<Rightarrow> string \<Rightarrow> 'db \<Rightarrow> 'db \<times> (adapter_error, nat) result" where
  "claim_stuck S flt stuck_before i db =
     guarded_update_many S flt db (\<lambda>r. s_id r = i \<and> is_stuck stuck_before r)
       (no_update \<lparr> up_status := Some ''failed'' \<rparr>) id"

fun reap_rows ::
  "'db store_ops \<Rightarrow> reap_env \<Rightarrow> int \<Rightarrow> string list \<Rightarrow> 'db \<Rightarrow> settlement_job list \<Rightarrow> nat \<Rightarrow>
   'db \<times> settlement_job list \<times> (reap_error, nat) result" where
  "reap_rows S re stuck_before [] db jobs reaped = (db, jobs, return_ok reaped)"
| "reap_rows S re stuck_before (i # is) db jobs reaped =
     (case claim_stuck S (re_claim_faults re i) stuck_before i db of
        (db', Inl e) \<Rightarrow> (db', jobs, throw (ReapWrite e))
      | (db', Inr n) \<Rightarrow>
        if n \<noteq> 1 then reap_rows S re stuck_before is db' jobs reaped
        else if re_queue_fails re i then (db', jobs, throw ReapQueue)
        else reap_rows S re stuck_before is db' (jobs @ [reaper_job i]) (reaped + 1))"

partial_function (option) reap_loop ::
  "'db store_ops \<Rightarrow> reap_env \<Rightarrow> int \<Rightarrow> 'db \<Rightarrow> settlement_job list \<Rightarrow> nat \<Rightarrow>
   ('db \<times> settlement_job list \<times> (reap_error, nat) result) option" where
  "reap_loop S re stuck_before db jobs reaped =
     (let stuck = st_find_many S db (is_stuck stuck_before) id_asc (Some reap_batch)
      in if stuck = [] then Some (db, jobs, return_ok reaped)
         else case reap_rows S re stuck_before (map s_id stuck) db jobs reaped of
           (db', jobs', Inl e) \<Rightarrow> Some (db', jobs', throw e)
         | (db', jobs', Inr n) \<Rightarrow>
             if length stuck < reap_batch then Some (db', jobs', return_ok n)
             else reap_loop S re stuck_before db' jobs' n)"

definition reap_stuck_settlements ::
  "'db store_ops \<Rightarrow> reap_env \<Rightarrow> int \<Rightarrow> 'db \<Rightarrow> ('db \<times> settlement_job list \<times> (reap_error, nat) result) option" where
  "reap_stuck_settlements S re stuck_before db = reap_loop S re stuck_before db [] 0"

text \<open>
  \<open>startSettlementReaper\<close>: a tick of the interval is skipped while a run is in flight, and the
  run's outcome clears the flag whatever it was.
\<close>

record reaper_state =
  rs_interval_active :: bool
  rs_in_flight :: "int option"

datatype reaper_event = Tick int | RunFinished | StopReaper

definition reaper_step :: "reaper_event \<Rightarrow> reaper_state \<Rightarrow> reaper_state \<times> int option" where
  "reaper_step e s = (case e of
       Tick now \<Rightarrow>
         if \<not> rs_interval_active s then (s, None)
         else (case rs_in_flight s of
             Some _ \<Rightarrow> (s, None)
           | None \<Rightarrow> (s \<lparr> rs_in_flight := Some (now - int stuck_after_ms) \<rparr>, Some (now - int stuck_after_ms)))
     | RunFinished \<Rightarrow> (s \<lparr> rs_in_flight := None \<rparr>, None)
     | StopReaper \<Rightarrow> (s \<lparr> rs_interval_active := False \<rparr>, None))"

subsection \<open>Correctness of a run\<close>

lemma row_order_id_asc: "row_order id_asc"
  by (auto simp: row_order_def id_asc_def)

abbreviation reap_ok :: "reap_env \<Rightarrow> bool" where
  "reap_ok re \<equiv> (\<forall>i. re_claim_faults re i = no_faults \<and> \<not> re_queue_fails re i)"

definition reaped_row :: "settlement \<Rightarrow> settlement" where
  "reaped_row r = r \<lparr> s_status := ''failed'' \<rparr>"

definition reap_ids :: "int \<Rightarrow> string set \<Rightarrow> (string \<rightharpoonup> settlement) \<Rightarrow> (string \<rightharpoonup> settlement)" where
  "reap_ids stuck_before I f =
     (\<lambda>i. map_option (\<lambda>r. if i \<in> I \<and> is_stuck stuck_before r then reaped_row r else r) (f i))"

lemma reaped_not_stuck [simp]: "\<not> is_stuck t (reaped_row r)"
  by (simp add: is_stuck_def reaped_row_def)

lemma fail_only_update: "apply_update (no_update \<lparr> up_status := Some ''failed'' \<rparr>) r = reaped_row r"
  by (simp add: apply_update_def no_update_def reaped_row_def)

context settlement_store
begin

lemma claim_stuck_ok:
  assumes inv: "invar db"
  shows "\<exists>db'. claim_stuck S no_faults t i db =
      (db', Inr (if \<exists>r. st_find S db i = Some r \<and> is_stuck t r then 1 else 0)) \<and>
    invar db' \<and> st_find S db' = reap_ids t {i} (st_find S db)"
proof -
  let ?P = "\<lambda>r. s_id r = i \<and> is_stuck t r" and ?u = "no_update \<lparr> up_status := Some ''failed'' \<rparr>"
  have kp: "key_preserving id" by (simp add: key_preserving_def)
  obtain db' res where run: "guarded_update_many S no_faults db ?P ?u id = (db', res)" by fastforce
  have allowed: "validate_all ''failed'' (st_find_many S db ?P any_order None) = Inr ()"
    using find_many_any [OF inv, of ?P]
    by (auto simp: validate_all_ok validate_transition_cases is_stuck_def settlement_transitions)
  have "\<exists>n. res = Inr n"
    using run by (auto simp: guarded_update_many_defs allowed no_update_def split: prod.splits)
  with guarded_update_many_cases [OF inv kp run] have c: "invar db'"
    "res = Inr (card {r. ?P r \<and> (\<exists>j. st_find S db j = Some r)})"
    "st_find S db' = (\<lambda>j. map_option (\<lambda>r. if ?P r then id (apply_update ?u r) else r) (st_find S db j))"
    by auto
  have "{r. ?P r \<and> (\<exists>j. st_find S db j = Some r)} =
      (case st_find S db i of Some r \<Rightarrow> if is_stuck t r then {r} else {} | None \<Rightarrow> {})"
    using matching_id [OF inv, of i "is_stuck t"] by simp
  moreover have "st_find S db' j = reap_ids t {i} (st_find S db) j" for j
    using find_id [OF inv, of j] unfolding c(3) reap_ids_def
    by (cases "st_find S db j") (auto simp: fail_only_update)
  ultimately show ?thesis using c(1,2) run
    by (auto simp: claim_stuck_def fun_eq_iff split: option.splits)
qed

lemma reap_ids_twice: "reap_ids t I (reap_ids t J f) = reap_ids t (I \<union> J) f"
  by (auto simp: reap_ids_def fun_eq_iff option.map_comp intro!: option.map_cong0)

lemma reap_rows_ok:
  assumes "reap_ok re"
  shows "invar db \<Longrightarrow> distinct is \<Longrightarrow> \<forall>i\<in>set is. \<exists>r. st_find S db i = Some r \<and> is_stuck t r \<Longrightarrow>
    \<exists>db'. reap_rows S re t is db jobs n = (db', jobs @ map reaper_job is, Inr (n + length is)) \<and>
      invar db' \<and> st_find S db' = reap_ids t (set is) (st_find S db)"
proof (induction "is" arbitrary: db jobs n)
  case Nil
  then show ?case by (simp add: reap_ids_def option.map_ident)
next
  case (Cons i "is")
  obtain db1 where 1: "claim_stuck S no_faults t i db = (db1, Inr 1)" "invar db1"
    "st_find S db1 = reap_ids t {i} (st_find S db)"
    using claim_stuck_ok [OF Cons.prems(1), of t i] Cons.prems(3) by auto
  have "\<forall>j\<in>set is. \<exists>r. st_find S db1 j = Some r \<and> is_stuck t r"
  proof
    fix j assume j: "j \<in> set is"
    then obtain r where "st_find S db j = Some r" "is_stuck t r" using Cons.prems(3) by auto
    moreover have "j \<noteq> i" using j Cons.prems(2) by auto
    ultimately show "\<exists>r. st_find S db1 j = Some r \<and> is_stuck t r" by (simp add: 1(3) reap_ids_def)
  qed
  with Cons.IH [OF 1(2), of "jobs @ [reaper_job i]" "n + 1"] Cons.prems(2) 1 assms
  show ?case by (auto simp: reap_ids_twice insert_commute)
qed

definition stuck_ids :: "int \<Rightarrow> 'db \<Rightarrow> string set" where
  "stuck_ids t db = {i. \<exists>r. st_find S db i = Some r \<and> is_stuck t r}"

lemma stuck_rows_ids:
  assumes inv: "invar db"
  shows "s_id ` {r. is_stuck t r \<and> (\<exists>i. st_find S db i = Some r)} = stuck_ids t db"
    and "inj_on s_id {r. is_stuck t r \<and> (\<exists>i. st_find S db i = Some r)}"
    and "finite (stuck_ids t db)"
proof -
  show 1: "s_id ` {r. is_stuck t r \<and> (\<exists>i. st_find S db i = Some r)} = stuck_ids t db"
    using find_id [OF inv] by (force simp: stuck_ids_def)
  show "inj_on s_id {r. is_stuck t r \<and> (\<exists>i. st_find S db i = Some r)}"
    using find_id [OF inv] by (auto simp: inj_on_def)
  have "finite {r. is_stuck t r \<and> (\<exists>i. st_find S db i = Some r)}"
    by (rule finite_subset [OF _ finite_rows [OF inv]]) auto
  then show "finite (stuck_ids t db)" unfolding 1 [symmetric] by (rule finite_imageI)
qed

lemma reap_ids_superset:
  assumes "stuck_ids t db \<subseteq> I"
  shows "reap_ids t I (st_find S db) = reap_ids t UNIV (st_find S db)"
proof
  fix i
  show "reap_ids t I (st_find S db) i = reap_ids t UNIV (st_find S db) i"
    using assms by (cases "st_find S db i") (auto simp: reap_ids_def stuck_ids_def)
qed

lemma stuck_ids_reaped:
  assumes "st_find S db' = reap_ids t I (st_find S db)"
  shows "stuck_ids t db' = stuck_ids t db - I"
proof -
  have "(\<exists>r. st_find S db' i = Some r \<and> is_stuck t r) \<longleftrightarrow>
      (\<exists>r. st_find S db i = Some r \<and> is_stuck t r) \<and> i \<notin> I" for i
    unfolding assms by (cases "st_find S db i") (auto simp: reap_ids_def)
  then show ?thesis by (auto simp: stuck_ids_def)
qed

lemma reap_loop_ok:
  assumes re: "reap_ok re"
  shows "invar db \<Longrightarrow> \<exists>db' is. reap_loop S re t db jobs n = Some (db', jobs @ map reaper_job is, Inr (n + length is)) \<and>
    invar db' \<and> distinct is \<and> set is = stuck_ids t db \<and> st_find S db' = reap_ids t UNIV (st_find S db)"
proof (induction "card (stuck_ids t db)" arbitrary: db jobs n rule: less_induct)
  case less
  let ?K = "{r. is_stuck t r \<and> (\<exists>i. st_find S db i = Some r)}"
  obtain xs where xs: "st_find_many S db (is_stuck t) id_asc (Some reap_batch) = take reap_batch xs"
    "distinct xs" "set xs = ?K"
    using find_many [OF less.prems row_order_id_asc, of "is_stuck t" "Some reap_batch"] by (auto simp: take_opt_def)
  let ?stuck = "take reap_batch xs"
  let ?is = "map s_id ?stuck"
  have sub: "set ?stuck \<subseteq> ?K" using set_take_subset [of reap_batch xs] xs(3) by blast
  have dis: "distinct ?is"
    using xs(2) inj_on_subset [OF stuck_rows_ids(2) [OF less.prems] sub] by (simp add: distinct_map)
  have all: "s_id ` set xs = stuck_ids t db" using stuck_rows_ids(1) [OF less.prems] xs(3) by simp
  have stored: "\<forall>i\<in>set ?is. \<exists>r. st_find S db i = Some r \<and> is_stuck t r"
  proof
    fix i assume "i \<in> set ?is"
    then have "i \<in> stuck_ids t db" using all set_take_subset [of reap_batch xs] by auto
    then show "\<exists>r. st_find S db i = Some r \<and> is_stuck t r" by (simp add: stuck_ids_def)
  qed
  obtain db1 where 1: "reap_rows S re t ?is db jobs n = (db1, jobs @ map reaper_job ?is, Inr (n + length ?is))"
    "invar db1" "st_find S db1 = reap_ids t (set ?is) (st_find S db)"
    using reap_rows_ok [OF re less.prems dis stored, of jobs n] by blast
  show ?case
  proof (cases "length ?stuck < reap_batch")
    case True
    then have short: "length xs < reap_batch" by (simp add: min_def split: if_splits)
    then have "?stuck = xs" by simp
    then have eq: "set ?is = stuck_ids t db" using all by simp
    have f: "st_find S db1 = reap_ids t UNIV (st_find S db)"
      using 1(3) reap_ids_superset [of t db "set ?is"] eq by simp
    show ?thesis
    proof (cases "?stuck = []")
      case empty: True
      have "stuck_ids t db = {}" using eq unfolding empty by simp
      then have "reap_ids t UNIV (st_find S db) = reap_ids t {} (st_find S db)"
        using reap_ids_superset [of t db "{}"] by simp
      then have "reap_ids t UNIV (st_find S db) = st_find S db"
        by (simp add: reap_ids_def option.map_ident)
      with empty \<open>stuck_ids t db = {}\<close> less.prems show ?thesis
        by (subst reap_loop.simps) (intro exI [of _ db] exI [of _ "[]"], simp add: xs(1))
    next
      case False
      have "reap_loop S re t db jobs n = Some (db1, jobs @ map reaper_job ?is, Inr (n + length ?is))"
        by (subst reap_loop.simps) (use 1(1) False short xs(1) in \<open>simp add: Let_def\<close>)
      with 1(2) f eq dis show ?thesis by blast
    qed
  next
    case False
    have ne: "?stuck \<noteq> []" using False by (auto simp: reap_batch_def)
    have s1: "stuck_ids t db1 = stuck_ids t db - set ?is" by (rule stuck_ids_reaped [OF 1(3)])
    have "set ?is \<subseteq> stuck_ids t db" using stored by (auto simp: stuck_ids_def)
    moreover obtain x where "x \<in> set ?is" using ne by (cases ?stuck) auto
    ultimately have "stuck_ids t db1 \<subset> stuck_ids t db" unfolding s1 by blast
    then have "card (stuck_ids t db1) < card (stuck_ids t db)"
      by (intro psubset_card_mono stuck_rows_ids(3) [OF less.prems])
    from less.hyps [OF this 1(2), of "jobs @ map reaper_job ?is" "n + length ?is"]
    obtain db2 js where 2: "reap_loop S re t db1 (jobs @ map reaper_job ?is) (n + length ?is) =
        Some (db2, (jobs @ map reaper_job ?is) @ map reaper_job js, Inr (n + length ?is + length js))"
      "invar db2" "distinct js" "set js = stuck_ids t db1" "st_find S db2 = reap_ids t UNIV (st_find S db1)"
      by blast
    have "reap_loop S re t db jobs n = reap_loop S re t db1 (jobs @ map reaper_job ?is) (n + length ?is)"
      by (subst reap_loop.simps) (use 1(1) False ne xs(1) in \<open>simp add: Let_def\<close>)
    with 2 have "reap_loop S re t db jobs n =
        Some (db2, jobs @ map reaper_job (?is @ js), Inr (n + length (?is @ js)))"
      by simp
    moreover have "distinct (?is @ js)" using dis 2(3,4) s1 by auto
    moreover have "set (?is @ js) = stuck_ids t db"
      using 2(4) s1 stored by (auto simp: stuck_ids_def)
    moreover have "st_find S db2 = reap_ids t UNIV (st_find S db)"
      by (simp add: 2(5) 1(3) reap_ids_twice)
    ultimately show ?thesis using 2(2) by blast
  qed
qed

lemma claim_after_claim:
  assumes inv: "invar db" and won: "snd (claim_stuck S no_faults t i db) = Inr 1"
    and ops: "list_all op_status_ok ops"
  shows "snd (claim_stuck S no_faults t' i (fst (exec_ops S ops (fst (claim_stuck S no_faults t i db))))) = Inr 0"
proof -
  obtain db1 where 1: "fst (claim_stuck S no_faults t i db) = db1" "invar db1"
    "st_find S db1 = reap_ids t {i} (st_find S db)"
    using claim_stuck_ok [OF inv, of t i] by auto
  obtain r where r: "st_find S db i = Some r" "is_stuck t r"
    using claim_stuck_ok [OF inv, of t i] won by (auto split: if_splits)
  then have r1: "st_find S db1 i = Some (reaped_row r)" by (simp add: 1(3) reap_ids_def)
  let ?db2 = "fst (exec_ops S ops db1)"
  obtain r2 where r2: "st_find S ?db2 i = Some r2" "row_moves (reaped_row r) r2" and inv2: "invar ?db2"
    using exec_ops_moves [OF 1(2) ops] r1 by (auto simp: table_moves_def)
  have "s_status r2 = ''failed''"
    using r2(2) terminal_reach [of settlement_status_transitions "''failed''" "s_status r2"]
    by (simp add: row_moves_def reaped_row_def terminal_settlement)
  then have "\<not> (\<exists>r. st_find S ?db2 i = Some r \<and> is_stuck t' r)" by (simp add: r2(1) is_stuck_def)
  with claim_stuck_ok [OF inv2, of t' i] show ?thesis by (auto simp: 1(1))
qed

end

subsection \<open>Properties\<close>

text \<open>
  C21: a run of the reaper ends, and when no call fails it fails exactly the settlements stuck in
  \<open>processing\<close> before the cutoff, enqueues one job for each of them and no other, and returns
  their number; every other row is unchanged.
\<close>

theorem reaper_run_exact:
  assumes "settlement_store S invar" "invar db" "reap_ok re"
  shows "\<exists>db' is. reap_stuck_settlements S re t db = Some (db', map reaper_job is, Inr (length is)) \<and>
    distinct is \<and> set is = {i. \<exists>r. st_find S db i = Some r \<and> is_stuck t r} \<and>
    st_find S db' = (\<lambda>i. map_option (\<lambda>r. if is_stuck t r then reaped_row r else r) (st_find S db i))"
  using settlement_store.reap_loop_ok [OF assms(1), OF assms(3,2), of t "[]" 0]
  by (auto simp: reap_stuck_settlements_def reap_ids_def settlement_store.stuck_ids_def [OF assms(1)])

definition stuck_table :: table where
  "stuck_table = [(sample_settlement ''s1'' None) \<lparr> s_status := ''processing'' \<rparr>, sample_settlement ''s2'' None]"

lemma stuck_table_ok [simp]: "tab_invar stuck_table"
  by (simp add: tab_invar_def stuck_table_def sample_settlement_def)

definition calm_reaper :: reap_env where
  "calm_reaper = \<lparr> re_claim_faults = (\<lambda>_. no_faults), re_queue_fails = (\<lambda>_. False) \<rparr>"

theorem reaper_run_exact_witness:
  "\<exists>db' is. reap_stuck_settlements tab_ops calm_reaper 10 stuck_table = Some (db', map reaper_job is, Inr (length is)) \<and>
     set is = {''s1''}"
proof -
  have "{i. \<exists>r. st_find tab_ops stuck_table i = Some r \<and> is_stuck 10 r} = {''s1''}"
    by (auto simp: tab_ops_def stuck_table_def sample_settlement_def is_stuck_def split: if_splits)
  moreover have "reap_ok calm_reaper" by (simp add: calm_reaper_def)
  ultimately show ?thesis
    using reaper_run_exact [OF tab.settlement_store_axioms stuck_table_ok, of calm_reaper 10] by auto
qed

text \<open>
  overlapping runs are safe: once a run has claimed a stuck settlement, no later claim of it
  by any run succeeds, whatever writes the workers and handlers do in between, so it is enqueued
  at most once.
\<close>

theorem reaper_claims_once:
  assumes "settlement_store S invar" "invar db"
    and "snd (claim_stuck S no_faults t i db) = Inr 1" "list_all op_status_ok ops"
  shows "snd (claim_stuck S no_faults t' i (fst (exec_ops S ops (fst (claim_stuck S no_faults t i db))))) = Inr 0"
  by (rule settlement_store.claim_after_claim [OF assms(1), OF assms(2-4)])

theorem reaper_claims_once_witness:
  "snd (claim_stuck tab_ops no_faults 10 ''s1'' (fst (exec_ops tab_ops sample_ops
     (fst (claim_stuck tab_ops no_faults 10 ''s1'' stuck_table))))) = Inr 0"
proof -
  have "snd (claim_stuck tab_ops no_faults 10 ''s1'' stuck_table) = Inr 1" by code_simp
  from reaper_claims_once [OF tab.settlement_store_axioms stuck_table_ok this sample_ops_ok] show ?thesis .
qed

text \<open>
  The job the reaper enqueues for a settlement it has marked failed does not complete it,
  whatever fails and whatever slot it gets, as long as other requests leave the row alone while
  the job runs: it is requeued or ends in an error, and the settlement stays failed.
\<close>

lemma reaped_settlement_never_completes:
  assumes "settlement_store S invar" "invar (en_db en)"
    and "\<And>n db. invar db \<Longrightarrow> invar (oth n db) \<and> st_find S (oth n db) i = st_find S db i"
    and "st_find S (en_db en) i = Some r" "s_status r = ''failed''"
    and "base_settlement_processor S R isodate env limit oth je (reaper_job i) en = (en', res)"
  shows "map_option s_status (st_find S (en_db en') i) = Some ''failed'' \<and>
    (res = Inr () \<longrightarrow> en_requeued en' = en_requeued en @ [(reaper_job i, requeue_delay_ms)])"
proof -
  have j: "sj_id (reaper_job i) = i" by (simp add: reaper_job_def)
  have "\<And>n. settlement_store.steady S invar (sj_id (reaper_job i)) (oth n)"
    using assms(3) by (simp add: settlement_store.steady_def [OF assms(1)] j)
  from settlement_store.processor_outcome [OF assms(1) this assms(2) _ assms(6), unfolded j, OF assms(4)] assms(5)
  show ?thesis
    by (cases "job_slot R env limit je (reaper_job i) (en_redis en)"; cases res)
      (auto simp: job_done_def startable_def failed_row_def split: if_splits)
qed

end
