(* ===== verification/SettlementRetry.thy ===== *)
theory SettlementRetry
  imports SettlementReaper
begin

section \<open>Retry chains (\<open>index.ts\<close>, \<open>superseded-cleanup.ts\<close>)\<close>

text \<open>
  A failed settlement is retried by cloning it; the original points to its clone through
  \<open>supersededById\<close>. Here: counting the retries of a chain, the retry endpoint, the depth of a
  chain and the archiving of old chains. The loops follow links in the table, so they are
  \<open>partial_function\<close>s; that they return is a theorem about acyclic chains.
\<close>

subsection \<open>Counting retries\<close>

text \<open>\<open>while (currentId && !visited.has(currentId))\<close>\<close>

partial_function (option) ancestor_loop ::
  "'db store_ops \<Rightarrow> 'db \<Rightarrow> string list \<Rightarrow> string \<Rightarrow> nat \<Rightarrow> nat option" where
  "ancestor_loop S db visited cur cnt =
     (if cur = [] \<or> cur \<in> set visited then Some cnt
      else case st_find S db cur of
        None \<Rightarrow> Some cnt
      | Some r \<Rightarrow> (case s_superseded_by r of
            None \<Rightarrow> Some cnt
          | Some nxt \<Rightarrow>
              if nxt = [] then Some cnt
              else ancestor_loop S db (cur # visited) nxt (cnt + 1)))"

definition superseded_into :: "string list \<Rightarrow> settlement \<Rightarrow> bool" where
  "superseded_into ids r = (case s_superseded_by r of Some j \<Rightarrow> j \<in> set ids | None \<Rightarrow> False)"

text \<open>\<open>while (activeIds.length > 0)\<close>: no set of visited ids.\<close>

partial_function (option) descendant_loop ::
  "'db store_ops \<Rightarrow> 'db \<Rightarrow> string list \<Rightarrow> nat \<Rightarrow> nat option" where
  "descendant_loop S db active cnt =
     (if active = [] then Some cnt
      else let children = st_find_many S db (superseded_into active) any_order None
        in if children = [] then Some cnt
           else descendant_loop S db (map s_id children) (cnt + length children))"

definition get_settlement_retry_count :: "'db store_ops \<Rightarrow> 'db \<Rightarrow> string \<Rightarrow> nat option" where
  "get_settlement_retry_count S db i =
     (case ancestor_loop S db [] i 0 of
        None \<Rightarrow> None
      | Some a \<Rightarrow> (case descendant_loop S db [i] 0 of None \<Rightarrow> None | Some d \<Rightarrow> Some (a + d)))"

definition max_settlement_retry_count :: nat where
  "max_settlement_retry_count = 3"

definition assert_retry_limit :: "nat \<Rightarrow> nat \<Rightarrow> (string, unit) result" where
  "assert_retry_limit retry_count max_count =
     (if retry_count \<ge> max_count
      then throw (''Maximum retry limit ('' @ digits_of_nat max_count @ '') exceeded'')
      else return_ok ())"

text \<open>\<open>countRetryChainDepth\<close>: \<open>current\<close> is the row last read.\<close>

partial_function (option) chain_depth_loop ::
  "'db store_ops \<Rightarrow> 'db \<Rightarrow> string list \<Rightarrow> settlement option \<Rightarrow> nat \<Rightarrow> nat option" where
  "chain_depth_loop S db visited current depth =
     (case current of
        None \<Rightarrow> Some depth
      | Some r \<Rightarrow> (case s_superseded_by r of
          None \<Rightarrow> Some depth
        | Some nxt \<Rightarrow>
            if nxt = [] \<or> nxt \<in> set visited then Some depth
            else (case st_find S db nxt of
                None \<Rightarrow> Some (depth + 1)
              | Some r' \<Rightarrow> chain_depth_loop S db (nxt # visited) (Some r') (depth + 1))))"

definition count_retry_chain_depth :: "'db store_ops \<Rightarrow> 'db \<Rightarrow> string \<Rightarrow> nat option" where
  "count_retry_chain_depth S db i = chain_depth_loop S db [] (st_find S db i) 0"

subsection \<open>The retry endpoint\<close>

datatype retry_response =
    RetryNotFound
  | RetryNotFailed string
  | RetryLimitReached string nat
  | RetryConflict nat
  | Retried settlement
  | RetryThrew adapter_error

definition clone_for_retry :: "settlement \<Rightarrow> string \<Rightarrow> int \<Rightarrow> settlement" where
  "clone_for_retry original new_id now = \<lparr> s_id = new_id, s_merchant_id = s_merchant_id original,
     s_total_amount = s_total_amount original, s_gross_amount = s_gross_amount original,
     s_fee_amount = s_fee_amount original, s_net_amount = s_net_amount original,
     s_fee_bps = s_fee_bps original, s_asset = s_asset original, s_status = ''pending'',
     s_webhook_url = s_webhook_url original, s_webhook_headers = s_webhook_headers original,
     s_batch_id = None, s_initiated_at = now, s_completed_at = None, s_idempotency_key = None,
     s_idempotency_key_expires_at = None, s_fee_snapshot = s_fee_snapshot original,
     s_superseded_by = None, s_version = 0 \<rparr>"

definition settlement_job_of :: "settlement \<Rightarrow> string option \<Rightarrow> settlement_job" where
  "settlement_job_of r trace = \<lparr> sj_id = s_id r, sj_merchant_id = Some (s_merchant_id r),
     sj_gross_amount = Some (s_gross_amount r), sj_asset = Some (s_asset r), sj_trace_id = trace \<rparr>"

text \<open>
  The handler in its two parts, between which other requests may write: the reads and checks,
  and the writes with the row that was read. \<open>None\<close> is a handler that never answers.
\<close>

definition retry_check :: "'db store_ops \<Rightarrow> 'db \<Rightarrow> string \<Rightarrow> (retry_response, settlement) result option" where
  "retry_check S db i =
     (case st_find S db i of
        None \<Rightarrow> Some (throw RetryNotFound)
      | Some original \<Rightarrow>
        if s_status original \<noteq> ''failed'' then Some (throw (RetryNotFailed (s_status original)))
        else (case get_settlement_retry_count S db i of
            None \<Rightarrow> None
          | Some retries \<Rightarrow>
            (case assert_retry_limit retries max_settlement_retry_count of
               Inl msg \<Rightarrow> Some (throw (RetryLimitReached msg retries))
             | Inr _ \<Rightarrow> Some (return_ok original))))"

definition retry_commit ::
  "'db store_ops \<Rightarrow> faults \<Rightarrow> string \<Rightarrow> string \<Rightarrow> int \<Rightarrow> settlement \<Rightarrow> 'db \<Rightarrow>
   'db \<times> settlement_job list \<times> retry_response" where
  "retry_commit S flt new_id trace now original db =
     (let clone = clone_for_retry original new_id now
      in case (case flt Create of Some e \<Rightarrow> Inl e | None \<Rightarrow> st_create S db clone) of
        Inl e \<Rightarrow> (db, [], RetryThrew (Db e))
      | Inr db1 \<Rightarrow>
        (case update_settlement_with_optimistic_lock S flt db1 (s_id original) (s_version original)
                (no_update \<lparr> up_superseded_by := Some new_id \<rparr>) of
           (db2, Inl (VersionConflict ty i v)) \<Rightarrow> (db2, [], RetryConflict v)
         | (db2, Inl e) \<Rightarrow> (db2, [], RetryThrew e)
         | (db2, Inr _) \<Rightarrow> (db2, [settlement_job_of clone (Some trace)], Retried clone)))"

definition retry_settlement ::
  "'db store_ops \<Rightarrow> faults \<Rightarrow> string \<Rightarrow> string \<Rightarrow> int \<Rightarrow> string \<Rightarrow> 'db \<Rightarrow>
   ('db \<times> settlement_job list \<times> retry_response) option" where
  "retry_settlement S flt new_id trace now i db =
     (case retry_check S db i of
        None \<Rightarrow> None
      | Some (Inl resp) \<Rightarrow> Some (db, [], resp)
      | Some (Inr original) \<Rightarrow> Some (retry_commit S flt new_id trace now original db))"

subsection \<open>Archiving superseded chains\<close>

definition superseded_retention_days :: nat where
  "superseded_retention_days = 7"

definition superseded_batch_size :: nat where
  "superseded_batch_size = 100"

text \<open>The filter of the roots, with its join on the superseding settlement.\<close>

definition archivable :: "'db store_ops \<Rightarrow> 'db \<Rightarrow> int \<Rightarrow> settlement \<Rightarrow> bool" where
  "archivable S db cutoff r =
     (s_initiated_at r \<le> cutoff \<and>
      (case s_superseded_by r of
         None \<Rightarrow> False
       | Some j \<Rightarrow> (case st_find S db j of
            None \<Rightarrow> False | Some n \<Rightarrow> s_status n = ''completed'' \<or> s_status n = ''failed'')))"

definition archive_superseded_chains :: "'db store_ops \<Rightarrow> int \<Rightarrow> 'db \<Rightarrow> 'db \<times> nat" where
  "archive_superseded_chains S cutoff db =
     (let roots = st_find_many S db (archivable S db cutoff) any_order (Some superseded_batch_size)
      in if roots = [] then (db, 0)
         else let root_ids = map s_id roots
           in st_update_many S db (\<lambda>r. s_id r \<in> set root_ids \<or> superseded_into root_ids r)
                (apply_update (no_update \<lparr> up_completed_at := Some cutoff \<rparr>)))"

subsection \<open>The loops return on acyclic chains\<close>

text \<open>
  The links are acyclic when some rank increases along them. A retry always links to a fresh
  row, so the chains the engine builds are acyclic.
\<close>

definition acyclic_links :: "'db store_ops \<Rightarrow> 'db \<Rightarrow> (string \<Rightarrow> nat) \<Rightarrow> bool" where
  "acyclic_links S db rank \<longleftrightarrow>
     (\<forall>i r j. st_find S db i = Some r \<longrightarrow> s_superseded_by r = Some j \<longrightarrow> rank i < rank j)"

lemma ancestor_loop_stops:
  "finite {r. \<exists>i. st_find S db i = Some r} \<Longrightarrow> (\<And>i r. st_find S db i = Some r \<Longrightarrow> s_id r = i) \<Longrightarrow>
   \<exists>n. ancestor_loop S db visited cur cnt = Some n"
proof (induction "card ({i. st_find S db i \<noteq> None} - set visited)" arbitrary: visited cur cnt rule: less_induct)
  case less
  have fin: "finite {i. st_find S db i \<noteq> None}"
  proof -
    have "{i. st_find S db i \<noteq> None} \<subseteq> s_id ` {r. \<exists>i. st_find S db i = Some r}"
      using less.prems(2) by force
    then show ?thesis using less.prems(1) finite_surj by blast
  qed
  show ?case
  proof (cases "cur = [] \<or> cur \<in> set visited \<or> st_find S db cur = None")
    case True
    then show ?thesis by (subst ancestor_loop.simps) auto
  next
    case False
    then obtain r where r: "st_find S db cur = Some r" by auto
    have "{i. st_find S db i \<noteq> None} - set (cur # visited) \<subset> {i. st_find S db i \<noteq> None} - set visited"
      using False by auto
    then have "card ({i. st_find S db i \<noteq> None} - set (cur # visited)) < card ({i. st_find S db i \<noteq> None} - set visited)"
      using fin by (intro psubset_card_mono) auto
    from less.hyps [OF this less.prems] False r show ?thesis
      by (subst ancestor_loop.simps) (auto split: option.splits)
  qed
qed

context settlement_store
begin

lemma finite_dom: "invar db \<Longrightarrow> finite (dom (st_find S db))"
proof (rule finite_subset [of _ "s_id ` {r. \<exists>i. st_find S db i = Some r}"])
  assume inv: "invar db"
  show "dom (st_find S db) \<subseteq> s_id ` {r. \<exists>i. st_find S db i = Some r}"
    using find_id [OF inv] by (force simp: dom_def)
qed (simp add: finite_rows)

lemma descendant_loop_stops:
  assumes inv: "invar db" and acyc: "acyclic_links S db rank"
  shows "(\<forall>i\<in>set active. rank i \<le> k) \<Longrightarrow> \<exists>n. descendant_loop S db active cnt = Some n"
proof (induction k arbitrary: active cnt)
  case 0
  have "st_find_many S db (superseded_into active) any_order None = []" if "active \<noteq> []"
  proof -
    have "{r. superseded_into active r \<and> (\<exists>i. st_find S db i = Some r)} = {}"
      using 0 acyc find_id [OF inv]
      by (fastforce simp: superseded_into_def acyclic_links_def split: option.splits)
    with find_many_any [OF inv, of "superseded_into active"] show ?thesis by simp
  qed
  then show ?case by (subst descendant_loop.simps) (auto simp: Let_def)
next
  case (Suc k)
  let ?ch = "st_find_many S db (superseded_into active) any_order None"
  have "rank i \<le> k" if "i \<in> set (map s_id ?ch)" for i
  proof -
    from that obtain r where r: "r \<in> set ?ch" "i = s_id r" by auto
    then obtain j where "superseded_into active r" "st_find S db j = Some r"
      using find_many_any [OF inv, of "superseded_into active"] by auto
    moreover from this have "s_id r = j" by (intro find_id [OF inv])
    ultimately have "superseded_into active r" "st_find S db (s_id r) = Some r" "i = s_id r" using r by auto
    then show ?thesis using Suc.prems acyc
      by (fastforce simp: superseded_into_def acyclic_links_def split: option.splits)
  qed
  then obtain n where "descendant_loop S db (map s_id ?ch) (cnt + length ?ch) = Some n"
    using Suc.IH [of "map s_id ?ch"] by blast
  then show ?case by (subst descendant_loop.simps) (auto simp: Let_def)
qed

lemma retry_count_stops:
  assumes inv: "invar db" and acyc: "acyclic_links S db rank"
  shows "\<exists>n. get_settlement_retry_count S db i = Some n"
proof -
  obtain a where "ancestor_loop S db [] i 0 = Some a"
    using ancestor_loop_stops [OF finite_rows [OF inv] find_id [OF inv]] by blast
  moreover obtain d where "descendant_loop S db [i] 0 = Some d"
    using descendant_loop_stops [OF inv acyc, of "[i]" "rank i"] by auto
  ultimately show ?thesis by (simp add: get_settlement_retry_count_def)
qed

end

text \<open>A settlement that supersedes itself keeps the second loop running for ever.\<close>

lemma descendant_loop_cycle:
  assumes "descendant_loop S db active cnt = Some n" "i \<in> set active"
    and store: "settlement_store S invar" "invar db"
    and "st_find S db i = Some r" "s_superseded_by r = Some i"
  shows False
proof -
  have "S = S \<longrightarrow> db = db \<longrightarrow> i \<in> set active \<longrightarrow> False"
  proof (rule descendant_loop.raw_induct
      [where ?P = "\<lambda>S' db' active cnt n. S' = S \<longrightarrow> db' = db \<longrightarrow> i \<in> set active \<longrightarrow> False", OF _ assms(1)])
    fix dl S' db' active cnt n
    assume IH: "\<And>S' db' active cnt n. dl S' db' active cnt = Some n \<Longrightarrow>
        S' = S \<longrightarrow> db' = db \<longrightarrow> i \<in> set active \<longrightarrow> False"
      and step: "(if active = [] then Some cnt
         else let children = st_find_many S' db' (superseded_into active) any_order None
              in if children = [] then Some cnt
                 else dl S' db' (map s_id children) (cnt + length children)) = Some n"
    show "S' = S \<longrightarrow> db' = db \<longrightarrow> i \<in> set active \<longrightarrow> False"
    proof (intro impI)
      assume a: "S' = S" "db' = db" "i \<in> set active"
      let ?ch = "st_find_many S db (superseded_into active) any_order None"
      have "r \<in> set ?ch"
        using settlement_store.find_many_any [OF store, of "superseded_into active"] assms(5,6) a(3)
        by (auto simp: superseded_into_def)
      moreover have "s_id r = i" by (rule settlement_store.find_id [OF store assms(5)])
      ultimately have "i \<in> set (map s_id ?ch)" by auto
      moreover have "dl S db (map s_id ?ch) (cnt + length ?ch) = Some n"
        using step a \<open>r \<in> set ?ch\<close> by (auto simp: Let_def split: if_splits)
      ultimately show False using IH by blast
    qed
  qed
  with assms(2) show False by blast
qed

text \<open>Retrying the same failed settlement again, after its clone exists.\<close>

definition retryable :: "'db store_ops \<Rightarrow> string \<Rightarrow> 'db \<Rightarrow> bool" where
  "retryable S i db \<longleftrightarrow>
     (\<exists>r. st_find S db i = Some r \<and> s_status r = ''failed'' \<and>
        (case s_superseded_by r of None \<Rightarrow> True
         | Some j \<Rightarrow> j \<noteq> i \<and> (\<exists>n. st_find S db j = Some n \<and> s_superseded_by n = None))) \<and>
     (\<forall>k r. st_find S db k = Some r \<longrightarrow> s_superseded_by r \<noteq> Some i)"

text \<open>An id no row has and no row points to: what a fresh random id is.\<close>

definition unlinked :: "'db store_ops \<Rightarrow> 'db \<Rightarrow> string \<Rightarrow> bool" where
  "unlinked S db j \<longleftrightarrow> st_find S db j = None \<and>
     (\<forall>k r. st_find S db k = Some r \<longrightarrow> s_superseded_by r \<noteq> Some j)"

text \<open>A client that repeats the retry request of one settlement; the responses in order.\<close>

fun retry_repeatedly ::
  "'db store_ops \<Rightarrow> string \<Rightarrow> (string \<times> string \<times> int) list \<Rightarrow> 'db \<Rightarrow>
   'db \<times> settlement_job list \<times> retry_response option list" where
  "retry_repeatedly S i [] db = (db, [], [])"
| "retry_repeatedly S i ((new_id, trace, now) # rest) db =
     (case retry_settlement S no_faults new_id trace now i db of
        None \<Rightarrow> (db, [], [None])
      | Some (db1, jobs, resp) \<Rightarrow>
        (case retry_repeatedly S i rest db1 of
           (db2, jobs2, resps) \<Rightarrow> (db2, jobs @ jobs2, Some resp # resps)))"

subsection \<open>What a retry does\<close>

abbreviation supersede_by :: "string \<Rightarrow> settlement_update" where
  "supersede_by j \<equiv> no_update \<lparr> up_superseded_by := Some j \<rparr>"

definition superseded_row :: "string \<Rightarrow> settlement \<Rightarrow> settlement" where
  "superseded_row j r = r \<lparr> s_superseded_by := Some j, s_version := s_version r + 1 \<rparr>"

lemma superseded_row_eq: "bump (apply_update (supersede_by j) r) = superseded_row j r"
  by (simp add: apply_update_def no_update_def bump_def superseded_row_def)

lemma clone_simps [simp]:
  "s_id (clone_for_retry r j now) = j" "s_idempotency_key (clone_for_retry r j now) = None"
  "s_status (clone_for_retry r j now) = ''pending''" "s_superseded_by (clone_for_retry r j now) = None"
  by (simp_all add: clone_for_retry_def)

context settlement_store
begin

lemma create_effect:
  assumes inv: "invar db" and c: "st_create S db data = Inr db1"
  shows "invar db1 \<and> st_find S db (s_id data) = None \<and> st_find S db1 = (st_find S db)(s_id data \<mapsto> data)"
proof -
  have no: "\<not> (st_find S db (s_id data) \<noteq> None \<or>
      (\<exists>k. s_idempotency_key data = Some k \<and> st_find_key S db k \<noteq> None))"
  proof
    assume "st_find S db (s_id data) \<noteq> None \<or>
      (\<exists>k. s_idempotency_key data = Some k \<and> st_find_key S db k \<noteq> None)"
    from create_conflict [OF inv this] c show False by simp
  qed
  then obtain db2 where "st_create S db data = Inr db2" "invar db2"
    "st_find S db2 = (st_find S db)(s_id data \<mapsto> data)"
    using create_fresh [OF inv, of data] by blast
  with c no show ?thesis by auto
qed

lemma retry_commit_effect:
  assumes inv: "invar db" and run: "retry_commit S flt new_id trace now original db = (db', jobs, Retried c)"
    and orig: "st_find S db (s_id original) \<noteq> None"
  shows "\<exists>r. st_find S db (s_id original) = Some r \<and> s_version r = s_version original \<and>
    c = clone_for_retry original new_id now \<and> jobs = [settlement_job_of c (Some trace)] \<and>
    st_find S db new_id = None \<and>
    st_find S db' = (st_find S db)(new_id \<mapsto> c, s_id original \<mapsto> superseded_row new_id r)"
proof -
  let ?c = "clone_for_retry original new_id now"
  from run obtain db1 where cr: "st_create S db ?c = Inr db1" and flt: "flt Create = None"
    by (auto simp: retry_commit_def Let_def split: option.splits sum.splits)
  obtain x where l: "update_settlement_with_optimistic_lock S flt db1 (s_id original) (s_version original)
      (supersede_by new_id) = (db', Inr x)" and o: "c = ?c" "jobs = [settlement_job_of ?c (Some trace)]"
    using run cr flt by (auto simp: retry_commit_def Let_def split: prod.splits sum.splits adapter_error.splits)
  from create_effect [OF inv cr] have 1: "invar db1" "st_find S db new_id = None"
    "st_find S db1 = (st_find S db)(new_id \<mapsto> ?c)" by auto
  obtain r where r: "st_find S db1 (s_id original) = Some r" "s_version r = s_version original"
    "x = bump (apply_update (supersede_by new_id) r)" "st_find S db' (s_id original) = Some x"
    "\<And>j. j \<noteq> s_id original \<Longrightarrow> st_find S db' j = st_find S db1 j"
    by (rule lock_ok [OF 1(1) l]) blast
  have ne: "s_id original \<noteq> new_id" using orig 1(2) by auto
  then have "st_find S db (s_id original) = Some r" using r(1) 1(3) by simp
  moreover have "st_find S db' = (st_find S db)(new_id \<mapsto> ?c, s_id original \<mapsto> superseded_row new_id r)"
    using r(4,5) 1(3) by (auto simp: fun_eq_iff r(3) superseded_row_eq)
  ultimately show ?thesis using r(2) o 1(2) by blast
qed

lemma lock_no_faults:
  assumes inv: "invar db" and r: "st_find S db i = Some r" and k: "s_version r = k" and u: "up_status u = None"
  shows "\<exists>db'. update_settlement_with_optimistic_lock S no_faults db i k u = (db', Inr (bump (apply_update u r))) \<and>
    invar db' \<and> st_find S db' = (st_find S db)(i \<mapsto> bump (apply_update u r))"
proof -
  have kp: "key_preserving (\<lambda>r. bump (apply_update u r))" by (simp add: key_preserving_def)
  obtain db1 where 1: "st_update_many S db (\<lambda>r. s_id r = i \<and> s_version r = k) (\<lambda>r. bump (apply_update u r)) = (db1, 1)"
    "invar db1" "st_find S db1 = (st_find S db)(i \<mapsto> bump (apply_update u r))"
    using update_by_id [OF inv kp, of i "\<lambda>r. s_version r = k"] r k by auto
  then show ?thesis using u
    by (simp add: optimistic_update_between_def with_query_timeout_def guarded_update_many_defs)
qed

lemma lock_stale:
  assumes inv: "invar db" and r: "st_find S db i = Some r" and k: "s_version r \<noteq> k" and u: "up_status u = None"
  shows "\<exists>db'. update_settlement_with_optimistic_lock S no_faults db i k u =
      (db', Inl (update_error (VersionConflict ''Settlement'' i k))) \<and> invar db' \<and> st_find S db' = st_find S db"
proof -
  have kp: "key_preserving (\<lambda>r. bump (apply_update u r))" by (simp add: key_preserving_def)
  obtain db1 where 1: "st_update_many S db (\<lambda>r. s_id r = i \<and> s_version r = k) (\<lambda>r. bump (apply_update u r)) = (db1, 0)"
    "invar db1" "st_find S db1 = st_find S db"
    using update_by_id [OF inv kp, of i "\<lambda>r. s_version r = k"] r k by auto
  then show ?thesis using u
    by (simp add: optimistic_update_between_def with_query_timeout_def guarded_update_many_defs
        update_error_def Let_def)
qed

lemma retry_commit_ok:
  assumes inv: "invar db" and r: "st_find S db (s_id r) = Some r" and new: "st_find S db new_id = None"
  shows "\<exists>db'. retry_commit S no_faults new_id trace now r db =
      (db', [settlement_job_of (clone_for_retry r new_id now) (Some trace)], Retried (clone_for_retry r new_id now)) \<and>
    invar db' \<and> st_find S db' = (st_find S db)(new_id \<mapsto> clone_for_retry r new_id now, s_id r \<mapsto> superseded_row new_id r)"
proof -
  let ?c = "clone_for_retry r new_id now"
  obtain db1 where 1: "st_create S db ?c = Inr db1" "invar db1" "st_find S db1 = (st_find S db)(new_id \<mapsto> ?c)"
    using create_fresh [OF inv, of ?c] new by auto
  have "s_id r \<noteq> new_id" using r new by auto
  then have "st_find S db1 (s_id r) = Some r" using r 1(3) by simp
  moreover have "up_status (supersede_by new_id) = None" by (simp add: no_update_def)
  ultimately obtain db2 where
    "update_settlement_with_optimistic_lock S no_faults db1 (s_id r) (s_version r) (supersede_by new_id) =
       (db2, Inr (superseded_row new_id r))" "invar db2" "st_find S db2 = (st_find S db1)(s_id r \<mapsto> superseded_row new_id r)"
    using lock_no_faults [OF 1(2) _ HOL.refl, of "s_id r" r "supersede_by new_id"]
    unfolding superseded_row_eq by blast
  with 1 show ?thesis
    by (simp add: retry_commit_def Let_def)
qed

lemma retry_commit_stale:
  assumes inv: "invar db" and r: "st_find S db (s_id r) = Some r'" and v: "s_version r' \<noteq> s_version r"
    and new: "st_find S db new_id = None"
  shows "\<exists>db' resp. retry_commit S no_faults new_id trace now r db = (db', [], resp) \<and>
    (\<forall>c. resp \<noteq> Retried c) \<and> st_find S db' = (st_find S db)(new_id \<mapsto> clone_for_retry r new_id now)"
proof -
  let ?c = "clone_for_retry r new_id now"
  obtain db1 where 1: "st_create S db ?c = Inr db1" "invar db1" "st_find S db1 = (st_find S db)(new_id \<mapsto> ?c)"
    using create_fresh [OF inv, of ?c] new by auto
  have "s_id r \<noteq> new_id" using r new by auto
  then have "st_find S db1 (s_id r) = Some r'" using r 1(3) by simp
  from lock_stale [OF 1(2) this v, of "supersede_by new_id"] obtain db2 where
    "update_settlement_with_optimistic_lock S no_faults db1 (s_id r) (s_version r) (supersede_by new_id) =
       (db2, Inl (update_error (VersionConflict ''Settlement'' (s_id r) (s_version r))))"
    "st_find S db2 = st_find S db1" by (auto simp: no_update_def)
  with 1 show ?thesis
    by (auto simp: retry_commit_def Let_def split: adapter_error.splits)
qed

lemma retryable_count:
  assumes inv: "invar db" and q: "retryable S i db"
  shows "\<exists>n\<le>1. get_settlement_retry_count S db i = Some n"
proof -
  obtain r where r: "st_find S db i = Some r"
    "case s_superseded_by r of None \<Rightarrow> True
       | Some j \<Rightarrow> j \<noteq> i \<and> (\<exists>n. st_find S db j = Some n \<and> s_superseded_by n = None)"
    and none: "\<forall>k r. st_find S db k = Some r \<longrightarrow> s_superseded_by r \<noteq> Some i"
    using q by (auto simp: retryable_def)
  have "set (st_find_many S db (superseded_into [i]) any_order None) = {}"
    using find_many_any [OF inv, of "superseded_into [i]"] none
    by (auto simp: superseded_into_def split: option.splits)
  then have "descendant_loop S db [i] 0 = Some 0"
    by (subst descendant_loop.simps) simp
  moreover have "\<exists>n\<le>1. ancestor_loop S db [] i 0 = Some n"
  proof (cases "s_superseded_by r")
    case None
    with r(1) show ?thesis by (subst ancestor_loop.simps) auto
  next
    case (Some j)
    with r(2) obtain n where n: "j \<noteq> i" "st_find S db j = Some n" "s_superseded_by n = None" by auto
    have "ancestor_loop S db [i] j 1 = Some 1"
      by (subst ancestor_loop.simps) (use n in auto)
    with r(1) Some show ?thesis by (subst ancestor_loop.simps) auto
  qed
  ultimately show ?thesis by (auto simp: get_settlement_retry_count_def)
qed

lemma retryable_step:
  assumes inv: "invar db" and q: "retryable S i db" and un: "unlinked S db new_id"
  shows "\<exists>db' c job. retry_settlement S no_faults new_id trace now i db = Some (db', [job], Retried c) \<and>
    invar db' \<and> retryable S i db' \<and> dom (st_find S db') = insert new_id (dom (st_find S db)) \<and>
    st_find S db' new_id = Some c \<and> s_status c = ''pending'' \<and>
    (\<forall>k. k \<noteq> i \<longrightarrow> k \<noteq> new_id \<longrightarrow> st_find S db' k = st_find S db k) \<and>
    (\<forall>j. unlinked S db j \<longrightarrow> j \<noteq> new_id \<longrightarrow> unlinked S db' j)"
proof -
  have new: "st_find S db new_id = None"
    and free: "\<forall>k r. st_find S db k = Some r \<longrightarrow> s_superseded_by r \<noteq> Some new_id"
    using un by (auto simp: unlinked_def)
  obtain r where r: "st_find S db i = Some r" "s_status r = ''failed''"
    and none: "\<forall>k r. st_find S db k = Some r \<longrightarrow> s_superseded_by r \<noteq> Some i"
    using q by (auto simp: retryable_def)
  have id: "s_id r = i" by (rule find_id [OF inv r(1)])
  obtain n where n: "n \<le> 1" "get_settlement_retry_count S db i = Some n"
    using retryable_count [OF inv q] by blast
  then have "retry_check S db i = Some (Inr r)"
    using r by (simp add: retry_check_def assert_retry_limit_def max_settlement_retry_count_def)
  moreover obtain db' where c: "retry_commit S no_faults new_id trace now r db =
      (db', [settlement_job_of (clone_for_retry r new_id now) (Some trace)], Retried (clone_for_retry r new_id now))"
    "invar db'" "st_find S db' = (st_find S db)(new_id \<mapsto> clone_for_retry r new_id now, i \<mapsto> superseded_row new_id r)"
    using retry_commit_ok [OF inv, of r new_id trace now] r(1) id new by auto
  moreover have ne: "new_id \<noteq> i" using r(1) new by auto
  moreover have "retryable S i db'"
    using r none ne free by (auto simp: retryable_def c(3) superseded_row_def)
  moreover have "unlinked S db' j" if "unlinked S db j" "j \<noteq> new_id" for j
    using that r(1) none by (auto simp: unlinked_def c(3) superseded_row_def)
  ultimately show ?thesis using r(1)
    by (auto simp: retry_settlement_def)
qed

lemma retry_repeatedly_others:
  assumes "invar db" "retryable S i db" "distinct (map fst reqs)" "\<forall>j\<in>set (map fst reqs). unlinked S db j"
    and "retry_repeatedly S i reqs db = (db', jobs, resps)" "k \<noteq> i" "k \<notin> set (map fst reqs)"
  shows "st_find S db' k = st_find S db k"
  using assms
proof (induction reqs arbitrary: db jobs resps)
  case Nil
  then show ?case by simp
next
  case (Cons q reqs)
  obtain new_id trace now where q: "q = (new_id, trace, now)" by (cases q)
  from retryable_step [OF Cons.prems(1,2), of new_id trace now] Cons.prems(4) q
  obtain db1 c job where 1: "retry_settlement S no_faults new_id trace now i db = Some (db1, [job], Retried c)"
    "invar db1" "retryable S i db1" "\<And>k. k \<noteq> i \<Longrightarrow> k \<noteq> new_id \<Longrightarrow> st_find S db1 k = st_find S db k"
    "\<And>j. unlinked S db j \<Longrightarrow> j \<noteq> new_id \<Longrightarrow> unlinked S db1 j" by auto
  have "\<forall>j\<in>set (map fst reqs). unlinked S db1 j"
    using Cons.prems(3,4) q 1(5) by (metis distinct.simps(2) fst_conv list.set_intros(2) list.simps(9))
  moreover obtain jobs2 resps2 where "retry_repeatedly S i reqs db1 = (db', jobs2, resps2)"
    using Cons.prems(5) q 1(1) by (auto split: prod.splits)
  ultimately have "st_find S db' k = st_find S db1 k"
    using Cons.IH [OF 1(2,3)] Cons.prems(3,6,7) by simp
  with 1(4) [of k] Cons.prems(6,7) q show ?case by simp
qed

lemma retry_effect_gen:
  assumes inv: "invar db" and run: "retry_settlement S flt new_id trace now i db = Some (db', jobs, Retried c)"
  shows "\<exists>r n. st_find S db i = Some r \<and> s_status r = ''failed'' \<and>
    get_settlement_retry_count S db i = Some n \<and> n < max_settlement_retry_count \<and>
    c = clone_for_retry r new_id now \<and> jobs = [settlement_job_of c (Some trace)] \<and>
    st_find S db new_id = None \<and> st_find S db' = (st_find S db)(new_id \<mapsto> c, i \<mapsto> superseded_row new_id r)"
proof -
  obtain r n where r: "st_find S db i = Some r" "s_status r = ''failed''" "n < max_settlement_retry_count"
    "get_settlement_retry_count S db i = Some n"
    and commit: "retry_commit S flt new_id trace now r db = (db', jobs, Retried c)"
    using run by (auto simp: retry_settlement_def retry_check_def assert_retry_limit_def
        split: option.splits if_splits sum.splits)
  have "s_id r = i" by (rule find_id [OF inv r(1)])
  with r retry_commit_effect [OF inv commit] show ?thesis by auto
qed

end

lemma archivable_apply:
  assumes "settlement_store S invar" "invar db" "archive_superseded_chains S cutoff db = (db', n)"
  shows "\<exists>P. st_find S db' = (\<lambda>i. map_option (\<lambda>r. if P r then r\<lparr> s_completed_at := Some cutoff \<rparr> else r) (st_find S db i))"
proof (cases "st_find_many S db (archivable S db cutoff) any_order (Some superseded_batch_size) = []")
  case True
  then show ?thesis using assms(3)
    by (auto simp: archive_superseded_chains_def option.map_id0 [unfolded id_def] intro!: exI [of _ "\<lambda>_. False"])
next
  case False
  let ?f = "apply_update (no_update \<lparr> up_completed_at := Some cutoff \<rparr>)"
  let ?ids = "map s_id (st_find_many S db (archivable S db cutoff) any_order (Some superseded_batch_size))"
  have f: "?f r = r\<lparr> s_completed_at := Some cutoff \<rparr>" for r
    by (simp add: apply_update_def no_update_def)
  from settlement_store.update_many [OF assms(1,2) key_preserving_apply_update,
      of "\<lambda>r. s_id r \<in> set ?ids \<or> superseded_into ?ids r" "no_update \<lparr> up_completed_at := Some cutoff \<rparr>"]
  show ?thesis using assms(3) False
    by (intro exI [of _ "\<lambda>r. s_id r \<in> set ?ids \<or> superseded_into ?ids r"])
       (auto simp: archive_superseded_chains_def Let_def f cong: if_cong)
qed

subsection \<open>Properties\<close>

text \<open>
  a successful retry found the settlement failed and its chain below the limit, stored
  exactly one fresh pending copy of its amounts, linked the original to it with its version
  incremented, left every other row alone and enqueued exactly one job, for the copy.
\<close>

theorem retry_effect:
  assumes "settlement_store S invar" "invar db"
    and "retry_settlement S flt new_id trace now i db = Some (db', jobs, Retried c)"
  shows "\<exists>r n. st_find S db i = Some r \<and> s_status r = ''failed'' \<and>
    get_settlement_retry_count S db i = Some n \<and> n < max_settlement_retry_count \<and>
    c = clone_for_retry r new_id now \<and> jobs = [settlement_job_of c (Some trace)] \<and>
    st_find S db new_id = None \<and> st_find S db' = (st_find S db)(new_id \<mapsto> c, i \<mapsto> superseded_row new_id r)"
  using settlement_store.retry_effect_gen [OF assms] .


definition lone_failure :: table where
  "lone_failure = [(sample_settlement ''s1'' None)\<lparr> s_status := ''failed'' \<rparr>]"

lemma lone_failure_ok [simp]: "tab_invar lone_failure"
  by (simp add: tab_invar_def lone_failure_def sample_settlement_def)

lemma lone_failure_retryable [simp]: "retryable tab_ops ''s1'' lone_failure"
  by (auto simp: retryable_def lone_failure_def sample_settlement_def tab_ops_def)

lemma lone_failure_unlinked: "j \<noteq> ''s1'' \<Longrightarrow> unlinked tab_ops lone_failure j"
  by (auto simp: unlinked_def lone_failure_def sample_settlement_def tab_ops_def)

theorem retry_effect_witness:
  "\<exists>db' c. retry_settlement tab_ops no_faults ''s2'' ''t'' 5 ''s1'' lone_failure =
       Some (db', [settlement_job_of c (Some ''t'')], Retried c) \<and> s_status c = ''pending'' \<and>
     st_find tab_ops db' ''s2'' = Some c"
proof -
  obtain db' c job where run: "retry_settlement tab_ops no_faults ''s2'' ''t'' 5 ''s1'' lone_failure =
       Some (db', [job], Retried c)"
    using tab.retryable_step [OF lone_failure_ok lone_failure_retryable lone_failure_unlinked, of "''s2''" "''t''" 5]
    by auto
  from retry_effect [OF tab.settlement_store_axioms lone_failure_ok run] run show ?thesis
    by auto
qed

text \<open>
  C18: the retry limit does not bound the retries of one settlement: the same failed settlement
  can be retried any number of times, each request adding one more pending copy of its payout
  and one more job, since the handler does not look at \<open>supersededById\<close>.
\<close>

theorem retry_limit_bypassed:
  assumes "settlement_store S invar" "invar db" "retryable S i db"
    and "distinct (map fst reqs)" "\<forall>j\<in>set (map fst reqs). unlinked S db j"
  shows "length (fst (snd (retry_repeatedly S i reqs db))) = length reqs \<and>
    (\<forall>j\<in>set (map fst reqs). \<exists>c. st_find S (fst (retry_repeatedly S i reqs db)) j = Some c \<and>
       s_status c = ''pending'')"
  using assms(2-)
proof (induction reqs arbitrary: db)
  case Nil
  then show ?case by simp
next
  case (Cons q reqs)
  obtain new_id trace now where q: "q = (new_id, trace, now)" by (cases q)
  from settlement_store.retryable_step [OF assms(1) Cons.prems(1,2), of new_id trace now] Cons.prems(4) q
  obtain db1 c job where 1: "retry_settlement S no_faults new_id trace now i db = Some (db1, [job], Retried c)"
    "invar db1" "retryable S i db1" "st_find S db1 new_id = Some c" "s_status c = ''pending''"
    "\<And>j. unlinked S db j \<Longrightarrow> j \<noteq> new_id \<Longrightarrow> unlinked S db1 j" by auto
  have un: "\<forall>j\<in>set (map fst reqs). unlinked S db1 j"
    using Cons.prems(3,4) q 1(6) by (metis distinct.simps(2) fst_conv list.set_intros(2) list.simps(9))
  have d: "distinct (map fst reqs)" using Cons.prems(3) by simp
  obtain db2 jobs2 resps where 2: "retry_repeatedly S i reqs db1 = (db2, jobs2, resps)"
    by (cases "retry_repeatedly S i reqs db1")
  have IH: "length jobs2 = length reqs" "\<forall>j\<in>set (map fst reqs). \<exists>c. st_find S db2 j = Some c \<and> s_status c = ''pending''"
    using Cons.IH [OF 1(2,3) d un] 2 by auto
  have "new_id \<notin> set (map fst reqs)" "new_id \<noteq> i"
    using Cons.prems(2-4) q by (auto simp: retryable_def unlinked_def)
  then have "st_find S db2 new_id = Some c"
    using settlement_store.retry_repeatedly_others [OF assms(1) 1(2,3) d un 2, of new_id] 1(4) by simp
  with IH 1(1,5) 2 q show ?case by auto
qed

theorem retry_limit_bypassed_witness:
  "length (fst (snd (retry_repeatedly tab_ops ''s1''
     [(''a'', ''t1'', 1), (''b'', ''t2'', 2), (''c'', ''t3'', 3), (''d'', ''t4'', 4)] lone_failure))) = 4"
  using retry_limit_bypassed [OF tab.settlement_store_axioms lone_failure_ok lone_failure_retryable,
      of "[(''a'', ''t1'', 1), (''b'', ''t2'', 2), (''c'', ''t3'', 3), (''d'', ''t4'', 4)]"]
  by (simp add: lone_failure_unlinked)

text \<open>
  two retries of one settlement that both read it before either writes: the first wins,
  the second is answered with a conflict, but its pending copy stays in the table, with
  no job and no link to it.
\<close>

theorem concurrent_retry_leaves_orphan:
  assumes "settlement_store S invar" "invar db" "retry_check S db i = Some (Inr r)"
    and "unlinked S db j1" "unlinked S db j2" "j1 \<noteq> j2"
  shows "\<exists>db1 db2 c1 resp. retry_commit S no_faults j1 t1 now1 r db = (db1, [settlement_job_of c1 (Some t1)], Retried c1) \<and>
    retry_commit S no_faults j2 t2 now2 r db1 = (db2, [], resp) \<and> (\<forall>c. resp \<noteq> Retried c) \<and>
    st_find S db2 j2 = Some (clone_for_retry r j2 now2) \<and>
    (\<forall>k x. st_find S db2 k = Some x \<longrightarrow> s_superseded_by x \<noteq> Some j2)"
proof -
  have r: "st_find S db i = Some r"
    using assms(3) by (auto simp: retry_check_def split: option.splits if_splits sum.splits)
  then have id: "s_id r = i" by (rule settlement_store.find_id [OF assms(1,2)])
  have ne: "i \<noteq> j1" "i \<noteq> j2" and none: "st_find S db j1 = None" "st_find S db j2 = None"
    using r assms(4,5) by (auto simp: unlinked_def)
  obtain db1 where 1: "retry_commit S no_faults j1 t1 now1 r db =
      (db1, [settlement_job_of (clone_for_retry r j1 now1) (Some t1)], Retried (clone_for_retry r j1 now1))"
    "invar db1" "st_find S db1 = (st_find S db)(j1 \<mapsto> clone_for_retry r j1 now1, i \<mapsto> superseded_row j1 r)"
    using settlement_store.retry_commit_ok [OF assms(1,2), of r j1 t1 now1] r id none by auto
  obtain db2 resp where 2: "retry_commit S no_faults j2 t2 now2 r db1 = (db2, [], resp)" "\<forall>c. resp \<noteq> Retried c"
    "st_find S db2 = (st_find S db1)(j2 \<mapsto> clone_for_retry r j2 now2)"
    using settlement_store.retry_commit_stale [OF assms(1) 1(2), of r "superseded_row j1 r" j2 t2 now2]
      1(3) id none assms(6) ne by (auto simp: superseded_row_def)
  moreover have "s_superseded_by x \<noteq> Some j2" if "st_find S db2 k = Some x" for k x
    using that assms(5,6) 2(3) 1(3) by (auto simp: unlinked_def superseded_row_def split: if_splits)
  ultimately show ?thesis using 1(1) by auto
qed

text \<open>
  on a table whose retry links are acyclic the retry handler always answers, and a
  successful retry keeps the links acyclic, so it also answers the next request.
\<close>

theorem retry_always_answers:
  assumes "settlement_store S invar" "invar db" "acyclic_links S db rank"
  shows "(\<exists>out. retry_settlement S flt new_id trace now i db = Some out) \<and>
    (\<forall>db' jobs c. retry_settlement S flt new_id trace now i db = Some (db', jobs, Retried c) \<longrightarrow>
       (\<exists>rank'. acyclic_links S db' rank'))"
proof (intro conjI allI impI)
  obtain n where "get_settlement_retry_count S db i = Some n"
    using settlement_store.retry_count_stops [OF assms(1-3)] by blast
  then have "\<exists>out. retry_check S db i = Some out"
    by (auto simp: retry_check_def split: option.splits sum.splits)
  then show "\<exists>out. retry_settlement S flt new_id trace now i db = Some out"
    by (auto simp: retry_settlement_def split: sum.splits) (metis prod_cases3)
next
  fix db' jobs c
  assume "retry_settlement S flt new_id trace now i db = Some (db', jobs, Retried c)"
  from settlement_store.retry_effect_gen [OF assms(1,2) this] obtain r where
    r: "st_find S db i = Some r" "c = clone_for_retry r new_id now" "st_find S db new_id = None"
    "st_find S db' = (st_find S db)(new_id \<mapsto> c, i \<mapsto> superseded_row new_id r)" by auto
  let ?rank = "rank(new_id := Suc (Max (rank ` dom (st_find S db))))"
  have max: "rank k < Suc (Max (rank ` dom (st_find S db)))" if "st_find S db k \<noteq> None" for k
    using that settlement_store.finite_dom [OF assms(1,2)] by (auto intro!: le_imp_less_Suc Max_ge)
  have "acyclic_links S db' ?rank"
    unfolding acyclic_links_def
  proof (intro allI impI)
    fix k x j
    assume x: "st_find S db' k = Some x" "s_superseded_by x = Some j"
    show "?rank k < ?rank j"
    proof (cases "k = new_id \<or> k = i")
      case True
      then show ?thesis using x r max [of i] by (auto simp: superseded_row_def split: if_splits)
    next
      case False
      then have "st_find S db k = Some x" using x r(4) by simp
      then show ?thesis using x False max [of k] assms(3) by (auto simp: acyclic_links_def)
    qed
  qed
  then show "\<exists>rank'. acyclic_links S db' rank'" by blast
qed

lemma lone_failure_acyclic: "acyclic_links tab_ops lone_failure (\<lambda>_. 0)"
  by (auto simp: acyclic_links_def lone_failure_def sample_settlement_def tab_ops_def)

theorem retry_always_answers_witness:
  "\<exists>out. retry_settlement tab_ops no_faults ''s2'' ''t'' 5 ''s1'' lone_failure = Some out"
  using retry_always_answers [OF tab.settlement_store_axioms lone_failure_ok lone_failure_acyclic] by blast

theorem concurrent_retry_leaves_orphan_witness:
  "\<exists>r db1 db2 c1 resp. retry_check tab_ops lone_failure ''s1'' = Some (Inr r) \<and>
    retry_commit tab_ops no_faults ''a'' ''t1'' 1 r lone_failure = (db1, [settlement_job_of c1 (Some ''t1'')], Retried c1) \<and>
    retry_commit tab_ops no_faults ''b'' ''t2'' 2 r db1 = (db2, [], resp) \<and>
    st_find tab_ops db2 ''b'' = Some (clone_for_retry r ''b'' 2)"
proof -
  obtain db' c job where "retry_settlement tab_ops no_faults ''a'' ''t1'' 1 ''s1'' lone_failure =
       Some (db', [job], Retried c)"
    using tab.retryable_step [OF lone_failure_ok lone_failure_retryable lone_failure_unlinked, of "''a''" "''t1''" 1]
    by auto
  then obtain r where "retry_check tab_ops lone_failure ''s1'' = Some (Inr r)"
    by (auto simp: retry_settlement_def retry_check_def split: option.splits if_splits sum.splits)
  with concurrent_retry_leaves_orphan [OF tab.settlement_store_axioms lone_failure_ok this
      lone_failure_unlinked lone_failure_unlinked, of "''a''" "''b''" "''t1''" 1 "''t2''" 2]
  show ?thesis by auto
qed

text \<open>
  C34: archiving writes nothing but \<open>completedAt\<close>: every settlement that was a candidate is
  a candidate of the next run again, so the candidates never run out.
\<close>

theorem archive_keeps_candidates:
  assumes "settlement_store S invar" "invar db" "archive_superseded_chains S cutoff db = (db', n)"
    and "st_find S db i = Some r"
  shows "\<exists>r'. st_find S db' i = Some r' \<and> r' \<in> {r, r\<lparr> s_completed_at := Some cutoff \<rparr>} \<and>
    archivable S db' cutoff' r' = archivable S db cutoff' r"
proof -
  obtain P where P: "st_find S db' = (\<lambda>i. map_option (\<lambda>r. if P r then r\<lparr> s_completed_at := Some cutoff \<rparr> else r) (st_find S db i))"
    using archivable_apply [OF assms(1-3)] by blast
  then have "archivable S db' cutoff' (if P r then r\<lparr> s_completed_at := Some cutoff \<rparr> else r) = archivable S db cutoff' r"
    by (auto simp: archivable_def split: option.splits)
  with P assms(4) show ?thesis by auto
qed

definition archived_sample :: table where
  "archived_sample = [(sample_settlement ''s1'' None)\<lparr> s_status := ''failed'', s_superseded_by := Some ''s2'' \<rparr>,
     (sample_settlement ''s2'' None)\<lparr> s_status := ''completed'' \<rparr>]"

theorem archive_keeps_candidates_witness:
  "\<exists>db' r'. archive_superseded_chains tab_ops 7 archived_sample = (db', 1) \<and> st_find tab_ops db' ''s1'' = Some r' \<and>
     archivable tab_ops db' 7 r'"
proof -
  let ?run = "archive_superseded_chains tab_ops 7 archived_sample"
  have ok: "tab_invar archived_sample" by (simp add: tab_invar_def archived_sample_def sample_settlement_def)
  have "snd ?run = 1 \<and> archivable tab_ops archived_sample 7 (hd archived_sample) \<and>
      st_find tab_ops archived_sample ''s1'' = Some (hd archived_sample)"
    by code_simp
  then obtain db' where run: "?run = (db', 1)" "archivable tab_ops archived_sample 7 (hd archived_sample)"
    "st_find tab_ops archived_sample ''s1'' = Some (hd archived_sample)"
    by (cases ?run) auto
  from archive_keeps_candidates [OF tab.settlement_store_axioms ok run(1,3), of 7] run show ?thesis by auto
qed

end
