(* ===== verification/SettlementBatching.thy ===== *)
theory SettlementBatching
  imports SettlementReaper
begin

section \<open>Batching of pending settlements (\<open>settlement-batch-processor.ts\<close>)\<close>

text \<open>
  The repeatable job that groups pending settlements by asset into batches, the worker around
  it (\<open>index.ts\<close>) and the atomic claim of a batch. The \<open>SettlementBatch\<close> table is the
  list of its rows; ids the database generates and failures of its calls are inputs.
\<close>

record settlement_batch =
  sb_id :: string
  sb_asset :: string
  sb_count :: nat
  sb_gross :: string
  sb_fees :: string
  sb_net :: string
  sb_processed_at :: "int option"

subsection \<open>Claiming a batch\<close>

datatype claim_error = BatchNotFound string | BatchAlreadyProcessed string

text \<open>
  \<open>UPDATE ... SET "processedAt" = NOW() WHERE "id" = i AND "processedAt" IS NULL\<close>, and its
  number of rows; \<open>between\<close> is what other workers do before the second query.
\<close>

definition claim_update :: "string \<Rightarrow> int \<Rightarrow> settlement_batch list \<Rightarrow> settlement_batch list \<times> nat" where
  "claim_update i now bs =
     (map (\<lambda>b. if sb_id b = i \<and> sb_processed_at b = None then b \<lparr> sb_processed_at := Some now \<rparr> else b) bs,
      length (filter (\<lambda>b. sb_id b = i \<and> sb_processed_at b = None) bs))"

definition claim_batch_for_processing ::
  "(settlement_batch list \<Rightarrow> settlement_batch list) \<Rightarrow> string \<Rightarrow> int \<Rightarrow> settlement_batch list \<Rightarrow>
   settlement_batch list \<times> (claim_error, bool) result" where
  "claim_batch_for_processing between i now bs =
     (case claim_update i now bs of (bs1, n) \<Rightarrow>
        if n = 0 then
          (let bs2 = between bs1
           in case find (\<lambda>b. sb_id b = i) bs2 of
                None \<Rightarrow> (bs2, throw (BatchNotFound i))
              | Some b \<Rightarrow> if sb_processed_at b \<noteq> None then (bs2, throw (BatchAlreadyProcessed i))
                  else (bs2, return_ok False))
        else (bs1, return_ok True))"

text \<open>Several workers claim the same batch one after the other, at the given times.\<close>

fun claim_race :: "string \<Rightarrow> int list \<Rightarrow> settlement_batch list \<Rightarrow> (claim_error, bool) result list" where
  "claim_race i [] bs = []"
| "claim_race i (t # ts) bs =
     (case claim_batch_for_processing id i t bs of (bs', r) \<Rightarrow> r # claim_race i ts bs')"

lemma claim_update_claims:
  assumes "b \<in> set (fst (claim_update i t bs))" "sb_id b = i"
  shows "sb_processed_at b \<noteq> None"
proof -
  obtain x where "x \<in> set bs"
    "b = (if sb_id x = i \<and> sb_processed_at x = None then x \<lparr> sb_processed_at := Some t \<rparr> else x)"
    using assms(1) by (auto simp only: claim_update_def fst_conv set_map)
  with assms(2) show ?thesis by (cases "sb_id x = i \<and> sb_processed_at x = None") simp_all
qed

lemma claim_race_lost:
  "\<forall>b\<in>set bs. sb_id b = i \<longrightarrow> sb_processed_at b \<noteq> None \<Longrightarrow> Inr True \<notin> set (claim_race i ts bs)"
proof (induction ts)
  case Nil
  then show ?case by simp
next
  case (Cons t ts)
  have n: "filter (\<lambda>b. sb_id b = i \<and> sb_processed_at b = None) bs = []"
    using Cons.prems by (auto simp: filter_empty_conv)
  have m: "map (\<lambda>b. if sb_id b = i \<and> sb_processed_at b = None then b \<lparr> sb_processed_at := Some t \<rparr> else b) bs = bs"
    using Cons.prems by (intro map_idI) auto
  have u: "claim_update i t bs = (bs, 0)"
    unfolding claim_update_def n m by simp
  obtain r where r: "claim_batch_for_processing id i t bs = (bs, r)" "r \<noteq> Inr True"
  proof (cases "find (\<lambda>b. sb_id b = i) bs")
    case None
    show thesis by (rule that [of "Inl (BatchNotFound i)"]) (simp_all add: claim_batch_for_processing_def u None)
  next
    case (Some b)
    from find_SomeD [OF Some] Cons.prems have p: "sb_processed_at b \<noteq> None" by blast
    show thesis
      by (rule that [of "Inl (BatchAlreadyProcessed i)"]) (simp_all only: claim_batch_for_processing_def u Some p
          split_conv simp_thms if_True Let_def option.case id_apply not_False_eq_True sum.distinct)
  qed
  show ?case using Cons.IH [OF Cons.prems] r by simp
qed

text \<open>Of any number of claims of one batch at most one succeeds.\<close>

lemma claim_race_single: "length (filter (\<lambda>r. r = Inr True) (claim_race i ts bs)) \<le> 1"
proof (induction ts arbitrary: bs)
  case Nil
  then show ?case by simp
next
  case (Cons t ts)
  obtain bs' r where c: "claim_batch_for_processing id i t bs = (bs', r)" by fastforce
  show ?case
  proof (cases "r = Inr True")
    case True
    obtain bs1 n where u: "claim_update i t bs = (bs1, n)" by fastforce
    have "bs' = bs1"
    proof (cases "n = 0")
      case 0: True
      show ?thesis
      proof (cases "find (\<lambda>b. sb_id b = i) bs1")
        case None
        with c True 0 u show ?thesis by (simp add: claim_batch_for_processing_def)
      next
        case (Some b)
        with c True 0 u show ?thesis by (simp add: claim_batch_for_processing_def split: if_splits)
      qed
    next
      case False
      with c u show ?thesis by (simp add: claim_batch_for_processing_def)
    qed
    then have "bs' = fst (claim_update i t bs)" by (simp add: u)
    then have "\<forall>b\<in>set bs'. sb_id b = i \<longrightarrow> sb_processed_at b \<noteq> None"
      using claim_update_claims by blast
    from claim_race_lost [OF this, of ts] have "filter (\<lambda>r. r = Inr True) (claim_race i ts bs') = []"
      by (auto simp: filter_empty_conv)
    with c True show ?thesis by simp
  next
    case False
    with c Cons.IH [of bs'] show ?thesis by simp
  qed
qed

subsection \<open>One run of the job\<close>

record batching_config =
  bc_interval_ms :: rat
  bc_min_count :: nat
  bc_volume_threshold :: rat
  bc_max_batch_size :: "nat option"

record batching_result =
  br_batched :: nat
  br_late :: bool
  br_missed :: int
  br_assets :: "string list"

datatype batching_error = ReadFailed db_error | BatchCreateFailed db_error | MarkFailed adapter_error

record batching_env =
  be_read_fault :: "db_error option"
  be_batch_id :: "string \<Rightarrow> string"
  be_create_fault :: "string \<Rightarrow> db_error option"
  be_mark_faults :: "string \<Rightarrow> faults"

definition oldest_first :: "settlement \<Rightarrow> settlement \<Rightarrow> bool" where
  "oldest_first a b \<longleftrightarrow> s_initiated_at a < s_initiated_at b \<or>
     s_initiated_at a = s_initiated_at b \<and> s_id a \<le> s_id b"

definition batch_take :: "batching_config \<Rightarrow> nat option" where
  "batch_take cfg = (case bc_max_batch_size cfg of Some n \<Rightarrow> if n > 0 then Some n else None | None \<Rightarrow> None)"

definition is_late :: "batching_config \<Rightarrow> int \<Rightarrow> int \<Rightarrow> bool" where
  "is_late cfg last_completed_at now \<longleftrightarrow> of_int (now - last_completed_at) > bc_interval_ms cfg * 3 / 2"

definition missed_intervals :: "batching_config \<Rightarrow> int \<Rightarrow> int \<Rightarrow> int" where
  "missed_intervals cfg last_completed_at now =
     (if is_late cfg last_completed_at now
      then \<lfloor>of_int (now - last_completed_at) / bc_interval_ms cfg\<rfloor> - 1 else 0)"

definition group_by_asset :: "settlement list \<Rightarrow> (string, settlement list) jsmap" where
  "group_by_asset rs = fold (\<lambda>s acc. js_set (s_asset s)
     ((case map_of acc (s_asset s) of None \<Rightarrow> [] | Some xs \<Rightarrow> xs) @ [s]) acc) rs []"

definition bn_sum :: "'n bignum_ops \<Rightarrow> (settlement \<Rightarrow> string) \<Rightarrow> settlement list \<Rightarrow> 'n" where
  "bn_sum B f rs = fold (\<lambda>s acc. bn_plus B acc (bn_parse B (f s))) rs (bn_zero B)"

definition meets_threshold :: "'n bignum_ops \<Rightarrow> batching_config \<Rightarrow> settlement list \<Rightarrow> bool" where
  "meets_threshold B cfg rs \<longleftrightarrow> length rs \<ge> bc_min_count cfg \<or>
     bc_volume_threshold cfg > 0 \<and> bn_le B (bn_number B (bc_volume_threshold cfg)) (bn_sum B s_gross_amount rs)"

definition batch_of :: "'n bignum_ops \<Rightarrow> batching_env \<Rightarrow> string \<Rightarrow> settlement list \<Rightarrow> settlement_batch" where
  "batch_of B be asset rs = \<lparr> sb_id = be_batch_id be asset, sb_asset = asset, sb_count = length rs,
     sb_gross = bn_to_string B (bn_sum B s_gross_amount rs),
     sb_fees = bn_to_string B (bn_sum B s_fee_amount rs),
     sb_net = bn_to_string B (bn_sum B s_net_amount rs), sb_processed_at = None \<rparr>"

definition mark_processing ::
  "'db store_ops \<Rightarrow> faults \<Rightarrow> string list \<Rightarrow> 'db \<Rightarrow> 'db \<times> (adapter_error, nat) result" where
  "mark_processing S flt ids db =
     guarded_update_many S flt db (\<lambda>r. s_id r \<in> set ids) (no_update \<lparr> up_status := Some ''processing'' \<rparr>) id"

fun batch_groups ::
  "'db store_ops \<Rightarrow> 'n bignum_ops \<Rightarrow> batching_env \<Rightarrow> batching_config \<Rightarrow> (string, settlement list) jsmap \<Rightarrow>
   'db \<Rightarrow> settlement_batch list \<Rightarrow> nat \<Rightarrow> 'db \<times> settlement_batch list \<times> (batching_error, nat) result" where
  "batch_groups S B be cfg [] db bs batched = (db, bs, return_ok batched)"
| "batch_groups S B be cfg ((asset, rs) # gs) db bs batched =
     (if meets_threshold B cfg rs then
        (case be_create_fault be asset of
           Some e \<Rightarrow> (db, bs, throw (BatchCreateFailed e))
         | None \<Rightarrow>
           (case mark_processing S (be_mark_faults be asset) (map s_id rs) db of
              (db', Inl e) \<Rightarrow> (db', bs @ [batch_of B be asset rs], throw (MarkFailed e))
            | (db', Inr _) \<Rightarrow>
                batch_groups S B be cfg gs db' (bs @ [batch_of B be asset rs]) (batched + length rs)))
      else batch_groups S B be cfg gs db bs batched)"

definition run_settlement_batching ::
  "'db store_ops \<Rightarrow> 'n bignum_ops \<Rightarrow> batching_env \<Rightarrow> batching_config \<Rightarrow> int \<Rightarrow> int \<Rightarrow> 'db \<Rightarrow>
   settlement_batch list \<Rightarrow> 'db \<times> settlement_batch list \<times> (batching_error, batching_result) result" where
  "run_settlement_batching S B be cfg last_completed_at now db bs =
     (let late = is_late cfg last_completed_at now;
          missed = missed_intervals cfg last_completed_at now
      in case be_read_fault be of
        Some e \<Rightarrow> (db, bs, throw (ReadFailed e))
      | None \<Rightarrow>
        let pending = st_find_many S db (\<lambda>r. s_status r = ''pending'') oldest_first (batch_take cfg)
        in if pending = []
           then (db, bs, return_ok \<lparr> br_batched = 0, br_late = late, br_missed = missed, br_assets = [] \<rparr>)
           else let grouped = group_by_asset pending
             in case batch_groups S B be cfg grouped db bs 0 of
               (db', bs', Inl e) \<Rightarrow> (db', bs', throw e)
             | (db', bs', Inr n) \<Rightarrow> (db', bs', return_ok
                 \<lparr> br_batched = n, br_late = late, br_missed = missed, br_assets = map fst grouped \<rparr>))"

text \<open>
  The worker: the start of the last successful run, the late counter by asset, and the value
  returned to the queue.
\<close>

record batch_worker =
  bw_last_completed_at :: int
  bw_late :: "string list"

definition batch_worker_job ::
  "'db store_ops \<Rightarrow> 'n bignum_ops \<Rightarrow> batching_env \<Rightarrow> batching_config \<Rightarrow> int \<Rightarrow> batch_worker \<Rightarrow> 'db \<Rightarrow>
   settlement_batch list \<Rightarrow> batch_worker \<times> 'db \<times> settlement_batch list \<times> (batching_error, nat) result" where
  "batch_worker_job S B be cfg start w db bs =
     (case run_settlement_batching S B be cfg (bw_last_completed_at w) start db bs of
        (db', bs', Inl e) \<Rightarrow> (w, db', bs', throw e)
      | (db', bs', Inr res) \<Rightarrow>
          (\<lparr> bw_last_completed_at = start,
             bw_late = bw_late w @ (if br_late res then br_assets res else []) \<rparr>,
           db', bs', return_ok (br_batched res)))"

subsection \<open>Grouping and marking\<close>

lemma row_order_oldest_first [simp]: "row_order oldest_first"
  by (auto simp: row_order_def oldest_first_def)

lemma map_of_group_fold:
  "map_of (fold (\<lambda>s acc. js_set (s_asset s)
      ((case map_of acc (s_asset s) of None \<Rightarrow> [] | Some xs \<Rightarrow> xs) @ [s]) acc) rs acc) a =
   (if filter (\<lambda>s. s_asset s = a) rs = [] then map_of acc a
    else Some ((case map_of acc a of None \<Rightarrow> [] | Some xs \<Rightarrow> xs) @ filter (\<lambda>s. s_asset s = a) rs))"
proof (induction rs arbitrary: acc)
  case Nil
  then show ?case by simp
next
  case (Cons r rs)
  then show ?case by (auto split: option.splits)
qed

lemma map_of_group_by_asset:
  "map_of (group_by_asset rs) a =
     (if filter (\<lambda>s. s_asset s = a) rs = [] then None else Some (filter (\<lambda>s. s_asset s = a) rs))"
  unfolding group_by_asset_def map_of_group_fold by simp

lemma distinct_group_fold:
  "distinct (map fst acc) \<Longrightarrow> distinct (map fst (fold (\<lambda>s acc. js_set (s_asset s) (f s acc) acc) rs acc))"
  by (induction rs arbitrary: acc) (auto intro: distinct_update)

lemma distinct_group_by_asset: "distinct (map fst (group_by_asset rs))"
  unfolding group_by_asset_def by (rule distinct_group_fold) simp

lemma group_members:
  "(a, xs) \<in> set (group_by_asset rs) \<longleftrightarrow> xs = filter (\<lambda>s. s_asset s = a) rs \<and> xs \<noteq> []"
  using map_of_eq_Some_iff [OF distinct_group_by_asset, of rs a xs]
  by (auto simp: map_of_group_by_asset split: if_splits)

definition started_row :: "settlement \<Rightarrow> settlement" where
  "started_row r = r \<lparr> s_status := ''processing'' \<rparr>"

lemma start_only_update: "apply_update (no_update \<lparr> up_status := Some ''processing'' \<rparr>) r = started_row r"
  by (simp add: apply_update_def no_update_def started_row_def)

lemma started_row_simps [simp]:
  "s_id (started_row r) = s_id r" "s_status (started_row r) = ''processing''" "started_row (started_row r) = started_row r"
  by (simp_all add: started_row_def)

definition mark_rows :: "string set \<Rightarrow> (string \<rightharpoonup> settlement) \<Rightarrow> (string \<rightharpoonup> settlement)" where
  "mark_rows I f = (\<lambda>i. map_option (\<lambda>r. if i \<in> I then started_row r else r) (f i))"

lemma mark_rows_twice: "mark_rows I (mark_rows J f) = mark_rows (I \<union> J) f"
  by (auto simp: mark_rows_def fun_eq_iff option.map_comp intro!: option.map_cong0)

lemma mark_rows_empty [simp]: "mark_rows {} f = f"
  by (simp add: mark_rows_def option.map_ident)

definition openable :: "'db store_ops \<Rightarrow> string set \<Rightarrow> 'db \<Rightarrow> bool" where
  "openable S I db \<longleftrightarrow>
     (\<forall>i r. i \<in> I \<longrightarrow> st_find S db i = Some r \<longrightarrow> s_status r \<in> {''pending'', ''processing''})"

lemma openable_marked: "st_find S db' = mark_rows J (st_find S db) \<Longrightarrow> openable S I db \<Longrightarrow> openable S I db'"
  by (auto simp: openable_def mark_rows_def)

context settlement_store
begin

lemma mark_processing_ok:
  assumes inv: "invar db" and op: "openable S (set ids) db"
  shows "\<exists>db' n. mark_processing S no_faults ids db = (db', Inr n) \<and> invar db' \<and>
    st_find S db' = mark_rows (set ids) (st_find S db)"
proof -
  let ?P = "\<lambda>r. s_id r \<in> set ids" and ?u = "no_update \<lparr> up_status := Some ''processing'' \<rparr>"
  have kp: "key_preserving id" by (simp add: key_preserving_def)
  obtain db' res where run: "guarded_update_many S no_faults db ?P ?u id = (db', res)" by fastforce
  have "validate_all ''processing'' (st_find_many S db ?P any_order None) = Inr ()"
    using find_many_any [OF inv, of ?P] op find_id [OF inv]
    by (auto simp: validate_all_ok validate_transition_cases settlement_transitions openable_def)
  then have "\<exists>n. res = Inr n"
    using run by (auto simp: guarded_update_many_defs no_update_def split: prod.splits)
  with guarded_update_many_cases [OF inv kp run] have c: "invar db'" "\<exists>n. res = Inr n"
    "st_find S db' = (\<lambda>j. map_option (\<lambda>r. if ?P r then id (apply_update ?u r) else r) (st_find S db j))"
    by auto
  have "st_find S db' j = mark_rows (set ids) (st_find S db) j" for j
    using find_id [OF inv, of j] unfolding c(3) mark_rows_def
    by (cases "st_find S db j") (auto simp: start_only_update)
  with c run show ?thesis by (auto simp: mark_processing_def fun_eq_iff)
qed

lemma batch_groups_ok:
  assumes calm: "\<forall>a. be_create_fault be a = None \<and> be_mark_faults be a = no_faults"
  shows "invar db \<Longrightarrow> openable S (\<Union>(a, rs)\<in>set gs. s_id ` set rs) db \<Longrightarrow>
    \<exists>db'. batch_groups S B be cfg gs db bs n =
      (db', bs @ [batch_of B be a rs. (a, rs) \<leftarrow> filter (\<lambda>(a, rs). meets_threshold B cfg rs) gs],
       Inr (n + sum_list [length rs. (a, rs) \<leftarrow> filter (\<lambda>(a, rs). meets_threshold B cfg rs) gs])) \<and>
    invar db' \<and>
    st_find S db' = mark_rows (\<Union>(a, rs)\<in>set (filter (\<lambda>(a, rs). meets_threshold B cfg rs) gs). s_id ` set rs) (st_find S db)"
proof (induction gs arbitrary: db bs n)
  case Nil
  then show ?case by simp
next
  case (Cons g gs)
  obtain a rs where g: "g = (a, rs)" by (cases g)
  have op: "openable S (set (map s_id rs)) db" "openable S (\<Union>(a, rs)\<in>set gs. s_id ` set rs) db"
    using Cons.prems(2) by (auto simp: g openable_def)
  show ?case
  proof (cases "meets_threshold B cfg rs")
    case True
    obtain db1 k where 1: "mark_processing S no_faults (map s_id rs) db = (db1, Inr k)" "invar db1"
      "st_find S db1 = mark_rows (set (map s_id rs)) (st_find S db)"
      using mark_processing_ok [OF Cons.prems(1) op(1)] by blast
    from Cons.IH [OF 1(2) openable_marked [OF 1(3) op(2)], of "bs @ [batch_of B be a rs]" "n + length rs"] 1 True calm
    show ?thesis by (auto simp: g mark_rows_twice Un_commute add.assoc)
  next
    case False
    with Cons.IH [OF Cons.prems(1) op(2)] show ?thesis by (simp add: g)
  qed
qed

lemma taken_rows:
  assumes inv: "invar db" and le: "row_order le" and r: "r \<in> set (st_find_many S db P le n)"
  shows "P r" "st_find S db (s_id r) = Some r"
proof -
  obtain xs where xs: "st_find_many S db P le n = take_opt n xs" "set xs = {r. P r \<and> (\<exists>i. st_find S db i = Some r)}"
    using find_many [OF inv le] by blast
  have "r \<in> set xs" using r xs(1) by (auto simp: take_opt_def dest: in_set_takeD split: option.splits)
  with xs(2) find_id [OF inv] show "P r" "st_find S db (s_id r) = Some r" by auto
qed

end

definition same_asset :: "string \<Rightarrow> settlement list \<Rightarrow> settlement list" where
  "same_asset a rs = filter (\<lambda>s. s_asset s = a) rs"

lemma groups_are_same_asset: "group_by_asset rs = map (\<lambda>a. (a, same_asset a rs)) (map fst (group_by_asset rs))"
proof -
  have "(a, xs) \<in> set (group_by_asset rs) \<Longrightarrow> xs = same_asset a rs" for a xs
    by (simp add: group_members same_asset_def)
  then show ?thesis by (auto simp: o_def intro!: map_idI [symmetric])
qed

lemma set_assets: "set (map fst (group_by_asset rs)) = s_asset ` set rs"
proof -
  have "a \<in> set (map fst (group_by_asset rs)) \<longleftrightarrow> (\<exists>xs. (a, xs) \<in> set (group_by_asset rs))" for a by force
  then show ?thesis by (auto simp: group_members filter_empty_conv)
qed

definition batch_candidates :: "'db store_ops \<Rightarrow> batching_config \<Rightarrow> 'db \<Rightarrow> settlement list" where
  "batch_candidates S cfg db = st_find_many S db (\<lambda>r. s_status r = ''pending'') oldest_first (batch_take cfg)"

subsection \<open>Properties\<close>

text \<open>
  C22: a run with no failing call takes the oldest pending settlements, creates one batch for
  each of their assets that meets the count or volume threshold, over all its settlements taken,
  and moves exactly the settlements of these batches to \<open>processing\<close>; nothing else of any row
  changes, so no settlement refers to its batch.
\<close>

theorem batching_run_exact:
  assumes "settlement_store S invar" "invar db" "be_read_fault be = None"
    and "\<forall>a. be_create_fault be a = None \<and> be_mark_faults be a = no_faults"
  shows "\<exists>db' assets. distinct assets \<and> set assets = s_asset ` set (batch_candidates S cfg db) \<and>
    run_settlement_batching S B be cfg last_at now db bs =
      (db', bs @ map (\<lambda>a. batch_of B be a (same_asset a (batch_candidates S cfg db)))
           (filter (\<lambda>a. meets_threshold B cfg (same_asset a (batch_candidates S cfg db))) assets),
       Inr \<lparr> br_batched = (\<Sum>a\<leftarrow>filter (\<lambda>a. meets_threshold B cfg (same_asset a (batch_candidates S cfg db))) assets.
               length (same_asset a (batch_candidates S cfg db))),
             br_late = is_late cfg last_at now, br_missed = missed_intervals cfg last_at now, br_assets = assets \<rparr>) \<and>
    st_find S db' = (\<lambda>i. map_option (\<lambda>r. if r \<in> set (batch_candidates S cfg db) \<and>
        meets_threshold B cfg (same_asset (s_asset r) (batch_candidates S cfg db))
      then r \<lparr> s_status := ''processing'' \<rparr> else r) (st_find S db i))"
proof -
  define taken where "taken = batch_candidates S cfg db"
  define assets where "assets = map fst (group_by_asset taken)"
  define M where "M = (\<lambda>a. meets_threshold B cfg (same_asset a taken))"
  have gs: "group_by_asset taken = map (\<lambda>a. (a, same_asset a taken)) assets"
    unfolding assets_def by (rule groups_are_same_asset)
  have set_assets: "distinct assets" "set assets = s_asset ` set taken"
    unfolding assets_def by (rule distinct_group_by_asset, rule set_assets)
  have rows: "s_status r = ''pending''" "st_find S db (s_id r) = Some r" if "r \<in> set taken" for r
    using settlement_store.taken_rows [OF assms(1,2) row_order_oldest_first] that
    by (auto simp: taken_def batch_candidates_def)
  have "openable S (\<Union>(a, rs)\<in>set (group_by_asset taken). s_id ` set rs) db"
    using rows by (auto simp: openable_def gs same_asset_def)
  from settlement_store.batch_groups_ok [OF assms(1,4,2) this, of B cfg bs 0] obtain db' where
    run: "batch_groups S B be cfg (group_by_asset taken) db bs 0 =
      (db', bs @ map (\<lambda>a. batch_of B be a (same_asset a taken)) (filter M assets),
       Inr (\<Sum>a\<leftarrow>filter M assets. length (same_asset a taken)))"
    and find: "st_find S db' = mark_rows (\<Union>a\<in>set (filter M assets). s_id ` set (same_asset a taken)) (st_find S db)"
    by (auto simp: gs M_def filter_map o_def)
  have "st_find S db' i = map_option (\<lambda>r. if r \<in> set taken \<and> M (s_asset r) then r \<lparr> s_status := ''processing'' \<rparr> else r) (st_find S db i)" for i
  proof (cases "st_find S db i")
    case (Some r)
    have id: "s_id r = i" by (rule settlement_store.find_id [OF assms(1,2) Some])
    have "i \<in> (\<Union>a\<in>set (filter M assets). s_id ` set (same_asset a taken)) \<longleftrightarrow> r \<in> set taken \<and> M (s_asset r)"
    proof
      assume "i \<in> (\<Union>a\<in>set (filter M assets). s_id ` set (same_asset a taken))"
      then obtain x where x: "x \<in> set taken" "M (s_asset x)" "s_id x = i" by (auto simp: same_asset_def)
      with rows(2) [OF x(1)] Some show "r \<in> set taken \<and> M (s_asset r)" by simp
    qed (use id set_assets in \<open>auto simp: same_asset_def\<close>)
    with Some show ?thesis by (simp add: find mark_rows_def started_row_def)
  qed (simp add: find mark_rows_def)
  then have "st_find S db' = (\<lambda>i. map_option (\<lambda>r. if r \<in> set taken \<and> M (s_asset r) then r \<lparr> s_status := ''processing'' \<rparr> else r) (st_find S db i))"
    by (rule ext)
  moreover have "run_settlement_batching S B be cfg last_at now db bs =
      (db', bs @ map (\<lambda>a. batch_of B be a (same_asset a taken)) (filter M assets),
       Inr \<lparr> br_batched = (\<Sum>a\<leftarrow>filter M assets. length (same_asset a taken)),
         br_late = is_late cfg last_at now, br_missed = missed_intervals cfg last_at now, br_assets = assets \<rparr>)"
  proof -
    have "st_find_many S db (\<lambda>r. s_status r = ''pending'') oldest_first (batch_take cfg) = taken"
      by (simp add: taken_def batch_candidates_def)
    moreover have "taken = [] \<Longrightarrow> assets = []" by (simp add: assets_def group_by_asset_def)
    moreover have "map fst (group_by_asset taken) = assets" by (simp add: assets_def)
    moreover have "taken = [] \<Longrightarrow> db' = db" using run by (auto simp: group_by_asset_def)
    ultimately show ?thesis using run by (simp add: run_settlement_batching_def assms(3) Let_def)
  qed
  ultimately show ?thesis using set_assets unfolding taken_def [symmetric] M_def by blast
qed

lemma distinct_singleton: "distinct xs \<Longrightarrow> set xs = {x} \<Longrightarrow> xs = [x]"
proof (cases xs)
  case (Cons y ys)
  assume "distinct xs" "set xs = {x}"
  with Cons have y: "y = x" and "x \<notin> set ys" "set ys \<subseteq> {x}" by auto
  then have "ys = []" by (cases ys) auto
  with Cons y show ?thesis by simp
qed simp

definition calm_batching :: batching_env where
  "calm_batching = \<lparr> be_read_fault = None, be_batch_id = (\<lambda>a. ''batch_'' @ a), be_create_fault = (\<lambda>_. None),
     be_mark_faults = (\<lambda>_. no_faults) \<rparr>"

definition pairs_config :: batching_config where
  "pairs_config = \<lparr> bc_interval_ms = 60000, bc_min_count = 2, bc_volume_threshold = 0, bc_max_batch_size = None \<rparr>"

theorem batching_run_exact_witness:
  "\<exists>db' assets. run_settlement_batching tab_ops dec_ops calm_batching pairs_config 0 100000 sample_table [] =
     (db', map (\<lambda>a. batch_of dec_ops calm_batching a (same_asset a sample_table)) assets,
      Inr \<lparr> br_batched = 2, br_late = True, br_missed = 0, br_assets = assets \<rparr>) \<and> set assets = {''USDC''}"
proof -
  have t: "batch_candidates tab_ops pairs_config sample_table = sample_table" by code_simp
  have c: "be_read_fault calm_batching = None" "\<forall>a. be_create_fault calm_batching a = None \<and> be_mark_faults calm_batching a = no_faults"
    by (simp_all add: calm_batching_def)
  have u: "s_asset ` set sample_table = {''USDC''}" "same_asset ''USDC'' sample_table = sample_table" "length sample_table = 2"
    by (simp_all add: sample_table_def sample_settlement_def same_asset_def)
  have "is_late pairs_config 0 100000" "missed_intervals pairs_config 0 100000 = 0"
    by code_simp+
  moreover have "assets = [''USDC'']" if "distinct assets" "set assets = {''USDC''}" for assets :: "string list"
        by (rule distinct_singleton [OF that])
  moreover have "meets_threshold dec_ops pairs_config sample_table"
    by (simp add: meets_threshold_def pairs_config_def u)
  ultimately show ?thesis
    using batching_run_exact [OF tab.settlement_store_axioms sample_table_ok c, of pairs_config dec_ops 0 100000 "[]"]
    unfolding t by (fastforce simp: u)
qed

text \<open>
  the totals of a batch balance: when every settlement of the group has a fee and a net
  amount that add up to its gross amount, the parsed totals of the batch do too, exactly.
\<close>

theorem batch_totals_balance:
  assumes "bignumber B val"
    and "\<forall>r\<in>set rs. is_amount (s_gross_amount r) \<and> is_amount (s_fee_amount r) \<and> is_amount (s_net_amount r) \<and>
      dec_val (s_fee_amount r) + dec_val (s_net_amount r) = dec_val (s_gross_amount r)"
  shows "\<exists>f n. val (bn_parse B (sb_fees (batch_of B be a rs))) = Some f \<and>
    val (bn_parse B (sb_net (batch_of B be a rs))) = Some n \<and>
    val (bn_parse B (sb_gross (batch_of B be a rs))) = Some (f + n) \<and>
    f = (\<Sum>r\<leftarrow>rs. dec_val (s_fee_amount r))"
proof -
  note sum = bignumber.val_fold_plus [OF assms(1), where z = "bn_number B 0", OF _ bignumber.val_zero [OF assms(1)]]
  have "val (bn_sum B f rs) = Some (\<Sum>r\<leftarrow>rs. dec_val (f r))" if "\<forall>r\<in>set rs. is_amount (f r)" for f
    unfolding bn_sum_def using that sum [of rs "\<lambda>r. bn_parse B (f r)" "\<lambda>r. dec_val (f r)"]
    by (simp add: bignumber.val_parse [OF assms(1)])
  moreover have "(\<Sum>r\<leftarrow>rs. dec_val (s_gross_amount r)) = (\<Sum>r\<leftarrow>rs. dec_val (s_fee_amount r)) + (\<Sum>r\<leftarrow>rs. dec_val (s_net_amount r))"
    using assms(2) by (induction rs) auto
  ultimately show ?thesis
    using assms(2) by (auto simp: batch_of_def bignumber.parse_to_string [OF assms(1)])
qed

theorem batch_totals_balance_witness:
  "\<exists>f. dec_value (bn_parse dec_ops (sb_fees (batch_of dec_ops calm_batching ''USDC'' sample_table))) = Some f \<and> f = 2"
proof -
  have "\<forall>r\<in>set sample_table. is_amount (s_gross_amount r) \<and> is_amount (s_fee_amount r) \<and> is_amount (s_net_amount r) \<and>
      dec_val (s_fee_amount r) + dec_val (s_net_amount r) = dec_val (s_gross_amount r)"
    by code_simp
  moreover have "(\<Sum>r\<leftarrow>sample_table. dec_val (s_fee_amount r)) = 2" by code_simp
  ultimately show ?thesis using batch_totals_balance [OF dec.bignumber_axioms, of sample_table calm_batching "''USDC''"] by auto
qed

end
