(* ===== verification/MerchantCache.thy ===== *)
theory MerchantCache
  imports Prelude
begin

section \<open>The merchant cache (\<open>merchant-cache.ts\<close>)\<close>

text \<open>
  A map from ids to values with an expiry time, read through by \<open>getCachedMerchant\<close>. Times
  are milliseconds and the clock of each call is an argument. The property bounds how stale a
  cached merchant can be.
\<close>

record 'm merchant_cache =
  mc_store :: "(string, 'm \<times> int) jsmap"
  mc_ttl_ms :: int

definition merchant_cache_ttl_ms :: int where
  "merchant_cache_ttl_ms = 30000"

definition new_merchant_cache :: "int option \<Rightarrow> 'm merchant_cache" where
  "new_merchant_cache ttl = \<lparr> mc_store = [], mc_ttl_ms = (case ttl of Some t \<Rightarrow> t | None \<Rightarrow> merchant_cache_ttl_ms) \<rparr>"

definition cache_get :: "int \<Rightarrow> string \<Rightarrow> 'm merchant_cache \<Rightarrow> 'm merchant_cache \<times> 'm option" where
  "cache_get now i c = (case map_of (mc_store c) i of
       None \<Rightarrow> (c, None)
     | Some (v, expires_at) \<Rightarrow>
         if now > expires_at then (c \<lparr> mc_store := js_delete i (mc_store c) \<rparr>, None) else (c, Some v))"

definition cache_set :: "int \<Rightarrow> string \<Rightarrow> 'm \<Rightarrow> 'm merchant_cache \<Rightarrow> 'm merchant_cache" where
  "cache_set now i v c = c \<lparr> mc_store := js_set i (v, now + mc_ttl_ms c) (mc_store c) \<rparr>"

definition cache_invalidate :: "string \<Rightarrow> 'm merchant_cache \<Rightarrow> 'm merchant_cache" where
  "cache_invalidate i c = c \<lparr> mc_store := js_delete i (mc_store c) \<rparr>"

definition cache_clear :: "'m merchant_cache \<Rightarrow> 'm merchant_cache" where
  "cache_clear c = c \<lparr> mc_store := [] \<rparr>"

definition cache_size :: "'m merchant_cache \<Rightarrow> nat" where
  "cache_size c = length (mc_store c)"

text \<open>
  \<open>getCachedMerchant\<close>: the loader returns a merchant, none, or throws; \<open>read_at\<close> and
  \<open>set_at\<close> are the clock before the loader is called and when its result is stored.
\<close>

definition get_cached_merchant ::
  "int \<Rightarrow> int \<Rightarrow> string \<Rightarrow> (string \<Rightarrow> ('e, 'm option) result) \<Rightarrow> 'm merchant_cache \<Rightarrow>
   'm merchant_cache \<times> ('e, 'm option) result" where
  "get_cached_merchant read_at set_at i loader c =
     (case cache_get read_at i c of
        (c', Some v) \<Rightarrow> (c', return_ok (Some v))
      | (c', None) \<Rightarrow> (case loader i of
            Inl e \<Rightarrow> (c', throw e)
          | Inr None \<Rightarrow> (c', return_ok None)
          | Inr (Some fresh) \<Rightarrow> (cache_set set_at i fresh c', return_ok (Some fresh))))"

subsection \<open>Bounded staleness\<close>

text \<open>
  The calls a service makes, in the order it makes them: a read through the cache (with the
  loader's answer at that time), an invalidation after a write, a clear.
\<close>

datatype 'm cache_event =
    CachedRead int string "'m option"
  | Invalidate string
  | ClearCache

fun cache_call :: "'m cache_event \<Rightarrow> 'm merchant_cache \<Rightarrow> 'm merchant_cache \<times> 'm option" where
  "cache_call (CachedRead now i db) c =
     (case get_cached_merchant now now i (\<lambda>_. (Inr db :: (unit, 'm option) result)) c of
        (c', Inr v) \<Rightarrow> (c', v) | (c', Inl _) \<Rightarrow> (c', None))"
| "cache_call (Invalidate i) c = (cache_invalidate i c, None)"
| "cache_call ClearCache c = (cache_clear c, None)"

fun cache_run :: "'m cache_event list \<Rightarrow> 'm merchant_cache \<Rightarrow> 'm merchant_cache" where
  "cache_run [] c = c"
| "cache_run (x # xs) c = cache_run xs (fst (cache_call x c))"

text \<open>Every entry was the loader's answer at a read not invalidated since.\<close>

definition loaded_at :: "'m cache_event list \<Rightarrow> string \<Rightarrow> 'm \<Rightarrow> int \<Rightarrow> bool" where
  "loaded_at xs i v t \<longleftrightarrow> (\<exists>as bs. xs = as @ CachedRead t i (Some v) # bs \<and>
     Invalidate i \<notin> set bs \<and> ClearCache \<notin> set bs)"

definition cache_sound :: "'m cache_event list \<Rightarrow> 'm merchant_cache \<Rightarrow> bool" where
  "cache_sound xs c \<longleftrightarrow> (\<forall>i v e. map_of (mc_store c) i = Some (v, e) \<longrightarrow> loaded_at xs i v (e - mc_ttl_ms c))"

lemma loaded_at_snoc:
  "loaded_at xs i v t \<Longrightarrow> x \<noteq> Invalidate i \<Longrightarrow> x \<noteq> ClearCache \<Longrightarrow> loaded_at (xs @ [x]) i v t"
  by (force simp: loaded_at_def)

lemma loaded_at_now: "loaded_at (xs @ [CachedRead t i (Some v)]) i v t"
  by (force simp: loaded_at_def)

lemma cache_call_sound:
  assumes "cache_sound xs c"
  shows "cache_sound (xs @ [x]) (fst (cache_call x c)) \<and> mc_ttl_ms (fst (cache_call x c)) = mc_ttl_ms c"
proof (cases x)
  case (CachedRead now i db)
  have keep: "cache_sound (xs @ [x]) c'" if "\<And>j v e. map_of (mc_store c') j = Some (v, e) \<Longrightarrow> map_of (mc_store c) j = Some (v, e)"
    "mc_ttl_ms c' = mc_ttl_ms c" for c'
    using assms that CachedRead by (auto simp: cache_sound_def intro!: loaded_at_snoc)
  show ?thesis
  proof (cases "snd (cache_get now i c)")
    case (Some v)
    then have "fst (cache_call x c) = c" using CachedRead
      by (auto simp: get_cached_merchant_def cache_get_def split: option.splits if_splits)
    with keep [of c] show ?thesis by simp
  next
    case None
    then have g: "map_of (mc_store (fst (cache_get now i c))) = (map_of (mc_store c))(i := None)"
      "mc_ttl_ms (fst (cache_get now i c)) = mc_ttl_ms c"
      by (auto simp: cache_get_def fun_eq_iff split: option.splits if_splits)
    show ?thesis
    proof (cases db)
      case None
      then have "fst (cache_call x c) = fst (cache_get now i c)"
        using \<open>snd (cache_get now i c) = None\<close> CachedRead
        by (auto simp: get_cached_merchant_def split: prod.splits)
      moreover have "cache_sound (xs @ [x]) (fst (cache_get now i c))"
        by (rule keep) (use g in \<open>auto split: if_splits\<close>)
      ultimately show ?thesis using g(2) by simp
    next
      case (Some v)
      then have c': "fst (cache_call x c) = cache_set now i v (fst (cache_get now i c))"
        using \<open>snd (cache_get now i c) = None\<close> CachedRead
        by (auto simp: get_cached_merchant_def split: prod.splits)
      have "loaded_at (xs @ [x]) j u (e - mc_ttl_ms c)"
        if "map_of (mc_store (fst (cache_call x c))) j = Some (u, e)" for j u e
      proof (cases "j = i")
        case True
        with that g c' CachedRead Some show ?thesis by (auto simp: cache_set_def loaded_at_now)
      next
        case False
        with that g c' have "map_of (mc_store c) j = Some (u, e)" by (simp add: cache_set_def)
        with assms CachedRead show ?thesis by (auto simp: cache_sound_def intro!: loaded_at_snoc)
      qed
      then show ?thesis using c' g by (simp add: cache_sound_def cache_set_def)
    qed
  qed
next
  case (Invalidate i)
  then show ?thesis using assms
    by (auto simp: cache_sound_def cache_invalidate_def intro!: loaded_at_snoc split: if_splits)
next
  case ClearCache
  then show ?thesis by (auto simp: cache_sound_def cache_clear_def)
qed

lemma cache_run_sound:
  assumes "cache_sound xs c"
  shows "cache_sound (xs @ ys) (cache_run ys c) \<and> mc_ttl_ms (cache_run ys c) = mc_ttl_ms c"
  using assms
proof (induction ys arbitrary: xs c)
  case Nil
  then show ?case by simp
next
  case (Cons y ys)
  from cache_call_sound [OF Cons.prems, of y] Cons.IH [of "xs @ [y]" "fst (cache_call y c)"]
  show ?case by simp
qed

subsection \<open>Property\<close>

text \<open>
  bounded staleness: whatever calls were made on a cache, a merchant it returns without
  asking the loader was the loader's answer at an earlier read, at most the time to live ago,
  with no invalidation of that id and no clear since.
\<close>

theorem cached_merchant_freshness:
  assumes "cache_get now i (cache_run calls (new_merchant_cache ttl)) = (c', Some v)"
  shows "\<exists>t. loaded_at calls i v t \<and> now \<le> t + (case ttl of Some t \<Rightarrow> t | None \<Rightarrow> 30000)"
proof -
  have "cache_sound [] (new_merchant_cache ttl :: 'a merchant_cache)"
    by (simp add: cache_sound_def new_merchant_cache_def)
  from cache_run_sound [OF this, of calls] have s: "cache_sound calls (cache_run calls (new_merchant_cache ttl))"
    "mc_ttl_ms (cache_run calls (new_merchant_cache ttl)) = (case ttl of Some t \<Rightarrow> t | None \<Rightarrow> 30000)"
    by (simp_all add: new_merchant_cache_def merchant_cache_ttl_ms_def cong: option.case_cong)
  from assms obtain e where e: "map_of (mc_store (cache_run calls (new_merchant_cache ttl))) i = Some (v, e)" "now \<le> e"
    by (auto simp: cache_get_def split: option.splits if_splits)
  with s show ?thesis by (auto simp: cache_sound_def intro!: exI [of _ "e - (case ttl of Some t \<Rightarrow> t | None \<Rightarrow> 30000)"])
qed

theorem cached_merchant_freshness_witness:
  "\<exists>t. loaded_at [CachedRead 5 ''m1'' (Some True), CachedRead 9 ''m2'' None] ''m1'' True t \<and> (30004::int) \<le> t + 30000"
  using cached_merchant_freshness [of 30004 "''m1''" "[CachedRead 5 ''m1'' (Some True), CachedRead 9 ''m2'' None]" None _ True]
  by (simp add: new_merchant_cache_def cache_get_def cache_set_def get_cached_merchant_def merchant_cache_ttl_ms_def)

end
