(* ===== verification/Payments.thy ===== *)
theory Payments
  imports Transitions MerchantCache Decimal RedisStrings JsonCanon JsNumber
begin

section \<open>Payments of the gateway\<close>

text \<open>
  Model of the payment routes (\<open>api-gateway/src/index.ts\<close>), of the sweep of abandoned payments
  (\<open>abandoned-payments-cron.ts\<close>), of the cleanup of idempotency keys
  (\<open>idempotency-key-cleanup-cron.ts\<close>) and of the merchant routes that decide who may create
  payments. The payment table is a parameter with the documented behaviour of the Prisma calls;
  \<open>rows d\<close> lists its rows in the order of their ids. \<open>env\<close> is what other requests do to the
  table between a read and the write that relies on it.
\<close>

subsection \<open>The payment table\<close>

record payment =
  pm_id :: string
  pm_merchant :: string
  pm_payer :: "string option"
  pm_amount :: string
  pm_asset :: string
  pm_reference :: "string option"
  pm_status :: string
  pm_created :: nat
  pm_key :: "string option"
  pm_key_expires :: "nat option"

record 'd payment_ops =
  po_find :: "'d \<Rightarrow> string \<Rightarrow> payment option"
  po_find_key :: "'d \<Rightarrow> string \<Rightarrow> nat \<Rightarrow> payment option"
  po_create :: "'d \<Rightarrow> payment \<Rightarrow> 'd \<times> bool"
  po_set_status :: "'d \<Rightarrow> string \<Rightarrow> string \<Rightarrow> 'd \<times> bool"
  po_set_status_in :: "'d \<Rightarrow> string list \<Rightarrow> string \<Rightarrow> 'd \<times> nat"
  po_cancel_merchant :: "'d \<Rightarrow> string \<Rightarrow> 'd \<times> nat"
  po_stale :: "'d \<Rightarrow> nat \<Rightarrow> string option \<Rightarrow> nat \<Rightarrow> payment list"
  po_reclaim :: "'d \<Rightarrow> nat \<Rightarrow> 'd \<times> nat"

definition update_rows :: "(payment \<Rightarrow> bool) \<Rightarrow> (payment \<Rightarrow> payment) \<Rightarrow> payment list \<Rightarrow> payment list" where
  "update_rows Q f ps = map (\<lambda>p. if Q p then f p else p) ps"

definition set_status :: "string \<Rightarrow> payment \<Rightarrow> payment" where
  "set_status s p = p\<lparr> pm_status := s \<rparr>"

definition clear_key :: "payment \<Rightarrow> payment" where
  "clear_key p = p\<lparr> pm_key := None, pm_key_expires := None \<rparr>"

text \<open>\<open>idempotencyKeyExpiresAt: { gt: now }\<close> and \<open>{ lt: now }\<close>; a null matches neither.\<close>

definition key_valid_at :: "string \<Rightarrow> nat \<Rightarrow> payment \<Rightarrow> bool" where
  "key_valid_at k now p = (pm_key p = Some k \<and> (case pm_key_expires p of Some t \<Rightarrow> now < t | None \<Rightarrow> False))"

definition key_expired_at :: "nat \<Rightarrow> payment \<Rightarrow> bool" where
  "key_expired_at now p = (pm_key p \<noteq> None \<and> (case pm_key_expires p of Some t \<Rightarrow> t < now | None \<Rightarrow> False))"

definition stale_at :: "nat \<Rightarrow> payment \<Rightarrow> bool" where
  "stale_at cutoff p = (pm_status p = ''initiated'' \<and> pm_created p < cutoff)"

definition beyond_cursor :: "string option \<Rightarrow> payment \<Rightarrow> bool" where
  "beyond_cursor c p = (case c of None \<Rightarrow> True | Some i \<Rightarrow> i < pm_id p)"

definition clashes :: "payment \<Rightarrow> payment \<Rightarrow> bool" where
  "clashes p q = (pm_id p = pm_id q \<or> pm_key p \<noteq> None \<and> pm_key p = pm_key q)"

definition keyed :: "payment \<Rightarrow> bool" where
  "keyed p = (pm_key p \<noteq> None)"

definition table_ok :: "payment list \<Rightarrow> bool" where
  "table_ok ps = (sorted (map pm_id ps) \<and> distinct (map pm_id ps) \<and>
     distinct (map pm_key (filter keyed ps)))"

text \<open>
  \<open>update\<close> of a row that is gone fails with P2025, \<open>create\<close> on a taken id or key with P2002: the
  flag is false and the table unchanged.
\<close>

locale payment_store =
  fixes P :: "'d payment_ops" and invar :: "'d \<Rightarrow> bool" and rows :: "'d \<Rightarrow> payment list"
  assumes rows_ok: "invar d \<Longrightarrow> table_ok (rows d)"
    and find_row: "invar d \<Longrightarrow> po_find P d i = find (\<lambda>p. pm_id p = i) (rows d)"
    and find_key_row: "invar d \<Longrightarrow> po_find_key P d k now = find (key_valid_at k now) (rows d)"
    and create_row: "invar d \<Longrightarrow> \<exists>d'. invar d' \<and> po_create P d p = (d', \<not> (\<exists>q \<in> set (rows d). clashes p q)) \<and>
      rows d' = (if \<exists>q \<in> set (rows d). clashes p q then rows d else insort_key pm_id p (rows d))"
    and set_status_row: "invar d \<Longrightarrow> \<exists>d'. invar d' \<and> po_set_status P d i s = (d', \<exists>p \<in> set (rows d). pm_id p = i) \<and>
      rows d' = update_rows (\<lambda>p. pm_id p = i) (set_status s) (rows d)"
    and set_status_in_rows: "invar d \<Longrightarrow> \<exists>d'. invar d' \<and>
      po_set_status_in P d is s = (d', length (filter (\<lambda>p. pm_id p \<in> set is) (rows d))) \<and>
      rows d' = update_rows (\<lambda>p. pm_id p \<in> set is) (set_status s) (rows d)"
    and cancel_merchant_rows: "invar d \<Longrightarrow> \<exists>d'. invar d' \<and>
      po_cancel_merchant P d m = (d', length (filter (\<lambda>p. pm_merchant p = m \<and> pm_status p = ''initiated'') (rows d))) \<and>
      rows d' = update_rows (\<lambda>p. pm_merchant p = m \<and> pm_status p = ''initiated'') (set_status ''cancelled'') (rows d)"
    and stale_rows: "invar d \<Longrightarrow> po_stale P d cutoff c n = take n (filter (\<lambda>p. stale_at cutoff p \<and> beyond_cursor c p) (rows d))"
    and reclaim_rows: "invar d \<Longrightarrow> \<exists>d'. invar d' \<and> po_reclaim P d now = (d', length (filter (key_expired_at now) (rows d))) \<and>
      rows d' = update_rows (key_expired_at now) clear_key (rows d)"

subsubsection \<open>A reference implementation\<close>

definition list_ops :: "payment list payment_ops" where
  "list_ops = \<lparr>
     po_find = (\<lambda>ps i. find (\<lambda>p. pm_id p = i) ps),
     po_find_key = (\<lambda>ps k now. find (key_valid_at k now) ps),
     po_create = (\<lambda>ps p. if list_ex (clashes p) ps then (ps, False) else (insort_key pm_id p ps, True)),
     po_set_status = (\<lambda>ps i s. (update_rows (\<lambda>p. pm_id p = i) (set_status s) ps, list_ex (\<lambda>p. pm_id p = i) ps)),
     po_set_status_in = (\<lambda>ps is s. (update_rows (\<lambda>p. pm_id p \<in> set is) (set_status s) ps,
        length (filter (\<lambda>p. pm_id p \<in> set is) ps))),
     po_cancel_merchant = (\<lambda>ps m. (update_rows (\<lambda>p. pm_merchant p = m \<and> pm_status p = ''initiated'') (set_status ''cancelled'') ps,
        length (filter (\<lambda>p. pm_merchant p = m \<and> pm_status p = ''initiated'') ps))),
     po_stale = (\<lambda>ps cutoff c n. take n (filter (\<lambda>p. stale_at cutoff p \<and> beyond_cursor c p) ps)),
     po_reclaim = (\<lambda>ps now. (update_rows (key_expired_at now) clear_key ps, length (filter (key_expired_at now) ps))) \<rparr>"

lemma set_status_fields [simp]:
  "pm_id (set_status s p) = pm_id p" "pm_key (set_status s p) = pm_key p" "pm_status (set_status s p) = s"
  "pm_merchant (set_status s p) = pm_merchant p" "pm_created (set_status s p) = pm_created p"
  "pm_amount (set_status s p) = pm_amount p" "pm_asset (set_status s p) = pm_asset p"
  "pm_key_expires (set_status s p) = pm_key_expires p"
  by (simp_all add: set_status_def)

lemma clear_key_fields [simp]:
  "pm_id (clear_key p) = pm_id p" "pm_status (clear_key p) = pm_status p" "pm_key (clear_key p) = None"
  "pm_merchant (clear_key p) = pm_merchant p" "pm_amount (clear_key p) = pm_amount p" "pm_asset (clear_key p) = pm_asset p"
  by (simp_all add: clear_key_def)

lemma ids_update_rows [simp]:
  "(\<And>p. pm_id (f p) = pm_id p) \<Longrightarrow> map pm_id (update_rows Q f ps) = map pm_id ps"
  by (simp add: update_rows_def)

lemma keys_set_status [simp]:
  "map pm_key (filter keyed (update_rows Q (set_status s) ps)) = map pm_key (filter keyed ps)"
  by (induction ps) (auto simp: update_rows_def keyed_def)

lemma table_ok_set_status: "table_ok ps \<Longrightarrow> table_ok (update_rows Q (set_status s) ps)"
  by (simp add: table_ok_def)

lemma keys_clear_key:
  "map pm_key (filter keyed (update_rows Q clear_key ps)) = map pm_key (filter (\<lambda>p. \<not> Q p) (filter keyed ps))"
  by (induction ps) (auto simp: update_rows_def keyed_def)

lemma table_ok_clear_key: "table_ok ps \<Longrightarrow> table_ok (update_rows Q clear_key ps)"
  using distinct_map_filter [of pm_key "filter keyed ps" "\<lambda>p. \<not> Q p"]
  by (simp add: table_ok_def keys_clear_key del: filter_filter)

lemma table_ok_create:
  assumes "table_ok ps" "\<not> (\<exists>q \<in> set ps. clashes p q)"
  shows "table_ok (insort_key pm_id p ps)"
proof -
  have m: "mset (insort_key pm_id p ps) = mset (p # ps)" by simp
  have "distinct (map pm_id (p # ps))" using assms by (auto simp: table_ok_def clashes_def)
  with m have ids: "distinct (map pm_id (insort_key pm_id p ps))"
    by (metis mset_eq_imp_distinct_iff mset_map)
  have "distinct (map pm_key (filter keyed (p # ps)))"
    using assms by (auto simp: table_ok_def clashes_def keyed_def)
  with m have "distinct (map pm_key (filter keyed (insort_key pm_id p ps)))"
    by (metis mset_eq_imp_distinct_iff mset_filter mset_map)
  with ids assms(1) show ?thesis by (simp add: table_ok_def sorted_insort_key)
qed

interpretation lt: payment_store list_ops table_ok id
  by unfold_locales
    (auto simp: list_ops_def list_ex_iff table_ok_create table_ok_set_status table_ok_clear_key)

subsection \<open>Creating a payment\<close>

text \<open>
  The state the routes share: the payments, the merchants, this process' merchant cache, the ids
  of the \<open>payment.created\<close> events emitted, and of each settlement its id, merchant and status.
\<close>

record gw_merchant =
  gm_owner :: string
  gm_status :: string
  gm_deleted :: "nat option"

record 'd gateway =
  gw_db :: 'd
  gw_merchants :: "(string, gw_merchant) jsmap"
  gw_cache :: "gw_merchant merchant_cache"
  gw_events :: "string list"
  gw_settlements :: "(string \<times> string \<times> string) list"

record payment_body =
  pb_merchant :: string
  pb_amount :: string
  pb_asset :: string
  pb_convert_to :: "string option"
  pb_payer :: "string option"
  pb_reference :: "string option"
  pb_idempotency :: "string option"

record caller =
  ca_merchant :: "string option"
  ca_owner :: "string option"

datatype fx_outcome = FxQuoted "string option" | FxReadTimeout | FxError

datatype payment_answer =
    PaymentRefused nat string
  | PaymentReplayed payment
  | PaymentCreated payment "string option option"
  | PaymentThrows

definition payment_key_max_len :: nat where "payment_key_max_len = 255"
definition payment_key_ttl_ms :: nat where "payment_key_ttl_ms = 24 * 60 * 60 * 1000"

text \<open>\<open>readIdempotencyKey\<close>\<close>

definition read_idempotency_key :: "string option \<Rightarrow> string option" where
  "read_idempotency_key header = (case header of None \<Rightarrow> None | Some h \<Rightarrow> if trim h = [] then None else Some (trim h))"

text \<open>
  \<open>CreatePaymentBody\<close>: the answer when the body is refused. An asset outside the enumeration ends
  the parse; other issues are collected, and the check of the precision runs all the same, so an
  issue of its own makes the answer 422. The address check of the Stellar SDK and the UUID check
  of Zod are parameters.
\<close>

record body_checks =
  bc_stellar :: "string \<Rightarrow> bool"
  bc_uuid :: "string \<Rightarrow> bool"

definition body_fields_ok :: "body_checks \<Rightarrow> payment_body \<Rightarrow> bool" where
  "body_fields_ok checks b = (bc_stellar checks (pb_merchant b) \<and> is_amount (pb_amount b) \<and>
     (case pb_payer b of None \<Rightarrow> True | Some s \<Rightarrow> length s \<le> 128) \<and>
     (case pb_reference b of None \<Rightarrow> True | Some s \<Rightarrow> length s \<le> 255) \<and>
     (case pb_idempotency b of None \<Rightarrow> True | Some s \<Rightarrow> bc_uuid checks s))"

definition refused_body :: "body_checks \<Rightarrow> payment_body \<Rightarrow> nat option" where
  "refused_body checks b =
     (if pb_asset b \<notin> set currency_codes \<or> (case pb_convert_to b of None \<Rightarrow> False | Some c \<Rightarrow> c \<notin> set currency_codes) then Some 400
      else if \<not> validate_amount_precision (pb_amount b) (pb_asset b) then Some 422
      else if \<not> body_fields_ok checks b then Some 400
      else None)"

text \<open>\<open>merchant.findFirst({ where: { id, deletedAt: null } })\<close>\<close>

definition live_merchant :: "(string, gw_merchant) jsmap \<Rightarrow> string \<Rightarrow> gw_merchant option" where
  "live_merchant ms i = (case map_of ms i of Some m \<Rightarrow> if gm_deleted m = None then Some m else None | None \<Rightarrow> None)"

definition cached_merchant :: "int \<Rightarrow> string \<Rightarrow> 'd gateway \<Rightarrow> 'd gateway \<times> gw_merchant option" where
  "cached_merchant now i st =
     (case get_cached_merchant now now i (\<lambda>i. Inr (live_merchant (gw_merchants st) i) :: (unit, gw_merchant option) result) (gw_cache st) of
        (c, Inr m) \<Rightarrow> (st\<lparr> gw_cache := c \<rparr>, m) | (c, Inl _) \<Rightarrow> (st\<lparr> gw_cache := c \<rparr>, None))"

definition new_payment :: "payment_body \<Rightarrow> string \<Rightarrow> string option \<Rightarrow> nat \<Rightarrow> payment" where
  "new_payment b new_id key now = \<lparr> pm_id = ''pay_'' @ new_id, pm_merchant = pb_merchant b, pm_payer = pb_payer b,
     pm_amount = pb_amount b, pm_asset = pb_asset b, pm_reference = pb_reference b, pm_status = ''initiated'',
     pm_created = now, pm_key = key, pm_key_expires = map_option (\<lambda>_. now + payment_key_ttl_ms) key \<rparr>"

definition insert_payment ::
  "'d payment_ops \<Rightarrow> ('d \<Rightarrow> 'd) \<Rightarrow> payment_body \<Rightarrow> string \<Rightarrow> string option \<Rightarrow> string option option \<Rightarrow> nat \<Rightarrow> 'd gateway \<Rightarrow>
   'd gateway \<times> payment_answer" where
  "insert_payment P env b new_id key quote now st =
     (let p = new_payment b new_id key now
      in case po_create P (env (gw_db st)) p of
        (d, True) \<Rightarrow> (st\<lparr> gw_db := d, gw_events := gw_events st @ [pm_id p] \<rparr>, PaymentCreated p quote)
      | (d, False) \<Rightarrow> (st\<lparr> gw_db := d \<rparr>,
          case key of None \<Rightarrow> PaymentThrows
          | Some k \<Rightarrow> (case po_find_key P d k now of Some raced \<Rightarrow> PaymentReplayed raced | None \<Rightarrow> PaymentThrows)))"

definition create_payment ::
  "'d payment_ops \<Rightarrow> body_checks \<Rightarrow> string \<Rightarrow> ('d \<Rightarrow> 'd) \<Rightarrow> fx_outcome \<Rightarrow> caller \<Rightarrow> string option \<Rightarrow> payment_body \<Rightarrow> string \<Rightarrow>
   nat \<Rightarrow> 'd gateway \<Rightarrow> 'd gateway \<times> payment_answer" where
  "create_payment P checks admin env fx who header b new_id now st =
     (case refused_body checks b of
        Some code \<Rightarrow> (st, PaymentRefused code ''VALIDATION_ERROR'')
      | None \<Rightarrow> (case cached_merchant (int now) (pb_merchant b) st of
        (st1, None) \<Rightarrow> (st1, PaymentRefused 404 ''NOT_FOUND'')
      | (st1, Some m) \<Rightarrow>
          if gm_status m = ''suspended'' then (st1, PaymentRefused 403 ''MERCHANT_SUSPENDED'')
          else if ca_merchant who \<noteq> Some admin \<and> (ca_owner who = None \<or> ca_owner who = Some [] \<or> ca_owner who \<noteq> Some (gm_owner m))
          then (st1, PaymentRefused 403 ''FORBIDDEN'')
          else
            (let key = read_idempotency_key header
             in if (case key of Some k \<Rightarrow> payment_key_max_len < length k | None \<Rightarrow> False)
                then (st1, PaymentRefused 400 ''VALIDATION_ERROR'')
                else (case (case key of None \<Rightarrow> None | Some k \<Rightarrow> po_find_key P (gw_db st1) k now) of
                    Some existing \<Rightarrow> (st1, PaymentReplayed existing)
                  | None \<Rightarrow>
                      (case (pb_convert_to b, fx) of
                         (None, _) \<Rightarrow> insert_payment P env b new_id key None now st1
                       | (Some _, FxQuoted q) \<Rightarrow> insert_payment P env b new_id key (Some q) now st1
                       | (Some _, FxReadTimeout) \<Rightarrow> (st1, PaymentRefused 503 ''GATEWAY_TIMEOUT'')
                       | (Some _, FxError) \<Rightarrow> (st1, PaymentThrows))))))"

subsection \<open>Changing the status\<close>

datatype status_answer = StatusRefused nat | StatusUpdated | StatusThrows

definition update_payment_status ::
  "'d payment_ops \<Rightarrow> ('d \<Rightarrow> 'd) \<Rightarrow> string \<Rightarrow> string \<Rightarrow> 'd \<Rightarrow> 'd \<times> status_answer" where
  "update_payment_status P env i s d =
     (if s \<notin> {''completed'', ''failed'', ''cancelled''} then (d, StatusRefused 400)
      else (case po_find P d i of
        None \<Rightarrow> (d, StatusRefused 404)
      | Some p \<Rightarrow>
          if \<not> is_valid_transition payment_status_transitions (pm_status p) s then (d, StatusRefused 422)
          else (case po_set_status P (env d) i s of (d', ok) \<Rightarrow> (d', if ok then StatusUpdated else StatusThrows))))"

subsection \<open>Cancelling many payments\<close>

datatype cancel_item = ItemCancelled string | ItemSkipped string string

record cancel_summary =
  cs_cancelled :: nat
  cs_skipped :: nat
  cs_errors :: nat
  cs_cancelled_ids :: "string list"
  cs_skipped_ids :: "string list"
  cs_error_ids :: "string list"
  cs_items :: "cancel_item list"

text \<open>\<open>[...new Set(ids)]\<close>: each id at its first place\<close>

definition js_distinct :: "'a list \<Rightarrow> 'a list" where
  "js_distinct xs = rev (remdups (rev xs))"

definition cancel_item_of :: "string \<Rightarrow> (string \<Rightarrow> payment option) \<Rightarrow> string \<Rightarrow> cancel_item" where
  "cancel_item_of m look i = (case look i of
     None \<Rightarrow> ItemSkipped i ''not_found''
   | Some p \<Rightarrow>
       if pm_merchant p \<noteq> m then ItemSkipped i ''not_owned''
       else if pm_status p = ''cancelled'' then ItemCancelled i
       else if pm_status p \<noteq> ''initiated'' then ItemSkipped i (''status:'' @ pm_status p)
       else ItemCancelled i)"

definition to_cancel :: "string \<Rightarrow> (string \<Rightarrow> payment option) \<Rightarrow> string \<Rightarrow> bool" where
  "to_cancel m look i = (case look i of None \<Rightarrow> False | Some p \<Rightarrow> pm_merchant p = m \<and> pm_status p = ''initiated'')"

fun item_cancelled :: "cancel_item \<Rightarrow> bool" where
  "item_cancelled (ItemCancelled i) = True"
| "item_cancelled (ItemSkipped i r) = False"

fun item_id :: "cancel_item \<Rightarrow> string" where
  "item_id (ItemCancelled i) = i"
| "item_id (ItemSkipped i r) = i"

definition cancel_summary_of :: "cancel_item list \<Rightarrow> cancel_summary" where
  "cancel_summary_of items =
     (let cancelled = map item_id (filter item_cancelled items); skipped = map item_id (filter (\<lambda>x. \<not> item_cancelled x) items)
      in \<lparr> cs_cancelled = length cancelled, cs_skipped = length skipped, cs_errors = 0,
           cs_cancelled_ids = cancelled, cs_skipped_ids = skipped, cs_error_ids = [], cs_items = items \<rparr>)"

text \<open>The updates of one transaction: \<open>None\<close> when one of them throws.\<close>

fun cancel_all :: "'d payment_ops \<Rightarrow> string list \<Rightarrow> 'd \<Rightarrow> 'd option" where
  "cancel_all P [] d = Some d"
| "cancel_all P (i # is) d = (case po_set_status P d i ''cancelled'' of
     (d', True) \<Rightarrow> cancel_all P is d' | (d', False) \<Rightarrow> None)"

definition bulk_cancel_key :: "string \<Rightarrow> string" where
  "bulk_cancel_key key = ''idempotency:bulk-cancel:'' @ key"

record summary_codec =
  sy_text :: "cancel_summary \<Rightarrow> string"
  sy_parse :: "string \<Rightarrow> cancel_summary option"

datatype cancel_answer = CancelRefused nat | CancelSummary cancel_summary | CancelThrows

text \<open>
  \<open>get_fails\<close> and \<open>set_fails\<close>: Redis fails in the lookup, or when the summary is stored. The
  replay of a text that is not an object is ignored.
\<close>

definition bulk_cancel ::
  "'d payment_ops \<Rightarrow> 'r kv_ops \<Rightarrow> summary_codec \<Rightarrow> ('d \<Rightarrow> 'd) \<Rightarrow> bool \<Rightarrow> bool \<Rightarrow> string \<Rightarrow> string option \<Rightarrow> string list \<Rightarrow> nat \<Rightarrow>
   'd \<times> 'r \<Rightarrow> ('d \<times> 'r) \<times> cancel_answer" where
  "bulk_cancel P R Y env get_fails set_fails m header ids now st =
     (case st of (d, r) \<Rightarrow>
        (let key = read_idempotency_key header;
             stored = (case key of None \<Rightarrow> None | Some k \<Rightarrow>
               if get_fails then None else (case kv_get R r now (bulk_cancel_key k) of
                 None \<Rightarrow> None | Some s \<Rightarrow> if s = [] then None else sy_parse Y s))
         in if ids = [] \<or> 100 < length ids \<or> [] \<in> set ids then (st, CancelRefused 400)
            else if (case key of Some k \<Rightarrow> payment_key_max_len < length k | None \<Rightarrow> False) then (st, CancelRefused 400)
            else (case stored of
               Some summary \<Rightarrow> (st, CancelSummary summary)
             | None \<Rightarrow>
                 (let unique = js_distinct ids;
                      look = po_find P d;
                      summary = cancel_summary_of (map (cancel_item_of m look) unique)
                  in case cancel_all P (filter (to_cancel m look) unique) (env d) of
                       None \<Rightarrow> ((env d, r), CancelThrows)
                     | Some d' \<Rightarrow>
                         ((d', case key of None \<Rightarrow> r
                              | Some k \<Rightarrow> if set_fails then r else
                                  kv_set R r now (bulk_cancel_key k) (sy_text Y summary) (Some payment_key_ttl_ms)),
                          CancelSummary summary)))))"

subsection \<open>Merchants\<close>

text \<open>
  The routes that decide who may create payments. Deleting a merchant cancels the payments it has
  initiated and fails its pending settlements;
  of the three routes, only the change of the status drops the cached merchant.
\<close>

datatype merchant_answer = MerchantRefused nat | MerchantDone

definition change_merchant :: "string \<Rightarrow> (gw_merchant \<Rightarrow> gw_merchant) \<Rightarrow> 'd gateway \<Rightarrow> 'd gateway" where
  "change_merchant i f st = (case map_of (gw_merchants st) i of None \<Rightarrow> st
     | Some m \<Rightarrow> st\<lparr> gw_merchants := js_set i (f m) (gw_merchants st) \<rparr>)"

definition set_merchant_status :: "string \<Rightarrow> string \<Rightarrow> 'd gateway \<Rightarrow> 'd gateway \<times> merchant_answer" where
  "set_merchant_status i s st = (case live_merchant (gw_merchants st) i of
     None \<Rightarrow> (st, MerchantRefused 404)
   | Some m \<Rightarrow>
       if gm_status m = s then (st, MerchantRefused 409)
       else (let st1 = change_merchant i (\<lambda>m. m\<lparr> gm_status := s \<rparr>) st
             in (st1\<lparr> gw_cache := cache_invalidate i (gw_cache st1) \<rparr>, MerchantDone)))"

definition delete_merchant :: "'d payment_ops \<Rightarrow> string \<Rightarrow> nat \<Rightarrow> 'd gateway \<Rightarrow> 'd gateway \<times> merchant_answer" where
  "delete_merchant P i now st = (case live_merchant (gw_merchants st) i of
     None \<Rightarrow> (st, MerchantRefused 404)
   | Some m \<Rightarrow>
       (let st1 = change_merchant i (\<lambda>m. m\<lparr> gm_deleted := Some now \<rparr>) st
        in (st1\<lparr> gw_db := fst (po_cancel_merchant P (gw_db st1) i),
                gw_settlements := map (\<lambda>(j, m, s). (j, m, if m = i \<and> s = ''pending'' then ''failed'' else s)) (gw_settlements st1) \<rparr>,
            MerchantDone)))"

definition restore_merchant :: "string \<Rightarrow> 'd gateway \<Rightarrow> 'd gateway \<times> merchant_answer" where
  "restore_merchant i st = (case map_of (gw_merchants st) i of
     None \<Rightarrow> (st, MerchantRefused 404)
   | Some m \<Rightarrow> if gm_deleted m = None then (st, MerchantRefused 400)
       else (change_merchant i (\<lambda>m. m\<lparr> gm_deleted := None \<rparr>) st, MerchantDone))"

subsection \<open>The sweep of abandoned payments\<close>

definition cron_batch :: nat where "cron_batch = 200"
definition default_abandoned_interval_ms :: int where "default_abandoned_interval_ms = 60 * 60 * 1000"

text \<open>
  \<open>getAbandonedPaymentsCronIntervalMs\<close> of the environment variable; \<open>parseInt\<close> is exact on the
  lengths in use.
\<close>

definition abandoned_interval_ms :: "string option \<Rightarrow> int" where
  "abandoned_interval_ms v = (case v of None \<Rightarrow> default_abandoned_interval_ms
     | Some s \<Rightarrow> (case parse_int s of Some n \<Rightarrow> if 0 < n then n else default_abandoned_interval_ms
         | None \<Rightarrow> default_abandoned_interval_ms))"

text \<open>The webhook jobs of a batch: \<open>hook m\<close> is the webhook URL of the merchant.\<close>

definition expiry_jobs :: "(string \<Rightarrow> string option) \<Rightarrow> payment list \<Rightarrow> (string \<times> string) list" where
  "expiry_jobs hook ps = concat (map (\<lambda>p. case hook (pm_merchant p) of
     None \<Rightarrow> [] | Some u \<Rightarrow> if u = [] then [] else [(u, pm_id p)]) ps)"

fun sweep_loop ::
  "'d payment_ops \<Rightarrow> (string \<Rightarrow> string option) \<Rightarrow> ('d \<Rightarrow> 'd) \<Rightarrow> nat \<Rightarrow> nat \<Rightarrow> string option \<Rightarrow> 'd \<Rightarrow> nat \<Rightarrow> (string \<times> string) list \<Rightarrow>
   ('d \<times> nat \<times> (string \<times> string) list) option" where
  "sweep_loop P hook env cutoff 0 c d expired jobs = None"
| "sweep_loop P hook env cutoff (Suc fuel) c d expired jobs =
     (let batch = po_stale P d cutoff c cron_batch
      in if batch = [] then Some (d, expired, jobs)
         else (case po_set_status_in P (env d) (map pm_id batch) ''cancelled'' of (d', k) \<Rightarrow>
           if length batch < cron_batch then Some (d', expired + k, jobs @ expiry_jobs hook batch)
           else sweep_loop P hook env cutoff fuel (Some (pm_id (last batch))) d' (expired + k) (jobs @ expiry_jobs hook batch)))"

definition auto_expire_abandoned ::
  "'d payment_ops \<Rightarrow> (string \<Rightarrow> string option) \<Rightarrow> ('d \<Rightarrow> 'd) \<Rightarrow> nat \<Rightarrow> int \<Rightarrow> nat \<Rightarrow> 'd \<Rightarrow> ('d \<times> nat \<times> (string \<times> string) list) option" where
  "auto_expire_abandoned P hook env fuel hours now d =
     (if hours \<le> 0 then Some (d, 0, [])
      else sweep_loop P hook env (nat (int now - hours * 60 * 60 * 1000)) fuel None d 0 [])"

subsection \<open>The cleanup of idempotency keys\<close>

definition cleanup_lock_key :: string where "cleanup_lock_key = ''lock:idempotency-key-cleanup-cron''"
definition cleanup_lock_ttl_ms :: nat where "cleanup_lock_ttl_ms = 5 * 60 * 1000"

text \<open>
  \<open>running\<close> is the flag of this process, \<open>lock_fails\<close> a failing Redis: the run then goes on
  without the lock. The payment rows it reclaims; the settlement rows are counted by \<open>others\<close>.
\<close>

definition reclaim_expired_keys ::
  "'d payment_ops \<Rightarrow> 'r kv_ops \<Rightarrow> bool \<Rightarrow> bool \<Rightarrow> string \<Rightarrow> nat \<Rightarrow> nat \<Rightarrow> 'd \<times> 'r \<Rightarrow> ('d \<times> 'r) \<times> nat" where
  "reclaim_expired_keys P R running lock_fails token others now st =
     (case st of (d, r) \<Rightarrow>
        if running then (st, 0)
        else if lock_fails then (case po_reclaim P d now of (d', n) \<Rightarrow> ((d', r), n + others))
        else (case kv_set_nx R r now cleanup_lock_key token cleanup_lock_ttl_ms of
          (r', False) \<Rightarrow> ((d, r'), 0)
        | (r', True) \<Rightarrow> (case po_reclaim P d now of (d', n) \<Rightarrow>
            ((d', if kv_get R r' now cleanup_lock_key = Some token then kv_del R r' now cleanup_lock_key else r'), n + others))))"

subsection \<open>The sweep is exact\<close>

lemma sorted_ids: "table_ok ps \<Longrightarrow> sorted_wrt (\<lambda>p q. pm_id p < pm_id q) ps"
  using strict_sorted_iff [of "map pm_id ps"] sorted_wrt_map [of "(<)" pm_id ps]
  by (simp add: table_ok_def)

lemma after_last:
  assumes "sorted_wrt (\<lambda>p q. pm_id p < pm_id q) S" "n \<le> length S" "0 < n"
  shows "filter (beyond_cursor (Some (pm_id (last (take n S))))) S = drop n S"
proof -
  define l where "l = last (take n S)"
  have "S \<noteq> []" using assms(2,3) by auto
  then have l: "l = S ! (n - 1)" using assms(2,3) last_conv_nth [of "take n S"] by (simp add: l_def)
  have lt: "pm_id (S ! i) < pm_id (S ! j)" if "i < j" "j < length S" for i j
    using assms(1) that by (simp add: sorted_wrt_iff_nth_less)
  have "filter (beyond_cursor (Some (pm_id l))) (take n S) = []"
  proof (rule filter_False, rule ballI)
    fix x assume "x \<in> set (take n S)"
    then obtain i where i: "i < n" "x = S ! i" by (metis in_set_conv_nth length_take min_less_iff_conj nth_take)
    then have "i = n - 1 \<or> i < n - 1" by linarith
    then have "\<not> pm_id l < pm_id x"
      using lt [of i "n - 1"] assms(2,3) l i(2) by (auto dest: order.asym)
    then show "\<not> beyond_cursor (Some (pm_id l)) x" by (simp add: beyond_cursor_def)
  qed
  moreover have "filter (beyond_cursor (Some (pm_id l))) (drop n S) = drop n S"
  proof (rule filter_True, rule ballI)
    fix x assume "x \<in> set (drop n S)"
    then obtain j where "j < length S - n" "x = S ! (n + j)" using assms(2) by (auto simp: in_set_conv_nth)
    then show "beyond_cursor (Some (pm_id l)) x"
      using lt [of "n - 1" "n + j"] assms(3) l by (simp add: beyond_cursor_def)
  qed
  ultimately show ?thesis using filter_append [of _ "take n S" "drop n S"] by (simp add: l_def)
qed

lemma update_rows_twice:
  assumes "\<And>p. p \<in> set ps \<Longrightarrow> (Q p \<or> Q' p) = R p" "\<And>p. p \<in> set ps \<Longrightarrow> Q p \<Longrightarrow> \<not> Q' (f p)"
  shows "update_rows Q' f (update_rows Q f ps) = update_rows R f ps"
  using assms by (auto simp: update_rows_def)

lemma update_rows_cong: "(\<And>p. p \<in> set ps \<Longrightarrow> Q p = R p) \<Longrightarrow> update_rows Q f ps = update_rows R f ps"
  by (simp add: update_rows_def)

lemma update_rows_union:
  "update_rows (\<lambda>p. pm_id p \<in> set xs) (set_status s) (update_rows (\<lambda>p. pm_id p = i) (set_status s) ps) =
   update_rows (\<lambda>p. pm_id p \<in> set (i # xs)) (set_status s) ps"
  by (induction ps) (simp_all add: update_rows_def set_status_def)

lemma ids_image: "pm_id ` set (update_rows Q (set_status s) ps) = pm_id ` set ps"
  by (induction ps) (simp_all add: update_rows_def)

lemma filter_update_rows:
  "(\<And>p. p \<in> set ps \<Longrightarrow> Q p \<Longrightarrow> \<not> R p \<and> \<not> R (f p)) \<Longrightarrow> filter R (update_rows Q f ps) = filter R ps"
  by (induction ps) (auto simp: update_rows_def)

lemma expiry_jobs_append: "expiry_jobs hook (ps @ qs) = expiry_jobs hook ps @ expiry_jobs hook qs"
  by (simp add: expiry_jobs_def)

lemma distinct_id_eq: "table_ok ps \<Longrightarrow> p \<in> set ps \<Longrightarrow> q \<in> set ps \<Longrightarrow> pm_id p = pm_id q \<Longrightarrow> p = q"
  by (auto simp: table_ok_def distinct_map dest: inj_onD)

text \<open>The rows a sweep has yet to see after a full batch.\<close>

lemma rest_after_batch:
  assumes "table_ok ps" "S = filter (\<lambda>p. stale_at t p \<and> beyond_cursor c p) ps" "n \<le> length S" "0 < n"
    and "c' = Some (pm_id (last (take n S)))" "Q = (\<lambda>p. pm_id p \<in> pm_id ` set (take n S))"
  shows "filter (\<lambda>p. stale_at t p \<and> beyond_cursor c' p) (update_rows Q (set_status ''cancelled'') ps) = drop n S"
    "update_rows (\<lambda>p. stale_at t p \<and> beyond_cursor c' p) (set_status ''cancelled'') (update_rows Q (set_status ''cancelled'') ps) =
     update_rows (\<lambda>p. stale_at t p \<and> beyond_cursor c p) (set_status ''cancelled'') ps"
    "filter Q ps = take n S"
proof -
  have sS: "sorted_wrt (\<lambda>p q. pm_id p < pm_id q) S"
    using sorted_ids [OF assms(1)] by (simp add: assms(2) sorted_wrt_filter)
  have SP: "S = filter (\<lambda>p. p \<in> set S) ps" using assms(2) by (auto intro: filter_cong)
  have QB: "Q p = (p \<in> set (take n S))" if "p \<in> set ps" for p
  proof -
    have "set (take n S) \<subseteq> set ps" using set_take_subset [of n S] by (auto simp: assms(2))
    with distinct_id_eq [OF assms(1) that] show ?thesis unfolding assms(6) by blast
  qed
  have "take n S \<noteq> []" using assms(3,4) by (cases S) auto
  then have last: "last (take n S) \<in> set S" by (rule in_set_takeD [OF last_in_set])
  have "last (take n S) \<in> set (filter (\<lambda>p. stale_at t p \<and> beyond_cursor c p) ps)" using last by (simp only: assms(2))
  then have "beyond_cursor c (last (take n S))" by simp
  then have more: "beyond_cursor c p" if "beyond_cursor c' p" for p
    using that by (cases c) (auto simp: beyond_cursor_def assms(5))
  have dist: "distinct S" using assms(1,2) by (auto simp: table_ok_def distinct_map)
  have D: "filter (\<lambda>p. stale_at t p \<and> beyond_cursor c' p) ps = drop n S"
  proof -
    have "filter (\<lambda>p. stale_at t p \<and> beyond_cursor c' p) ps = filter (beyond_cursor c') S"
      using more by (auto simp: assms(2) intro!: filter_cong)
    then show ?thesis using after_last [OF sS assms(3,4)] by (simp add: assms(5))
  qed
  have nb: "\<not> beyond_cursor c' p" if "p \<in> set (take n S)" for p
  proof
    assume "beyond_cursor c' p"
    with that have "p \<in> set (filter (beyond_cursor c') S)" by (auto dest: in_set_takeD)
    then have "p \<in> set (drop n S)" using after_last [OF sS assms(3,4)] by (simp add: assms(5))
    with that dist show False by (metis append_take_drop_id disjoint_iff distinct_append)
  qed
  show "filter Q ps = take n S"
  proof -
    have "filter Q ps = filter (\<lambda>p. p \<in> set (take n S)) ps" using QB by (rule filter_cong [OF HOL.refl])
    also have "\<dots> = filter (\<lambda>p. p \<in> set (take n S)) S"
      by (subst (2) SP) (auto intro!: filter_cong dest: in_set_takeD)
    also have "\<dots> = take n S"
    proof -
      have "filter (\<lambda>p. p \<in> set (take n S)) (take n S) = take n S" by (simp add: filter_id_conv)
      moreover have "filter (\<lambda>p. p \<in> set (take n S)) (drop n S) = []"
        using set_take_disj_set_drop_if_distinct [OF dist, of n n] by (auto simp: filter_empty_conv)
      ultimately show ?thesis by (metis append_Nil2 append_take_drop_id filter_append)
    qed
    finally show ?thesis .
  qed
  show "filter (\<lambda>p. stale_at t p \<and> beyond_cursor c' p) (update_rows Q (set_status ''cancelled'') ps) = drop n S"
    unfolding D [symmetric] by (rule filter_update_rows) (use QB nb in \<open>auto simp: stale_at_def\<close>)
  show "update_rows (\<lambda>p. stale_at t p \<and> beyond_cursor c' p) (set_status ''cancelled'') (update_rows Q (set_status ''cancelled'') ps) =
     update_rows (\<lambda>p. stale_at t p \<and> beyond_cursor c p) (set_status ''cancelled'') ps"
  proof (rule update_rows_twice)
    fix p assume p: "p \<in> set ps"
    have "p \<in> set S \<longleftrightarrow> p \<in> set (take n S) \<or> p \<in> set (drop n S)" by (metis Un_iff append_take_drop_id set_append)
    moreover have "p \<in> set (drop n S) \<longleftrightarrow> stale_at t p \<and> beyond_cursor c' p" using p by (simp flip: D)
    moreover have "p \<in> set S \<longleftrightarrow> stale_at t p \<and> beyond_cursor c p" using p by (simp add: assms(2))
    ultimately show "(Q p \<or> stale_at t p \<and> beyond_cursor c' p) = (stale_at t p \<and> beyond_cursor c p)" using QB [OF p] by blast
  qed (simp add: stale_at_def)
qed

context payment_store
begin

lemma sweep_loop_exact:
  assumes "invar d" "length (filter (\<lambda>p. stale_at t p \<and> beyond_cursor c p) (rows d)) < cron_batch * fuel"
  shows "\<exists>d'. sweep_loop P hook (\<lambda>d. d) t fuel c d expired jobs =
      Some (d', expired + length (filter (\<lambda>p. stale_at t p \<and> beyond_cursor c p) (rows d)),
        jobs @ expiry_jobs hook (filter (\<lambda>p. stale_at t p \<and> beyond_cursor c p) (rows d))) \<and> invar d' \<and>
    rows d' = update_rows (\<lambda>p. stale_at t p \<and> beyond_cursor c p) (set_status ''cancelled'') (rows d)"
  using assms
proof (induction fuel arbitrary: c d expired jobs)
  case (Suc fuel)
  define S where "S = filter (\<lambda>p. stale_at t p \<and> beyond_cursor c p) (rows d)"
  define B where "B = take cron_batch S"
  have batch: "po_stale P d t c cron_batch = B" using stale_rows [OF Suc.prems(1)] by (simp add: B_def S_def)
  show ?case
  proof (cases "B = []")
    case True
    then have "S = []" by (simp add: B_def cron_batch_def)
    then have "update_rows (\<lambda>p. stale_at t p \<and> beyond_cursor c p) (set_status ''cancelled'') (rows d) = rows d"
      by (auto simp: S_def update_rows_def filter_empty_conv intro!: map_idI)
    with True \<open>S = []\<close> Suc.prems(1) batch show ?thesis by (simp add: expiry_jobs_def flip: S_def)
  next
    case False
    define n where "n = length B"
    define Q :: "payment \<Rightarrow> bool" where "Q = (\<lambda>p. pm_id p \<in> pm_id ` set (take n S))"
    have n: "n \<le> length S" "0 < n" "B = take n S" using False by (auto simp: n_def B_def min_def)
    let ?c = "Some (pm_id (last (take n S)))"
    have cur: "?c = Some (pm_id (last (take n S)))" by simp
    note rest = rest_after_batch [OF rows_ok [OF Suc.prems(1)] S_def n(1,2) cur Q_def]
    obtain d' where d': "invar d'" "po_set_status_in P d (map pm_id B) ''cancelled'' = (d', length B)"
      "rows d' = update_rows Q (set_status ''cancelled'') (rows d)"
      using set_status_in_rows [OF Suc.prems(1), of "map pm_id B" "''cancelled''"] rest(3)
      by (auto simp: Q_def n(3) image_def)
    show ?thesis
    proof (cases "length B < cron_batch")
      case True
      then have "S = B" by (simp add: B_def)
      then have "update_rows Q (set_status ''cancelled'') (rows d) =
          update_rows (\<lambda>p. stale_at t p \<and> beyond_cursor c p) (set_status ''cancelled'') (rows d)"
      proof (intro update_rows_cong)
        fix p assume "p \<in> set (rows d)"
        moreover have "filter Q (rows d) = filter (\<lambda>p. stale_at t p \<and> beyond_cursor c p) (rows d)"
          unfolding rest(3) n(3) [symmetric] \<open>S = B\<close> [symmetric] by (rule S_def)
        then have "set (filter Q (rows d)) = set (filter (\<lambda>p. stale_at t p \<and> beyond_cursor c p) (rows d))" by simp
        ultimately show "Q p = (stale_at t p \<and> beyond_cursor c p)" by auto
      qed
      with True False batch d' \<open>S = B\<close> show ?thesis by (simp flip: S_def)
    next
      case False
      then have full: "length B = cron_batch" by (simp add: B_def)
      note rest' = rest(1,2) [folded d'(3)]
      have nb: "n = cron_batch" using full n_def by simp
      have "length S < cron_batch * Suc fuel" using Suc.prems(2) unfolding S_def .
      then have "length (drop n S) < cron_batch * fuel" using nb n(1) by simp
      with Suc.IH [OF d'(1), of ?c "expired + cron_batch" "jobs @ expiry_jobs hook B"] rest'
      obtain d'' where "sweep_loop P hook (\<lambda>d. d) t fuel ?c d' (expired + cron_batch) (jobs @ expiry_jobs hook B) =
          Some (d'', expired + cron_batch + length (drop n S), jobs @ expiry_jobs hook B @ expiry_jobs hook (drop n S))"
        "invar d''" "rows d'' = update_rows (\<lambda>p. stale_at t p \<and> beyond_cursor c p) (set_status ''cancelled'') (rows d)"
        by auto
      moreover have "expiry_jobs hook B @ expiry_jobs hook (drop n S) = expiry_jobs hook S"
        by (simp add: n(3) flip: expiry_jobs_append)
      moreover have "cron_batch + length (drop n S) = length S" using nb n(1) by simp
      moreover have "sweep_loop P hook (\<lambda>d. d) t (Suc fuel) c d expired jobs =
          sweep_loop P hook (\<lambda>d. d) t fuel ?c d' (expired + cron_batch) (jobs @ expiry_jobs hook B)"
        using batch full d'(2) \<open>B \<noteq> []\<close> by (simp add: n(3) [symmetric])
      ultimately show ?thesis unfolding S_def [symmetric] by (auto simp: add.assoc)
    qed
  qed
qed simp

end

subsection \<open>Properties\<close>

text \<open>
  C35: The sweep of abandoned payments ends and is exact. With one iteration per full batch and
  one more, and no other writer, it cancels precisely the initiated payments older than the
  timeout, changes nothing else, counts each of them once and queues one webhook job for each
  whose merchant has a URL, however the payments fall into batches.
\<close>

theorem sweep_exact:
  assumes "payment_store P invar rows" "invar d" "0 < hours"
    and cutoff: "cutoff = nat (int now - hours * 60 * 60 * 1000)"
    and fuel: "length (filter (stale_at cutoff) (rows d)) < cron_batch * fuel"
  shows "\<exists>d'. auto_expire_abandoned P hook (\<lambda>d. d) fuel hours now d =
      Some (d', length (filter (stale_at cutoff) (rows d)), expiry_jobs hook (filter (stale_at cutoff) (rows d))) \<and>
    rows d' = update_rows (stale_at cutoff) (set_status ''cancelled'') (rows d)"
proof -
  have "auto_expire_abandoned P hook (\<lambda>d. d) fuel hours now d = sweep_loop P hook (\<lambda>d. d) cutoff fuel None d 0 []"
    using assms(3) by (simp add: auto_expire_abandoned_def cutoff)
  with payment_store.sweep_loop_exact [OF assms(1,2), of cutoff None fuel hook 0 "[]"] fuel
  show ?thesis by (auto simp: beyond_cursor_def)
qed

definition demo_payment :: "string \<Rightarrow> string \<Rightarrow> string \<Rightarrow> nat \<Rightarrow> payment" where
  "demo_payment i m s t = \<lparr> pm_id = i, pm_merchant = m, pm_payer = None, pm_amount = ''5'', pm_asset = ''USDC'',
     pm_reference = None, pm_status = s, pm_created = t, pm_key = None, pm_key_expires = None \<rparr>"

definition demo_table :: "payment list" where
  "demo_table = [demo_payment ''a'' ''M'' ''initiated'' 10, demo_payment ''b'' ''M'' ''completed'' 10,
     demo_payment ''c'' ''N'' ''initiated'' 20, demo_payment ''d'' ''M'' ''initiated'' 90000000]"

lemma demo_table_ok: "table_ok demo_table"
  by (simp add: table_ok_def demo_table_def demo_payment_def keyed_def)

lemma sweep_exact_witness:
  "\<exists>d'. auto_expire_abandoned list_ops (\<lambda>m. if m = ''M'' then Some ''u'' else None) (\<lambda>d. d) 1 24 90000000 demo_table =
     Some (d', 2, [(''u'', ''a'')]) \<and> map pm_status d' = [''cancelled'', ''completed'', ''cancelled'', ''initiated'']"
  using sweep_exact [OF lt.payment_store_axioms demo_table_ok, of 24 _ 90000000 1 "\<lambda>m. if m = ''M'' then Some ''u'' else None"]
  by (auto simp: demo_table_def demo_payment_def stale_at_def expiry_jobs_def update_rows_def set_status_def cron_batch_def)

subsection \<open>Bulk cancellation\<close>

lemma js_distinct_props [simp]: "set (js_distinct xs) = set xs" "distinct (js_distinct xs)"
  by (simp_all add: js_distinct_def)

lemma find_id:
  assumes "table_ok ps"
  shows "find (\<lambda>p. pm_id p = i) ps = Some p \<longleftrightarrow> p \<in> set ps \<and> pm_id p = i"
proof
  assume "p \<in> set ps \<and> pm_id p = i"
  moreover from this have "find (\<lambda>p. pm_id p = i) ps \<noteq> None" by (auto simp: find_None_iff)
  then obtain q where "find (\<lambda>p. pm_id p = i) ps = Some q" by blast
  ultimately show "find (\<lambda>p. pm_id p = i) ps = Some p"
    using find_SomeD [of "\<lambda>p. pm_id p = i" ps q] distinct_id_eq [OF assms] by auto
qed (auto dest: find_SomeD)

context payment_store
begin

lemma cancel_all_rows:
  assumes "invar d" "set xs \<subseteq> pm_id ` set (rows d)"
  shows "\<exists>d'. cancel_all P xs d = Some d' \<and> invar d' \<and>
    rows d' = update_rows (\<lambda>p. pm_id p \<in> set xs) (set_status ''cancelled'') (rows d)"
  using assms
proof (induction xs arbitrary: d)
  case Nil
  then show ?case by (simp add: update_rows_def)
next
  case (Cons i xs)
  obtain d1 where d1: "invar d1" "po_set_status P d i ''cancelled'' = (d1, \<exists>p \<in> set (rows d). pm_id p = i)"
    "rows d1 = update_rows (\<lambda>p. pm_id p = i) (set_status ''cancelled'') (rows d)"
    using set_status_row [OF Cons.prems(1)] by blast
  have ex: "\<exists>p \<in> set (rows d). pm_id p = i" using Cons.prems(2) by auto
  have "pm_id ` set (rows d1) = pm_id ` set (rows d)"
    unfolding d1(3) by (rule ids_image)
  then have "set xs \<subseteq> pm_id ` set (rows d1)" using Cons.prems(2) by simp
  from Cons.IH [OF d1(1) this] obtain d' where d': "cancel_all P xs d1 = Some d'" "invar d'"
    "rows d' = update_rows (\<lambda>p. pm_id p \<in> set xs) (set_status ''cancelled'') (rows d1)" by blast
  have "rows d' = update_rows (\<lambda>p. pm_id p \<in> set (i # xs)) (set_status ''cancelled'') (rows d)"
    unfolding d'(3) d1(3) by (rule update_rows_union)
  with d' d1(2) ex show ?case by simp
qed

lemma find_rows: "invar d \<Longrightarrow> po_find P d i = Some p \<longleftrightarrow> p \<in> set (rows d) \<and> pm_id p = i"
  using find_id [OF rows_ok] find_row by simp

lemma cancelled_rows:
  assumes "invar d"
  shows "\<exists>d'. cancel_all P (filter (to_cancel m (po_find P d)) (js_distinct ids)) d = Some d' \<and> invar d' \<and>
    rows d' = update_rows (\<lambda>p. pm_id p \<in> set ids \<and> pm_merchant p = m \<and> pm_status p = ''initiated'')
      (set_status ''cancelled'') (rows d)"
proof -
  let ?is = "filter (to_cancel m (po_find P d)) (js_distinct ids)"
  have mem: "i \<in> set ?is \<longleftrightarrow> i \<in> set ids \<and> (\<exists>p \<in> set (rows d). pm_id p = i \<and> pm_merchant p = m \<and> pm_status p = ''initiated'')" for i
  proof (cases "po_find P d i")
    case (Some p)
    then have "\<And>q. q = p \<longleftrightarrow> q \<in> set (rows d) \<and> pm_id q = i" using find_rows [OF assms, of i] by (metis option.inject)
    then have "(\<exists>q \<in> set (rows d). pm_id q = i \<and> pm_merchant q = m \<and> pm_status q = ''initiated'') \<longleftrightarrow>
        pm_merchant p = m \<and> pm_status p = ''initiated''" by metis
    with Some show ?thesis by (simp add: to_cancel_def)
  qed (use find_rows [OF assms, of i] in \<open>auto simp: to_cancel_def\<close>)
  then have "set ?is \<subseteq> pm_id ` set (rows d)" by (metis imageI subsetI)
  from cancel_all_rows [OF assms this] obtain d' where "cancel_all P ?is d = Some d'" "invar d'"
    "rows d' = update_rows (\<lambda>p. pm_id p \<in> set ?is) (set_status ''cancelled'') (rows d)" by blast
  moreover have "update_rows (\<lambda>p. pm_id p \<in> set ?is) (set_status ''cancelled'') (rows d) =
     update_rows (\<lambda>p. pm_id p \<in> set ids \<and> pm_merchant p = m \<and> pm_status p = ''initiated'') (set_status ''cancelled'') (rows d)"
    using distinct_id_eq [OF rows_ok [OF assms]] by (intro update_rows_cong) (metis mem)
  ultimately show ?thesis by simp
qed

end

lemma item_ids [simp]: "item_id (cancel_item_of m look i) = i"
  by (simp add: cancel_item_of_def split: option.splits)



text \<open>
  A stored summary answers every later request with its key. The key is scoped neither by
  merchant nor by the ids: within the TTL any caller who sends it, for any payments, gets the
  summary of the first request, and nothing is cancelled.
\<close>

theorem bulk_cancel_replay_unscoped:
  assumes "redis_strings R rinv entry" "rinv r"
    and codec: "sy_parse Y (sy_text Y s) = Some s" "sy_text Y s \<noteq> []"
    and key: "read_idempotency_key header = Some k"
    and first: "bulk_cancel P R Y env gf False m header ids now (d, r) = ((d1, r1), CancelSummary s)" "d1 \<noteq> d"
    and "ids' \<noteq> []" "length ids' \<le> 100" "[] \<notin> set ids'" "now' < now + payment_key_ttl_ms"
  shows "bulk_cancel P R Y env' False sf' m' header ids' now' (d2, r1) = ((d2, r1), CancelSummary s)"
proof -
  have len: "length k \<le> payment_key_max_len" and "r1 = kv_set R r now (bulk_cancel_key k) (sy_text Y s) (Some payment_key_ttl_ms)"
    using first key by (auto simp: bulk_cancel_def Let_def not_less split: if_splits option.splits)
  then have "kv_get R r1 now' (bulk_cancel_key k) = Some (sy_text Y s)"
    using redis_strings.set_entry [OF assms(1,2)] redis_strings.get_entry [OF assms(1)] assms(11)
    by (simp add: kv_live_some)
  with codec key len assms(8-10) show ?thesis by (simp add: bulk_cancel_def not_less)
qed

subsection \<open>Idempotency keys\<close>

lemma find_only:
  assumes "p \<in> set ps" "\<And>q. q \<in> set ps \<Longrightarrow> Q q \<Longrightarrow> q = p"
  shows "find Q ps = (if Q p then Some p else None)"
  using assms
proof (induction ps)
  case (Cons x xs)
  show ?case
  proof (cases "x = p")
    case True
    with Cons.prems(2) show ?thesis by (auto simp: find_None_iff)
  next
    case False
    with Cons.prems have "p \<in> set xs" "\<not> Q x" by auto
    with Cons.IH Cons.prems(2) False show ?thesis by auto
  qed
qed simp

context payment_store
begin

lemma find_key_row_unique:
  assumes "invar d" "p \<in> set (rows d)" "pm_key p = Some k"
  shows "po_find_key P d k now = (if key_valid_at k now p then Some p else None)"
proof -
  have "inj_on pm_key (set (filter keyed (rows d)))"
    using rows_ok [OF assms(1)] by (simp add: table_ok_def distinct_map)
  then have "q = p" if "q \<in> set (rows d)" "key_valid_at k now q" for q
    using that assms(2,3) by (auto simp: key_valid_at_def keyed_def inj_on_def)
  then show ?thesis using find_only [OF assms(2)] find_key_row [OF assms(1)] by metis
qed

lemma insert_taken_key:
  assumes "invar (gw_db st)" "p \<in> set (rows (gw_db st))" "pm_key p = Some k"
  shows "rows (gw_db (fst (insert_payment P (\<lambda>d. d) b new_id (Some k) quote now st))) = rows (gw_db st) \<and>
    snd (insert_payment P (\<lambda>d. d) b new_id (Some k) quote now st) =
      (if key_valid_at k now p then PaymentReplayed p else PaymentThrows)"
proof -
  let ?new = "new_payment b new_id (Some k) now"
  have "clashes ?new p" using assms(3) by (simp add: clashes_def new_payment_def)
  then have taken: "\<exists>q \<in> set (rows (gw_db st)). clashes ?new q" using assms(2) by blast
  obtain d where d: "invar d" "po_create P (gw_db st) ?new = (d, False)" "rows d = rows (gw_db st)"
    using create_row [OF assms(1), of ?new] unfolding if_P [OF taken] using taken by auto
  with find_key_row_unique [OF d(1), of p k now] assms(2,3) show ?thesis
    by (simp add: insert_payment_def Let_def)
qed

end

lemma cached_merchant_db: "cached_merchant now i st = (st1, m) \<Longrightarrow> gw_db st1 = gw_db st"
  by (auto simp: cached_merchant_def split: prod.splits sum.splits)

lemma create_payment_cases:
  assumes c: "cached_merchant (int now) (pb_merchant b) st = (st1, mo)"
  obtains (refused) code err s where "create_payment P checks admin env fx who header b new_id now st = (s, PaymentRefused code err)"
      "s = st \<or> s = st1"
  | (throws) "create_payment P checks admin env fx who header b new_id now st = (st1, PaymentThrows)"
      "\<And>k. read_idempotency_key header = Some k \<Longrightarrow> po_find_key P (gw_db st1) k now = None"
  | (replayed) k q where "create_payment P checks admin env fx who header b new_id now st = (st1, PaymentReplayed q)"
      "read_idempotency_key header = Some k" "po_find_key P (gw_db st1) k now = Some q"
  | (inserted) quote m where "create_payment P checks admin env fx who header b new_id now st =
        insert_payment P env b new_id (read_idempotency_key header) quote now st1"
      "mo = Some m" "gm_status m \<noteq> ''suspended''"
      "\<And>k. read_idempotency_key header = Some k \<Longrightarrow> po_find_key P (gw_db st1) k now = None"
proof -
  define res where "res = create_payment P checks admin env fx who header b new_id now st"
  define key where "key = read_idempotency_key header"
  note res_eq = res_def [unfolded create_payment_def c Let_def, folded key_def, unfolded prod.case]
  have "(\<exists>code err s. res = (s, PaymentRefused code err) \<and> (s = st \<or> s = st1)) \<or>
    (res = (st1, PaymentThrows) \<and> (\<forall>k. key = Some k \<longrightarrow> po_find_key P (gw_db st1) k now = None)) \<or>
    (\<exists>k q. res = (st1, PaymentReplayed q) \<and> key = Some k \<and> po_find_key P (gw_db st1) k now = Some q) \<or>
    (\<exists>quote m. res = insert_payment P env b new_id key quote now st1 \<and> mo = Some m \<and> gm_status m \<noteq> ''suspended'' \<and>
       (\<forall>k. key = Some k \<longrightarrow> po_find_key P (gw_db st1) k now = None))"
    using res_eq by (auto split: if_split_asm option.split_asm fx_outcome.split_asm)
  then show ?thesis using that unfolding res_def key_def by blast
qed


subsection \<open>The life of a payment\<close>

text \<open>
  What never changes about a payment, and how its status may. The events are the requests and
  runs that reach the tables; of a bulk cancellation without a stored summary, the updates.
\<close>

definition same_payment :: "payment \<Rightarrow> payment \<Rightarrow> bool" where
  "same_payment p q = (pm_id q = pm_id p \<and> pm_merchant q = pm_merchant p \<and> pm_amount q = pm_amount p \<and>
     pm_asset q = pm_asset p \<and> status_reach payment_status_transitions (pm_status p) (pm_status q))"

definition evolves :: "payment list \<Rightarrow> payment list \<Rightarrow> bool" where
  "evolves ps qs = (\<forall>p \<in> set ps. \<exists>q \<in> set qs. same_payment p q)"

datatype payment_event =
    PaymentRequested fx_outcome caller "string option" payment_body string nat
  | StatusPatched string string
  | BulkCancelled string "string list"
  | PaymentsSwept int nat
  | KeysReclaimed nat
  | MerchantDeleted string nat
  | MerchantStatusSet string string
  | MerchantRestored string

fun payment_step :: "'d payment_ops \<Rightarrow> body_checks \<Rightarrow> string \<Rightarrow> nat \<Rightarrow> payment_event \<Rightarrow> 'd gateway \<Rightarrow> 'd gateway" where
  "payment_step P checks admin fuel (PaymentRequested fx who header b i now) st =
     fst (create_payment P checks admin (\<lambda>d. d) fx who header b i now st)"
| "payment_step P checks admin fuel (StatusPatched i s) st = st\<lparr> gw_db := fst (update_payment_status P (\<lambda>d. d) i s (gw_db st)) \<rparr>"
| "payment_step P checks admin fuel (BulkCancelled m ids) st =
     (case cancel_all P (filter (to_cancel m (po_find P (gw_db st))) (js_distinct ids)) (gw_db st) of
        None \<Rightarrow> st | Some d \<Rightarrow> st\<lparr> gw_db := d \<rparr>)"
| "payment_step P checks admin fuel (PaymentsSwept hours now) st =
     (case auto_expire_abandoned P (\<lambda>_. None) (\<lambda>d. d) fuel hours now (gw_db st) of
        None \<Rightarrow> st | Some (d, n, jobs) \<Rightarrow> st\<lparr> gw_db := d \<rparr>)"
| "payment_step P checks admin fuel (KeysReclaimed now) st = st\<lparr> gw_db := fst (po_reclaim P (gw_db st) now) \<rparr>"
| "payment_step P checks admin fuel (MerchantDeleted i now) st = fst (delete_merchant P i now st)"
| "payment_step P checks admin fuel (MerchantStatusSet i s) st = fst (set_merchant_status i s st)"
| "payment_step P checks admin fuel (MerchantRestored i) st = fst (restore_merchant i st)"

definition payment_run :: "'d payment_ops \<Rightarrow> body_checks \<Rightarrow> string \<Rightarrow> nat \<Rightarrow> payment_event list \<Rightarrow> 'd gateway \<Rightarrow> 'd gateway" where
  "payment_run P checks admin fuel es st = fold (payment_step P checks admin fuel) es st"

lemma reach_trans: "status_reach T t u \<Longrightarrow> status_reach T s t \<Longrightarrow> status_reach T s u"
  by (induction rule: status_reach.induct) (auto intro: status_reach.step)

lemma same_refl_payment: "same_payment p p"
  by (simp add: same_payment_def status_reach.refl)

lemma evolves_refl: "evolves ps ps"
  using same_refl_payment by (auto simp: evolves_def)

lemma same_payment_trans: "same_payment p q \<Longrightarrow> same_payment q r \<Longrightarrow> same_payment p r"
  by (auto simp: same_payment_def intro: reach_trans)

lemma evolves_trans: "evolves ps qs \<Longrightarrow> evolves qs rs \<Longrightarrow> evolves ps rs"
  unfolding evolves_def using same_payment_trans by meson

lemma evolves_insert: "evolves ps (insort_key pm_id p ps)"
  using same_refl_payment by (auto simp: evolves_def set_insort_key)

lemma evolves_set_status:
  assumes "\<And>p. p \<in> set ps \<Longrightarrow> Q p \<Longrightarrow> status_step payment_status_transitions (pm_status p) s"
  shows "evolves ps (update_rows Q (set_status s) ps)"
proof -
  have "same_payment p (if Q p then set_status s p else p)" if "p \<in> set ps" for p
    using assms [OF that] status_reach.step [OF status_reach.refl] by (auto simp: same_payment_def intro: status_reach.refl)
  then show ?thesis unfolding evolves_def update_rows_def set_map by blast
qed

lemma evolves_clear_key: "evolves ps (update_rows Q clear_key ps)"
proof -
  have "same_payment p (if Q p then clear_key p else p)" for p by (simp add: same_payment_def status_reach.refl)
  then show ?thesis unfolding evolves_def update_rows_def set_map by blast
qed

lemma initiated_step: "s \<in> {''completed'', ''failed'', ''cancelled''} \<Longrightarrow> status_step payment_status_transitions ''initiated'' s"
  by (intro status_step.move) (auto simp: payment_transitions)

context payment_store
begin

lemma insert_evolves:
  assumes "invar (gw_db st)"
  shows "invar (gw_db (fst (insert_payment P (\<lambda>d. d) b i key quote now st))) \<and>
    evolves (rows (gw_db st)) (rows (gw_db (fst (insert_payment P (\<lambda>d. d) b i key quote now st))))"
proof -
  let ?p = "new_payment b i key now"
  obtain d ok where c: "po_create P (gw_db st) ?p = (d, ok)" by force
  have "invar d" "rows d = rows (gw_db st) \<or> rows d = insort_key pm_id ?p (rows (gw_db st))"
    using create_row [OF assms, of ?p] c by (auto split: if_splits)
  with c show ?thesis by (cases ok) (auto simp: insert_payment_def Let_def evolves_refl evolves_insert)
qed

lemma update_status_evolves:
  assumes "invar d"
  shows "invar (fst (update_payment_status P (\<lambda>d. d) i s d)) \<and> evolves (rows d) (rows (fst (update_payment_status P (\<lambda>d. d) i s d)))"
proof (cases "s \<in> {''completed'', ''failed'', ''cancelled''} \<and>
    (\<exists>p. po_find P d i = Some p \<and> is_valid_transition payment_status_transitions (pm_status p) s)")
  case True
  then obtain p where p: "po_find P d i = Some p" "is_valid_transition payment_status_transitions (pm_status p) s" by blast
  obtain d' ok where d': "po_set_status P d i s = (d', ok)" "invar d'"
    "rows d' = update_rows (\<lambda>p. pm_id p = i) (set_status s) (rows d)"
    using set_status_row [OF assms] by blast
  have "evolves (rows d) (rows d')" unfolding d'(3)
  proof (rule evolves_set_status)
    fix q assume "q \<in> set (rows d)" "pm_id q = i"
    then have "q = p" using find_rows [OF assms, of i] p(1) distinct_id_eq [OF rows_ok [OF assms]] by metis
    with p(2) show "status_step payment_status_transitions (pm_status q) s" by (simp add: status_step.move)
  qed
  with True p d' show ?thesis by (simp add: update_payment_status_def)
next
  case False
  then have "fst (update_payment_status P (\<lambda>d. d) i s d) = d"
    by (auto simp: update_payment_status_def split: option.splits)
  with assms show ?thesis by (simp add: evolves_refl)
qed

lemma sweep_evolves:
  "invar d \<Longrightarrow> sweep_loop P hook (\<lambda>d. d) t fuel c d n jobs = Some (d', n', jobs') \<Longrightarrow> invar d' \<and> evolves (rows d) (rows d')"
proof (induction fuel arbitrary: c d n jobs)
  case (Suc fuel)
  define B where "B = po_stale P d t c cron_batch"
  show ?case
  proof (cases "B = []")
    case True
    with Suc.prems show ?thesis by (simp add: B_def evolves_refl)
  next
    case False
    obtain d1 k where d1: "po_set_status_in P d (map pm_id B) ''cancelled'' = (d1, k)" "invar d1"
      "rows d1 = update_rows (\<lambda>p. pm_id p \<in> set (map pm_id B)) (set_status ''cancelled'') (rows d)"
      using set_status_in_rows [OF Suc.prems(1)] by blast
    have "evolves (rows d) (rows d1)" unfolding d1(3)
    proof (rule evolves_set_status)
      fix p assume "p \<in> set (rows d)" "pm_id p \<in> set (map pm_id B)"
      then obtain q where q: "q \<in> set B" "pm_id q = pm_id p" by auto
      then have "q \<in> set (rows d)" "stale_at t q"
        using stale_rows [OF Suc.prems(1)] by (auto simp: B_def dest!: in_set_takeD)
      with q \<open>p \<in> set (rows d)\<close> have "pm_status p = ''initiated''"
        using distinct_id_eq [OF rows_ok [OF Suc.prems(1)]] by (metis stale_at_def)
      then show "status_step payment_status_transitions (pm_status p) ''cancelled''" by (simp add: initiated_step)
    qed
    moreover have "sweep_loop P hook (\<lambda>d. d) t (Suc fuel) c d n jobs =
        (if length B < cron_batch then Some (d1, n + k, jobs @ expiry_jobs hook B)
         else sweep_loop P hook (\<lambda>d. d) t fuel (Some (pm_id (last B))) d1 (n + k) (jobs @ expiry_jobs hook B))"
      using False d1(1) by (simp add: B_def Let_def)
    ultimately show ?thesis
      using Suc.IH [OF d1(2)] Suc.prems(2) d1(2) by (auto split: if_splits intro: evolves_trans)
  qed
qed simp

lemma payment_step_evolves:
  assumes "invar (gw_db st)"
  shows "invar (gw_db (payment_step P checks admin fuel e st)) \<and>
    evolves (rows (gw_db st)) (rows (gw_db (payment_step P checks admin fuel e st)))"
proof (cases e)
  case (PaymentRequested fx who header b i now)
  obtain st1 mo where c: "cached_merchant (int now) (pb_merchant b) st = (st1, mo)" by force
  have inv: "invar (gw_db st1)" "gw_db st1 = gw_db st" using cached_merchant_db [OF c] assms by simp_all
  from c have "invar (gw_db (fst (create_payment P checks admin (\<lambda>d. d) fx who header b i now st))) \<and>
    evolves (rows (gw_db st)) (rows (gw_db (fst (create_payment P checks admin (\<lambda>d. d) fx who header b i now st))))"
  proof (cases rule: create_payment_cases [where P = P and checks = checks and admin = admin and env = "\<lambda>d. d"
        and fx = fx and who = who and header = header and new_id = i])
    case (refused c e s)
    with inv assms show ?thesis by (auto simp: evolves_refl)
  next
    case (inserted quote m)
    with insert_evolves [OF inv(1)] inv(2) show ?thesis by simp
  qed (use inv in \<open>simp_all add: evolves_refl\<close>)
  with PaymentRequested show ?thesis by simp
next
  case (StatusPatched i s)
  with update_status_evolves [OF assms] show ?thesis by simp
next
  case (BulkCancelled m ids)
  obtain d where d: "cancel_all P (filter (to_cancel m (po_find P (gw_db st))) (js_distinct ids)) (gw_db st) = Some d" "invar d"
    "rows d = update_rows (\<lambda>p. pm_id p \<in> set ids \<and> pm_merchant p = m \<and> pm_status p = ''initiated'') (set_status ''cancelled'') (rows (gw_db st))"
    using cancelled_rows [OF assms] by blast
  have "evolves (rows (gw_db st)) (rows d)" unfolding d(3) by (rule evolves_set_status) (simp add: initiated_step)
  with BulkCancelled d(1,2) show ?thesis by simp
next
  case (PaymentsSwept hours now)
  show ?thesis
  proof (cases "hours \<le> 0")
    case True
    with PaymentsSwept assms show ?thesis by (simp add: auto_expire_abandoned_def evolves_refl)
  next
    case False
    show ?thesis
    proof (cases "auto_expire_abandoned P (\<lambda>_. None) (\<lambda>d. d) fuel hours now (gw_db st)")
      case None
      with PaymentsSwept assms show ?thesis by (simp add: evolves_refl)
    next
      case (Some r)
      obtain d n jobs where r: "r = (d, n, jobs)" by (cases r) auto
      with Some False have "sweep_loop P (\<lambda>_. None) (\<lambda>d. d) (nat (int now - hours * 60 * 60 * 1000)) fuel None (gw_db st) 0 [] = Some (d, n, jobs)"
        by (simp add: auto_expire_abandoned_def)
      from sweep_evolves [OF assms this] PaymentsSwept Some r show ?thesis by simp
    qed
  qed
next
  case (KeysReclaimed now)
  with reclaim_rows [OF assms, of now] show ?thesis by (auto simp: evolves_clear_key)
next
  case (MerchantDeleted i now)
  obtain d where d: "fst (po_cancel_merchant P (gw_db st) i) = d" "invar d"
    "rows d = update_rows (\<lambda>p. pm_merchant p = i \<and> pm_status p = ''initiated'') (set_status ''cancelled'') (rows (gw_db st))"
    using cancel_merchant_rows [OF assms, of i] by auto
  have "evolves (rows (gw_db st)) (rows d)" unfolding d(3) by (rule evolves_set_status) (simp add: initiated_step)
  with MerchantDeleted d(1,2) assms show ?thesis
    by (auto simp: delete_merchant_def change_merchant_def evolves_refl Let_def split: option.splits)
qed (use assms in \<open>auto simp: set_merchant_status_def restore_merchant_def change_merchant_def Let_def evolves_refl split: option.splits\<close>)

end


definition demo_merchant :: gw_merchant where
  "demo_merchant = \<lparr> gm_owner = ''o'', gm_status = ''active'', gm_deleted = None \<rparr>"

definition demo_gateway :: "payment list gateway" where
  "demo_gateway = \<lparr> gw_db = demo_table, gw_merchants = [(''M'', demo_merchant)], gw_cache = new_merchant_cache None,
     gw_events = [], gw_settlements = [(''s'', ''M'', ''pending'')] \<rparr>"

definition demo_body :: payment_body where
  "demo_body = \<lparr> pb_merchant = ''M'', pb_amount = ''5'', pb_asset = ''USDC'', pb_convert_to = None, pb_payer = None, pb_reference = None,
     pb_idempotency = None \<rparr>"

definition demo_checks :: body_checks where
  "demo_checks = \<lparr> bc_stellar = (\<lambda>_. True), bc_uuid = (\<lambda>_. True) \<rparr>"

definition demo_caller :: caller where
  "demo_caller = \<lparr> ca_merchant = Some ''M'', ca_owner = Some ''o'' \<rparr>"

lemma demo_gateway_ok: "table_ok (gw_db demo_gateway)"
  by (simp add: demo_gateway_def demo_table_ok)



subsection \<open>Suspension and deletion\<close>

text \<open>The merchant is suspended, and so is any copy of it in the cache.\<close>

definition suspended_everywhere :: "string \<Rightarrow> 'd gateway \<Rightarrow> bool" where
  "suspended_everywhere i st = ((\<exists>m. map_of (gw_merchants st) i = Some m \<and> gm_status m = ''suspended'') \<and>
     (\<forall>m e. map_of (mc_store (gw_cache st)) i = Some (m, e) \<longrightarrow> gm_status m = ''suspended''))"

lemma cached_merchant_keeps:
  assumes "suspended_everywhere i st" "cached_merchant now j st = (st1, m)"
  shows "suspended_everywhere i st1" "i = j \<Longrightarrow> m = None \<or> (\<exists>x. m = Some x \<and> gm_status x = ''suspended'')"
  using assms
  by (auto simp: suspended_everywhere_def cached_merchant_def get_cached_merchant_def cache_get_def cache_set_def live_merchant_def
      split: option.splits if_splits)

lemma suspended_refused:
  assumes "suspended_everywhere (pb_merchant b) st"
  shows "\<exists>c e. snd (create_payment P checks admin env fx who header b new_id now st) = PaymentRefused c e"
proof -
  obtain st1 mo where c: "cached_merchant (int now) (pb_merchant b) st = (st1, mo)" by force
  then show ?thesis using cached_merchant_keeps(2) [OF assms c]
    by (cases "refused_body checks b") (auto simp: create_payment_def)
qed

lemma create_keeps_suspended:
  assumes "suspended_everywhere i st"
  shows "suspended_everywhere i (fst (create_payment P checks admin env fx who header b new_id now st))"
proof -
  obtain st1 mo where c: "cached_merchant (int now) (pb_merchant b) st = (st1, mo)" by force
  note st1 = cached_merchant_keeps(1) [OF assms c]
  from c show ?thesis
  proof (cases rule: create_payment_cases [where P = P and checks = checks and admin = admin and env = env
        and fx = fx and who = who and header = header and new_id = new_id])
    case (inserted quote m)
    with st1 show ?thesis by (auto simp: insert_payment_def suspended_everywhere_def Let_def split: prod.splits bool.splits)
  qed (use assms st1 in auto)
qed

lemma step_keeps_suspended:
  assumes "suspended_everywhere i st" "\<forall>s. e \<noteq> MerchantStatusSet i s"
  shows "suspended_everywhere i (payment_step P checks admin fuel e st)"
proof (cases e)
  case (PaymentRequested fx who header b j now)
  with create_keeps_suspended [OF assms(1)] show ?thesis by simp
next
  case (MerchantStatusSet j s)
  with assms show ?thesis
    by (auto simp: suspended_everywhere_def set_merchant_status_def change_merchant_def cache_invalidate_def Let_def split: option.splits)
qed (use assms in \<open>auto simp: suspended_everywhere_def delete_merchant_def restore_merchant_def change_merchant_def Let_def
    split: option.splits prod.splits\<close>)



text \<open>
  Deleting does not drop the cached merchant: a copy in the cache is used until it expires, and
  a payment is created for the deleted merchant.
\<close>

lemma deleted_merchant_still_paid:
  assumes "refused_body checks b = None" "pb_convert_to b = None"
    and "map_of (mc_store (gw_cache st)) (pb_merchant b) = Some (m, e)" "int now \<le> e"
    and "gm_status m \<noteq> ''suspended''" "ca_merchant who = Some admin"
    and "delete_merchant P (pb_merchant b) t st = (st1, MerchantDone)"
    and "po_create P (env (gw_db st1)) (new_payment b new_id None now) = (d, True)"
  shows "snd (create_payment P checks admin env fx who None b new_id now st1) = PaymentCreated (new_payment b new_id None now) None"
proof -
  have "gw_cache st1 = gw_cache st" using assms(7)
    by (auto simp: delete_merchant_def change_merchant_def Let_def split: option.splits)
  then have "cached_merchant (int now) (pb_merchant b) st1 = (st1, Some m)" using assms(3,4)
    by (simp add: cached_merchant_def get_cached_merchant_def cache_get_def)
  with assms show ?thesis
    by (simp add: create_payment_def read_idempotency_key_def insert_payment_def Let_def)
qed

subsection \<open>The sweep against other writers\<close>

text \<open>
  The update of a batch goes by id alone. A payment that another request moves between the read
  of its batch and the update is cancelled all the same, so a completed payment is lost.
\<close>

lemma sweep_overwrites_concurrent_status:
  assumes "payment_store P invar rows" "invar d" "0 < hours" "cutoff = nat (int now - hours * 60 * 60 * 1000)"
    and "length (filter (stale_at cutoff) (rows d)) < cron_batch" "p \<in> set (rows d)" "stale_at cutoff p"
    and "invar (env d)" "q \<in> set (rows (env d))" "pm_id q = pm_id p"
  shows "\<exists>d' n jobs. auto_expire_abandoned P hook env 1 hours now d = Some (d', n, jobs) \<and> set_status ''cancelled'' q \<in> set (rows d')"
proof -
  define B where "B = filter (stale_at cutoff) (rows d)"
  have B: "po_stale P d cutoff None cron_batch = B" "pm_id q \<in> set (map pm_id B)" "B \<noteq> []" "length B < cron_batch"
    using payment_store.stale_rows [OF assms(1,2), of cutoff None] assms(5,6,7,10)
    by (auto simp: B_def beyond_cursor_def filter_empty_conv)
  obtain d' where d': "po_set_status_in P (env d) (map pm_id B) ''cancelled'' = (d', length (filter (\<lambda>p. pm_id p \<in> set (map pm_id B)) (rows (env d))))"
    "rows d' = update_rows (\<lambda>p. pm_id p \<in> set (map pm_id B)) (set_status ''cancelled'') (rows (env d))"
    using payment_store.set_status_in_rows [OF assms(1,8)] by blast
  have "set_status ''cancelled'' q \<in> set (rows d')"
    unfolding d'(2) update_rows_def set_map by (rule image_eqI [of _ _ q]) (use B(2) assms(9) in auto)
  with B d'(1) assms(3,4) show ?thesis by (simp add: auto_expire_abandoned_def Let_def)
qed

end
