(* ===== verification/AuthStore.thy ===== *)
theory AuthStore
  imports RedisStrings JsonCanon "HOL-Library.Product_Lexorder"
begin

section \<open>What the gateway keeps in Redis for authentication\<close>

text \<open>
  Redis as the authentication code of the gateway uses it: the string commands of
  \<open>RedisStrings\<close> and four commands on sorted sets, a parameter with the documented behaviour.
  \<open>zitems st k\<close> lists the members of the sorted set at \<open>k\<close> with their scores, in the order of
  Redis: by score, members of equal score by their bytes. The JSON text of the records is a codec.
\<close>

record 'r auth_ops =
  au_kv :: "'r kv_ops"
  au_zadd :: "'r \<Rightarrow> string \<Rightarrow> int \<Rightarrow> string \<Rightarrow> 'r"
  au_zcard :: "'r \<Rightarrow> string \<Rightarrow> nat"
  au_zrange :: "'r \<Rightarrow> string \<Rightarrow> int \<Rightarrow> int \<Rightarrow> string list"
  au_zrem :: "'r \<Rightarrow> string \<Rightarrow> string list \<Rightarrow> 'r"

type_synonym zitem = "int \<times> string"

definition zset_add :: "int \<Rightarrow> string \<Rightarrow> zitem list \<Rightarrow> zitem list" where
  "zset_add s m xs = insort (s, m) (filter (\<lambda>x. snd x \<noteq> m) xs)"

definition zset_rem :: "string list \<Rightarrow> zitem list \<Rightarrow> zitem list" where
  "zset_rem ms xs = filter (\<lambda>x. snd x \<notin> set ms) xs"

text \<open>\<open>ZRANGE key start stop\<close>: both ends inclusive, a negative end counts from the last member.\<close>

definition rank_of :: "nat \<Rightarrow> int \<Rightarrow> int" where
  "rank_of n i = (if i < 0 then int n + i else i)"

definition zset_slice :: "int \<Rightarrow> int \<Rightarrow> 'a list \<Rightarrow> 'a list" where
  "zset_slice lo hi xs =
     (let l = max 0 (rank_of (length xs) lo) in take (nat (rank_of (length xs) hi + 1 - l)) (drop (nat l) xs))"

locale auth_redis = redis_strings "au_kv A" invar entry
  for A :: "'r auth_ops" and invar :: "'r \<Rightarrow> bool" and entry :: "'r \<Rightarrow> string \<rightharpoonup> kv_entry" +
  fixes zitems :: "'r \<Rightarrow> string \<Rightarrow> zitem list"
  assumes zsorted: "invar st \<Longrightarrow> sorted (zitems st k) \<and> distinct (map snd (zitems st k))"
    and zadd: "invar st \<Longrightarrow> invar (au_zadd A st k s m) \<and> entry (au_zadd A st k s m) = entry st \<and>
      zitems (au_zadd A st k s m) = (zitems st)(k := zset_add s m (zitems st k))"
    and zcard: "invar st \<Longrightarrow> au_zcard A st k = length (zitems st k)"
    and zrange: "invar st \<Longrightarrow> au_zrange A st k lo hi = map snd (zset_slice lo hi (zitems st k))"
    and zrem: "invar st \<Longrightarrow> invar (au_zrem A st k ms) \<and> entry (au_zrem A st k ms) = entry st \<and>
      zitems (au_zrem A st k ms) = (zitems st)(k := zset_rem ms (zitems st k))"
    and set_zitems: "invar st \<Longrightarrow> zitems (kv_set (au_kv A) st now k v ttl) = zitems st"
    and set_nx_zitems: "invar st \<Longrightarrow> zitems (fst (kv_set_nx (au_kv A) st now k v px)) = zitems st"
    and incr_zitems: "invar st \<Longrightarrow> zitems (fst (kv_incr (au_kv A) st now k)) = zitems st"
    and pexpire_zitems: "invar st \<Longrightarrow> zitems (kv_pexpire (au_kv A) st now k px) = zitems st"
    and del_zitems: "invar st \<Longrightarrow> zitems (kv_del (au_kv A) st now k) = zitems st"
begin

lemmas zset_laws = zadd zrem zcard zrange set_zitems set_nx_zitems incr_zitems pexpire_zitems del_zitems

lemma kv_set_laws:
  assumes "invar st"
  shows "invar (kv_set (au_kv A) st now k v ttl)"
    "entry (kv_set (au_kv A) st now k v ttl) = (entry st)(k \<mapsto> (v, map_option (\<lambda>t. now + t) ttl))"
  using set_entry [OF assms] by blast+

lemma kv_del_laws:
  assumes "invar st"
  shows "invar (kv_del (au_kv A) st now k)" "entry (kv_del (au_kv A) st now k) = (entry st)(k := None)"
  using del_entry [OF assms] by blast+

lemma kv_pexpire_laws:
  assumes "invar st"
  shows "invar (kv_pexpire (au_kv A) st now k px)"
    "entry (kv_pexpire (au_kv A) st now k px) = (case kv_live now (entry st k) of
          None \<Rightarrow> entry st | Some v \<Rightarrow> (entry st)(k \<mapsto> (v, Some (now + px))))"
  using pexpire_entry [OF assms] by blast+

lemma kv_incr_laws:
  assumes "invar st"
  shows "invar (fst (kv_incr (au_kv A) st now k))"
    "snd (kv_incr (au_kv A) st now k) = kv_counter (kv_live now (entry st k)) + 1"
    "entry (fst (kv_incr (au_kv A) st now k)) = (entry st)(k \<mapsto>
        (string_of_int (kv_counter (kv_live now (entry st k)) + 1), kv_expiry now (entry st k)))"
  using incr_entry [OF assms, of now k] by auto

lemma kv_set_nx_laws:
  assumes "invar st"
  shows "invar (fst (kv_set_nx (au_kv A) st now k v px))"
    "snd (kv_set_nx (au_kv A) st now k v px) = (kv_live now (entry st k) = None)"
    "k' \<noteq> k \<Longrightarrow> entry (fst (kv_set_nx (au_kv A) st now k v px)) k' = entry st k'"
  using set_nx_entry [OF assms, of now k v px] by (auto split: if_splits)

end

subsection \<open>A reference implementation\<close>

type_synonym auth_mem = "kv_store \<times> (string, zitem list) jsmap"

definition am_items :: "auth_mem \<Rightarrow> string \<Rightarrow> zitem list" where
  "am_items st k = (case map_of (snd st) k of Some z \<Rightarrow> z | None \<Rightarrow> [])"

definition am_kv :: "auth_mem kv_ops" where
  "am_kv = \<lparr>
     kv_get = (\<lambda>st. kv_get kvs_ops (fst st)),
     kv_set = (\<lambda>st now k v px. (kv_set kvs_ops (fst st) now k v px, snd st)),
     kv_set_nx = (\<lambda>st now k v px. case kv_set_nx kvs_ops (fst st) now k v px of (s, ok) \<Rightarrow> ((s, snd st), ok)),
     kv_incr = (\<lambda>st now k. case kv_incr kvs_ops (fst st) now k of (s, n) \<Rightarrow> ((s, snd st), n)),
     kv_pexpire = (\<lambda>st now k px. (kv_pexpire kvs_ops (fst st) now k px, snd st)),
     kv_del = (\<lambda>st now k. (kv_del kvs_ops (fst st) now k, snd st)) \<rparr>"

definition am_ops :: "auth_mem auth_ops" where
  "am_ops = \<lparr>
     au_kv = am_kv,
     au_zadd = (\<lambda>st k s m. (fst st, js_set k (zset_add s m (am_items st k)) (snd st))),
     au_zcard = (\<lambda>st k. length (am_items st k)),
     au_zrange = (\<lambda>st k lo hi. map snd (zset_slice lo hi (am_items st k))),
     au_zrem = (\<lambda>st k ms. (fst st, js_set k (zset_rem ms (am_items st k)) (snd st))) \<rparr>"

definition am_invar :: "auth_mem \<Rightarrow> bool" where
  "am_invar st = (\<forall>k. sorted (am_items st k) \<and> distinct (map snd (am_items st k)))"

lemma zset_add_ordered:
  assumes "sorted xs" "distinct (map snd xs)"
  shows "sorted (zset_add s m xs) \<and> distinct (map snd (zset_add s m xs))"
proof -
  define ys where "ys = filter (\<lambda>x. snd x \<noteq> m) xs"
  have ys: "sorted ys" "distinct (map snd ys)" "m \<notin> snd ` set ys"
    using assms by (auto simp: ys_def distinct_map_filter sorted_wrt_filter)
  have "mset (map snd (insort (s, m) ys)) = mset (m # map snd ys)" by simp
  then have "distinct (map snd (insort (s, m) ys))"
    using ys(2,3) mset_eq_imp_distinct_iff [of "map snd (insort (s, m) ys)" "m # map snd ys"] by simp
  with ys(1) show ?thesis by (simp add: zset_add_def sorted_insort flip: ys_def)
qed

lemma zset_rem_ordered:
  "sorted xs \<Longrightarrow> distinct (map snd xs) \<Longrightarrow> sorted (zset_rem ms xs) \<and> distinct (map snd (zset_rem ms xs))"
  by (simp add: zset_rem_def distinct_map_filter sorted_wrt_filter)

lemma am_items_set [simp]: "am_items (a, js_set k z m) k' = (if k' = k then z else am_items (a, m) k')"
  by (simp add: am_items_def)

lemma am_items_fst [simp]: "am_items (a, snd st) k = am_items st k"
  by (simp add: am_items_def)

interpretation am: auth_redis am_ops am_invar "\<lambda>st. map_of (fst st)" am_items
  by unfold_locales
    (auto simp: am_ops_def am_kv_def kvs_ops_def am_invar_def Let_def zset_add_ordered zset_rem_ordered
      fun_eq_iff split: option.splits)

end
