(* ===== verification/WalletChallenges.thy ===== *)
theory WalletChallenges
  imports AuthStore
begin

section \<open>The wallet challenge store\<close>

text \<open>
  Model of \<open>api-gateway/src/wallet-challenge-store.ts\<close>. A function takes the time of the Redis
  server (\<open>rnow\<close>) and, where it reads the clock of the gateway, that time (\<open>now\<close>), both in
  milliseconds: the code does not assume that they agree. Random strings are arguments. The
  client is ioredis, which has the optional commands \<open>GET\<close>, \<open>INCR\<close> and \<open>EXPIRE\<close>.
\<close>

subsection \<open>JSON text\<close>

record json_text =
  jt_text :: "json \<Rightarrow> string"
  jt_parse :: "string \<Rightarrow> json option"

text \<open>\<open>v?.k\<close>: \<open>JDrop\<close> is \<open>undefined\<close>.\<close>

definition json_field :: "string \<Rightarrow> json \<Rightarrow> json" where
  "json_field k v = (case v of JObj kvs \<Rightarrow> (case map_of kvs k of Some w \<Rightarrow> w | None \<Rightarrow> JDrop) | _ \<Rightarrow> JDrop)"

definition json_put :: "string \<Rightarrow> json \<Rightarrow> json \<Rightarrow> json" where
  "json_put k w v = (case v of JObj kvs \<Rightarrow> JObj (js_set k w kvs) | _ \<Rightarrow> v)"

text \<open>The values the records of this code consist of: strings and times.\<close>

fun flat_value :: "json \<Rightarrow> bool" where
  "flat_value (JStr s) = True"
| "flat_value (JNum q) = (0 \<le> q \<and> q = of_int (floor q))"
| "flat_value _ = False"

definition flat_entries :: "(string \<times> json) list \<Rightarrow> bool" where
  "flat_entries kvs = list_all (\<lambda>(k, v). flat_value v) kvs"

text \<open>
  \<open>JSON.parse(JSON.stringify(o))\<close> gives back an object of strings and times, whose text is not
  empty.
\<close>

locale json_codec =
  fixes C :: json_text
  assumes parse_text: "flat_entries kvs \<Longrightarrow> jt_parse C (jt_text C (JObj kvs)) = Some (JObj kvs)"
    and text_not_empty: "jt_text C (JObj kvs) \<noteq> []"

subsection \<open>Issue and consume\<close>

definition wallet_challenge_ttl_ms :: nat where
  "wallet_challenge_ttl_ms = 2 * 60 * 1000"

definition default_wallet_auth_max_failures :: nat where
  "default_wallet_auth_max_failures = 5"

definition default_wallet_auth_lockout_ttl_sec :: nat where
  "default_wallet_auth_lockout_ttl_sec = 15 * 60"

definition wallet_challenge_key :: "string \<Rightarrow> string" where
  "wallet_challenge_key address = ''wallet_challenge:'' @ address"

definition wallet_auth_fail_key :: "string \<Rightarrow> string" where
  "wallet_auth_fail_key address = ''wallet_fail:'' @ address"

record stored_wallet_challenge =
  sc_challenge :: string
  sc_nonce :: string
  sc_address :: string
  sc_issued_at :: nat
  sc_expires_at :: nat

definition challenge_json :: "stored_wallet_challenge \<Rightarrow> json" where
  "challenge_json c = JObj [(''challenge'', JStr (sc_challenge c)), (''nonce'', JStr (sc_nonce c)),
     (''address'', JStr (sc_address c)), (''issuedAt'', JNum (of_nat (sc_issued_at c))),
     (''expiresAt'', JNum (of_nat (sc_expires_at c)))]"

text \<open>\<open>nonce\<close> and \<open>salt\<close> are the two results of \<open>randomBytes(16).toString("hex")\<close>.\<close>

definition issue ::
  "'r auth_ops \<Rightarrow> json_text \<Rightarrow> nat \<Rightarrow> string \<Rightarrow> string \<Rightarrow> string \<Rightarrow> nat \<Rightarrow> nat \<Rightarrow> 'r \<Rightarrow>
   'r \<times> stored_wallet_challenge" where
  "issue A C ttl address nonce salt rnow now st =
     (let c = \<lparr> sc_challenge = nonce @ '':'' @ salt, sc_nonce = nonce, sc_address = address,
                sc_issued_at = now, sc_expires_at = now + ttl \<rparr>
      in (kv_set (au_kv A) st rnow (wallet_challenge_key address) (jt_text C (challenge_json c)) (Some ttl), c))"

text \<open>
  What the checks of \<open>consume\<close> establish of the parsed record: three fields have their type,
  the nonce may be anything.
\<close>

record taken_challenge =
  tc_challenge :: string
  tc_address :: string
  tc_expires_at :: rat
  tc_nonce :: json

datatype consume_result = ValidChallenge taken_challenge | ChallengeNotFound | ChallengeExpired

definition checked_record :: "json \<Rightarrow> taken_challenge option" where
  "checked_record v = (case (json_field ''challenge'' v, json_field ''address'' v, json_field ''expiresAt'' v) of
     (JStr c, JStr a, JNum e) \<Rightarrow>
        Some \<lparr> tc_challenge = c, tc_address = a, tc_expires_at = e, tc_nonce = json_field ''nonce'' v \<rparr>
   | _ \<Rightarrow> None)"

definition consume_script :: "'r auth_ops \<Rightarrow> string \<Rightarrow> nat \<Rightarrow> 'r \<Rightarrow> 'r \<times> string option" where
  "consume_script A key rnow st = (case kv_get (au_kv A) st rnow key of
     Some v \<Rightarrow> (kv_del (au_kv A) st rnow key, Some v)
   | None \<Rightarrow> (st, None))"

definition consume_answer :: "json_text \<Rightarrow> nat \<Rightarrow> string option \<Rightarrow> consume_result" where
  "consume_answer C now raw = (case raw of None \<Rightarrow> ChallengeNotFound
     | Some s \<Rightarrow> if s = '''' then ChallengeNotFound else (case jt_parse C s of
         None \<Rightarrow> ChallengeNotFound
       | Some v \<Rightarrow> (case checked_record v of
           None \<Rightarrow> ChallengeNotFound
         | Some c \<Rightarrow> if tc_expires_at c < of_nat now then ChallengeExpired else ValidChallenge c)))"

definition consume ::
  "'r auth_ops \<Rightarrow> json_text \<Rightarrow> string \<Rightarrow> nat \<Rightarrow> nat \<Rightarrow> 'r \<Rightarrow> 'r \<times> consume_result" where
  "consume A C address rnow now st = (case consume_script A (wallet_challenge_key address) rnow st of
     (st', raw) \<Rightarrow> (st', consume_answer C now raw))"

definition discard :: "'r auth_ops \<Rightarrow> string \<Rightarrow> nat \<Rightarrow> 'r \<Rightarrow> 'r" where
  "discard A address rnow st = kv_del (au_kv A) st rnow (wallet_challenge_key address)"

subsection \<open>Failed attempts\<close>

text \<open>\<open>None\<close> is \<open>NaN\<close>, which is never at the threshold.\<close>

definition get_failure_count :: "'r auth_ops \<Rightarrow> string \<Rightarrow> nat \<Rightarrow> 'r \<Rightarrow> int option" where
  "get_failure_count A address rnow st = (case kv_get (au_kv A) st rnow (wallet_auth_fail_key address) of
     None \<Rightarrow> Some 0 | Some s \<Rightarrow> if s = '''' then Some 0 else parse_int s)"

text \<open>\<open>expire_fails\<close>: the second command, \<open>EXPIRE\<close>, throws, and so does the call.\<close>

definition record_failure ::
  "'r auth_ops \<Rightarrow> bool \<Rightarrow> nat \<Rightarrow> string \<Rightarrow> nat \<Rightarrow> 'r \<Rightarrow> 'r \<times> int option" where
  "record_failure A expire_fails ttl_seconds address rnow st =
     (case kv_incr (au_kv A) st rnow (wallet_auth_fail_key address) of
        (st1, n) \<Rightarrow>
          if n = 1
          then (if expire_fails then (st1, None)
                else (kv_pexpire (au_kv A) st1 rnow (wallet_auth_fail_key address) (ttl_seconds * 1000), Some n))
          else (st1, Some n))"

definition reset_failures :: "'r auth_ops \<Rightarrow> string \<Rightarrow> nat \<Rightarrow> 'r \<Rightarrow> 'r" where
  "reset_failures A address rnow st = kv_del (au_kv A) st rnow (wallet_auth_fail_key address)"

definition is_locked_out :: "'r auth_ops \<Rightarrow> nat \<Rightarrow> string \<Rightarrow> nat \<Rightarrow> 'r \<Rightarrow> bool" where
  "is_locked_out A threshold address rnow st =
     (case get_failure_count A address rnow st of Some n \<Rightarrow> int threshold \<le> n | None \<Rightarrow> False)"

subsection \<open>Laws of the store\<close>

lemma digits_trimmed:
  "list_all is_digit s \<Longrightarrow> dropWhile is_space s = s \<and> take 1 s \<noteq> ''-'' \<and> take 1 s \<noteq> ''+'' \<and> takeWhile is_digit s = s"
  by (cases s) (auto simp: is_digit_def is_space_def char_code_def takeWhile_eq_all_conv list_all_iff)

lemma parse_string_of_int: "0 \<le> n \<Longrightarrow> parse_int (string_of_int n) = Some n"
proof -
  assume n: "0 \<le> n"
  define s where "s = digits_of_nat (nat n)"
  have s: "list_all is_digit s" "s \<noteq> []" "nat_of_digits s = nat n" by (simp_all add: s_def)
  have t: "takeWhile is_digit s = s" using s(1) by (simp add: list_all_iff)
  from n s digits_trimmed [OF s(1)] show ?thesis
    by (simp add: parse_int_def string_of_int_def Let_def t del: takeWhile_eq_all_conv flip: s_def)
qed

lemma string_of_int_neq_Nil [simp]: "string_of_int n \<noteq> []"
  by (simp add: string_of_int_def)

lemma flat_challenge: "\<exists>kvs. challenge_json c = JObj kvs \<and> flat_entries kvs"
  by (simp add: challenge_json_def flat_entries_def)

lemma checked_challenge:
  "checked_record (challenge_json c) =
     Some \<lparr> tc_challenge = sc_challenge c, tc_address = sc_address c,
            tc_expires_at = of_nat (sc_expires_at c), tc_nonce = JStr (sc_nonce c) \<rparr>"
  by (simp add: checked_record_def challenge_json_def json_field_def)

locale wallet_store = auth_redis A invar entry zitems + json_codec C
  for A :: "'r auth_ops" and invar :: "'r \<Rightarrow> bool" and entry :: "'r \<Rightarrow> string \<rightharpoonup> kv_entry"
    and zitems :: "'r \<Rightarrow> string \<Rightarrow> zitem list" and C :: json_text
begin

lemma challenge_text: "jt_parse C (jt_text C (challenge_json c)) = Some (challenge_json c)" "jt_text C (challenge_json c) \<noteq> []"
  using flat_challenge [of c] by (auto simp: parse_text text_not_empty)

lemma issue_laws:
  assumes "invar st" "issue A C ttl address nonce salt rnow now st = (st', c)"
  shows "invar st'"
    "entry st' = (entry st)(wallet_challenge_key address \<mapsto> (jt_text C (challenge_json c), Some (rnow + ttl)))"
    "c = \<lparr> sc_challenge = nonce @ '':'' @ salt, sc_nonce = nonce, sc_address = address,
           sc_issued_at = now, sc_expires_at = now + ttl \<rparr>"
  using assms kv_set_laws [OF assms(1)] by (auto simp: issue_def Let_def)

lemma consume_script_laws:
  assumes "invar st" "consume_script A key rnow st = (st', raw)"
  shows "invar st'" "raw = kv_live rnow (entry st key)"
    "entry st' = (if raw = None then entry st else (entry st)(key := None))"
  using assms kv_del_laws [OF assms(1)] get_entry [OF assms(1)]
  by (auto simp: consume_script_def split: option.splits)

lemma consume_laws:
  assumes "invar st" "consume A C address rnow now st = (st', r)"
  shows "invar st'" "r = consume_answer C now (kv_live rnow (entry st (wallet_challenge_key address)))"
    "entry st' = (if kv_live rnow (entry st (wallet_challenge_key address)) = None then entry st
       else (entry st)(wallet_challenge_key address := None))"
  using assms consume_script_laws [OF assms(1)] by (auto simp: consume_def split: prod.splits)

lemma consumed_challenge:
  "consume_answer C now (Some (jt_text C (challenge_json c))) =
     (if sc_expires_at c < now then ChallengeExpired
      else ValidChallenge \<lparr> tc_challenge = sc_challenge c, tc_address = sc_address c,
             tc_expires_at = of_nat (sc_expires_at c), tc_nonce = JStr (sc_nonce c) \<rparr>)"
  by (simp add: consume_answer_def challenge_text checked_challenge)

end

subsection \<open>The lockout window\<close>

text \<open>
  The promise: failures are counted in a window that starts with the first one and lasts for the
  TTL. The state is the start of the window with the number of failures in it.
\<close>

datatype fail_event = FailedAt nat | SucceededAt nat | CheckedAt nat

fun window_step :: "nat \<Rightarrow> nat \<Rightarrow> fail_event \<Rightarrow> (nat \<times> int) option \<Rightarrow> (nat \<times> int) option \<times> bool list" where
  "window_step ttl k (FailedAt t) None = (Some (t, 1), [])"
| "window_step ttl k (FailedAt t) (Some (s, n)) = (if t < s + ttl then Some (s, n + 1) else Some (t, 1), [])"
| "window_step ttl k (SucceededAt t) w = (None, [])"
| "window_step ttl k (CheckedAt t) None = (None, [int k \<le> 0])"
| "window_step ttl k (CheckedAt t) (Some (s, n)) = (Some (s, n), [int k \<le> (if t < s + ttl then n else 0)])"

fun fail_step :: "'r auth_ops \<Rightarrow> nat \<Rightarrow> nat \<Rightarrow> string \<Rightarrow> fail_event \<Rightarrow> 'r \<Rightarrow> 'r \<times> bool list" where
  "fail_step A ttl k address (FailedAt t) st = (fst (record_failure A False ttl address t st), [])"
| "fail_step A ttl k address (SucceededAt t) st = (reset_failures A address t st, [])"
| "fail_step A ttl k address (CheckedAt t) st = (st, [is_locked_out A k address t st])"

fun answers :: "('e \<Rightarrow> 's \<Rightarrow> 's \<times> 'a list) \<Rightarrow> 'e list \<Rightarrow> 's \<Rightarrow> 's \<times> 'a list" where
  "answers f [] s = (s, [])"
| "answers f (e # es) s = (case f e s of (s', as) \<Rightarrow> (case answers f es s' of (s'', bs) \<Rightarrow> (s'', as @ bs)))"

definition window_entry :: "nat \<Rightarrow> (nat \<times> int) option \<Rightarrow> kv_entry option \<Rightarrow> bool" where
  "window_entry ttl w e = (case w of None \<Rightarrow> e = None
     | Some (s, n) \<Rightarrow> 1 \<le> n \<and> e = Some (string_of_int n, Some (s + ttl)))"

lemma kv_counter_string: "0 \<le> n \<Longrightarrow> kv_counter (Some (string_of_int n)) = n"
  by (simp add: kv_counter_def parse_string_of_int)

context auth_redis
begin

lemma record_failure_laws:
  assumes "invar st" "record_failure A xf ttl address rnow st = (st', r)"
  shows "invar st'" "zitems st' = zitems st"
    "\<And>k. k \<noteq> wallet_auth_fail_key address \<Longrightarrow> entry st' k = entry st k"
proof -
  let ?key = "wallet_auth_fail_key address"
  obtain st1 n where i: "kv_incr (au_kv A) st rnow ?key = (st1, n)" by force
  with assms have st1: "invar st1" "zitems st1 = zitems st" "\<And>k. k \<noteq> ?key \<Longrightarrow> entry st1 k = entry st k"
    using kv_incr_laws [OF assms(1), of rnow ?key] incr_zitems [OF assms(1), of rnow ?key] by auto
  have st': "st' = st1 \<or> st' = kv_pexpire (au_kv A) st1 rnow ?key (ttl * 1000)"
    using assms(2) i by (auto simp: record_failure_def split: if_splits)
  show "invar st'" "zitems st' = zitems st" "\<And>k. k \<noteq> ?key \<Longrightarrow> entry st' k = entry st k"
    using st' st1 kv_pexpire_laws [OF st1(1), of rnow ?key "ttl * 1000"] pexpire_zitems [OF st1(1)]
    by (auto split: option.splits)
qed

lemma fail_step_refines:
  assumes "invar st" "window_entry (ttl * 1000) w (entry st (wallet_auth_fail_key address))"
    and "fail_step A ttl k address e st = (st', as)"
  shows "invar st' \<and> window_entry (ttl * 1000) (fst (window_step (ttl * 1000) k e w)) (entry st' (wallet_auth_fail_key address)) \<and>
    as = snd (window_step (ttl * 1000) k e w)"
proof (cases e)
  case (FailedAt t)
  let ?key = "wallet_auth_fail_key address"
  note inc = kv_incr_laws [OF assms(1), of t ?key]
  obtain st1 n where i: "kv_incr (au_kv A) st t ?key = (st1, n)" by force
  note px = kv_pexpire_laws [of st1 t ?key "ttl * 1000"]
  from FailedAt assms(3) i have st': "st' = (if n = 1 then kv_pexpire (au_kv A) st1 t ?key (ttl * 1000) else st1)" "as = []"
    by (auto simp: record_failure_def)
  show ?thesis
  proof (cases w)
    case None
    with assms(2) have "entry st ?key = None" by (simp add: window_entry_def)
    with inc i px st' None FailedAt show ?thesis
      by (auto simp: kv_counter_def kv_live_def kv_expiry_def window_entry_def)
  next
    case (Some sn)
    obtain s m where sn: "sn = (s, m)" by force
    with assms(2) Some have e: "entry st ?key = Some (string_of_int m, Some (s + ttl * 1000))" "1 \<le> m"
      by (auto simp: window_entry_def)
    show ?thesis
    proof (cases "t < s + ttl * 1000")
      case True
      with inc i e have n: "n = m + 1" "invar st1"
          "entry st1 ?key = Some (string_of_int (m + 1), Some (s + ttl * 1000))"
        by (simp_all add: kv_live_def kv_expiry_def kv_counter_string)
      with st' e True Some sn FailedAt show ?thesis by (simp add: window_entry_def)
    next
      case False
      with inc i e px st' Some sn FailedAt show ?thesis
        by (auto simp: kv_counter_def kv_live_def kv_expiry_def window_entry_def)
    qed
  qed
next
  case (SucceededAt t)
  with assms show ?thesis using kv_del_laws [OF assms(1), of t] by (auto simp: reset_failures_def window_entry_def)
next
  case (CheckedAt t)
  with assms show ?thesis
    by (cases w) (auto simp: is_locked_out_def get_failure_count_def get_entry window_entry_def kv_live_def
        parse_string_of_int split: if_splits)
qed

lemma fail_run_refines:
  assumes "invar st" "window_entry (ttl * 1000) w (entry st (wallet_auth_fail_key address))"
  shows "snd (answers (fail_step A ttl k address) es st) = snd (answers (window_step (ttl * 1000) k) es w)"
  using assms
proof (induction es arbitrary: st w)
  case (Cons e es)
  obtain st' as where s: "fail_step A ttl k address e st = (st', as)" by force
  note r = fail_step_refines [OF Cons.prems s]
  with s Cons.IH [of st' "fst (window_step (ttl * 1000) k e w)"] show ?case
    by (simp add: case_prod_beta)
qed simp

end

subsection \<open>A codec\<close>

definition quote :: "string \<Rightarrow> string" where
  "quote s = concat (map (\<lambda>c. [CHR ''x'', c]) s) @ ''.''"

fun unquote :: "string \<Rightarrow> (string \<times> string) option" where
  "unquote [] = None"
| "unquote [a] = (if a = CHR ''.'' then Some ([], []) else None)"
| "unquote (a # c # r) = (if a = CHR ''.'' then Some ([], c # r) else map_option (\<lambda>(s, r'). (c # s, r')) (unquote r))"

fun value_text :: "json \<Rightarrow> string" where
  "value_text (JNum q) = CHR ''n'' # quote (digits_of_nat (nat (floor q)))"
| "value_text (JStr s) = CHR ''s'' # quote s"
| "value_text _ = ''s.''"

definition entries_text :: "(string \<times> json) list \<Rightarrow> string" where
  "entries_text kvs = concat (map (\<lambda>(k, v). quote k @ value_text v) kvs)"

fun read_entries :: "nat \<Rightarrow> string \<Rightarrow> (string \<times> json) list option" where
  "read_entries 0 s = (if s = [] then Some [] else None)"
| "read_entries (Suc n) s = (if s = [] then Some [] else (case unquote s of
     Some (k, tag # r) \<Rightarrow> (case unquote r of
       Some (v, r') \<Rightarrow> map_option
         (Cons (k, if tag = CHR ''n'' then JNum (of_nat (nat_of_digits v)) else JStr v)) (read_entries n r')
     | None \<Rightarrow> None)
   | _ \<Rightarrow> None))"

definition flat_codec :: json_text where
  "flat_codec = \<lparr>
     jt_text = (\<lambda>v. case v of JObj kvs \<Rightarrow> CHR ''{'' # entries_text kvs | _ \<Rightarrow> ''?''),
     jt_parse = (\<lambda>s. case s of c # r \<Rightarrow> if c = CHR ''{'' then map_option JObj (read_entries (length r) r) else None | [] \<Rightarrow> None) \<rparr>"

lemma unquote_quote [simp]: "unquote (quote s @ r) = Some (s, r)"
proof (induction s)
  case Nil
  then show ?case by (cases r) (simp_all add: quote_def)
next
  case (Cons c s)
  then show ?case by (simp add: quote_def)
qed

lemma quote_neq_Nil [simp]: "quote s \<noteq> []"
  by (simp add: quote_def)

lemma read_entries_text:
  "flat_entries kvs \<Longrightarrow> length kvs \<le> n \<Longrightarrow> read_entries n (entries_text kvs) = Some kvs"
proof (induction kvs arbitrary: n)
  case Nil
  then show ?case by (cases n) (simp_all add: entries_text_def)
next
  case (Cons kv kvs)
  obtain k v where kv: "kv = (k, v)" by force
  obtain m where n: "n = Suc m" using Cons.prems(2) by (cases n) auto
  have body: "entries_text (kv # kvs) = quote k @ value_text v @ entries_text kvs"
    by (simp add: kv entries_text_def)
  have IH: "read_entries m (entries_text kvs) = Some kvs"
    using Cons n by (simp add: flat_entries_def)
  from Cons.prems(1) kv consider (text_value) s where "v = JStr s" | (time_value) q where "v = JNum q" "0 \<le> q" "q = of_int (floor q)"
    by (cases v) (auto simp: flat_entries_def)
  then show ?case
  proof cases
    case text_value
    with IH show ?thesis by (simp only: body n) (simp add: kv)
  next
    case time_value
    then have "of_nat (nat (floor q)) = q" by (metis of_nat_nat zero_le_floor)
    with time_value(1) IH show ?thesis by (simp only: body n) (simp add: kv)
  qed
qed

lemma length_entries_text: "length kvs \<le> length (entries_text kvs)"
proof (induction kvs)
  case (Cons kv kvs)
  obtain k v where kv: "kv = (k, v)" by force
  have "1 \<le> length (quote k)" by (simp add: quote_def)
  with Cons kv show ?case by (simp add: entries_text_def)
qed simp

interpretation flat: json_codec flat_codec
  by unfold_locales (simp_all add: flat_codec_def read_entries_text length_entries_text)

interpretation wm: wallet_store am_ops am_invar "\<lambda>st. map_of (fst st)" am_items flat_codec
  by unfold_locales

subsection \<open>Properties\<close>

text \<open>
  C32: The lockout follows its window. From an address without failures, every sequence of
  failures, successful logins and checks, at any times, gets from the Redis counter the answers
  of the abstract window: failures count from the first one for the TTL, the next failure after
  that starts a new window, a success clears it, and an address is locked out exactly when the
  count of its window has reached the threshold.
\<close>

theorem lockout_refines_window:
  assumes "auth_redis A invar entry zitems" "invar st" "entry st (wallet_auth_fail_key address) = None"
  shows "snd (answers (fail_step A ttl k address) es st) = snd (answers (window_step (ttl * 1000) k) es None)"
  by (rule auth_redis.fail_run_refines [OF assms(1,2)]) (simp add: window_entry_def assms(3))

lemma lockout_refines_window_witness:
  "snd (answers (fail_step am_ops default_wallet_auth_lockout_ttl_sec default_wallet_auth_max_failures ''GA'')
     [FailedAt 0, FailedAt 1000, FailedAt 2000, FailedAt 3000, CheckedAt 3500, FailedAt 4000,
      CheckedAt 5000, CheckedAt 899999, CheckedAt 900000] ([], [])) = [False, True, True, False]"
  by (subst lockout_refines_window [OF am.auth_redis_axioms])
     (simp_all add: am_invar_def am_items_def default_wallet_auth_lockout_ttl_sec_def default_wallet_auth_max_failures_def)

text \<open>
  C44: \<open>recordFailure\<close> counts and sets the TTL in two commands. When the second one fails on the
  first failure of an address, the counter never expires: once the threshold is reached, at
  whatever times the other failures come, the address is locked out at every later time.
\<close>

theorem lost_expire_locks_out:
  assumes "auth_redis A invar entry zitems" "invar st" "entry st (wallet_auth_fail_key address) = None"
    and "record_failure A True ttl address t st = (st1, r)" "k \<le> Suc (length ts)"
  shows "r = None \<and> is_locked_out A k address t' (fst (answers (fail_step A ttl k address) (map FailedAt ts) st1))"
proof -
  let ?key = "wallet_auth_fail_key address"
  have step: "invar s' \<and> entry s' ?key = Some (string_of_int (n + 1), None)"
    if "invar s" "entry s ?key = Some (string_of_int n, None)" "1 \<le> n" "fail_step A ttl k address (FailedAt u) s = (s', as)"
    for s n u s' as
    using that auth_redis.kv_incr_laws [OF assms(1) that(1), of u ?key]
    by (auto simp: record_failure_def kv_live_def kv_expiry_def kv_counter_string split: prod.splits)
  have run: "invar (fst (answers (fail_step A ttl k address) (map FailedAt us) s)) \<and>
      entry (fst (answers (fail_step A ttl k address) (map FailedAt us) s)) ?key = Some (string_of_int (n + int (length us)), None)"
    if "invar s" "entry s ?key = Some (string_of_int n, None)" "1 \<le> n" for us s n
    using that
  proof (induction us arbitrary: s n)
    case (Cons u us)
    obtain s' as where f: "fail_step A ttl k address (FailedAt u) s = (s', as)" by force
    from step [OF Cons.prems f] Cons.IH [of s' "n + 1"] Cons.prems(3) f show ?case
      by (simp add: case_prod_beta algebra_simps)
  qed simp
  have st1: "invar st1" "entry st1 ?key = Some (string_of_int 1, None)" "r = None"
    using assms(3,4) auth_redis.kv_incr_laws [OF assms(1,2), of t ?key]
    by (auto simp: record_failure_def kv_live_def kv_expiry_def kv_counter_def split: prod.splits if_splits)
  note e = run [OF st1(1,2) order_refl, of ts]
  have "kv_get (au_kv A) s t' ?key = kv_live t' (entry s ?key)" if "invar s" for s
    using redis_strings.get_entry [OF auth_redis.axioms(1) [OF assms(1)] that] .
  with e assms(5) st1(3) show ?thesis
    by (simp add: is_locked_out_def get_failure_count_def kv_live_def parse_string_of_int)
qed

lemma lost_expire_locks_out_witness:
  "is_locked_out am_ops 5 ''GA'' (100 * 365 * 24 * 3600 * 1000)
     (fst (answers (fail_step am_ops 900 5 ''GA'') (map FailedAt [10, 20, 30, 40])
       (fst (record_failure am_ops True 900 ''GA'' 0 ([], [])))))"
  using lost_expire_locks_out [OF am.auth_redis_axioms, of "([], [])" "''GA''" 900 0 _ _ 5 "[10, 20, 30, 40]"]
  by (simp add: am_invar_def am_items_def prod_eq_iff)

end
