(* ===== verification/AuthSessions.thy ===== *)
theory AuthSessions
  imports WalletChallenges
begin

section \<open>Sessions, token revocation and refresh\<close>

text \<open>
  Model of the authentication state of the gateway (\<open>api-gateway/src/index.ts\<close>): the session
  records with their per-merchant index, the blocklist of token ids, the refresh limit, the score
  of failing IP addresses, and the handlers of \<open>authenticate\<close>, \<open>/api/auth/refresh\<close> and
  \<open>/api/auth/logout\<close>. Times are milliseconds of one clock. Where a handler reads and later
  writes, \<open>env\<close> is what other requests do to Redis in between. A verified token is its payload,
  a failed verification is \<open>None\<close>; a fresh token id is an argument.
\<close>

subsection \<open>Keys\<close>

definition session_key :: "string \<Rightarrow> string" where "session_key jti = ''session:'' @ jti"
definition session_index_key :: "string \<Rightarrow> string" where "session_index_key merchant = ''sessions:'' @ merchant"
definition revoked_jti_key :: "string \<Rightarrow> string" where "revoked_jti_key jti = ''revoked_jti:'' @ jti"
definition used_nonce_key :: "string \<Rightarrow> string" where "used_nonce_key nonce = ''used_nonce:'' @ nonce"
definition refresh_rate_key :: "string \<Rightarrow> string" where "refresh_rate_key merchant = ''auth_refresh_rate:'' @ merchant"
definition auth_ip_score_key :: "string \<Rightarrow> string" where "auth_ip_score_key ip = ''auth_ip_score:'' @ ip"

lemmas auth_keys = session_key_def session_index_key_def revoked_jti_key_def used_nonce_key_def
  refresh_rate_key_def auth_ip_score_key_def wallet_challenge_key_def wallet_auth_fail_key_def

lemma revoked_key_differs [simp]:
  "session_key x \<noteq> revoked_jti_key j" "session_index_key x \<noteq> revoked_jti_key j"
  "used_nonce_key x \<noteq> revoked_jti_key j" "refresh_rate_key x \<noteq> revoked_jti_key j"
  "auth_ip_score_key x \<noteq> revoked_jti_key j" "wallet_challenge_key x \<noteq> revoked_jti_key j"
  "wallet_auth_fail_key x \<noteq> revoked_jti_key j" "revoked_jti_key x = revoked_jti_key j \<longleftrightarrow> x = j"
  by (simp_all add: auth_keys)

definition session_limit_per_merchant :: nat where "session_limit_per_merchant = 10"
definition auth_ip_score_ttl_seconds :: nat where "auth_ip_score_ttl_seconds = 15 * 60"
definition refresh_rate_limit_max :: int where "refresh_rate_limit_max = 10"
definition refresh_rate_limit_seconds :: nat where "refresh_rate_limit_seconds = 60"
definition nonce_ttl_seconds :: nat where "nonce_ttl_seconds = 5 * 60"

subsection \<open>The score of an IP address\<close>

text \<open>
  \<open>Number(s)\<close> on the texts the keys hold, integers; \<open>None\<close> is \<open>NaN\<close>. A failing Redis is
  caught: the score reads as 0 and updates are dropped.
\<close>

definition number_of_text :: "string \<Rightarrow> int option" where
  "number_of_text s =
     (let t = trim s; u = (if take 1 t = ''-'' \<or> take 1 t = ''+'' then drop 1 t else t)
      in if t = [] then Some 0 else if u \<noteq> [] \<and> list_all is_digit u then parse_int t else None)"

definition text_of_number :: "int option \<Rightarrow> string" where
  "text_of_number n = (case n of Some i \<Rightarrow> string_of_int i | None \<Rightarrow> ''NaN'')"

definition get_auth_ip_score :: "'r auth_ops \<Rightarrow> bool \<Rightarrow> string \<Rightarrow> nat \<Rightarrow> 'r \<Rightarrow> int option" where
  "get_auth_ip_score A fails ip now st = (if fails then Some 0 else (case kv_get (au_kv A) st now (auth_ip_score_key ip) of
     None \<Rightarrow> Some 0 | Some s \<Rightarrow> number_of_text s))"

definition record_auth_ip_failure :: "'r auth_ops \<Rightarrow> bool \<Rightarrow> string \<Rightarrow> nat \<Rightarrow> 'r \<Rightarrow> 'r" where
  "record_auth_ip_failure A fails ip now st = (if fails then st else
     kv_pexpire (au_kv A) (fst (kv_incr (au_kv A) st now (auth_ip_score_key ip))) now (auth_ip_score_key ip)
       (auth_ip_score_ttl_seconds * 1000))"

definition record_auth_ip_success :: "'r auth_ops \<Rightarrow> bool \<Rightarrow> string \<Rightarrow> nat \<Rightarrow> 'r \<Rightarrow> 'r" where
  "record_auth_ip_success A fails ip now st = (if fails then st else
     (let next = map_option (\<lambda>n. max 0 (n - 1)) (get_auth_ip_score A False ip now st)
      in if next = Some 0 then kv_del (au_kv A) st now (auth_ip_score_key ip)
         else kv_set (au_kv A) st now (auth_ip_score_key ip) (text_of_number next) (Some (auth_ip_score_ttl_seconds * 1000))))"

definition enforce_auth_ip_reputation :: "'r auth_ops \<Rightarrow> bool \<Rightarrow> int \<Rightarrow> string \<Rightarrow> nat \<Rightarrow> 'r \<Rightarrow> bool" where
  "enforce_auth_ip_reputation A fails threshold ip now st =
     (case get_auth_ip_score A fails ip now st of Some n \<Rightarrow> n < threshold | None \<Rightarrow> True)"

subsection \<open>The blocklist, the refresh limit and used nonces\<close>

definition is_jti_revoked :: "'r auth_ops \<Rightarrow> string \<Rightarrow> nat \<Rightarrow> 'r \<Rightarrow> bool" where
  "is_jti_revoked A jti now st = (kv_get (au_kv A) st now (revoked_jti_key jti) \<noteq> None)"

definition revoke_jti :: "'r auth_ops \<Rightarrow> string \<Rightarrow> nat \<Rightarrow> nat \<Rightarrow> 'r \<Rightarrow> 'r" where
  "revoke_jti A jti ttl_seconds now st = kv_set (au_kv A) st now (revoked_jti_key jti) ''1'' (Some (ttl_seconds * 1000))"

definition increment_refresh_rate :: "'r auth_ops \<Rightarrow> string \<Rightarrow> nat \<Rightarrow> 'r \<Rightarrow> 'r \<times> int" where
  "increment_refresh_rate A merchant now st = (case kv_incr (au_kv A) st now (refresh_rate_key merchant) of
     (st', n) \<Rightarrow> (if n = 1 then kv_pexpire (au_kv A) st' now (refresh_rate_key merchant) (refresh_rate_limit_seconds * 1000)
                  else st', n))"

definition mark_nonce_used :: "'r auth_ops \<Rightarrow> string \<Rightarrow> nat \<Rightarrow> 'r \<Rightarrow> 'r \<times> bool" where
  "mark_nonce_used A nonce now st = kv_set_nx (au_kv A) st now (used_nonce_key nonce) ''1'' (nonce_ttl_seconds * 1000)"

subsection \<open>Sessions\<close>

text \<open>
  \<open>show_time\<close> prints a time as \<open>toISOString\<close> does; \<open>Date.parse\<close> of that text is the time again, so
  the score of a session in its index is the time itself. A record whose text is not JSON makes
  the call throw (\<open>Inl ()\<close>).
\<close>

definition session_json :: "(nat \<Rightarrow> string) \<Rightarrow> string \<Rightarrow> string \<Rightarrow> nat \<Rightarrow> json" where
  "session_json show_time merchant device now = JObj [(''merchantId'', JStr merchant), (''deviceInfo'', JStr device),
     (''createdAt'', JStr (show_time now)), (''lastUsedAt'', JStr (show_time now))]"

definition get_session_metadata :: "'r auth_ops \<Rightarrow> json_text \<Rightarrow> string \<Rightarrow> nat \<Rightarrow> 'r \<Rightarrow> (unit, json option) result" where
  "get_session_metadata A C jti now st = (case kv_get (au_kv A) st now (session_key jti) of
     None \<Rightarrow> Inr None
   | Some raw \<Rightarrow> if raw = '''' then Inr None else (case jt_parse C raw of None \<Rightarrow> Inl () | Some v \<Rightarrow> Inr (Some v)))"

definition owned_by :: "string \<Rightarrow> json \<Rightarrow> bool" where
  "owned_by merchant session = (json_field ''merchantId'' session = JStr merchant)"

definition update_session_last_used ::
  "'r auth_ops \<Rightarrow> json_text \<Rightarrow> (nat \<Rightarrow> string) \<Rightarrow> ('r \<Rightarrow> 'r) \<Rightarrow> string \<Rightarrow> string \<Rightarrow> nat \<Rightarrow> 'r \<Rightarrow> 'r \<times> (unit, bool) result" where
  "update_session_last_used A C show_time env jti merchant now st = (case get_session_metadata A C jti now st of
     Inl e \<Rightarrow> (st, Inl e)
   | Inr None \<Rightarrow> (st, Inr False)
   | Inr (Some session) \<Rightarrow>
       if \<not> owned_by merchant session then (st, Inr False)
       else (let st1 = kv_set (au_kv A) (env st) now (session_key jti) (jt_text C (json_put ''lastUsedAt'' (JStr (show_time now)) session)) None
             in (au_zadd A st1 (session_index_key merchant) (int now) jti, Inr True)))"

definition create_auth_session ::
  "'r auth_ops \<Rightarrow> json_text \<Rightarrow> (nat \<Rightarrow> string) \<Rightarrow> string \<Rightarrow> string \<Rightarrow> string \<Rightarrow> nat \<Rightarrow> 'r \<Rightarrow> 'r" where
  "create_auth_session A C show_time merchant device jti now st =
     (let idx = session_index_key merchant;
          st1 = kv_set (au_kv A) st now (session_key jti) (jt_text C (session_json show_time merchant device now)) None;
          st2 = au_zadd A st1 idx (int now) jti;
          total = au_zcard A st2 idx
      in if session_limit_per_merchant < total
         then (let to_remove = au_zrange A st2 idx 0 (int total - int session_limit_per_merchant - 1)
               in if to_remove \<noteq> []
                  then au_zrem A (fold (\<lambda>old s. kv_del (au_kv A) s now (session_key old)) to_remove st2) idx to_remove
                  else st2)
         else st2)"

text \<open>\<open>Boolean(v)\<close> of a parsed value\<close>

fun json_truthy :: "json \<Rightarrow> bool" where
  "json_truthy (JBool b) = b"
| "json_truthy (JNum q) = (q \<noteq> 0)"
| "json_truthy (JStr s) = (s \<noteq> [])"
| "json_truthy (JArr vs) = True"
| "json_truthy (JObj kvs) = True"
| "json_truthy _ = False"

fun list_sessions :: "'r auth_ops \<Rightarrow> json_text \<Rightarrow> nat \<Rightarrow> 'r \<Rightarrow> string list \<Rightarrow> (unit, (string \<times> json) list) result" where
  "list_sessions A C now st [] = Inr []"
| "list_sessions A C now st (jti # jtis) = (case get_session_metadata A C jti now st of
     Inl e \<Rightarrow> Inl e
   | Inr v \<Rightarrow> (case list_sessions A C now st jtis of
       Inl e \<Rightarrow> Inl e
     | Inr rest \<Rightarrow> Inr ((case v of None \<Rightarrow> [] | Some w \<Rightarrow> if json_truthy w then [(jti, w)] else []) @ rest)))"

definition list_auth_sessions :: "'r auth_ops \<Rightarrow> json_text \<Rightarrow> string \<Rightarrow> nat \<Rightarrow> 'r \<Rightarrow> (unit, (string \<times> json) list) result" where
  "list_auth_sessions A C merchant now st =
     list_sessions A C now st (au_zrange A st (session_index_key merchant) 0 (- 1))"

definition revoke_auth_session ::
  "'r auth_ops \<Rightarrow> json_text \<Rightarrow> ('r \<Rightarrow> 'r) \<Rightarrow> string \<Rightarrow> string \<Rightarrow> nat \<Rightarrow> 'r \<Rightarrow> 'r \<times> (unit, bool) result" where
  "revoke_auth_session A C env merchant jti now st = (case get_session_metadata A C jti now st of
     Inl e \<Rightarrow> (st, Inl e)
   | Inr None \<Rightarrow> (st, Inr False)
   | Inr (Some session) \<Rightarrow>
       if \<not> owned_by merchant session then (st, Inr False)
       else (au_zrem A (kv_del (au_kv A) (env st) now (session_key jti)) (session_index_key merchant) [jti], Inr True))"

subsection \<open>The handlers\<close>

record jwt_payload =
  jp_merchant :: "string option"
  jp_owner :: "string option"
  jp_jti :: "string option"
  jp_exp :: "nat option"

definition nonempty_text :: "string option \<Rightarrow> bool" where
  "nonempty_text s = (s \<noteq> None \<and> s \<noteq> Some '''')"

datatype auth_answer = Passed | Refused nat

text \<open>
  \<open>lookup_fails\<close> and \<open>session_fails\<close>: Redis fails in the blocklist lookup, or in the update
  of the session.
\<close>

definition authenticate ::
  "'r auth_ops \<Rightarrow> json_text \<Rightarrow> (nat \<Rightarrow> string) \<Rightarrow> ('r \<Rightarrow> 'r) \<Rightarrow> jwt_payload option \<Rightarrow> bool \<Rightarrow> bool \<Rightarrow> nat \<Rightarrow> 'r \<Rightarrow>
   'r \<times> auth_answer" where
  "authenticate A C show_time env verified lookup_fails session_fails now st =
     (case verified of
        None \<Rightarrow> (st, Refused 401)
      | Some p \<Rightarrow>
          if nonempty_text (jp_jti p) \<and> (lookup_fails \<or> is_jti_revoked A (the (jp_jti p)) now st) then (st, Refused 401)
          else if \<not> nonempty_text (jp_jti p) \<or> \<not> nonempty_text (jp_merchant p) then (st, Passed)
          else if session_fails then (st, Refused 503)
          else (case update_session_last_used A C show_time env (the (jp_jti p)) (the (jp_merchant p)) now st of
                  (st', Inl e) \<Rightarrow> (st', Refused 503)
                | (st', Inr ok) \<Rightarrow> (st', if ok then Passed else Refused 401)))"

datatype refresh_answer = RefreshBlocked | RefreshUnauthorized | RefreshLimited | RefreshedToken string

definition refresh_token ::
  "'r auth_ops \<Rightarrow> json_text \<Rightarrow> (nat \<Rightarrow> string) \<Rightarrow> ('r \<Rightarrow> 'r) \<Rightarrow> int \<Rightarrow> string \<Rightarrow> jwt_payload option \<Rightarrow> string \<Rightarrow> nat \<Rightarrow> 'r \<Rightarrow>
   'r \<times> refresh_answer" where
  "refresh_token A C show_time env threshold ip verified new_jti now st =
     (if \<not> enforce_auth_ip_reputation A False threshold ip now st then (st, RefreshBlocked)
      else
        (let unauthorized = (record_auth_ip_failure A False ip now st, RefreshUnauthorized)
         in case verified of
              None \<Rightarrow> unauthorized
            | Some p \<Rightarrow>
                if \<not> nonempty_text (jp_merchant p) \<or> \<not> nonempty_text (jp_owner p) \<or> \<not> nonempty_text (jp_jti p) \<or> jp_exp p = None \<or> jp_exp p = Some 0
                then unauthorized
                else if is_jti_revoked A (the (jp_jti p)) now st then unauthorized
                else if the (jp_exp p) \<le> now div 1000 then unauthorized
                else (case increment_refresh_rate A (the (jp_merchant p)) now (env st) of (st1, n) \<Rightarrow>
                  if refresh_rate_limit_max < n then (st1, RefreshLimited)
                  else (create_auth_session A C show_time (the (jp_merchant p)) ''unknown'' new_jti now
                          (record_auth_ip_success A False ip now
                            (revoke_jti A (the (jp_jti p)) (the (jp_exp p) - now div 1000) now st1)),
                        RefreshedToken new_jti))))"

text \<open>The handler of \<open>/api/auth/logout\<close> runs after \<open>authenticate\<close> let the request pass.\<close>

definition logout ::
  "'r auth_ops \<Rightarrow> json_text \<Rightarrow> ('r \<Rightarrow> 'r) \<Rightarrow> jwt_payload \<Rightarrow> nat \<Rightarrow> 'r \<Rightarrow> 'r \<times> auth_answer" where
  "logout A C env p now st =
     (if \<not> nonempty_text (jp_jti p) \<or> \<not> nonempty_text (jp_merchant p) then (st, Refused 401)
      else
        (let jti = the (jp_jti p);
             merchant = the (jp_merchant p);
             until = (case jp_exp p of Some e \<Rightarrow> e | None \<Rightarrow> 0);
             st1 = (if now div 1000 < until then revoke_jti A jti (until - now div 1000) now st else st)
         in case revoke_auth_session A C env merchant jti now st1 of
              (st2, Inl e) \<Rightarrow> (st2, Refused 500)
            | (st2, Inr b) \<Rightarrow> (discard A merchant now st2, Passed)))"

definition delete_session ::
  "'r auth_ops \<Rightarrow> json_text \<Rightarrow> ('r \<Rightarrow> 'r) \<Rightarrow> string \<Rightarrow> string \<Rightarrow> nat \<Rightarrow> 'r \<Rightarrow> 'r \<times> auth_answer" where
  "delete_session A C env merchant jti now st =
     (if merchant = '''' then (st, Refused 401)
      else (case revoke_auth_session A C env merchant jti now st of
         (st', Inl e) \<Rightarrow> (st', Refused 500)
       | (st', Inr b) \<Rightarrow> (st', if b then Passed else Refused 404)))"

subsection \<open>Histories\<close>

text \<open>
  A history is a list of requests; a request that reads and writes carries the requests served
  in between.
\<close>

datatype auth_event =
    SessionStarted string string string nat
  | RequestAuthenticated jwt_payload bool bool nat "auth_event list"
  | TokenRefreshed jwt_payload string int string nat "auth_event list"
  | LoggedOut jwt_payload nat "auth_event list"
  | SessionDeleted string string nat "auth_event list"
  | ChallengeIssued string string string nat
  | ChallengeConsumed string nat
  | WalletAttemptFailed string nat
  | WalletAttemptsReset string nat
  | IpFailed string nat
  | IpSucceeded string nat
  | NonceMarked string nat

fun auth_run :: "'r auth_ops \<Rightarrow> json_text \<Rightarrow> (nat \<Rightarrow> string) \<Rightarrow> auth_event list \<Rightarrow> 'r \<Rightarrow> 'r"
  and auth_step :: "'r auth_ops \<Rightarrow> json_text \<Rightarrow> (nat \<Rightarrow> string) \<Rightarrow> auth_event \<Rightarrow> 'r \<Rightarrow> 'r" where
  "auth_run A C f [] st = st"
| "auth_run A C f (e # es) st = auth_run A C f es (auth_step A C f e st)"
| "auth_step A C f (SessionStarted m d j t) st = create_auth_session A C f m d j t st"
| "auth_step A C f (RequestAuthenticated p lf sf t es) st = fst (authenticate A C f (auth_run A C f es) (Some p) lf sf t st)"
| "auth_step A C f (TokenRefreshed p ip th j t es) st = fst (refresh_token A C f (auth_run A C f es) th ip (Some p) j t st)"
| "auth_step A C f (LoggedOut p t es) st = fst (logout A C (auth_run A C f es) p t st)"
| "auth_step A C f (SessionDeleted m j t es) st = fst (delete_session A C (auth_run A C f es) m j t st)"
| "auth_step A C f (ChallengeIssued a nonce salt t) st = fst (issue A C wallet_challenge_ttl_ms a nonce salt t t st)"
| "auth_step A C f (ChallengeConsumed a t) st = fst (consume A C a t t st)"
| "auth_step A C f (WalletAttemptFailed a t) st = fst (record_failure A False default_wallet_auth_lockout_ttl_sec a t st)"
| "auth_step A C f (WalletAttemptsReset a t) st = reset_failures A a t st"
| "auth_step A C f (IpFailed ip t) st = record_auth_ip_failure A False ip t st"
| "auth_step A C f (IpSucceeded ip t) st = record_auth_ip_success A False ip t st"
| "auth_step A C f (NonceMarked n t) st = fst (mark_nonce_used A n t st)"

subsection \<open>The blocklist is kept\<close>

context wallet_store
begin

text \<open>
  The token id is on the blocklist until the token expires, at \<open>e\<close> in seconds; without the flag,
  only the invariant of Redis.
\<close>

definition blocked :: "bool \<Rightarrow> string \<Rightarrow> nat \<Rightarrow> 'r \<Rightarrow> bool" where
  "blocked b j e st = (invar st \<and> (b \<longrightarrow> (\<exists>x. e * 1000 \<le> x \<and> entry st (revoked_jti_key j) = Some (''1'', Some x))))"

lemma blocked_kv:
  assumes "blocked b j e st" "k \<noteq> revoked_jti_key j"
  shows "blocked b j e (kv_set (au_kv A) st now k v ttl)" "blocked b j e (kv_del (au_kv A) st now k)"
    "blocked b j e (kv_pexpire (au_kv A) st now k n)" "blocked b j e (fst (kv_incr (au_kv A) st now k))"
    "blocked b j e (fst (kv_set_nx (au_kv A) st now k v n))"
  using assms kv_set_laws [of st now k v ttl] kv_del_laws [of st now k] kv_pexpire_laws [of st now k n]
    kv_incr_laws [of st now k] kv_set_nx_laws(1) [of st now k v n] kv_set_nx_laws(3) [of st "revoked_jti_key j" k now v n]
  by (auto simp: blocked_def split: option.splits)

lemma blocked_zset:
  assumes "blocked b j e st"
  shows "blocked b j e (au_zadd A st k s m)" "blocked b j e (au_zrem A st k ms)"
  using assms zadd [of st k s m] zrem [of st k ms] by (auto simp: blocked_def)

lemma blocked_fold_del:
  "blocked b j e st \<Longrightarrow> blocked b j e (fold (\<lambda>old s. kv_del (au_kv A) s now (session_key old)) olds st)"
  by (induction olds arbitrary: st) (simp_all add: blocked_kv)

lemma blocked_revoke:
  assumes "invar st" "b \<Longrightarrow> j' = j \<Longrightarrow> e \<le> ttl + now div 1000" "j' \<noteq> j \<Longrightarrow> blocked b j e st"
  shows "blocked b j e (revoke_jti A j' ttl now st)"
proof (cases "j' = j")
  case True
  have "e * 1000 \<le> now + ttl * 1000" if b
  proof -
    have "e * 1000 \<le> (ttl + now div 1000) * 1000" using assms(2) [OF that True] by simp
    also have "\<dots> \<le> now + ttl * 1000" by (simp add: algebra_simps)
    finally show ?thesis .
  qed
  then show ?thesis
    using True kv_set_laws [OF assms(1), of now "revoked_jti_key j" "''1''" "Some (ttl * 1000)"]
    by (simp add: blocked_def revoke_jti_def)
next
  case False
  with assms(3) show ?thesis by (simp add: revoke_jti_def blocked_kv)
qed

lemma blocked_create: "blocked b j e st \<Longrightarrow> blocked b j e (create_auth_session A C f m d i now st)"
  by (simp add: create_auth_session_def Let_def blocked_kv blocked_zset blocked_fold_del)

lemma blocked_ip:
  "blocked b j e st \<Longrightarrow> blocked b j e (record_auth_ip_failure A x ip now st)"
  "blocked b j e st \<Longrightarrow> blocked b j e (record_auth_ip_success A x ip now st)"
  by (simp_all add: record_auth_ip_failure_def record_auth_ip_success_def Let_def blocked_kv)

lemma blocked_rate: "blocked b j e st \<Longrightarrow> blocked b j e (fst (increment_refresh_rate A m now st))"
proof -
  assume b: "blocked b j e st"
  obtain st' n where i: "kv_incr (au_kv A) st now (refresh_rate_key m) = (st', n)" by force
  with blocked_kv(4) [OF b, of "refresh_rate_key m" now] have "blocked b j e st'" by simp
  with i show ?thesis by (simp add: increment_refresh_rate_def blocked_kv(3))
qed

lemma blocked_update:
  assumes "blocked b j e st" "\<And>s. blocked b j e s \<Longrightarrow> blocked b j e (env s)"
  shows "blocked b j e (fst (update_session_last_used A C f env i m now st))"
  using assms by (auto simp: update_session_last_used_def Let_def blocked_kv blocked_zset
      split: sum.splits option.splits)

lemma blocked_revoke_session:
  assumes "blocked b j e st" "\<And>s. blocked b j e s \<Longrightarrow> blocked b j e (env s)"
  shows "blocked b j e (fst (revoke_auth_session A C env m i now st))"
  using assms by (auto simp: revoke_auth_session_def blocked_kv blocked_zset split: sum.splits option.splits)

lemma blocked_authenticate:
  assumes "blocked b j e st" "\<And>s. blocked b j e s \<Longrightarrow> blocked b j e (env s)"
  shows "blocked b j e (fst (authenticate A C f env v lf sf now st))"
proof (cases v)
  case (Some p)
  obtain st' r where u: "update_session_last_used A C f env (the (jp_jti p)) (the (jp_merchant p)) now st = (st', r)" by force
  with blocked_update [of b j e st env f "the (jp_jti p)" "the (jp_merchant p)" now] assms have "blocked b j e st'" by auto
  with u Some assms(1) show ?thesis by (cases r) (simp_all add: authenticate_def)
qed (simp add: authenticate_def assms)

lemma blocked_logout:
  assumes "invar st" "nonempty_text (jp_jti p)" "b \<Longrightarrow> jp_jti p = Some j \<Longrightarrow> jp_exp p = Some e"
    and "jp_jti p = Some j \<and> jp_exp p = Some e \<and> now div 1000 < e \<and> nonempty_text (jp_merchant p) \<or> blocked b j e st"
    and "\<And>s. blocked b j e s \<Longrightarrow> blocked b j e (env s)"
  shows "blocked b j e (fst (logout A C env p now st))"
proof (cases "nonempty_text (jp_merchant p)")
  case True
  define u where "u = (case jp_exp p of Some e \<Rightarrow> e | None \<Rightarrow> 0)"
  define st1 where "st1 = (if now div 1000 < u then revoke_jti A (the (jp_jti p)) (u - now div 1000) now st else st)"
  have "blocked b j e st1"
    using assms(1-4) by (auto simp: st1_def u_def nonempty_text_def intro!: blocked_revoke)
  then have r: "blocked b j e (fst (revoke_auth_session A C env (the (jp_merchant p)) (the (jp_jti p)) now st1))"
    by (rule blocked_revoke_session) (rule assms(5))
  with True assms(2) r show ?thesis
    by (cases "revoke_auth_session A C env (the (jp_merchant p)) (the (jp_jti p)) now st1")
       (auto simp: logout_def Let_def discard_def blocked_kv simp flip: u_def st1_def split: sum.splits)
next
  case False
  with assms show ?thesis by (simp add: logout_def)
qed

lemma blocked_refresh:
  assumes "invar st" "b \<Longrightarrow> jp_jti p = Some j \<Longrightarrow> jp_exp p = Some e"
    and "\<And>b' s. (b' \<longrightarrow> b) \<Longrightarrow> blocked b' j e s \<Longrightarrow> blocked b' j e (env s)"
    and "jp_jti p = Some j \<and> snd (refresh_token A C f env th ip (Some p) n now st) = RefreshedToken n \<or> blocked b j e st"
  shows "blocked b j e (fst (refresh_token A C f env th ip (Some p) n now st))"
proof -
  let ?r = "refresh_token A C f env th ip (Some p) n now st"
  obtain st1 k where i: "increment_refresh_rate A (the (jp_merchant p)) now (env st) = (st1, k)" by force
  have inv1: "blocked False j e st1"
    using assms(3) [of False st] blocked_rate [of False j e "env st" "the (jp_merchant p)" now] assms(1) i
    by (simp add: blocked_def)
  let ?st2 = "revoke_jti A (the (jp_jti p)) (the (jp_exp p) - now div 1000) now st1"
  have "(fst ?r = create_auth_session A C f (the (jp_merchant p)) ''unknown'' n now
        (record_auth_ip_success A False ip now ?st2) \<and> nonempty_text (jp_jti p) \<and> \<not> the (jp_exp p) \<le> now div 1000 \<and> jp_exp p \<noteq> None) \<or>
    (fst ?r = st1 \<and> snd ?r = RefreshLimited) \<or>
    ((fst ?r = st \<or> fst ?r = record_auth_ip_failure A False ip now st) \<and> (snd ?r = RefreshBlocked \<or> snd ?r = RefreshUnauthorized))"
    by (simp add: refresh_token_def Let_def i del: not_None_eq)
  then consider (refreshed) "fst ?r = create_auth_session A C f (the (jp_merchant p)) ''unknown'' n now
        (record_auth_ip_success A False ip now ?st2)" "nonempty_text (jp_jti p)" "\<not> the (jp_exp p) \<le> now div 1000" "jp_exp p \<noteq> None"
    | (limited) "fst ?r = st1" "snd ?r = RefreshLimited"
    | (refused) "fst ?r = st \<or> fst ?r = record_auth_ip_failure A False ip now st" "snd ?r = RefreshBlocked \<or> snd ?r = RefreshUnauthorized"
    by blast
  then show ?thesis
  proof cases
    case refreshed
    have "blocked b j e ?st2"
    proof (rule blocked_revoke)
      show "invar st1" using inv1 by (simp add: blocked_def)
      show "e \<le> the (jp_exp p) - now div 1000 + now div 1000" if b "the (jp_jti p) = j"
        using assms(2) that refreshed(2,3,4) by (auto simp: nonempty_text_def)
      show "blocked b j e st1" if "the (jp_jti p) \<noteq> j"
        using that assms(3,4) i blocked_rate [of b j e "env st" "the (jp_merchant p)" now] by auto
    qed
    with refreshed(1) show ?thesis by (simp add: blocked_create blocked_ip)
  next
    case limited
    with assms(3,4) i blocked_rate [of b j e "env st" "the (jp_merchant p)" now] show ?thesis by auto
  next
    case refused
    with assms(4) show ?thesis by (auto simp: blocked_ip)
  qed
qed

end

text \<open>A token is signed once: events of the token \<open>j\<close> carry its expiry \<open>e\<close>.\<close>

definition payload_agrees :: "string \<Rightarrow> nat \<Rightarrow> jwt_payload \<Rightarrow> bool" where
  "payload_agrees j e p = (jp_jti p = Some j \<longrightarrow> jp_exp p = Some e)"

fun tokens_agree :: "string \<Rightarrow> nat \<Rightarrow> auth_event list \<Rightarrow> bool"
  and event_agrees :: "string \<Rightarrow> nat \<Rightarrow> auth_event \<Rightarrow> bool" where
  "tokens_agree j e [] = True"
| "tokens_agree j e (x # xs) = (event_agrees j e x \<and> tokens_agree j e xs)"
| "event_agrees j e (RequestAuthenticated p lf sf t es) = tokens_agree j e es"
| "event_agrees j e (TokenRefreshed p ip th n t es) = (payload_agrees j e p \<and> tokens_agree j e es)"
| "event_agrees j e (LoggedOut p t es) = (payload_agrees j e p \<and> tokens_agree j e es)"
| "event_agrees j e (SessionDeleted m i t es) = tokens_agree j e es"
| "event_agrees j e _ = True"

context wallet_store
begin

lemma blocked_wallet:
  assumes "blocked b j e st"
  shows "blocked b j e (fst (issue A C ttl a nonce salt rt t st))" "blocked b j e (fst (consume A C a rt t st))"
    "blocked b j e (fst (record_failure A xf secs a t st))" "blocked b j e (reset_failures A a t st)"
    "blocked b j e (fst (mark_nonce_used A nonce t st))" "blocked b j e (discard A a t st)"
proof -
  show "blocked b j e (fst (record_failure A xf secs a t st))"
  proof -
    obtain st' r where r: "record_failure A xf secs a t st = (st', r)" by force
    from assms record_failure_laws [OF _ r] show ?thesis unfolding blocked_def r fst_conv
      by (metis revoked_key_differs(7))
  qed
qed (use assms in \<open>simp_all add: issue_def Let_def consume_def consume_script_def reset_failures_def discard_def
    mark_nonce_used_def blocked_kv split: option.splits prod.splits\<close>)

lemma blocked_delete:
  assumes "blocked b j e st" "\<And>s. blocked b j e s \<Longrightarrow> blocked b j e (env s)"
  shows "blocked b j e (fst (delete_session A C env m i now st))"
  using blocked_revoke_session [of b j e st env m i now] assms
  by (cases "revoke_auth_session A C env m i now st") (auto simp: delete_session_def split: sum.splits)

lemma blocked_run_all:
  "A' = A \<Longrightarrow> C' = C \<Longrightarrow> blocked b j e st \<Longrightarrow> (b \<Longrightarrow> tokens_agree j e es) \<Longrightarrow> blocked b j e (auth_run A' C' f es st)"
  "A' = A \<Longrightarrow> C' = C \<Longrightarrow> blocked b j e st \<Longrightarrow> (b \<Longrightarrow> event_agrees j e x) \<Longrightarrow> blocked b j e (auth_step A' C' f x st)"
proof (induction A' C' f es st and A' C' f x st arbitrary: b and b rule: auth_run_auth_step.induct)
  case (4 A' C' f p lf sf t es st)
  have "blocked b j e (auth_run A C f es s)" if "blocked b j e s" for s
    using 4(1) [OF 4(2,3) that] 4(2,3,5) by simp
  from blocked_authenticate [OF 4(4) this] 4(2,3) show ?case by simp
next
  case (5 A' C' f p ip th n t es st)
  have env: "blocked b' j e (auth_run A C f es s)" if "b' \<longrightarrow> b" "blocked b' j e s" for s b'
    using 5(1) [OF 5(2,3) that(2)] 5(2,3,5) that(1) by simp
  have "invar st" "b \<Longrightarrow> jp_jti p = Some j \<Longrightarrow> jp_exp p = Some e"
    using 5(4,5) by (simp_all add: blocked_def payload_agrees_def)
  then have "blocked b j e (fst (refresh_token A C f (auth_run A C f es) th ip (Some p) n t st))"
    by (rule blocked_refresh) (use env 5(4) in blast)+
  with 5(2,3) show ?case by simp
next
  case (6 A' C' f p t es st)
  have env: "blocked b j e (auth_run A C f es s)" if "blocked b j e s" for s
    using 6(1) [OF 6(2,3) that] 6(2,3,5) by simp
  have inv: "invar st" "b \<Longrightarrow> jp_jti p = Some j \<Longrightarrow> jp_exp p = Some e"
    using 6(4,5) by (simp_all add: blocked_def payload_agrees_def)
  show ?case
  proof (cases "nonempty_text (jp_jti p)")
    case True
    have "blocked b j e (fst (logout A C (auth_run A C f es) p t st))"
      by (rule blocked_logout [OF inv(1) True inv(2) disjI2 [OF 6(4)] env])
    with 6(2,3) show ?thesis by simp
  next
    case False
    with 6(2,3,4) show ?thesis by (simp add: logout_def)
  qed
next
  case (7 A' C' f m i t es st)
  have "blocked b j e (auth_run A C f es s)" if "blocked b j e s" for s
    using 7(1) [OF 7(2,3) that] 7(2,3,5) by simp
  from blocked_delete [OF 7(4) this] 7(2,3) show ?case by simp
qed (simp_all add: blocked_create blocked_wallet blocked_ip)

lemmas blocked_run = blocked_run_all(1) [OF HOL.refl HOL.refl]

lemma blocked_denies:
  assumes "blocked True j e st" "jp_jti p = Some j" "j \<noteq> []" "t < e * 1000"
  shows "snd (authenticate A C f env (Some p) lf sf t st) = Refused 401"
    "snd (refresh_token A C f env' th ip (Some p) n t st) \<in> {RefreshBlocked, RefreshUnauthorized}"
proof -
  have "is_jti_revoked A j t st"
    using assms(1,4) by (auto simp: blocked_def is_jti_revoked_def get_entry kv_live_def)
  with assms(2,3) show "snd (authenticate A C f env (Some p) lf sf t st) = Refused 401"
    "snd (refresh_token A C f env' th ip (Some p) n t st) \<in> {RefreshBlocked, RefreshUnauthorized}"
    by (simp_all add: authenticate_def refresh_token_def nonempty_text_def Let_def)
qed

end

subsection \<open>Properties\<close>

text \<open>
  The event that ends a token: a logout of its bearer before it expires, or its refresh.
\<close>

definition ends_token ::
  "'r auth_ops \<Rightarrow> json_text \<Rightarrow> (nat \<Rightarrow> string) \<Rightarrow> jwt_payload \<Rightarrow> 'r \<Rightarrow> auth_event \<Rightarrow> bool" where
  "ends_token A C f p st x = (case x of
     LoggedOut q t es \<Rightarrow> q = p \<and> nonempty_text (jp_merchant p) \<and> t div 1000 < the (jp_exp p)
   | TokenRefreshed q ip th n t es \<Rightarrow> q = p \<and>
       snd (refresh_token A C f (auth_run A C f es) th ip (Some p) n t st) = RefreshedToken n
   | _ \<Rightarrow> False)"

text \<open>
  C4: A token whose logout or refresh has been answered is dead for every request that begins
  after that answer: the hook of every authenticated route refuses it with 401 until it expires,
  and the refresh route does not exchange it, whatever other requests were served while the
  ending request ran and since, and with any faults of Redis in the session check. Requests that
  overlap the ending request are not covered, and the code does not stop them: two overlapping
  refreshes of one token both hand out a new token (\<open>overlapping_refreshes\<close> below).
\<close>

theorem ended_token_is_dead:
  assumes "wallet_store A invar entry zitems C" "invar st"
    and "jp_jti p = Some j" "j \<noteq> []" "jp_exp p = Some e"
    and "ends_token A C f p st x" "tokens_agree j e (x # es)" "t < e * 1000"
  shows "snd (authenticate A C f env (Some p) lf sf t (auth_run A C f (x # es) st)) = Refused 401 \<and>
    snd (refresh_token A C f env' th ip (Some p) n t (auth_run A C f (x # es) st)) \<in> {RefreshBlocked, RefreshUnauthorized}"
proof -
  note run = wallet_store.blocked_run [OF assms(1)]
  have exp: "jp_jti p = Some j \<Longrightarrow> jp_exp p = Some e" using assms(5) .
  have "wallet_store.blocked invar entry True j e (auth_step A C f x st)"
  proof (cases x)
    case (LoggedOut q t es0)
    with assms(6,5) have q: "q = p" "nonempty_text (jp_merchant p)" "t div 1000 < e" by (simp_all add: ends_token_def)
    have "nonempty_text (jp_jti p)" using assms(3,4) by (simp add: nonempty_text_def)
    then have "wallet_store.blocked invar entry True j e (fst (logout A C (auth_run A C f es0) p t st))"
      by (rule wallet_store.blocked_logout [OF assms(1,2) _ exp]) (use run assms(3,5,7) q LoggedOut in auto)
    with q(1) LoggedOut show ?thesis by simp
  next
    case (TokenRefreshed q ip th n t es0)
    with assms(6) have q: "q = p" "snd (refresh_token A C f (auth_run A C f es0) th ip (Some p) n t st) = RefreshedToken n"
      by (simp_all add: ends_token_def)
    have ok: "tokens_agree j e es0" using assms(7) TokenRefreshed by simp
    have "wallet_store.blocked invar entry True j e (fst (refresh_token A C f (auth_run A C f es0) th ip (Some p) n t st))"
      by (rule wallet_store.blocked_refresh [OF assms(1,2) exp]) (use run ok q(2) assms(3) in blast)+
    with q(1) TokenRefreshed show ?thesis by simp
  qed (use assms(6) in \<open>simp_all add: ends_token_def\<close>)
  then have "wallet_store.blocked invar entry True j e (auth_run A C f (x # es) st)"
    using run assms(7) by simp
  from wallet_store.blocked_denies [OF assms(1) this assms(3,4,8)] show ?thesis by simp
qed

definition demo_token :: jwt_payload where
  "demo_token = \<lparr> jp_merchant = Some ''m'', jp_owner = Some ''o'', jp_jti = Some ''j'', jp_exp = Some 3600 \<rparr>"

lemma ended_token_is_dead_witness:
  "snd (authenticate am_ops flat_codec (\<lambda>_. ''now'') id (Some demo_token) False False 3599000
     (auth_run am_ops flat_codec (\<lambda>_. ''now'')
        [LoggedOut demo_token 5000 [TokenRefreshed demo_token ''ip'' 20 ''k'' 5001 []],
         SessionStarted ''m'' ''phone'' ''j'' 6000] ([], []))) = Refused 401"
  by (rule conjunct1 [OF ended_token_is_dead [OF wm.wallet_store_axioms, where j = "''j''" and e = 3600]])
     (simp_all add: am_invar_def am_items_def demo_token_def ends_token_def payload_agrees_def nonempty_text_def)

text \<open>
  The check of the blocklist and the revocation are separate commands: a refresh whose
  rate-limit round trip overlaps another refresh of the same token succeeds as well.
\<close>

lemma overlapping_refreshes:
  "let st = ([], []);
     first = (\<lambda>s. refresh_token am_ops flat_codec (\<lambda>_. ''now'') id 10 ''ip'' (Some demo_token) ''a'' 5000 s);
     both = refresh_token am_ops flat_codec (\<lambda>_. ''now'') (fst \<circ> first) 10 ''ip'' (Some demo_token) ''b'' 5000 st
   in snd (first st) = RefreshedToken ''a'' \<and> snd both = RefreshedToken ''b''"
  by code_simp

subsection \<open>The session index\<close>

lemma filter_not_taken:
  "distinct (map snd xs) \<Longrightarrow> filter (\<lambda>x. snd x \<notin> snd ` set (take n xs)) xs = drop n xs"
proof (induction n arbitrary: xs)
  case (Suc n)
  show ?case
  proof (cases xs)
    case (Cons x ys)
    have "filter (\<lambda>y. snd y \<notin> insert (snd x) (snd ` set (take n ys))) ys = filter (\<lambda>y. snd y \<notin> snd ` set (take n ys)) ys"
    proof (rule filter_cong)
      fix y assume "y \<in> set ys"
      then have "snd y \<noteq> snd x" using Suc.prems Cons by (metis distinct.simps(2) image_eqI list.map(2) list.set_map)
      then show "(snd y \<notin> insert (snd x) (snd ` set (take n ys))) = (snd y \<notin> snd ` set (take n ys))" by simp
    qed (rule HOL.refl)
    with Suc Cons show ?thesis by simp
  qed simp
qed simp

lemma slice_first: "n < length xs \<Longrightarrow> zset_slice 0 (int (length xs) - int n - 1) xs = take (length xs - n) xs"
  by (simp add: zset_slice_def rank_of_def nat_diff_distrib)

context auth_redis
begin

lemma fold_del_laws:
  assumes "invar st"
  shows "invar (fold (\<lambda>old s. kv_del (au_kv A) s now (session_key old)) olds st) \<and>
    zitems (fold (\<lambda>old s. kv_del (au_kv A) s now (session_key old)) olds st) = zitems st \<and>
    entry (fold (\<lambda>old s. kv_del (au_kv A) s now (session_key old)) olds st) k =
       (if k \<in> session_key ` set olds then None else entry st k)"
  using assms
proof (induction olds arbitrary: st)
  case (Cons old olds)
  from Cons.IH [OF kv_del_laws(1) [OF Cons.prems, of now "session_key old"]] kv_del_laws(2) [OF Cons.prems, of now "session_key old"]
  show ?case by (simp add: del_zitems Cons.prems)
qed simp

lemma create_session_laws:
  fixes C :: json_text and f :: "nat \<Rightarrow> string" and m d jti :: string and now :: nat
  assumes "invar st"
  defines "new \<equiv> zset_add (int now) jti (zitems st (session_index_key m))"
    and "st' \<equiv> create_auth_session A C f m d jti now st"
  shows "invar st' \<and>
    zitems st' = (zitems st)(session_index_key m := drop (length new - session_limit_per_merchant) new) \<and>
    entry st' (session_key i) =
       (if i \<in> snd ` set (take (length new - session_limit_per_merchant) new) then None
        else if i = jti then Some (jt_text C (session_json f m d now), None) else entry st (session_key i))"
proof -
  let ?idx = "session_index_key m"
  define st1 where "st1 = kv_set (au_kv A) st now (session_key jti) (jt_text C (session_json f m d now)) None"
  define st2 where "st2 = au_zadd A st1 ?idx (int now) jti"
  have st2: "invar st2" "zitems st2 = (zitems st)(?idx := new)"
    "entry st2 = (entry st)(session_key jti \<mapsto> (jt_text C (session_json f m d now), None))"
    using kv_set_laws [OF assms(1)] set_zitems [OF assms(1)] zadd [of st1] by (simp_all add: st1_def st2_def new_def)
  have dist: "distinct (map snd new)" using zsorted [OF st2(1), of ?idx] st2(2) by simp
  have keys: "session_key i = session_key j \<longleftrightarrow> i = j" for i j by (simp add: auth_keys)
  show ?thesis
  proof (cases "session_limit_per_merchant < length new")
    case True
    define olds where "olds = map snd (take (length new - session_limit_per_merchant) new)"
    have rng: "au_zrange A st2 ?idx 0 (int (length new) - int session_limit_per_merchant - 1) = olds"
      using zrange [OF st2(1)] st2(2) slice_first [OF True] by (simp add: olds_def)
    have "olds \<noteq> []" using True by (auto simp: olds_def)
    with True rng have st': "st' = au_zrem A (fold (\<lambda>old s. kv_del (au_kv A) s now (session_key old)) olds st2) ?idx olds"
      using zcard [OF st2(1)] st2(2)
      by (simp add: st'_def create_auth_session_def Let_def flip: st1_def st2_def)
    have "zset_rem olds new = drop (length new - session_limit_per_merchant) new"
      using filter_not_taken [OF dist] by (simp add: zset_rem_def olds_def)
    with st' st2 fold_del_laws [OF st2(1), of now olds] zrem
    show ?thesis
      by (simp add: olds_def keys image_iff)
  next
    case False
    then have "st' = st2"
      using zcard [OF st2(1)] st2(2) by (simp add: st'_def create_auth_session_def Let_def flip: st1_def st2_def)
    with False st2 show ?thesis
      by (simp add: keys)
  qed
qed

end

lemma insort_greatest: "\<forall>y\<in>set xs. y < (x :: 'a :: linorder) \<Longrightarrow> insort x xs = xs @ [x]"
  by (induction xs) auto

text \<open>
  C15: A merchant has at most ten sessions. Creating one adds it to the index at its time and keeps
  the ten latest: the sessions that fall out of the index are exactly the oldest ones and their
  records are gone, so the hook refuses their tokens; the new session is kept, with its record,
  when every other one was used before it.
\<close>

theorem session_limit:
  assumes "wallet_store A invar entry zitems C" "invar st"
    and new: "new = zset_add (int now) jti (zitems st (session_index_key m))"
    and st': "st' = create_auth_session A C f m d jti now st"
  shows "zitems st' (session_index_key m) = drop (length new - 10) new \<and> length (zitems st' (session_index_key m)) \<le> 10 \<and>
    (\<forall>i \<in> snd ` set (take (length new - 10) new). get_session_metadata A C i t st' = Inr None) \<and>
    ((\<forall>x \<in> set (zitems st (session_index_key m)). fst x < int now) \<longrightarrow>
       jti \<in> snd ` set (zitems st' (session_index_key m)) \<and>
       get_session_metadata A C jti t st' = Inr (Some (session_json f m d now)))"
proof -
  have ar: "auth_redis A invar entry zitems" using assms(1) by (rule wallet_store.axioms)
  note laws = auth_redis.create_session_laws [OF ar assms(2), of C f m d jti now, folded new st',
      unfolded session_limit_per_merchant_def]
  have inv: "invar st'" using laws by blast
  have get: "kv_get (au_kv A) st' t k = kv_live t (entry st' k)" for k
    using redis_strings.get_entry [OF auth_redis.axioms(1) [OF ar] inv] .
  have dist: "distinct (map snd new)"
    using zset_add_ordered auth_redis.zsorted [OF ar assms(2)] by (simp add: new)
  have idx: "zitems st' (session_index_key m) = drop (length new - 10) new" using laws by simp
  have gone: "get_session_metadata A C i t st' = Inr None" if "i \<in> snd ` set (take (length new - 10) new)" for i
    using laws [of i] that by (simp add: get_session_metadata_def get kv_live_def)
  have kept: "jti \<in> snd ` set (drop (length new - 10) new) \<and> get_session_metadata A C jti t st' = Inr (Some (session_json f m d now))"
    if "\<forall>x \<in> set (zitems st (session_index_key m)). fst x < int now"
  proof -
    have "new = filter (\<lambda>x. snd x \<noteq> jti) (zitems st (session_index_key m)) @ [(int now, jti)]"
      unfolding new zset_add_def using that by (intro insort_greatest) (auto simp: less_prod_def)
    then obtain ys where ys: "new = ys @ [(int now, jti)]" by blast
    then have jti: "jti \<notin> snd ` set (take (length new - 10) new)" and drop: "(int now, jti) \<in> set (drop (length new - 10) new)"
      using dist by (auto dest: in_set_takeD)
    have "flat_entries [(''merchantId'', JStr m), (''deviceInfo'', JStr d), (''createdAt'', JStr (f now)), (''lastUsedAt'', JStr (f now))]"
      by (simp add: flat_entries_def)
    note parse = json_codec.parse_text [OF wallet_store.axioms(2) [OF assms(1)] this]
      json_codec.text_not_empty [OF wallet_store.axioms(2) [OF assms(1)]]
    have "get_session_metadata A C jti t st' = Inr (Some (session_json f m d now))"
      using laws [of jti] jti parse by (simp add: get_session_metadata_def get kv_live_def session_json_def)
    with drop show ?thesis by force
  qed
  from idx gone kept show ?thesis by simp
qed

definition ten_sessions :: auth_mem where
  "ten_sessions = ([], [(session_index_key ''m'', map (\<lambda>i. (int i, string_of_int (int i))) [10..<20])])"

lemma session_limit_witness:
  "zset_add 100 ''new'' (am_items ten_sessions (session_index_key ''m'')) =
     am_items ten_sessions (session_index_key ''m'') @ [(100, ''new'')] \<and>
   map snd (am_items (create_auth_session am_ops flat_codec (\<lambda>_. ''now'') ''m'' ''phone'' ''new'' 100 ten_sessions)
     (session_index_key ''m'')) = [''11'', ''12'', ''13'', ''14'', ''15'', ''16'', ''17'', ''18'', ''19'', ''new'']"
proof -
  have items: "am_items ten_sessions (session_index_key ''m'') =
      [(10, ''10''), (11, ''11''), (12, ''12''), (13, ''13''), (14, ''14''), (15, ''15''), (16, ''16''),
       (17, ''17''), (18, ''18''), (19, ''19'')]"
    by code_simp
  have inv: "am_invar ten_sessions"
    unfolding am_invar_def
  proof
    fix k show "sorted (am_items ten_sessions k) \<and> distinct (map snd (am_items ten_sessions k))"
      by (cases "k = session_index_key ''m''") (simp_all add: items, simp add: am_items_def ten_sessions_def)
  qed
  have new: "zset_add (int 100) ''new'' (am_items ten_sessions (session_index_key ''m'')) =
     am_items ten_sessions (session_index_key ''m'') @ [(100, ''new'')]"
    by (simp add: items zset_add_def)
  note s = session_limit [OF wm.wallet_store_axioms inv HOL.refl HOL.refl, where now = 100 and jti = "''new''" and m = "''m''"
      and f = "\<lambda>_. ''now''" and d = "''phone''" and t = 0]
  have "am_items (create_auth_session am_ops flat_codec (\<lambda>_. ''now'') ''m'' ''phone'' ''new'' 100 ten_sessions)
     (session_index_key ''m'') = drop 1 (am_items ten_sessions (session_index_key ''m'') @ [(100, ''new'')])"
    using conjunct1 [OF s] unfolding new by (simp add: items)
  with new show ?thesis by (simp add: items)
qed

lemma flat_update: "flat_entries kvs \<Longrightarrow> flat_value v \<Longrightarrow> flat_entries (js_set k v kvs)"
  by (induction kvs) (auto simp: flat_entries_def)

text \<open>
  C33: The deletion of a session can be undone by a request of that session. The hook reads the
  record and writes it back in separate commands: when \<open>DELETE /api/auth/sessions/:jti\<close> is
  answered in between, the deletion succeeds, the write restores the session and its index
  entry without an expiry, and every later request with the token passes the hook again.
\<close>

theorem touch_restores_deleted_session:
  assumes "wallet_store A invar entry zitems C" "invar st"
    and "get_session_metadata A C j t st = Inr (Some (JObj kvs))" "flat_entries kvs" "owned_by m (JObj kvs)"
    and "jp_jti p = Some j" "jp_merchant p = Some m" "j \<noteq> []" "m \<noteq> []" "entry st (revoked_jti_key j) = None"
    and env: "env = (\<lambda>s. fst (delete_session A C id m j t s))"
    and st': "st' = fst (authenticate A C f env (Some p) False False t st)"
  shows "snd (delete_session A C id m j t st) = Passed \<and> (int t, j) \<in> set (zitems st' (session_index_key m)) \<and>
    snd (authenticate A C f id (Some p) False False t' st') = Passed"
proof -
  have ar: "auth_redis A invar entry zitems" using assms(1) by (rule wallet_store.axioms)
  note get = redis_strings.get_entry [OF auth_redis.axioms(1) [OF ar]]
  define st1 where "st1 = kv_del (au_kv A) st t (session_key j)"
  define st2 where "st2 = au_zrem A st1 (session_index_key m) [j]"
  define kvs' where "kvs' = js_set ''lastUsedAt'' (JStr (f t)) kvs"
  define st3 where "st3 = kv_set (au_kv A) st2 t (session_key j) (jt_text C (JObj kvs')) None"
  have del: "delete_session A C id m j t st = (st2, Passed)"
    using assms(3,5,9) by (simp add: delete_session_def revoke_auth_session_def st1_def st2_def)
  have st2: "invar st2" "entry st2 = (entry st)(session_key j := None)"
    using auth_redis.kv_del_laws [OF ar assms(2)] auth_redis.zrem [OF ar, of st1] by (simp_all add: st1_def st2_def)
  note st3 = auth_redis.kv_set_laws [OF ar st2(1), of t "session_key j" "jt_text C (JObj kvs')" None, folded st3_def]
  note zadd = auth_redis.zadd [OF ar st3(1), of "session_index_key m" "int t" j]
  have auth: "st' = au_zadd A st3 (session_index_key m) (int t) j"
    using assms(3,5-10) del get [OF assms(2)] by (simp add: st' env authenticate_def nonempty_text_def is_jti_revoked_def kv_live_def
        update_session_last_used_def json_put_def st3_def Let_def flip: kvs'_def)
  then have inv': "invar st'" and e': "entry st' (session_key j) = Some (jt_text C (JObj kvs'), None)"
      "entry st' (revoked_jti_key j) = None"
    using zadd st3 st2 assms(10) by (simp_all, simp add: auth_keys)
  have "flat_entries kvs'"
    using assms(4) by (simp add: kvs'_def flat_update)
  then have "get_session_metadata A C j t' st' = Inr (Some (JObj kvs'))"
    using e'(1) get [OF inv'] json_codec.parse_text [OF wallet_store.axioms(2) [OF assms(1)]]
      json_codec.text_not_empty [OF wallet_store.axioms(2) [OF assms(1)]]
    by (simp add: get_session_metadata_def kv_live_def)
  moreover have "owned_by m (JObj kvs')"
    using assms(5) by (simp add: owned_by_def json_field_def kvs'_def)
  ultimately have "snd (authenticate A C f id (Some p) False False t' st') = Passed"
    using assms(6-9) e'(2) get [OF inv']
    by (simp add: authenticate_def nonempty_text_def is_jti_revoked_def kv_live_def update_session_last_used_def Let_def)
  moreover have "(int t, j) \<in> set (zitems st' (session_index_key m))"
    using auth zadd by (simp add: zset_add_def set_insort_key)
  ultimately show ?thesis using del by simp
qed

definition one_session :: auth_mem where
  "one_session = create_auth_session am_ops flat_codec (\<lambda>_. ''now'') ''m'' ''phone'' ''j'' 100 ([], [])"

lemma touch_restores_deleted_session_witness:
  "snd (delete_session am_ops flat_codec id ''m'' ''j'' 200 one_session) = Passed \<and>
   snd (authenticate am_ops flat_codec (\<lambda>_. ''now'') id (Some demo_token) False False 300
     (fst (authenticate am_ops flat_codec (\<lambda>_. ''now'')
       (\<lambda>s. fst (delete_session am_ops flat_codec id ''m'' ''j'' 200 s)) (Some demo_token) False False 200 one_session))) = Passed"
proof -
  define kvs where "kvs = [(''merchantId'', JStr ''m''), (''deviceInfo'', JStr ''phone''),
    (''createdAt'', JStr ''now''), (''lastUsedAt'', JStr ''now'')]"
  have inv: "am_invar one_session"
    unfolding one_session_def
    by (rule am.create_session_laws [THEN conjunct1]) (simp add: am_invar_def am_items_def)
  have meta: "get_session_metadata am_ops flat_codec ''j'' 200 one_session = Inr (Some (JObj kvs))" unfolding kvs_def by code_simp
  have rev: "map_of (fst one_session) (revoked_jti_key ''j'') = None" by code_simp
  have "flat_entries kvs" "owned_by ''m'' (JObj kvs)" by (simp_all add: kvs_def flat_entries_def owned_by_def json_field_def)
  from touch_restores_deleted_session [OF wm.wallet_store_axioms inv meta this _ _ _ _ rev HOL.refl HOL.refl,
      of demo_token "\<lambda>_. ''now''" 300]
  show ?thesis by (simp add: demo_token_def)
qed

end
