(* ===== verification/WalletLogin.thy ===== *)
theory WalletLogin
  imports AuthSessions
begin

section \<open>Wallet login\<close>

text \<open>
  Model of \<open>/api/auth/challenge\<close>, \<open>/api/auth/wallet/verify\<close> and the older
  \<open>/api/auth/verify\<close> (\<open>api-gateway/src/index.ts\<close>). A login is a process: its stage is what it
  does next, one step is what it does to Redis at once. The signature check of the Stellar SDK
  and the merchant table are arguments. Redis is reachable: the answers 503 and 500 of a failing
  Redis are not modelled here.
\<close>

text \<open>\<open>decodeWalletSignature\<close>: which bytes a signature text stands for\<close>

datatype signature_bytes = HexBytes string | Base64Bytes string

definition is_hex_letter :: "char \<Rightarrow> bool" where
  "is_hex_letter c = (is_digit c \<or> c \<in> set ''abcdefABCDEF'')"

definition decode_wallet_signature :: "string \<Rightarrow> signature_bytes" where
  "decode_wallet_signature s =
     (let t = trim s in if t \<noteq> [] \<and> list_all is_hex_letter t \<and> even (length t) then HexBytes t else Base64Bytes t)"

record login_env =
  le_verify :: "string \<Rightarrow> string \<Rightarrow> signature_bytes \<Rightarrow> bool"
  le_merchant :: "string \<Rightarrow> (string \<times> string) option"
  le_upsert :: "string \<Rightarrow> (string \<times> string) option"
  le_show_time :: "nat \<Rightarrow> string"
  le_ip_threshold :: int

record wallet_verify_request =
  vr_legacy :: bool
  vr_address :: string
  vr_signature :: string
  vr_challenge :: "string option"
  vr_ip :: string
  vr_new_jti :: string

datatype login_answer = LoginRefused nat string | LoggedIn "(string \<times> string) option"

datatype login_stage = CheckLockout | ClaimChallenge | Rejecting nat string | Accepting taken_challenge | Answered login_answer

text \<open>What a claimed challenge leads to. The older route does not look at the stored address.\<close>

definition judge :: "login_env \<Rightarrow> wallet_verify_request \<Rightarrow> consume_result \<Rightarrow> login_stage" where
  "judge E req r =
     (if vr_legacy req
      then (case r of
          ChallengeNotFound \<Rightarrow> Rejecting 400 ''INVALID_REQUEST''
        | ChallengeExpired \<Rightarrow> Rejecting 400 ''INVALID_REQUEST''
        | ValidChallenge c \<Rightarrow>
            if le_verify E (vr_address req) (tc_challenge c) (HexBytes (vr_signature req)) then Accepting c
            else Rejecting 401 ''UNAUTHORIZED'')
      else (case r of
          ChallengeNotFound \<Rightarrow> Rejecting 409 ''CHALLENGE_REUSED''
        | ChallengeExpired \<Rightarrow> Rejecting 400 ''CHALLENGE_EXPIRED''
        | ValidChallenge c \<Rightarrow>
            if tc_address c \<noteq> vr_address req then Rejecting 400 ''CHALLENGE_MISMATCH''
            else if nonempty_text (vr_challenge req) \<and> vr_challenge req \<noteq> Some (tc_challenge c) then Rejecting 409 ''INVALID_REQUEST''
            else if \<not> le_verify E (vr_address req) (tc_challenge c) (decode_wallet_signature (vr_signature req))
            then Rejecting 401 ''UNAUTHORIZED''
            else Accepting c))"

definition nonce_text :: "json_text \<Rightarrow> json \<Rightarrow> string" where
  "nonce_text C v = (case v of JStr s \<Rightarrow> s | JDrop \<Rightarrow> ''undefined'' | w \<Rightarrow> jt_text C w)"

definition accept ::
  "'r auth_ops \<Rightarrow> json_text \<Rightarrow> login_env \<Rightarrow> wallet_verify_request \<Rightarrow> taken_challenge \<Rightarrow> nat \<Rightarrow> nat \<Rightarrow> 'r \<Rightarrow> 'r \<times> login_answer" where
  "accept A C E req c rnow now st =
     (let st1 = reset_failures A (vr_address req) rnow st
      in if vr_legacy req
         then (st1, case le_upsert E (vr_address req) of None \<Rightarrow> LoginRefused 500 ''INTERNAL_ERROR'' | Some m \<Rightarrow> LoggedIn (Some m))
         else
           (let st2 = fst (mark_nonce_used A (nonce_text C (tc_nonce c)) rnow st1);
                st3 = record_auth_ip_success A False (vr_ip req) rnow st2
            in case le_merchant E (vr_address req) of
                 None \<Rightarrow> (st3, LoggedIn None)
               | Some m \<Rightarrow> (create_auth_session A C (le_show_time E) (fst m) ''unknown'' (vr_new_jti req) now st3, LoggedIn (Some m))))"

fun verify_step ::
  "'r auth_ops \<Rightarrow> json_text \<Rightarrow> login_env \<Rightarrow> wallet_verify_request \<Rightarrow> nat \<Rightarrow> nat \<Rightarrow> login_stage \<Rightarrow> 'r \<Rightarrow> 'r \<times> login_stage" where
  "verify_step A C E req rnow now CheckLockout st =
     (st, if \<not> vr_legacy req \<and> \<not> enforce_auth_ip_reputation A False (le_ip_threshold E) (vr_ip req) rnow st
          then Answered (LoginRefused 429 ''RATE_LIMITED'')
          else if is_locked_out A default_wallet_auth_max_failures (vr_address req) rnow st
          then Answered (LoginRefused 429 ''WALLET_AUTH_LOCKOUT'') else ClaimChallenge)"
| "verify_step A C E req rnow now ClaimChallenge st =
     (case consume A C (vr_address req) rnow now st of (st', r) \<Rightarrow> (st', judge E req r))"
| "verify_step A C E req rnow now (Rejecting code err) st =
     (fst (record_failure A False default_wallet_auth_lockout_ttl_sec (vr_address req) rnow
        (if vr_legacy req then st else record_auth_ip_failure A False (vr_ip req) rnow st)),
      Answered (LoginRefused code err))"
| "verify_step A C E req rnow now (Accepting c) st =
     (case accept A C E req c rnow now st of (st', a) \<Rightarrow> (st', Answered a))"
| "verify_step A C E req rnow now (Answered a) st = (st, Answered a)"

text \<open>One login alone: three steps.\<close>

definition verify_login ::
  "'r auth_ops \<Rightarrow> json_text \<Rightarrow> login_env \<Rightarrow> wallet_verify_request \<Rightarrow> nat \<Rightarrow> nat \<Rightarrow> 'r \<Rightarrow> 'r \<times> login_stage" where
  "verify_login A C E req rnow now st =
     (case verify_step A C E req rnow now CheckLockout st of (st1, s1) \<Rightarrow>
       (case verify_step A C E req rnow now s1 st1 of (st2, s2) \<Rightarrow> verify_step A C E req rnow now s2 st2))"

subsection \<open>Concurrent logins\<close>

text \<open>
  The world is Redis, the logins with their stages and the challenges claimed so far: who
  claimed, and what the claim returned. An event takes the times of Redis and of the gateway that
  serves it. \<open>LoginStep i\<close> is the next step of login \<open>i\<close>, so any interleaving is a list of events.
\<close>

datatype wallet_event =
    ChallengeRequested string string string nat nat
  | LoginStarted wallet_verify_request
  | LoginStep nat nat nat
  | SessionEnded string nat

record 'r wallet_world =
  ww_redis :: 'r
  ww_logins :: "(wallet_verify_request \<times> login_stage) list"
  ww_claims :: "(wallet_verify_request \<times> consume_result) list"

fun wallet_step :: "'r auth_ops \<Rightarrow> json_text \<Rightarrow> login_env \<Rightarrow> wallet_event \<Rightarrow> 'r wallet_world \<Rightarrow> 'r wallet_world" where
  "wallet_step A C E (ChallengeRequested a nonce salt rnow now) w =
     w\<lparr> ww_redis := fst (issue A C wallet_challenge_ttl_ms a nonce salt rnow now (ww_redis w)) \<rparr>"
| "wallet_step A C E (LoginStarted req) w = w\<lparr> ww_logins := ww_logins w @ [(req, CheckLockout)] \<rparr>"
| "wallet_step A C E (LoginStep i rnow now) w =
     (if i < length (ww_logins w)
      then (case ww_logins w ! i of (req, s) \<Rightarrow>
        (case verify_step A C E req rnow now s (ww_redis w) of (st', s') \<Rightarrow>
           w\<lparr> ww_redis := st', ww_logins := (ww_logins w)[i := (req, s')],
              ww_claims := (if s = ClaimChallenge
                 then (req, snd (consume A C (vr_address req) rnow now (ww_redis w))) # ww_claims w else ww_claims w) \<rparr>))
      else w)"
| "wallet_step A C E (SessionEnded a rnow) w = w\<lparr> ww_redis := discard A a rnow (ww_redis w) \<rparr>"

definition wallet_run :: "'r auth_ops \<Rightarrow> json_text \<Rightarrow> login_env \<Rightarrow> wallet_event list \<Rightarrow> 'r wallet_world \<Rightarrow> 'r wallet_world" where
  "wallet_run A C E es w = fold (wallet_step A C E) es w"

text \<open>How often challenges with the property \<open>Q\<close> are issued to, or claimed for, an address.\<close>

fun issues :: "string \<Rightarrow> (string \<Rightarrow> bool) \<Rightarrow> wallet_event list \<Rightarrow> nat" where
  "issues a Q [] = 0"
| "issues a Q (ChallengeRequested a' nonce salt rnow now # es) =
     (if a' = a \<and> Q (nonce @ '':'' @ salt) then 1 else 0) + issues a Q es"
| "issues a Q (e # es) = issues a Q es"

definition claims_of :: "string \<Rightarrow> (string \<Rightarrow> bool) \<Rightarrow> wallet_verify_request \<times> consume_result \<Rightarrow> bool" where
  "claims_of a Q rc = (vr_address (fst rc) = a \<and> (case snd rc of ValidChallenge c \<Rightarrow> Q (tc_challenge c) | _ \<Rightarrow> False))"

definition claims :: "string \<Rightarrow> (string \<Rightarrow> bool) \<Rightarrow> 'r wallet_world \<Rightarrow> nat" where
  "claims a Q w = length (filter (claims_of a Q) (ww_claims w))"

text \<open>Logins past the signature check.\<close>

definition past_check :: "string \<Rightarrow> wallet_verify_request \<times> login_stage \<Rightarrow> bool" where
  "past_check a rs = (vr_address (fst rs) = a \<and>
     (case snd rs of Accepting c \<Rightarrow> True | Answered (LoggedIn m) \<Rightarrow> True | _ \<Rightarrow> False))"

definition logins :: "string \<Rightarrow> 'r wallet_world \<Rightarrow> nat" where
  "logins a w = length (filter (past_check a) (ww_logins w))"

lemma challenge_key_differs [simp]:
  "session_key x \<noteq> wallet_challenge_key a" "session_index_key x \<noteq> wallet_challenge_key a"
  "used_nonce_key x \<noteq> wallet_challenge_key a" "refresh_rate_key x \<noteq> wallet_challenge_key a"
  "auth_ip_score_key x \<noteq> wallet_challenge_key a" "revoked_jti_key x \<noteq> wallet_challenge_key a"
  "wallet_auth_fail_key x \<noteq> wallet_challenge_key a" "wallet_challenge_key x = wallet_challenge_key a \<longleftrightarrow> x = a"
  by (simp_all add: auth_keys)

context wallet_store
begin

text \<open>\<open>same_challenges st st'\<close>: the challenge keys are untouched.\<close>

definition same_challenges :: "'r \<Rightarrow> 'r \<Rightarrow> bool" where
  "same_challenges st st' = (invar st \<longrightarrow> invar st' \<and> (\<forall>a. entry st' (wallet_challenge_key a) = entry st (wallet_challenge_key a)))"

lemma same_refl: "same_challenges st st"
  by (simp add: same_challenges_def)

lemma same_trans: "same_challenges s1 s2 \<Longrightarrow> same_challenges s2 s3 \<Longrightarrow> same_challenges s1 s3"
  by (auto simp: same_challenges_def)

lemma same_kv:
  assumes "\<And>a. k \<noteq> wallet_challenge_key a"
  shows "same_challenges st (kv_set (au_kv A) st now k v ttl)" "same_challenges st (kv_del (au_kv A) st now k)"
    "same_challenges st (kv_pexpire (au_kv A) st now k n)" "same_challenges st (fst (kv_incr (au_kv A) st now k))"
    "same_challenges st (fst (kv_set_nx (au_kv A) st now k v n))"
proof -
  have nx: "entry (fst (kv_set_nx (au_kv A) st now k v n)) (wallet_challenge_key a) = entry st (wallet_challenge_key a)"
    if "invar st" for a
    using assms [of a] by (intro kv_set_nx_laws(3) that) auto
  show "same_challenges st (kv_set (au_kv A) st now k v ttl)" "same_challenges st (kv_del (au_kv A) st now k)"
    "same_challenges st (kv_pexpire (au_kv A) st now k n)" "same_challenges st (fst (kv_incr (au_kv A) st now k))"
    "same_challenges st (fst (kv_set_nx (au_kv A) st now k v n))"
    using assms assms [THEN not_sym] kv_set_laws [of st now k v ttl] kv_del_laws [of st now k] kv_pexpire_laws [of st now k n]
      kv_incr_laws [of st now k] kv_set_nx_laws(1) [of st now k v n] nx
    by (auto simp: same_challenges_def split: option.splits)
qed

lemma same_failure: "same_challenges st (fst (record_failure A xf ttl a now st))"
  unfolding same_challenges_def
proof (intro impI)
  assume inv: "invar st"
  obtain st' r where r: "record_failure A xf ttl a now st = (st', r)" by force
  note laws = record_failure_laws [OF inv r]
  have "entry st' (wallet_challenge_key b) = entry st (wallet_challenge_key b)" for b
    by (rule laws(3)) (use challenge_key_differs(7) in metis)
  with laws(1) r show "invar (fst (record_failure A xf ttl a now st)) \<and>
    (\<forall>b. entry (fst (record_failure A xf ttl a now st)) (wallet_challenge_key b) = entry st (wallet_challenge_key b))"
    by simp
qed

lemma same_ip:
  "same_challenges st (record_auth_ip_failure A x ip now st)" "same_challenges st (record_auth_ip_success A x ip now st)"
  using same_trans [OF same_kv(4) same_kv(3), of "auth_ip_score_key ip" "auth_ip_score_key ip"]
  by (simp_all add: record_auth_ip_failure_def record_auth_ip_success_def Let_def same_refl same_kv)

lemma same_fold_del: "same_challenges st (fold (\<lambda>old s. kv_del (au_kv A) s now (session_key old)) olds st)"
proof (induction olds arbitrary: st)
  case (Cons old olds)
  show ?case using same_trans [OF same_kv(2) Cons.IH] by simp
qed (simp add: same_refl)

lemma same_zset: "same_challenges st (au_zadd A st k s m)" "same_challenges st (au_zrem A st k ms)"
  using zadd [of st k s m] zrem [of st k ms] by (auto simp: same_challenges_def)

lemma same_create: "same_challenges st (create_auth_session A C f m d j now st)"
proof -
  have 1: "same_challenges st (au_zadd A (kv_set (au_kv A) st now (session_key j) v None) k s m')" for v k s m'
    by (rule same_trans [OF same_kv(1) same_zset(1)]) simp
  note 2 = same_trans [OF same_trans [OF 1 same_fold_del] same_zset(2)]
  show ?thesis by (simp add: create_auth_session_def Let_def 1 2)
qed

lemma same_accept: "same_challenges st (fst (accept A C E req c rnow now st))"
proof -
  have r: "same_challenges st (reset_failures A (vr_address req) rnow st)" for st by (simp add: reset_failures_def same_kv)
  have n: "same_challenges st (fst (mark_nonce_used A n rnow st))" for n st by (simp add: mark_nonce_used_def same_kv)
  have 3: "same_challenges st (record_auth_ip_success A False (vr_ip req) rnow
      (fst (mark_nonce_used A n rnow (reset_failures A (vr_address req) rnow st))))" for n
    by (rule same_trans [OF same_trans [OF r n] same_ip(2)])
  show ?thesis
    using same_trans [OF 3 same_create] 3 r by (auto simp: accept_def Let_def split: option.splits)
qed

end

lemma kv_live_none: "kv_live now None = None"
  by (simp add: kv_live_def)

lemma issues_snoc: "issues a Q (es @ [e]) = issues a Q es + issues a Q [e]"
  by (induction a Q es rule: issues.induct) simp_all

context wallet_store
begin

definition outstanding :: "string \<Rightarrow> (string \<Rightarrow> bool) \<Rightarrow> 'r \<Rightarrow> bool" where
  "outstanding a Q st =
     (\<exists>c x. entry st (wallet_challenge_key a) = Some (jt_text C (challenge_json c), Some x) \<and> Q (sc_challenge c))"

definition challenges_sound :: "'r \<Rightarrow> bool" where
  "challenges_sound st = (invar st \<and> (\<forall>a. entry st (wallet_challenge_key a) = None \<or>
     (\<exists>c x. entry st (wallet_challenge_key a) = Some (jt_text C (challenge_json c), Some x))))"

lemma same_challenge_text: "jt_text C (challenge_json c) = jt_text C (challenge_json c') \<Longrightarrow> sc_challenge c = sc_challenge c'"
  using challenge_text(1) [of c] challenge_text(1) [of c'] by (simp add: challenge_json_def)

lemma same_sound:
  assumes "same_challenges st st'" "challenges_sound st"
  shows "challenges_sound st' \<and> outstanding a Q st' = outstanding a Q st"
  using assms by (simp add: same_challenges_def challenges_sound_def outstanding_def)

lemma same_verify_step:
  assumes "s \<noteq> ClaimChallenge"
  shows "same_challenges st (fst (verify_step A C E req rnow now s st))"
proof (cases s)
  case (Accepting c)
  with same_accept [of st E req c rnow now] show ?thesis by (simp add: case_prod_beta)
next
  case (Rejecting code err)
  with same_failure same_trans [OF same_ip(1) same_failure] show ?thesis by simp
qed (use assms in \<open>simp_all add: same_refl\<close>)

lemma issue_sound:
  assumes "challenges_sound st" "issue A C ttl a nonce salt rnow now st = (st', c)"
  shows "challenges_sound st' \<and> outstanding b Q st' = (if b = a then Q (nonce @ '':'' @ salt) else outstanding b Q st)"
proof -
  have "invar st" using assms(1) by (simp add: challenges_sound_def)
  note l = issue_laws [OF this assms(2)]
  have "challenges_sound st'" using assms(1) l(1,2) by (auto simp: challenges_sound_def)
  moreover have "outstanding b Q st' = outstanding b Q st" if "b \<noteq> a" using that l(2) by (simp add: outstanding_def)
  moreover have "outstanding a Q st' \<longleftrightarrow> Q (sc_challenge c)"
  proof
    assume "outstanding a Q st'"
    then obtain c' where "jt_text C (challenge_json c) = jt_text C (challenge_json c')" "Q (sc_challenge c')"
      unfolding outstanding_def l(2) fun_upd_same by blast
    then show "Q (sc_challenge c)" using same_challenge_text [of c c'] by simp
  next
    assume "Q (sc_challenge c)"
    then show "outstanding a Q st'" unfolding outstanding_def l(2) fun_upd_same by blast
  qed
  ultimately show ?thesis using l(3) by auto
qed

lemma consume_sound:
  assumes "challenges_sound st" "consume A C a rnow now st = (st', r)"
  shows "challenges_sound st'"
    "(if \<exists>tc. r = ValidChallenge tc \<and> b = a \<and> Q (tc_challenge tc) then 1 else 0) + (if outstanding b Q st' then 1 else 0 :: nat) \<le>
       (if outstanding b Q st then 1 else 0)"
proof -
  have inv: "invar st" using assms(1) by (simp add: challenges_sound_def)
  note l = consume_laws [OF inv assms(2)]
  from assms(1) l(1,3) show sound: "challenges_sound st'" by (auto simp: challenges_sound_def)
  show "(if \<exists>tc. r = ValidChallenge tc \<and> b = a \<and> Q (tc_challenge tc) then 1 else 0) + (if outstanding b Q st' then 1 else 0 :: nat) \<le>
       (if outstanding b Q st then 1 else 0)"
  proof (cases "kv_live rnow (entry st (wallet_challenge_key a))")
    case None
    then have "st' = st \<or> entry st' = entry st" "r = ChallengeNotFound"
      using l(2,3) by (simp_all add: consume_answer_def)
    then show ?thesis by (auto simp: outstanding_def)
  next
    case (Some raw)
    then have gone: "entry st' = (entry st)(wallet_challenge_key a := None)" using l(3) by simp
    from assms(1) Some obtain c x where e: "entry st (wallet_challenge_key a) = Some (jt_text C (challenge_json c), Some x)"
      unfolding challenges_sound_def by (metis kv_live_none option.distinct(1))
    with Some have raw: "raw = jt_text C (challenge_json c)" by (simp add: kv_live_some split: if_splits)
    have r: "r = ValidChallenge tc \<Longrightarrow> tc_challenge tc = sc_challenge c" for tc
      using l(2) Some raw consumed_challenge by (auto split: if_splits)
    show ?thesis
    proof (cases "b = a")
      case True
      then have "\<not> outstanding b Q st'" using gone by (simp add: outstanding_def)
      moreover have "outstanding b Q st" if "r = ValidChallenge tc" "Q (tc_challenge tc)" for tc
        using that True e r by (auto simp: outstanding_def)
      ultimately show ?thesis by auto
    next
      case False
      then have "outstanding b Q st' = outstanding b Q st" using gone by (simp add: outstanding_def)
      with False show ?thesis by simp
    qed
  qed
qed

lemma wallet_step_bound:
  assumes "challenges_sound (ww_redis w)"
  shows "challenges_sound (ww_redis (wallet_step A C E e w)) \<and>
    claims a Q (wallet_step A C E e w) + (if outstanding a Q (ww_redis (wallet_step A C E e w)) then 1 else 0) \<le>
       claims a Q w + (if outstanding a Q (ww_redis w) then 1 else 0) + issues a Q [e]"
proof (cases e)
  case (ChallengeRequested b nonce salt rnow now)
  obtain st' c where i: "issue A C wallet_challenge_ttl_ms b nonce salt rnow now (ww_redis w) = (st', c)" by force
  from issue_sound [OF assms i, of a Q] ChallengeRequested i show ?thesis by (auto simp: claims_def)
next
  case (LoginStarted req)
  with assms show ?thesis
    by (simp add: claims_def)
next
  case (LoginStep i rnow now)
  obtain req s where rs: "ww_logins w ! i = (req, s)" by force
  obtain st' s' where v: "verify_step A C E req rnow now s (ww_redis w) = (st', s')" by force
  show ?thesis
  proof (cases "s = ClaimChallenge")
    case True
    obtain st'' r where c: "consume A C (vr_address req) rnow now (ww_redis w) = (st'', r)" by force
    with v True have st: "st' = st''" by simp
    have "claims_of a Q (req, r) = (\<exists>tc. r = ValidChallenge tc \<and> a = vr_address req \<and> Q (tc_challenge tc))"
      by (auto simp: claims_of_def split: consume_result.splits)
    with consume_sound(2) [OF assms c, of a Q] have
      "(if claims_of a Q (req, r) then 1 else 0) + (if outstanding a Q st'' then 1 else 0 :: nat) \<le>
         (if outstanding a Q (ww_redis w) then 1 else 0)"
      by (simp only: conj_commute)
    with consume_sound(1) [OF assms c] LoginStep rs v c st True assms show ?thesis
      by (simp add: claims_def split del: if_split) (simp split: if_split_asm if_split)
  next
    case False
    with same_sound [OF same_verify_step [OF False, where E = E and req = req and rnow = rnow and now = now and st = "ww_redis w"] assms, of a Q] LoginStep rs v assms
    show ?thesis by (simp add: claims_def)
  qed
next
  case (SessionEnded b rnow)
  have "invar (ww_redis w)" using assms by (simp add: challenges_sound_def)
  note l = kv_del_laws [OF this, of rnow "wallet_challenge_key b"]
  have "challenges_sound (discard A b rnow (ww_redis w))"
    using assms l by (simp add: challenges_sound_def discard_def)
  moreover have "outstanding a Q (discard A b rnow (ww_redis w)) \<Longrightarrow> outstanding a Q (ww_redis w)"
    using l by (auto simp: outstanding_def discard_def split: if_splits)
  ultimately show ?thesis
    using SessionEnded by (auto simp: claims_def)
qed

end

lemma claims_of_Cons: "length (filter P (x # xs)) = (if P x then 1 else 0) + length (filter P xs)"
  by simp

lemma length_filter_update:
  assumes "i < length xs" "P y \<Longrightarrow> P (xs ! i) \<or> extra"
  shows "length (filter P (xs[i := y])) \<le> length (filter P xs) + (if extra then 1 else 0)"
proof -
  have u: "xs[i := y] = take i xs @ y # drop (Suc i) xs" using assms(1) by (simp add: upd_conv_take_nth_drop)
  have x: "xs = take i xs @ xs ! i # drop (Suc i) xs" using assms(1) by (simp add: id_take_nth_drop [symmetric])
  have "length (filter P xs) = length (filter P (take i xs)) + (if P (xs ! i) then 1 else 0) + length (filter P (drop (Suc i) xs))"
    by (subst x) simp
  with u assms(2) show ?thesis by auto
qed

lemma judge_accepts: "judge E req r = Accepting c \<Longrightarrow> r = ValidChallenge c"
  by (auto simp: judge_def split: if_splits consume_result.splits)

lemma judge_not_answered: "judge E req r \<noteq> Answered x" "judge E req r \<noteq> CheckLockout"
  by (auto simp: judge_def split: consume_result.splits)

lemma logins_step:
  "logins a (wallet_step A C E e w) + claims a (\<lambda>_. True) w \<le> logins a w + claims a (\<lambda>_. True) (wallet_step A C E e w)"
proof (cases e)
  case (LoginStep i rnow now)
  obtain req s where rs: "ww_logins w ! i = (req, s)" by force
  obtain st' s' where v: "verify_step A C E req rnow now s (ww_redis w) = (st', s')" by force
  define r where "r = snd (consume A C (vr_address req) rnow now (ww_redis w))"
  have "past_check a (req, s) \<or> s = ClaimChallenge \<and> claims_of a (\<lambda>_. True) (req, r)" if "past_check a (req, s')"
  proof (cases s)
    case ClaimChallenge
    with v have "s' = judge E req r" by (simp add: r_def case_prod_beta)
    with that obtain c where "s' = Accepting c" using judge_not_answered [of E req r]
      by (auto simp: past_check_def split: login_stage.splits)
    with \<open>s' = judge E req r\<close> have "r = ValidChallenge c" by (simp add: judge_accepts)
    with ClaimChallenge that show ?thesis by (simp add: past_check_def claims_of_def)
  next
    case (Accepting c)
    with that show ?thesis by (simp add: past_check_def)
  next
    case CheckLockout
    with v have "s' = ClaimChallenge \<or> (\<exists>code err. s' = Answered (LoginRefused code err))" by (auto split: if_splits)
    with that show ?thesis by (auto simp: past_check_def)
  next
    case (Rejecting code err)
    with v that show ?thesis by (auto simp: past_check_def)
  next
    case (Answered x)
    with v that show ?thesis by simp
  qed
  then have "past_check a (req, s') \<Longrightarrow> past_check a (ww_logins w ! i) \<or> s = ClaimChallenge \<and> claims_of a (\<lambda>_. True) (req, r)"
    by (simp add: rs)
  then have u: "length (filter (past_check a) ((ww_logins w)[i := (req, s')])) \<le> length (filter (past_check a) (ww_logins w)) +
      (if s = ClaimChallenge \<and> claims_of a (\<lambda>_. True) (req, r) then 1 else 0)" if "i < length (ww_logins w)"
    using that by (rule length_filter_update [rotated])
  show ?thesis
  proof (cases "i < length (ww_logins w)")
    case True
    from u [OF True] LoginStep rs v True show ?thesis
      by (cases "s = ClaimChallenge") (simp_all add: logins_def claims_def flip: r_def split: if_splits)
  next
    case False
    with LoginStep show ?thesis by simp
  qed
qed (simp_all add: logins_def claims_def past_check_def)

lemma wallet_run_snoc: "wallet_run A C E (es @ [e]) w = wallet_step A C E e (wallet_run A C E es w)"
  by (simp add: wallet_run_def)

definition empty_world :: "'r \<Rightarrow> 'r wallet_world" where
  "empty_world st = \<lparr> ww_redis = st, ww_logins = [], ww_claims = [] \<rparr>"

subsection \<open>Properties\<close>

text \<open>
  C3: A challenge is good for one attempt. In every interleaving of challenge requests, logins on
  both routes, logouts and the passing of time, started without outstanding challenges, the
  claims that yielded a challenge are at most as many as the times that challenge was issued to
  that address, for every set \<open>Q\<close> of challenges: a signature is checked once against an issued
  challenge, valid or not, and an address has at most as many successful logins as challenges
  were issued to it.
\<close>

theorem challenge_single_use:
  assumes "wallet_store A invar entry zitems C" "invar st" "\<forall>b. entry st (wallet_challenge_key b) = None"
  shows "claims a Q (wallet_run A C E es (empty_world st)) \<le> issues a Q es \<and>
    logins a (wallet_run A C E es (empty_world st)) \<le> issues a (\<lambda>_. True) es"
proof -
  let ?out = "wallet_store.outstanding entry C"
  let ?w = "\<lambda>es. wallet_run A C E es (empty_world st)"
  have bound: "wallet_store.challenges_sound invar entry C (ww_redis (?w es)) \<and>
    claims a Q (?w es) + (if ?out a Q (ww_redis (?w es)) then 1 else 0) \<le> issues a Q es" for Q es
  proof (induction es rule: rev_induct)
    case Nil
    have "wallet_store.challenges_sound invar entry C st" "\<not> ?out a Q st"
      using assms(2,3) by (simp_all add: wallet_store.challenges_sound_def [OF assms(1)] wallet_store.outstanding_def [OF assms(1)])
    then show ?case by (simp add: wallet_run_def empty_world_def claims_def)
  next
    case (snoc e es)
    with wallet_store.wallet_step_bound [OF assms(1), of "?w es" E e a Q] issues_snoc [of a Q es e]
    show ?case by (simp add: wallet_run_snoc)
  qed
  have "logins a (?w es) \<le> claims a (\<lambda>_. True) (?w es)" for es
  proof (induction es rule: rev_induct)
    case (snoc e es)
    with logins_step [of a A C E e "?w es"] show ?case by (simp add: wallet_run_snoc)
  qed (simp add: wallet_run_def empty_world_def logins_def)
  then show ?thesis using bound [where Q = Q and es = es] bound [where Q = "\<lambda>_. True" and es = es] by (meson add_leE le_trans)
qed

definition demo_env :: login_env where
  "demo_env = \<lparr> le_verify = (\<lambda>a c s. s = Base64Bytes (''sig-'' @ c)), le_merchant = (\<lambda>a. None), le_upsert = (\<lambda>a. None),
     le_show_time = (\<lambda>_. ''now''), le_ip_threshold = 20 \<rparr>"

definition demo_login :: wallet_verify_request where
  "demo_login = \<lparr> vr_legacy = False, vr_address = ''GA'', vr_signature = ''sig-n:s'', vr_challenge = None,
     vr_ip = ''ip'', vr_new_jti = ''j'' \<rparr>"

definition two_logins :: "wallet_event list" where
  "two_logins = [ChallengeRequested ''GA'' ''n'' ''s'' 0 0, LoginStarted demo_login, LoginStarted demo_login,
     LoginStep 0 10 10, LoginStep 1 10 10, LoginStep 1 20 20, LoginStep 0 20 20, LoginStep 0 30 30, LoginStep 1 40 40]"

lemma challenge_single_use_witness:
  "logins ''GA'' (wallet_run am_ops flat_codec demo_env two_logins (empty_world ([], []))) \<le> 1 \<and>
   map snd (ww_logins (wallet_run am_ops flat_codec demo_env two_logins (empty_world ([], [])))) =
     [Answered (LoginRefused 409 ''CHALLENGE_REUSED''), Answered (LoggedIn None)]"
proof -
  have "issues ''GA'' (\<lambda>_. True) two_logins = 1" by (simp add: two_logins_def)
  moreover have "map snd (ww_logins (wallet_run am_ops flat_codec demo_env two_logins (empty_world ([], [])))) =
     [Answered (LoginRefused 409 ''CHALLENGE_REUSED''), Answered (LoggedIn None)]"
    by code_simp
  ultimately show ?thesis
    using challenge_single_use [OF wm.wallet_store_axioms, of "([], [])" "''GA''" "\<lambda>_. True" demo_env two_logins]
    by (simp add: am_invar_def am_items_def)
qed

context wallet_store
begin

lemma verify_login_open:
  assumes "vr_legacy req \<or> enforce_auth_ip_reputation A False (le_ip_threshold E) (vr_ip req) rnow st"
    and "\<not> is_locked_out A default_wallet_auth_max_failures (vr_address req) rnow st"
    and "consume A C (vr_address req) rnow now st = (st1, r)"
  shows "verify_login A C E req rnow now st = verify_step A C E req rnow now (judge E req r) st1"
  using assms by (auto simp: verify_login_def)

lemma no_challenge_no_login:
  assumes "invar st" "kv_live rnow (entry st (wallet_challenge_key (vr_address req))) = None"
  shows "snd (verify_login A C E req rnow now st) \<noteq> Answered (LoggedIn m)"
proof -
  obtain st1 r where c: "consume A C (vr_address req) rnow now st = (st1, r)" by force
  have "r = ChallengeNotFound" using consume_laws(2) [OF assms(1) c] assms(2) by (simp add: consume_answer_def)
  with c show ?thesis by (auto simp: verify_login_def judge_def)
qed

lemma verify_keeps_challenges:
  assumes "invar st"
  shows "invar (fst (verify_step A C E req rnow now (judge E req r) st)) \<and>
    entry (fst (verify_step A C E req rnow now (judge E req r) st)) (wallet_challenge_key a) = entry st (wallet_challenge_key a)"
proof -
  have "judge E req r \<noteq> ClaimChallenge" by (auto simp: judge_def split: consume_result.splits)
  from same_verify_step [OF this, of st E req rnow now] assms show ?thesis by (simp add: same_challenges_def)
qed

end

text \<open>The answer to the first attempt with an issued challenge, on either login route.\<close>

definition first_answer :: "login_env \<Rightarrow> wallet_verify_request \<Rightarrow> string \<Rightarrow> bool \<Rightarrow> bool \<Rightarrow> login_answer" where
  "first_answer E req challenge dropped expired =
     (if dropped then (if vr_legacy req then LoginRefused 400 ''INVALID_REQUEST'' else LoginRefused 409 ''CHALLENGE_REUSED'')
      else if expired then LoginRefused 400 (if vr_legacy req then ''INVALID_REQUEST'' else ''CHALLENGE_EXPIRED'')
      else if \<not> vr_legacy req \<and> nonempty_text (vr_challenge req) \<and> vr_challenge req \<noteq> Some challenge
      then LoginRefused 409 ''INVALID_REQUEST''
      else if \<not> le_verify E (vr_address req) challenge
          (if vr_legacy req then HexBytes (vr_signature req) else decode_wallet_signature (vr_signature req))
      then LoginRefused 401 ''UNAUTHORIZED''
      else if vr_legacy req
      then (case le_upsert E (vr_address req) of None \<Rightarrow> LoginRefused 500 ''INTERNAL_ERROR'' | Some m \<Rightarrow> LoggedIn (Some m))
      else LoggedIn (le_merchant E (vr_address req)))"

text \<open>
  C33: What a wallet gets for an issued challenge, on either login route. An IP whose
  failures have reached the threshold (on the new route) and a locked out address get 429, and
  the challenge stays. Otherwise the first attempt is refused when Redis has dropped the record, when the clock
  of the gateway is past the deadline, when the client of the new route echoes another challenge
  (409) and when the signature over the stored challenge is invalid (401); else it logs in, with
  the merchant of the address if it has one, on the older route with the merchant it creates (500
  when that fails). After an attempt that was not answered 429, or once the record has expired, no
  request of that address on either route logs in without a new challenge.
\<close>

theorem issued_challenge_outcome:
  assumes "wallet_store A invar entry zitems C" "invar st"
    and issue: "issue A C ttl (vr_address req) nonce salt rnow now st = (st1, c)"
    and verify: "verify_login A C E req rnow' now' st1 = (st2, answer)"
    and "vr_address req' = vr_address req" "rnow' \<le> rnow''"
  defines "limited \<equiv> \<not> vr_legacy req \<and> \<not> enforce_auth_ip_reputation A False (le_ip_threshold E) (vr_ip req) rnow' st1"
    and "locked \<equiv> is_locked_out A default_wallet_auth_max_failures (vr_address req) rnow' st1"
  shows "answer = Answered
      (if limited then LoginRefused 429 ''RATE_LIMITED''
       else if locked then LoginRefused 429 ''WALLET_AUTH_LOCKOUT''
       else first_answer E req (nonce @ '':'' @ salt) (rnow + ttl \<le> rnow') (now + ttl < now')) \<and>
    (\<not> limited \<and> \<not> locked \<or> rnow + ttl \<le> rnow'' \<longrightarrow>
       snd (verify_login A C E req' rnow'' now'' st2) \<noteq> Answered (LoggedIn m))"
proof -
  let ?key = "wallet_challenge_key (vr_address req)"
  note i = wallet_store.issue_laws [OF assms(1,2) issue]
  have e: "entry st1 ?key = Some (jt_text C (challenge_json c), Some (rnow + ttl))" using i(2) by simp
  show ?thesis
  proof (cases "limited \<or> locked")
    case True
    then have a: "st2 = st1" "answer = Answered (if limited then LoginRefused 429 ''RATE_LIMITED''
        else LoginRefused 429 ''WALLET_AUTH_LOCKOUT'')"
      using verify by (auto simp: verify_login_def limited_def locked_def split: if_splits)
    have "snd (verify_login A C E req' rnow'' now'' st2) \<noteq> Answered (LoggedIn m)" if "rnow + ttl \<le> rnow''"
      using wallet_store.no_challenge_no_login [OF assms(1) i(1), of rnow'' req'] e that a(1) assms(5)
      by (simp add: kv_live_some)
    with True a show ?thesis by auto
  next
    case False
    obtain st3 r where con: "consume A C (vr_address req) rnow' now' st1 = (st3, r)" by force
    note l = wallet_store.consume_laws [OF assms(1) i(1) con]
    have v: "verify_login A C E req rnow' now' st1 = verify_step A C E req rnow' now' (judge E req r) st3"
      using wallet_store.verify_login_open [OF assms(1) _ _ con] False by (simp add: limited_def locked_def)
    have "r = (if rnow + ttl \<le> rnow' then ChallengeNotFound else if now + ttl < now' then ChallengeExpired
       else ValidChallenge \<lparr> tc_challenge = nonce @ '':'' @ salt, tc_address = vr_address req,
              tc_expires_at = of_nat (now + ttl), tc_nonce = JStr nonce \<rparr>)"
      using l(2) e i(3) wallet_store.consumed_challenge [OF assms(1), of now' c]
      by (auto simp: kv_live_some consume_answer_def not_le)
    then have answer: "answer = Answered (first_answer E req (nonce @ '':'' @ salt) (rnow + ttl \<le> rnow') (now + ttl < now'))"
      using v verify
      by (cases "vr_legacy req"; cases "rnow + ttl \<le> rnow'"; cases "now + ttl < now'")
         (auto simp: judge_def accept_def first_answer_def Let_def split: option.splits if_splits)
    have "kv_live rnow'' (entry st3 ?key) = None"
      using l(3) e assms(6) by (auto simp: kv_live_some kv_live_none)
    moreover have "verify_step A C E req rnow' now' (judge E req r) st3 = (st2, answer)" using v verify by simp
    ultimately have "invar st2" "kv_live rnow'' (entry st2 ?key) = None"
      using wallet_store.verify_keeps_challenges [OF assms(1) l(1), of E req rnow' now' r "vr_address req"] by simp_all
    with wallet_store.no_challenge_no_login [OF assms(1), of st2 rnow'' req'] assms(5) answer False show ?thesis by simp
  qed
qed

lemma issued_challenge_outcome_witness:
  "snd (verify_login am_ops flat_codec demo_env demo_login 60000 60000
     (fst (issue am_ops flat_codec wallet_challenge_ttl_ms ''GA'' ''n'' ''s'' 0 0 ([], [])))) = Answered (LoggedIn None)"
proof -
  let ?i = "issue am_ops flat_codec wallet_challenge_ttl_ms (vr_address demo_login) ''n'' ''s'' 0 0 ([], [])"
  have "enforce_auth_ip_reputation am_ops False (le_ip_threshold demo_env) (vr_ip demo_login) 60000 (fst ?i)"
    "\<not> is_locked_out am_ops default_wallet_auth_max_failures (vr_address demo_login) 60000 (fst ?i)"
    "decode_wallet_signature ''sig-n:s'' = Base64Bytes ''sig-n:s''"
    by code_simp+
  with issued_challenge_outcome [OF wm.wallet_store_axioms _ prod.collapse [symmetric] prod.collapse [symmetric],
      where req = demo_login and req' = demo_login and rnow' = 60000 and rnow'' = 60000 and now' = 60000 and ttl = wallet_challenge_ttl_ms
        and st = "([], [])" and nonce = "''n''" and salt = "''s''" and rnow = 0 and now = 0 and E = demo_env]
  show ?thesis
    by (simp add: am_invar_def am_items_def demo_login_def demo_env_def wallet_challenge_ttl_ms_def nonempty_text_def first_answer_def)
qed

end
