(* ===== verification/Binary64.thy ===== *)
theory Binary64
  imports JsNumber
begin

section \<open>JavaScript numbers\<close>

text \<open>
  The numbers of the program are IEEE binary64 values. \<open>round64\<close> is the rounding of an exact
  result to the nearest of them, ties to even, with gradual underflow and overflow to an
  infinity; the operations the FX engine uses are defined from it. Zeros are not signed here:
  the program neither divides by a zero nor prints one.
\<close>

datatype number = Fin rat | PosInf | NegInf | NaN

subsection \<open>Rounding\<close>

fun bits :: "nat \<Rightarrow> nat" where
  "bits n = (if n = 0 then 0 else Suc (bits (n div 2)))"

declare bits.simps [simp del]

definition round_even :: "rat \<Rightarrow> int" where
  "round_even x =
     (let f = \<lfloor>x\<rfloor>; d = x - of_int f
      in if d < 1 / 2 then f else if 1 / 2 < d then f + 1 else if even f then f else f + 1)"

text \<open>The exponent of the last of the 53 bits of a positive number\<close>

definition floor_log2 :: "rat \<Rightarrow> int" where
  "floor_log2 x =
     (case quotient_of x of (p, q) \<Rightarrow>
        let k = int (bits (nat p)) - int (bits (nat q)) in if 2 powi k \<le> x then k else k - 1)"

definition ulp_exponent :: "rat \<Rightarrow> int" where
  "ulp_exponent x = max (floor_log2 x - 52) (- 1074)"

definition nearest :: "rat \<Rightarrow> rat" where
  "nearest x =
     (if x = 0 then 0
      else let u = 2 powi ulp_exponent \<bar>x\<bar> in of_int (round_even (x / u)) * u)"

definition round64 :: "rat \<Rightarrow> number" where
  "round64 x =
     (let y = nearest x
      in if y = 0 \<or> floor_log2 \<bar>y\<bar> < 1024 then Fin y else if 0 < y then PosInf else NegInf)"

subsection \<open>Operations\<close>

fun num_div :: "number \<Rightarrow> number \<Rightarrow> number" where
  "num_div NaN _ = NaN"
| "num_div _ NaN = NaN"
| "num_div (Fin a) (Fin b) =
     (if b = 0 then (if a = 0 then NaN else if 0 < a then PosInf else NegInf) else round64 (a / b))"
| "num_div (Fin a) _ = Fin 0"
| "num_div PosInf (Fin b) = (if b < 0 then NegInf else PosInf)"
| "num_div NegInf (Fin b) = (if b < 0 then PosInf else NegInf)"
| "num_div _ _ = NaN"

fun num_mul :: "number \<Rightarrow> number \<Rightarrow> number" where
  "num_mul NaN _ = NaN"
| "num_mul _ NaN = NaN"
| "num_mul (Fin a) (Fin b) = round64 (a * b)"
| "num_mul (Fin a) PosInf = (if a = 0 then NaN else if 0 < a then PosInf else NegInf)"
| "num_mul (Fin a) NegInf = (if a = 0 then NaN else if 0 < a then NegInf else PosInf)"
| "num_mul PosInf (Fin b) = (if b = 0 then NaN else if 0 < b then PosInf else NegInf)"
| "num_mul NegInf (Fin b) = (if b = 0 then NaN else if 0 < b then NegInf else PosInf)"
| "num_mul PosInf PosInf = PosInf"
| "num_mul NegInf NegInf = PosInf"
| "num_mul _ _ = NegInf"

fun num_sub :: "number \<Rightarrow> number \<Rightarrow> number" where
  "num_sub NaN _ = NaN"
| "num_sub _ NaN = NaN"
| "num_sub (Fin a) (Fin b) = round64 (a - b)"
| "num_sub (Fin a) PosInf = NegInf"
| "num_sub (Fin a) NegInf = PosInf"
| "num_sub PosInf PosInf = NaN"
| "num_sub NegInf NegInf = NaN"
| "num_sub PosInf _ = PosInf"
| "num_sub NegInf _ = NegInf"

fun num_abs :: "number \<Rightarrow> number" where
  "num_abs (Fin a) = Fin \<bar>a\<bar>"
| "num_abs NaN = NaN"
| "num_abs _ = PosInf"

text \<open>\<open>a < b\<close> and \<open>a <= b\<close>: both false when an operand is \<open>NaN\<close>\<close>

fun num_less :: "number \<Rightarrow> number \<Rightarrow> bool" where
  "num_less NaN _ = False"
| "num_less _ NaN = False"
| "num_less (Fin a) (Fin b) = (a < b)"
| "num_less NegInf b = (b \<noteq> NegInf)"
| "num_less a PosInf = (a \<noteq> PosInf)"
| "num_less _ _ = False"

definition num_le :: "number \<Rightarrow> number \<Rightarrow> bool" where
  "num_le a b = (a \<noteq> NaN \<and> b \<noteq> NaN \<and> \<not> num_less b a)"

text \<open>
  \<open>Number.prototype.toFixed\<close>: the nearest decimal with the given number of places, the larger of
  two; from \<open>10^21\<close> on it prints as \<open>String\<close> does, by the argument \<open>num\<close>.
\<close>

definition fixed_digits :: "rat \<Rightarrow> nat \<Rightarrow> string" where
  "fixed_digits x d = fixed_string d (nat \<lfloor>x * 10 ^ d + 1 / 2\<rfloor>)"

definition to_fixed :: "(rat \<Rightarrow> string) \<Rightarrow> number \<Rightarrow> nat \<Rightarrow> string" where
  "to_fixed num x d =
     (case x of
        NaN \<Rightarrow> ''NaN''
      | PosInf \<Rightarrow> ''Infinity''
      | NegInf \<Rightarrow> ''-Infinity''
      | Fin a \<Rightarrow>
          if 10 ^ 21 \<le> \<bar>a\<bar> then num a
          else if a < 0 then CHR ''-'' # fixed_digits (- a) d else fixed_digits a d)"

text \<open>\<open>parseFloat\<close> and \<open>Number\<close> of a decimal literal\<close>

definition number_of_decimal :: "string \<Rightarrow> number" where
  "number_of_decimal s = round64 (dec_val s)"

subsection \<open>Properties of the rounding\<close>

lemma bits_bounds: "0 < n \<Longrightarrow> 2 ^ (bits n - 1) \<le> n \<and> n < 2 ^ bits n \<and> 0 < bits n"
proof (induction n rule: bits.induct)
  case (1 n)
  show ?case
  proof (cases "n div 2 = 0")
    case True
    with "1.prems" have "n = 1" by simp
    then show ?thesis by (simp add: bits.simps [of "Suc 0"] bits.simps [of 0])
  next
    case False
    with 1 have IH: "2 ^ (bits (n div 2) - 1) \<le> n div 2" "n div 2 < 2 ^ bits (n div 2)" "0 < bits (n div 2)"
      by auto
    have b: "bits n = Suc (bits (n div 2))" using "1.prems" by (simp add: bits.simps [of n])
    from IH(3) have "(2::nat) ^ bits (n div 2) = 2 * 2 ^ (bits (n div 2) - 1)"
      by (cases "bits (n div 2)") auto
    define t where "t = (2::nat) ^ (bits (n div 2) - 1)"
    from IH b \<open>2 ^ bits (n div 2) = _\<close> have
      "t \<le> n div 2" "n div 2 < 2 * t" "2 ^ (bits n - 1) = 2 * t" "2 ^ bits n = 4 * t" "0 < bits n"
      by (simp_all add: t_def)
    moreover have "n = 2 * (n div 2) + n mod 2" "n mod 2 < 2" by simp_all
    ultimately show ?thesis by linarith
  qed
qed

lemma round_even_error: "\<bar>of_int (round_even x) - x\<bar> \<le> 1 / 2"
proof -
  have "of_int \<lfloor>x\<rfloor> \<le> x" "x < of_int \<lfloor>x\<rfloor> + 1" by linarith+
  then show ?thesis by (simp add: round_even_def Let_def abs_le_iff)
qed

lemma round_even_int [simp]: "round_even (of_int i) = i"
  by (simp add: round_even_def)

lemma round_even_nonneg: "0 \<le> x \<Longrightarrow> 0 \<le> round_even x"
  by (auto simp: round_even_def Let_def)

lemma floor_log2:
  assumes "0 < x"
  shows "2 powi floor_log2 x \<le> x \<and> x < 2 powi (floor_log2 x + 1)"
proof -
  obtain p q where pq: "quotient_of x = (p, q)" by (cases "quotient_of x")
  then have q: "0 < q" and x: "x = of_int p / of_int q"
    by (auto dest: quotient_of_denom_pos quotient_of_div)
  with assms have p: "0 < p" by (simp add: zero_less_divide_iff)
  define n m where "n = nat p" and "m = nat q"
  with p q x have nm: "0 < n" "0 < m" "x = of_nat n / of_nat m" by simp_all
  define k where "k = int (bits n) - int (bits m)"
  have N: "2 ^ (bits n - 1) \<le> n" "n < 2 ^ bits n" "0 < bits n"
    and M: "2 ^ (bits m - 1) \<le> m" "m < 2 ^ bits m" "0 < bits m"
    using bits_bounds [OF nm(1)] bits_bounds [OF nm(2)] by simp_all
  have N': "(2::rat) ^ (bits n - 1) \<le> of_nat n" "of_nat n < (2::rat) ^ bits n"
    and M': "(2::rat) ^ (bits m - 1) \<le> of_nat m" "of_nat m < (2::rat) ^ bits m"
    using N(1,2) M(1,2) of_nat_le_iff [where 'a = rat, of "2 ^ (bits n - 1)" n]
      of_nat_less_iff [where 'a = rat, of n "2 ^ bits n"]
      of_nat_le_iff [where 'a = rat, of "2 ^ (bits m - 1)" m]
      of_nat_less_iff [where 'a = rat, of m "2 ^ bits m"]
    by simp_all
  have "(2::rat) powi (k + 1) = 2 ^ bits n / 2 ^ (bits m - 1)"
  proof -
    have "k + 1 = int (bits n) - int (bits m - 1)" using M(3) by (simp add: k_def)
    then show ?thesis by (simp add: power_int_diff)
  qed
  moreover have "(2::rat) powi (k - 1) = 2 ^ (bits n - 1) / 2 ^ bits m"
  proof -
    have "k - 1 = int (bits n - 1) - int (bits m)" using N(3) by (simp add: k_def)
    then show ?thesis by (simp add: power_int_diff)
  qed
  moreover have "x < 2 ^ bits n / 2 ^ (bits m - 1)"
    unfolding nm(3) using N'(2) M'(1) by (intro frac_less) auto
  moreover have "2 ^ (bits n - 1) / 2 ^ bits m \<le> x"
    unfolding nm(3) using N'(1) M' nm(2) by (intro frac_le) auto
  moreover have "floor_log2 x = (if 2 powi k \<le> x then k else k - 1)"
    by (simp add: floor_log2_def pq n_def m_def k_def Let_def)
  ultimately show ?thesis by auto
qed

lemma nearest_0 [simp]: "nearest 0 = 0"
  by (simp add: nearest_def)

lemma nearest_nonneg: "0 \<le> x \<Longrightarrow> 0 \<le> nearest x"
  by (auto simp: nearest_def Let_def intro!: mult_nonneg_nonneg round_even_nonneg divide_nonneg_nonneg)

lemma nearest_error:
  assumes "2 powi (- 1022) \<le> x"
  shows "\<bar>nearest x - x\<bar> \<le> x / 2 ^ 53"
proof -
  have x: "0 < x" using assms by (rule less_le_trans [rotated]) simp
  define e where "e = floor_log2 x"
  have e: "2 powi e \<le> x" "x < 2 powi (e + 1)" using floor_log2 [OF x] by (simp_all add: e_def)
  have "- 1022 \<le> e"
  proof (rule ccontr)
    assume "\<not> ?thesis"
    then have "(2::rat) powi (e + 1) \<le> 2 powi (- 1022)" by (intro power_int_increasing) auto
    with e(2) assms show False by simp
  qed
  then have u: "ulp_exponent x = e - 52" using x by (simp add: ulp_exponent_def e_def)
  define w where "w = (2::rat) powi (e - 52)"
  have w: "0 < w" by (simp add: w_def)
  have "nearest x - x = (of_int (round_even (x / w)) - x / w) * w"
    using x w by (simp add: nearest_def Let_def u flip: w_def) (simp add: algebra_simps)
  then have "\<bar>nearest x - x\<bar> \<le> 1 / 2 * w"
    using mult_right_mono [OF round_even_error [of "x / w"], of w] w by (simp add: abs_mult)
  also have "\<dots> = 2 powi e / 2 ^ 53" by (simp add: w_def power_int_diff)
  also have "\<dots> \<le> x / 2 ^ 53" using e(1) by (simp add: divide_right_mono)
  finally show ?thesis .
qed

lemma floor_log2_less: "0 < x \<Longrightarrow> x < 2 ^ n \<Longrightarrow> floor_log2 x < int n"
proof (rule ccontr)
  assume x: "0 < x" "x < 2 ^ n" and "\<not> floor_log2 x < int n"
  then have "(2::rat) powi int n \<le> 2 powi floor_log2 x" by (intro power_int_increasing) auto
  with floor_log2 [OF x(1)] x(2) show False by simp
qed

lemma round64_finite:
  assumes "2 powi (- 1022) \<le> x" "x \<le> 2 ^ 1023"
  shows "round64 x = Fin (nearest x)" "0 < nearest x"
proof -
  have x: "0 < x" using assms(1) by (rule less_le_trans [rotated]) simp
  note err = nearest_error [OF assms(1)]
  have "x / 2 ^ 53 \<le> x / 2" using x by (simp add: field_simps)
  with err x have "nearest x \<le> x + x / 2" "x - x / 2 \<le> nearest x" by linarith+
  moreover have "x + x / 2 < 2 ^ 1024" using assms(2) by simp
  ultimately show "round64 x = Fin (nearest x)" "0 < nearest x"
    using x floor_log2_less [of "nearest x" 1024] by (auto simp: round64_def Let_def)
qed

lemma round64_0 [simp]: "round64 0 = Fin 0"
  by (simp add: round64_def)

text \<open>The values of the type: what rounding leaves as it is\<close>

definition is_double :: "rat \<Rightarrow> bool" where
  "is_double x = (round64 x = Fin x)"

lemma num_div_1: "is_double a \<Longrightarrow> num_div (Fin a) (Fin 1) = Fin a"
  by (simp add: is_double_def)

lemma num_le_Fin [simp]: "num_le (Fin a) (Fin b) = (a \<le> b)"
  by (auto simp: num_le_def)

lemma tiny_le: "1 / 2 ^ 500 \<le> x \<Longrightarrow> (2::rat) powi (- 1022) \<le> x"
proof -
  assume x: "1 / 2 ^ 500 \<le> x"
  have "(2::rat) powi (- 1022) \<le> 2 powi (- 500)" by (rule power_int_increasing) simp_all
  also have "\<dots> = 1 / 2 ^ 500" by (simp add: power_int_minus inverse_eq_divide)
  finally show ?thesis using x by simp
qed

lemmas round64_range = round64_finite [OF tiny_le]

end
