(* ===== verification/FxRates.thy ===== *)
theory FxRates
  imports Binary64
begin

section \<open>Rates and quotes of the FX engine\<close>

text \<open>
  The in-memory rate cache of \<open>fx-engine/src/index.ts\<close>, its deviation guard and update, the
  cache of pair rates, the quote computation (\<open>quote-computation.ts\<close>) and the request
  validation (\<open>validation.ts\<close>). A JavaScript object is an association list in the order of
  its keys.
\<close>

subsection \<open>The rate cache\<close>

record computed_rate =
  cr_rate :: number
  cr_at :: int

record rate_cache =
  rc_rates :: "(string, number) jsmap"
  rc_batches :: "(string, string) jsmap"
  rc_cached_at :: int
  rc_rate_at :: "(string, int) jsmap"
  rc_computed :: "(string, computed_rate) jsmap"

definition fallback_rates :: "(string, number) jsmap" where
  "fallback_rates = [(''USDC'', Fin (3091 / 2)), (''EURT'', round64 (16802 / 10)), (''NGN'', Fin 1)]"

definition supported_currencies :: "string list" where
  "supported_currencies = map fst fallback_rates"

definition initial_cache :: "string \<Rightarrow> int \<Rightarrow> rate_cache" where
  "initial_cache batch now =
     \<lparr> rc_rates = fallback_rates,
       rc_batches = map (\<lambda>c. (c, batch)) (map fst fallback_rates),
       rc_cached_at = now,
       rc_rate_at = map (\<lambda>c. (c, now)) (map fst fallback_rates),
       rc_computed = [] \<rparr>"

definition rate_ttl_ms :: int where
  "rate_ttl_ms = 60000"

definition prune_expired_computed_rates :: "int \<Rightarrow> rate_cache \<Rightarrow> rate_cache" where
  "prune_expired_computed_rates now c =
     c \<lparr> rc_computed := filter (\<lambda>(k, e). \<not> rate_ttl_ms \<le> now - cr_at e) (rc_computed c) \<rparr>"

text \<open>A property that is not there reads as \<open>undefined\<close>, which arithmetic turns into \<open>NaN\<close>.\<close>

definition rate_number :: "(string, number) jsmap \<Rightarrow> string \<Rightarrow> number" where
  "rate_number rates c = (case map_of rates c of None \<Rightarrow> NaN | Some x \<Rightarrow> x)"

definition compute_rate :: "string \<Rightarrow> string \<Rightarrow> (string, number) jsmap \<Rightarrow> number" where
  "compute_rate from to rates = num_div (rate_number rates from) (rate_number rates to)"

subsection \<open>Resolution of a pair rate\<close>

datatype rate_source = FromCache | FromLive

datatype fx_error = NoBatch string

definition resolve_rate ::
  "string \<Rightarrow> int \<Rightarrow> int \<Rightarrow> (fx_error, number) result \<Rightarrow> (string, computed_rate) jsmap \<Rightarrow>
   (string, computed_rate) jsmap \<times> (fx_error, number \<times> rate_source) result" where
  "resolve_rate key now ttl live computed =
     (let compute = (case live of
            Inl e \<Rightarrow> (computed, throw e)
          | Inr r \<Rightarrow> (js_set key \<lparr> cr_rate = r, cr_at = now \<rparr> computed, return_ok (r, FromLive)))
      in case map_of computed key of
           Some e \<Rightarrow> if now - cr_at e < ttl then (computed, return_ok (cr_rate e, FromCache)) else compute
         | None \<Rightarrow> compute)"

definition pair_key :: "string \<Rightarrow> string \<Rightarrow> string" where
  "pair_key from to = from @ ''_'' @ to"

definition rate_batch :: "rate_cache \<Rightarrow> string \<Rightarrow> string option" where
  "rate_batch c cur = (case map_of (rc_batches c) cur of Some b \<Rightarrow> if b = [] then None else Some b | None \<Rightarrow> None)"

definition compute_live :: "string \<Rightarrow> string \<Rightarrow> rate_cache \<Rightarrow> (fx_error, number) result" where
  "compute_live from to c =
     (case rate_batch c from of
        None \<Rightarrow> throw (NoBatch from)
      | Some _ \<Rightarrow> (case rate_batch c to of
          None \<Rightarrow> throw (NoBatch to)
        | Some _ \<Rightarrow> return_ok (compute_rate from to (rc_rates c))))"

text \<open>The warning about rates of different fetch cycles\<close>

definition mixed_batches :: "string \<Rightarrow> string \<Rightarrow> rate_cache \<Rightarrow> bool" where
  "mixed_batches from to c =
     (case (rate_batch c from, rate_batch c to) of (Some a, Some b) \<Rightarrow> a \<noteq> b | _ \<Rightarrow> False)"

definition resolve_pair_rate ::
  "string \<Rightarrow> string \<Rightarrow> int \<Rightarrow> rate_cache \<Rightarrow> rate_cache \<times> (fx_error, number \<times> rate_source) result" where
  "resolve_pair_rate from to now c =
     (case resolve_rate (pair_key from to) now rate_ttl_ms (compute_live from to c) (rc_computed c) of
        (computed, r) \<Rightarrow> (c \<lparr> rc_computed := computed \<rparr>, r))"

definition get_or_compute_rate ::
  "string \<Rightarrow> string \<Rightarrow> int \<Rightarrow> rate_cache \<Rightarrow> rate_cache \<times> (fx_error, number) result" where
  "get_or_compute_rate from to now c =
     (case resolve_pair_rate from to now c of
        (c', r) \<Rightarrow> (c', result_bind r (\<lambda>(x, _). return_ok x)))"

subsection \<open>The deviation guard\<close>

record rejected_rate =
  rj_asset :: string
  rj_old :: number
  rj_new :: number
  rj_deviation :: number

record guard_result =
  gr_merged :: "(string, number) jsmap"
  gr_newly :: "string list"
  gr_rejected :: "rejected_rate list"

definition deviation_bps :: "number \<Rightarrow> number \<Rightarrow> number" where
  "deviation_bps new old = num_mul (num_div (num_abs (num_sub new old)) old) (Fin 10000)"

definition accept_rate :: "string \<times> number \<Rightarrow> guard_result \<Rightarrow> guard_result" where
  "accept_rate an g =
     g \<lparr> gr_merged := js_set (fst an) (snd an) (gr_merged g), gr_newly := gr_newly g @ [fst an] \<rparr>"

definition guard_step ::
  "(string, number) jsmap \<Rightarrow> number \<Rightarrow> string \<times> number \<Rightarrow> guard_result \<Rightarrow> guard_result" where
  "guard_step base max_dev an g =
     (case map_of base (fst an) of
        None \<Rightarrow> accept_rate an g
      | Some old \<Rightarrow>
          if num_le old (Fin 0) then accept_rate an g
          else let dev = deviation_bps (snd an) old
               in if num_less max_dev dev
                  then g \<lparr> gr_rejected := gr_rejected g @
                         [\<lparr> rj_asset = fst an, rj_old = old, rj_new = snd an, rj_deviation = dev \<rparr>] \<rparr>
                  else accept_rate an g)"

definition apply_deviation_guard ::
  "(string, number) jsmap \<Rightarrow> (string, number) jsmap \<Rightarrow> number \<Rightarrow> guard_result" where
  "apply_deviation_guard fetched base max_dev =
     fold (guard_step base max_dev) fetched \<lparr> gr_merged = base, gr_newly = [], gr_rejected = [] \<rparr>"

subsection \<open>The update of the base rates\<close>

definition update_rate :: "string \<Rightarrow> int \<Rightarrow> string list option \<Rightarrow> string \<times> number \<Rightarrow> rate_cache \<Rightarrow> rate_cache" where
  "update_rate batch now newly cv c =
     (let c1 = c \<lparr> rc_rates := js_set (fst cv) (snd cv) (rc_rates c),
                   rc_batches := js_set (fst cv) batch (rc_batches c) \<rparr>
      in if (case newly of None \<Rightarrow> True | Some ns \<Rightarrow> fst cv \<in> set ns \<or> fst cv = ''NGN'')
         then c1 \<lparr> rc_rate_at := js_set (fst cv) now (rc_rate_at c1) \<rparr>
         else c1)"

definition update_base_rates ::
  "(string, number) jsmap \<Rightarrow> string \<Rightarrow> string list option \<Rightarrow> int \<Rightarrow> rate_cache \<Rightarrow> rate_cache" where
  "update_base_rates updated batch newly now c =
     (fold (update_rate batch now newly) updated c) \<lparr> rc_cached_at := now, rc_computed := [] \<rparr>"

subsection \<open>Quotes\<close>

definition rate_decimals :: nat where "rate_decimals = 8"
definition amount_decimals :: nat where "amount_decimals = 4"
definition slippage_limit_decimals :: nat where "slippage_limit_decimals = 4"

definition to_decimal_string :: "(rat \<Rightarrow> string) \<Rightarrow> number \<Rightarrow> nat \<Rightarrow> string" where
  "to_decimal_string num x d = to_fixed num x d"

text \<open>\<open>parseFloat\<close>, with the infinity literals \<open>parse_float\<close> leaves out\<close>

definition parse_float64 :: "string \<Rightarrow> number" where
  "parse_float64 s =
     (case parse_float (\<lambda>x. x) s of
        Some v \<Rightarrow> round64 v
      | None \<Rightarrow>
          let t = dropWhile is_space s;
              u = (if take 1 t = ''-'' \<or> take 1 t = ''+'' then drop 1 t else t)
          in if take 8 u \<noteq> ''Infinity'' then NaN else if take 1 t = ''-'' then NegInf else PosInf)"

record quote_input =
  qi_from :: string
  qi_to :: string
  qi_amount :: string
  qi_rate :: number
  qi_source :: rate_source
  qi_slippage_bps :: number
  qi_created_at :: int
  qi_ttl_ms :: int
  qi_batch :: string

record computed_quote =
  cq_from :: string
  cq_to :: string
  cq_amount :: string
  cq_result :: string
  cq_rate :: string
  cq_slippage_bps :: number
  cq_slippage_limit :: string
  cq_created_at :: int
  cq_expires_at :: int
  cq_batch :: string
  cq_source :: rate_source

definition compute_quote :: "(rat \<Rightarrow> string) \<Rightarrow> quote_input \<Rightarrow> computed_quote" where
  "compute_quote num q =
     (let amount = parse_float64 (qi_amount q)
      in \<lparr> cq_from = qi_from q, cq_to = qi_to q, cq_amount = qi_amount q,
           cq_result = to_decimal_string num (num_mul amount (qi_rate q)) amount_decimals,
           cq_rate = to_decimal_string num (qi_rate q) rate_decimals,
           cq_slippage_bps = qi_slippage_bps q,
           cq_slippage_limit = to_decimal_string num (num_div (qi_slippage_bps q) (Fin 10000)) slippage_limit_decimals,
           cq_created_at = qi_created_at q,
           cq_expires_at = qi_created_at q + qi_ttl_ms q,
           cq_batch = qi_batch q, cq_source = qi_source q \<rparr>)"

subsection \<open>Request validation\<close>

datatype body_limit = LimitNumber number | LimitText "string option"

definition fx_quote_body_limit_default :: int where
  "fx_quote_body_limit_default = 1048576"

definition resolve_fx_quote_body_limit :: "body_limit \<Rightarrow> int" where
  "resolve_fx_quote_body_limit raw =
     (let parsed = (case raw of
            LimitNumber x \<Rightarrow> x
          | LimitText t \<Rightarrow> (case parse_int (case t of None \<Rightarrow> [] | Some s \<Rightarrow> s) of
              Some n \<Rightarrow> round64 (of_int n) | None \<Rightarrow> NaN))
      in case parsed of
           Fin x \<Rightarrow> if 0 < x then \<lfloor>x\<rfloor> else fx_quote_body_limit_default
         | _ \<Rightarrow> fx_quote_body_limit_default)"

definition is_positive_finite_amount :: "string \<Rightarrow> bool" where
  "is_positive_finite_amount value =
     (is_amount value \<and> (case number_of_decimal value of Fin x \<Rightarrow> 0 < x | _ \<Rightarrow> False))"

datatype query_field = FieldFrom | FieldTo | FieldAmount | FieldSlippage | FieldAt | FieldQuoteId

record quote_query =
  qq_from :: string
  qq_to :: string
  qq_amount :: string
  qq_slippage :: "string option"

definition max_query_slippage :: "bool \<Rightarrow> int" where
  "max_query_slippage production = (if production then 1000 else 5000)"

definition slippage_ok :: "bool \<Rightarrow> string \<Rightarrow> bool" where
  "slippage_ok production s =
     (is_numeral s \<and> (case parse_int s of Some n \<Rightarrow> n \<le> max_query_slippage production | None \<Rightarrow> False))"

text \<open>A missing field takes its default; every invalid field is reported.\<close>

definition parse_quote_query ::
  "bool \<Rightarrow> string option \<Rightarrow> string option \<Rightarrow> string option \<Rightarrow> string option \<Rightarrow>
   (query_field list, quote_query) result" where
  "parse_quote_query production from to amount slippage =
     (let q = \<lparr> qq_from = (case from of Some s \<Rightarrow> s | None \<Rightarrow> ''USDC''),
                qq_to = (case to of Some s \<Rightarrow> s | None \<Rightarrow> ''NGN''),
                qq_amount = (case amount of Some s \<Rightarrow> s | None \<Rightarrow> ''1''),
                qq_slippage = slippage \<rparr>;
          issues = (if qq_from q \<in> set currency_codes then [] else [FieldFrom]) @
                   (if qq_to q \<in> set currency_codes then [] else [FieldTo]) @
                   (if is_positive_finite_amount (qq_amount q) then [] else [FieldAmount]) @
                   (case slippage of None \<Rightarrow> [] | Some s \<Rightarrow> if slippage_ok production s then [] else [FieldSlippage])
      in if issues = [] then return_ok q else throw issues)"

definition parse_history_query ::
  "string option \<Rightarrow> string option \<Rightarrow> string option \<Rightarrow> (query_field list, string \<times> string \<times> string option) result" where
  "parse_history_query from to tm =
     (let ok = (\<lambda>c. case c of Some s \<Rightarrow> s \<in> set currency_codes | None \<Rightarrow> False);
          issues = (if ok from then [] else [FieldFrom]) @ (if ok to then [] else [FieldTo])
      in if issues = [] then return_ok (the from, the to, tm) else throw issues)"

definition parse_verify_body :: "string option \<Rightarrow> (query_field list, string) result" where
  "parse_verify_body quote_id =
     (case quote_id of
        Some i \<Rightarrow> if i = [] then throw [FieldQuoteId] else return_ok i
      | None \<Rightarrow> throw [FieldQuoteId])"

subsection \<open>Properties of the guard and of the update\<close>

lemma map_of_fold_set:
  "distinct (map fst xs) \<Longrightarrow>
   map_of (fold (\<lambda>ax. js_set (fst ax) (snd ax)) xs m) a =
     (case map_of xs a of Some x \<Rightarrow> Some x | None \<Rightarrow> map_of m a)"
proof (induction xs arbitrary: m)
  case Nil
  show ?case by simp
next
  case (Cons x xs)
  then have "map_of xs (fst x) = None" by (simp add: map_of_eq_None_iff)
  with Cons show ?case by (cases "fst x = a") (auto split: option.splits)
qed

lemma distinct_fold_set:
  "distinct (map fst m) \<Longrightarrow> distinct (map fst (fold (\<lambda>ax. js_set (fst ax) (snd ax)) xs m))"
  by (induction xs arbitrary: m) (auto intro: distinct_update)

definition accepted :: "(string, number) jsmap \<Rightarrow> number \<Rightarrow> string \<times> number \<Rightarrow> bool" where
  "accepted base m an =
     (case map_of base (fst an) of
        None \<Rightarrow> True
      | Some old \<Rightarrow> num_le old (Fin 0) \<or> \<not> num_less m (deviation_bps (snd an) old))"

lemma guard_step_cases:
  "gr_merged (guard_step base m an g) =
     (if accepted base m an then js_set (fst an) (snd an) (gr_merged g) else gr_merged g) \<and>
   gr_newly (guard_step base m an g) = gr_newly g @ (if accepted base m an then [fst an] else []) \<and>
   map rj_asset (gr_rejected (guard_step base m an g)) =
     map rj_asset (gr_rejected g) @ (if accepted base m an then [] else [fst an])"
  by (auto simp: guard_step_def accepted_def accept_rate_def Let_def split: option.splits)

lemma guard_fold:
  "gr_merged (fold (guard_step base m) fetched g) =
     fold (\<lambda>ax. js_set (fst ax) (snd ax)) (filter (accepted base m) fetched) (gr_merged g) \<and>
   gr_newly (fold (guard_step base m) fetched g) =
     gr_newly g @ map fst (filter (accepted base m) fetched) \<and>
   map rj_asset (gr_rejected (fold (guard_step base m) fetched g)) =
     map rj_asset (gr_rejected g) @ map fst (filter (\<lambda>an. \<not> accepted base m an) fetched)"
  by (induction fetched arbitrary: g) (simp_all add: guard_step_cases)

lemma map_of_filter_distinct:
  "distinct (map fst xs) \<Longrightarrow>
   map_of (filter P xs) a = (case map_of xs a of None \<Rightarrow> None | Some x \<Rightarrow> if P (a, x) then Some x else None)"
  by (induction xs) (auto simp: map_of_eq_None_iff split: option.splits)

text \<open>
  The deviation guard decides each fetched asset by itself: an accepted one takes its new
  value and is listed as newly fetched, a rejected one keeps its old value and is reported,
  every other asset is untouched, and each fetched asset is in exactly one of the two lists, in
  the order of the response.
\<close>

theorem deviation_guard_exact:
  assumes "distinct (map fst fetched)"
  shows "let g = apply_deviation_guard fetched base m in
    (\<forall>a. map_of (gr_merged g) a =
       (case map_of fetched a of
          Some x \<Rightarrow> if accepted base m (a, x) then Some x else map_of base a
        | None \<Rightarrow> map_of base a)) \<and>
    gr_newly g = map fst (filter (accepted base m) fetched) \<and>
    map rj_asset (gr_rejected g) = map fst (filter (\<lambda>an. \<not> accepted base m an) fetched)"
proof -
  have d: "distinct (map fst (filter (accepted base m) fetched))"
    using assms by (auto simp: distinct_map intro: inj_on_subset)
  show ?thesis
    by (simp add: apply_deviation_guard_def guard_fold map_of_fold_set [OF d]
        map_of_filter_distinct [OF assms] Let_def split: option.split)
qed

lemma deviation_guard_exact_witness:
  "let g = apply_deviation_guard [(''USDC'', Fin 1250), (''EURT'', Fin 640)] [(''USDC'', Fin 1000), (''EURT'', Fin 1024)] (Fin 2600) in
    (\<forall>a. map_of (gr_merged g) a =
       (case map_of [(''USDC'', Fin 1250), (''EURT'', Fin 640)] a of
          Some x \<Rightarrow> if accepted [(''USDC'', Fin 1000), (''EURT'', Fin 1024)] (Fin 2600) (a, x) then Some x else map_of [(''USDC'', Fin 1000), (''EURT'', Fin 1024)] a
        | None \<Rightarrow> map_of [(''USDC'', Fin 1000), (''EURT'', Fin 1024)] a)) \<and>
    gr_newly g = map fst (filter (accepted [(''USDC'', Fin 1000), (''EURT'', Fin 1024)] (Fin 2600)) [(''USDC'', Fin 1250), (''EURT'', Fin 640)]) \<and>
    map rj_asset (gr_rejected g) =
      map fst (filter (\<lambda>an. \<not> accepted [(''USDC'', Fin 1000), (''EURT'', Fin 1024)] (Fin 2600) an) [(''USDC'', Fin 1250), (''EURT'', Fin 640)])"
  by (rule deviation_guard_exact) simp

lemma guard_example:
  "accepted [(''USDC'', Fin 1000), (''EURT'', Fin 1024)] (Fin 2600) (''USDC'', Fin 1250) \<and>
   \<not> accepted [(''USDC'', Fin 1000), (''EURT'', Fin 1024)] (Fin 2600) (''EURT'', Fin 640)"
  by code_simp

subsection \<open>Well-formed caches\<close>

definition positive :: "number \<Rightarrow> bool" where
  "positive x = num_less (Fin 0) x"

text \<open>
  Every rate is a positive number, possibly infinite, the supported currencies have a rate, a batch and a
  time, and an entry of the pair cache for supported currencies is the rate the current base
  rates give.
\<close>

definition rates_ok :: "(string, number) jsmap \<Rightarrow> bool" where
  "rates_ok rates = (distinct (map fst rates) \<and> list_all (\<lambda>cx. positive (snd cx)) rates)"

definition pair_cache_ok :: "rate_cache \<Rightarrow> bool" where
  "pair_cache_ok c =
     list_all (\<lambda>from. list_all (\<lambda>to.
       case map_of (rc_computed c) (pair_key from to) of
         None \<Rightarrow> True | Some e \<Rightarrow> cr_rate e = compute_rate from to (rc_rates c))
       supported_currencies) supported_currencies"

definition currency_known :: "rate_cache \<Rightarrow> string \<Rightarrow> bool" where
  "currency_known c cur =
     (map_of (rc_rates c) cur \<noteq> None \<and> rate_batch c cur \<noteq> None \<and> map_of (rc_rate_at c) cur \<noteq> None)"

definition cache_ok :: "rate_cache \<Rightarrow> bool" where
  "cache_ok c = (rates_ok (rc_rates c) \<and> list_all (currency_known c) supported_currencies \<and> pair_cache_ok c)"

lemma supported: "supported_currencies = [''USDC'', ''EURT'', ''NGN'']"
  by (simp add: supported_currencies_def fallback_rates_def)

lemma round64_eurt: "positive (round64 (16802 / 10))"
proof -
  have "1 / 2 ^ 500 \<le> (16802 / 10 :: rat)" "(16802 / 10 :: rat) \<le> 2 ^ 1023"
    by (simp_all add: field_simps)
  from round64_range [OF this] show ?thesis by (simp add: positive_def)
qed

lemma fallback_rates_ok: "rates_ok fallback_rates"
proof -
  have "positive (Fin (3091 / 2))" "positive (Fin 1)" by (simp_all add: positive_def)
  with round64_eurt show ?thesis
    by (simp only: rates_ok_def fallback_rates_def list.map list.pred_inject fst_conv snd_conv) simp
qed

lemma cache_ok_initial: "batch \<noteq> [] \<Longrightarrow> cache_ok (initial_cache batch now)"
proof -
  assume b: "batch \<noteq> []"
  have k: "map fst fallback_rates = supported_currencies" by (simp add: supported_currencies_def)
  have "currency_known (initial_cache batch now) cur" if "cur \<in> set supported_currencies" for cur
  proof -
    have "map_of fallback_rates cur \<noteq> None"
      using that by (simp add: supported_currencies_def map_of_eq_None_iff)
    moreover have "map_of (map (\<lambda>c. (c, batch)) supported_currencies) cur = Some batch"
      "map_of (map (\<lambda>c. (c, now)) supported_currencies) cur = Some now"
      using that by (auto simp: map_of_map_restrict restrict_map_def)
    ultimately show ?thesis using b by (simp add: currency_known_def initial_cache_def rate_batch_def k)
  qed
  then have "list_all (currency_known (initial_cache batch now)) supported_currencies"
    unfolding list_all_iff by blast
  moreover have "rc_rates (initial_cache batch now) = fallback_rates" "rc_computed (initial_cache batch now) = []"
    unfolding initial_cache_def by simp_all
  ultimately show ?thesis
    by (simp add: cache_ok_def pair_cache_ok_def fallback_rates_ok list_all_iff)
qed

lemma positive_rate: "rates_ok rates \<Longrightarrow> map_of rates cur = Some x \<Longrightarrow> positive x"
  by (auto simp: rates_ok_def list_all_iff dest!: map_of_SomeD)

lemma pair_key_inj:
  assumes "pair_key from to = pair_key from' to'" "CHR ''_'' \<notin> set from" "CHR ''_'' \<notin> set to"
  shows "from = from' \<and> to = to'"
proof -
  have "split_on (CHR ''_'') (pair_key from to) = [from, to]"
    using assms(2,3) by (simp add: pair_key_def split_on_append_sep split_on_no_sep)
  moreover have "\<exists>t. split_on (CHR ''_'') (from' @ ''_'' @ to') = split_on (CHR ''_'') from' @ split_on (CHR ''_'') to'"
  proof -
    have "split_on c (u @ c # v) = split_on c u @ split_on c v" for c u v
      by (induction c u rule: split_on.induct) (auto split: list.splits)
    then show ?thesis by simp
  qed
  ultimately have "split_on (CHR ''_'') from' @ split_on (CHR ''_'') to' = [from, to]"
    using assms(1) by (simp add: pair_key_def)
  then have "split_on (CHR ''_'') from' = [from]" "split_on (CHR ''_'') to' = [to]"
    by (auto simp: append_eq_Cons_conv)
  then show ?thesis using split_on_single by blast
qed

lemma supported_no_sep: "cur \<in> set supported_currencies \<Longrightarrow> CHR ''_'' \<notin> set cur"
  by (auto simp: supported)

lemma pair_cache_okD:
  "pair_cache_ok c \<Longrightarrow> from \<in> set supported_currencies \<Longrightarrow> to \<in> set supported_currencies \<Longrightarrow>
   map_of (rc_computed c) (pair_key from to) = Some e \<Longrightarrow> cr_rate e = compute_rate from to (rc_rates c)"
  by (auto simp: pair_cache_ok_def list_all_iff split: option.splits)

lemma pair_cache_ok_insert:
  assumes "pair_cache_ok c"
  shows "pair_cache_ok (c \<lparr> rc_computed := js_set (pair_key from to)
    \<lparr> cr_rate = compute_rate from to (rc_rates c), cr_at = now \<rparr> (rc_computed c) \<rparr>)"
  using assms pair_key_inj [of _ _ "from" to, OF _ supported_no_sep supported_no_sep]
  by (fastforce simp: pair_cache_ok_def list_all_iff split: option.splits if_splits)

lemma pair_cache_ok_prune: "pair_cache_ok c \<Longrightarrow> distinct (map fst (rc_computed c)) \<Longrightarrow>
  pair_cache_ok (prune_expired_computed_rates now c)"
  by (auto simp: pair_cache_ok_def prune_expired_computed_rates_def list_all_iff map_of_filter_distinct
      split: option.splits)

lemma compute_live_ok:
  "compute_live from to c = Inr r \<Longrightarrow> r = compute_rate from to (rc_rates c)"
  by (auto simp: compute_live_def split: option.splits)

lemma resolve_pair_rate_keeps:
  assumes "cache_ok c" "resolve_pair_rate from to now c = (c', r)"
  shows "cache_ok c' \<and> (\<exists>m. c' = c \<lparr> rc_computed := m \<rparr>)"
proof -
  have p: "pair_cache_ok c" using assms(1) by (simp add: cache_ok_def)
  have "c \<lparr> rc_computed := rc_computed c \<rparr> = c" by simp
  with assms(2) have c': "c' = c \<or> c' = c \<lparr> rc_computed := js_set (pair_key from to)
      \<lparr> cr_rate = compute_rate from to (rc_rates c), cr_at = now \<rparr> (rc_computed c) \<rparr>"
    by (auto simp: resolve_pair_rate_def resolve_rate_def Let_def dest!: compute_live_ok
        split: option.splits if_splits sum.splits prod.splits)
  with p pair_cache_ok_insert [OF p, of "from" to now] have "pair_cache_ok c'" by auto
  moreover have "rc_rates c' = rc_rates c" "currency_known c' = currency_known c"
    using c' by (auto simp: currency_known_def rate_batch_def fun_eq_iff)
  moreover have "\<exists>m. c' = c \<lparr> rc_computed := m \<rparr>" using c' \<open>c \<lparr> rc_computed := _ \<rparr> = c\<close> by metis
  ultimately show ?thesis using assms(1) by (simp add: cache_ok_def)
qed

lemma resolve_supported:
  assumes "cache_ok c" "from \<in> set supported_currencies" "to \<in> set supported_currencies"
  shows "snd (resolve_pair_rate from to now c) = Inr (compute_rate from to (rc_rates c),
     case map_of (rc_computed c) (pair_key from to) of
       Some e \<Rightarrow> if now - cr_at e < rate_ttl_ms then FromCache else FromLive
     | None \<Rightarrow> FromLive)"
proof -
  have "currency_known c from" "currency_known c to" "pair_cache_ok c"
    using assms by (auto simp: cache_ok_def list_all_iff)
  then have live: "compute_live from to c = Inr (compute_rate from to (rc_rates c))"
    by (auto simp: currency_known_def compute_live_def)
  show ?thesis
    using pair_cache_okD [OF \<open>pair_cache_ok c\<close> assms(2,3)]
    by (auto simp: resolve_pair_rate_def resolve_rate_def live split: option.split prod.split)
qed

lemma pair_rate_well_formed:
  assumes "cache_ok c" "from \<in> set supported_currencies" "to \<in> set supported_currencies"
  shows "\<exists>m. resolve_pair_rate from to now c = (c \<lparr> rc_computed := m \<rparr>,
      Inr (compute_rate from to (rc_rates c),
        case map_of (rc_computed c) (pair_key from to) of
          Some e \<Rightarrow> if now - cr_at e < rate_ttl_ms then FromCache else FromLive
        | None \<Rightarrow> FromLive)) \<and>
    cache_ok (c \<lparr> rc_computed := m \<rparr>)"
proof -
  obtain c' r where e: "resolve_pair_rate from to now c = (c', r)" by (cases "resolve_pair_rate from to now c")
  with resolve_pair_rate_keeps [OF assms(1) e] resolve_supported [OF assms, of now] show ?thesis by auto
qed

lemma rates_ok_set: "rates_ok rates \<Longrightarrow> positive x \<Longrightarrow> rates_ok (js_set a x rates)"
proof -
  have "list_all (\<lambda>cx. positive (snd cx)) rates \<Longrightarrow> positive x \<Longrightarrow>
    list_all (\<lambda>cx. positive (snd cx)) (js_set a x rates)"
    by (induction rates) auto
  then show "rates_ok rates \<Longrightarrow> positive x \<Longrightarrow> ?thesis"
    by (auto simp: rates_ok_def intro: distinct_update)
qed

lemma update_fold:
  "rates_ok (rc_rates c) \<Longrightarrow> list_all (\<lambda>cx. positive (snd cx)) updated \<Longrightarrow> batch \<noteq> [] \<Longrightarrow>
   rates_ok (rc_rates (fold (update_rate batch now newly) updated c)) \<and>
   (\<forall>cur. currency_known c cur \<longrightarrow> currency_known (fold (update_rate batch now newly) updated c) cur)"
proof (induction updated arbitrary: c)
  case Nil
  then show ?case by simp
next
  case (Cons cx updated)
  have "rates_ok (rc_rates (update_rate batch now newly cx c))"
    using Cons.prems rates_ok_set by (simp add: update_rate_def Let_def)
  moreover have "currency_known c cur \<longrightarrow> currency_known (update_rate batch now newly cx c) cur" for cur
    using Cons.prems(3) by (auto simp: update_rate_def currency_known_def rate_batch_def Let_def)
  ultimately show ?case using Cons.IH [of "update_rate batch now newly cx c"] Cons.prems by auto
qed

lemma update_base_rates_ok:
  assumes "cache_ok c" "list_all (\<lambda>cx. positive (snd cx)) updated" "batch \<noteq> []"
  shows "cache_ok (update_base_rates updated batch newly now c)"
  using assms update_fold [of c updated batch now newly]
  by (auto simp: cache_ok_def update_base_rates_def pair_cache_ok_def list_all_iff currency_known_def rate_batch_def)

lemma guard_positive:
  assumes "rates_ok base" "list_all (\<lambda>cx. positive (snd cx)) fetched"
  shows "rates_ok (gr_merged (apply_deviation_guard fetched base m))"
proof -
  have "rates_ok (fold (\<lambda>ax. js_set (fst ax) (snd ax)) xs base)"
    if "list_all (\<lambda>cx. positive (snd cx)) xs" "rates_ok base" for xs :: "(string \<times> number) list" and base
    using that by (induction xs arbitrary: base) (auto intro: rates_ok_set)
  moreover have "list_all (\<lambda>cx. positive (snd cx)) (filter (accepted base m) fetched)"
    using assms(2) by (auto simp: list_all_iff)
  ultimately show ?thesis using assms(1) by (simp add: apply_deviation_guard_def guard_fold)
qed

subsection \<open>The numbers of a quote\<close>

lemma takeWhile_digits: "list_all is_digit w \<Longrightarrow> \<not> is_digit c \<Longrightarrow>
   takeWhile is_digit (w @ c # t) = w \<and> dropWhile is_digit (w @ c # t) = c # t"
  by (induction w) auto

lemma all_digits: "list_all is_digit w \<Longrightarrow> takeWhile is_digit w = w \<and> dropWhile is_digit w = []"
  by (induction w) auto

lemma digit_start:
  assumes "is_numeral w"
  shows "dropWhile is_space (w @ t) = w @ t \<and> take 1 (w @ t) \<noteq> ''-'' \<and> take 1 (w @ t) \<noteq> ''+''"
  using assms by (cases w) (auto simp: is_numeral_def is_digit_def is_space_def char_code_def)

lemma parse_float_amount: "is_amount s \<Longrightarrow> parse_float (\<lambda>x. x) s = Some (dec_val s)"
proof (erule is_amountE)
  assume s: "is_numeral s" "dec_parts s = (s, [])"
  then have "takeWhile is_digit s = s \<and> dropWhile is_digit s = []" "s \<noteq> []"
    using all_digits [of s] by (auto simp: is_numeral_def)
  with digit_start [OF s(1), of "[]"] s show ?thesis
    by (simp del: takeWhile_eq_all_conv dropWhile_eq_Nil_conv add: parse_float_def Let_def decimal_value_def parse_exponent_def dec_val_def dec_scaled_def dec_places_def)
next
  fix w f
  assume s: "s = w @ CHR ''.'' # f" "is_numeral w" "is_numeral f" "dec_parts s = (w, f)"
  then have w: "list_all is_digit w" "list_all is_digit f" "w \<noteq> []" by (simp_all add: is_numeral_def)
  from takeWhile_digits [OF w(1), of "CHR ''.''" f] all_digits [OF w(2)] w(3)
    digit_start [OF s(2), of "CHR ''.'' # f"] s show ?thesis
    by (simp del: takeWhile_eq_all_conv dropWhile_eq_Nil_conv add: parse_float_def Let_def decimal_value_def parse_exponent_def dec_val_def dec_scaled_def dec_places_def)
qed

lemma parse_float64_amount: "is_amount s \<Longrightarrow> parse_float64 s = round64 (dec_val s)"
  by (simp add: parse_float64_def parse_float_amount)

lemma to_fixed_error:
  assumes "0 \<le> a" "a < 10 ^ 21"
  shows "is_amount (to_fixed num (Fin a) d) \<and> \<bar>dec_val (to_fixed num (Fin a) d) - a\<bar> \<le> 1 / (2 * 10 ^ d)"
proof -
  define n where "n = \<lfloor>a * 10 ^ d + 1 / 2\<rfloor>"
  have "0 \<le> a * 10 ^ d" using assms(1) by simp
  then have n: "of_int n \<le> a * 10 ^ d + 1 / 2" "a * 10 ^ d + 1 / 2 < of_int n + 1" "0 \<le> n"
    unfolding n_def by linarith+
  have "\<bar>of_int n - a * 10 ^ d\<bar> \<le> 1 / 2" using n by linarith
  then have "\<bar>of_int n - a * 10 ^ d\<bar> / 10 ^ d \<le> 1 / 2 / 10 ^ d" by (rule divide_right_mono) simp
  moreover have "of_int n / 10 ^ d - a = (of_int n - a * 10 ^ d) / 10 ^ d" by (simp add: field_simps)
  then have "\<bar>of_int n / 10 ^ d - a\<bar> = \<bar>of_int n - a * 10 ^ d\<bar> / 10 ^ d" by (simp only: abs_divide) simp
  ultimately have "\<bar>of_int n / 10 ^ d - a\<bar> \<le> 1 / (2 * 10 ^ d)" by simp
  moreover have "to_fixed num (Fin a) d = fixed_string d (nat n)"
    using assms by (simp add: to_fixed_def fixed_digits_def n_def)
  ultimately show ?thesis using n(3) by simp
qed

lemma product_of_roundings:
  assumes a: "1 / 2 ^ 200 \<le> a" "a * r \<le> 10 ^ 20" and rate: "1 / 2 ^ 200 \<le> (r :: rat)"
  shows "\<exists>y. num_mul (round64 a) (Fin r) = Fin y \<and> 0 < y \<and> y < 10 ^ 21 \<and> \<bar>y - a * r\<bar> \<le> a * r / 2 ^ 51"
proof -
  have r0: "0 < r" and a0: "0 < a" using rate a(1) by (auto elim: less_le_trans [rotated])
  have ale: "a \<le> 10 ^ 20 * 2 ^ 200"
  proof -
    have "a * (1 / 2 ^ 200) \<le> a * r" using rate a0 by (intro mult_left_mono) auto
    with a(2) show ?thesis by simp
  qed
  have ra: "round64 a = Fin (nearest a)" "0 < nearest a" "\<bar>nearest a - a\<bar> \<le> a / 2 ^ 53"
  proof -
    have "1 / 2 ^ 500 \<le> a" using a(1) by simp
    moreover have "a \<le> 2 ^ 1023" using ale by simp
    ultimately show "round64 a = Fin (nearest a)" "0 < nearest a" "\<bar>nearest a - a\<bar> \<le> a / 2 ^ 53"
      using round64_range [of a] nearest_error [OF tiny_le, of a] by simp_all
  qed
  define p where "p = nearest a * r"
  have "a / 2 ^ 53 \<le> a / 2" using a0 by simp
  with ra(3) a0 have half: "a / 2 \<le> nearest a" "nearest a \<le> 2 * a" by linarith+
  have p: "1 / 2 ^ 500 \<le> p" "p \<le> 2 * 10 ^ 20"
  proof -
    have "1 / 2 ^ 201 * (1 / 2 ^ 200) \<le> p"
      unfolding p_def using half(1) a(1) rate by (intro mult_mono) auto
    then show "1 / 2 ^ 500 \<le> p" by simp
    have "p \<le> 2 * a * r" unfolding p_def using half(2) r0 by (intro mult_right_mono) auto
    with a(2) show "p \<le> 2 * 10 ^ 20" by simp
  qed
  have perr: "\<bar>p - a * r\<bar> \<le> a * r / 2 ^ 53"
  proof -
    have "p - a * r = (nearest a - a) * r" by (simp add: p_def algebra_simps)
    then show ?thesis using mult_right_mono [OF ra(3), of r] r0 by (simp add: abs_mult)
  qed
  have y: "round64 p = Fin (nearest p)" "0 < nearest p" "\<bar>nearest p - p\<bar> \<le> p / 2 ^ 53"
    using round64_range [OF p(1)] nearest_error [OF tiny_le [OF p(1)]] p(2) by simp_all
  have ar: "0 < a * r" using a0 r0 by simp
  have p2: "p \<le> 2 * (a * r)" unfolding p_def using half(2) r0 by (simp add: mult_right_mono)
  have "p / 2 ^ 53 \<le> 2 * (a * r) / 2 ^ 53" using p2 by (rule divide_right_mono) simp
  moreover have "2 * (a * r) / 2 ^ 53 + a * r / 2 ^ 53 \<le> a * r / 2 ^ 51" using ar by simp
  ultimately have yerr: "\<bar>nearest p - a * r\<bar> \<le> a * r / 2 ^ 51"
    using y(3) perr by linarith
  have "a * r / 2 ^ 51 \<le> 10 ^ 20" using a(2) ar by simp
  with yerr a(2) have "nearest p \<le> 2 * 10 ^ 20" by linarith
  then have ylt: "nearest p < 10 ^ 21" by simp
  from ra(1) y(1,2) ylt yerr show ?thesis by (simp add: p_def)
qed

text \<open>
  C27: The amounts of a quote are right to the last printed digit: for an amount and a rate in
  the range of the program, the result string is a decimal within half a unit of its fourth
  place of the exact product, plus a relative error of 2^-51 from the two floating-point
  roundings, the rate string is within half a unit of its eighth place of the rate, and the
  quote expires its lifetime after the clock reading it was made with.
\<close>

theorem quote_amounts_exact:
  assumes amount: "is_amount (qi_amount q)" "1 / 2 ^ 200 \<le> dec_val (qi_amount q)"
    and rate: "qi_rate q = Fin r" "1 / 2 ^ 200 \<le> r" "r \<le> 10 ^ 20"
    and prod: "dec_val (qi_amount q) * r \<le> 10 ^ 20"
  shows "is_amount (cq_result (compute_quote num q)) \<and> is_amount (cq_rate (compute_quote num q)) \<and>
    \<bar>dec_val (cq_result (compute_quote num q)) - dec_val (qi_amount q) * r\<bar>
      \<le> 1 / (2 * 10 ^ 4) + dec_val (qi_amount q) * r / 2 ^ 51 \<and>
    \<bar>dec_val (cq_rate (compute_quote num q)) - r\<bar> \<le> 1 / (2 * 10 ^ 8) \<and>
    cq_expires_at (compute_quote num q) = qi_created_at q + qi_ttl_ms q"
proof -
  define a where "a = dec_val (qi_amount q)"
  obtain y where y: "num_mul (round64 a) (Fin r) = Fin y" "0 < y" "y < 10 ^ 21" "\<bar>y - a * r\<bar> \<le> a * r / 2 ^ 51"
    using product_of_roundings [of a r] amount(2) rate(2) prod by (auto simp: a_def)
  have res: "cq_result (compute_quote num q) = to_fixed num (Fin y) 4"
    by (simp add: compute_quote_def Let_def to_decimal_string_def amount_decimals_def
        parse_float64_amount [OF amount(1)] rate(1) y(1) flip: a_def)
  have rt: "cq_rate (compute_quote num q) = to_fixed num (Fin r) 8"
    by (simp add: compute_quote_def Let_def to_decimal_string_def rate_decimals_def rate(1))
  have ex: "cq_expires_at (compute_quote num q) = qi_created_at q + qi_ttl_ms q"
    by (simp add: compute_quote_def Let_def)
  have r0: "0 < r" using rate(2) by (auto elim: less_le_trans [rotated])
  have f: "is_amount (to_fixed num (Fin y) 4)" "\<bar>dec_val (to_fixed num (Fin y) 4) - y\<bar> \<le> 1 / (2 * 10 ^ 4)"
    "is_amount (to_fixed num (Fin r) 8)" "\<bar>dec_val (to_fixed num (Fin r) 8) - r\<bar> \<le> 1 / (2 * 10 ^ 8)"
    using to_fixed_error [of y num 4] to_fixed_error [of r num 8] y(2,3) r0 rate(3) by auto
  from f(2) y(4) have "\<bar>dec_val (to_fixed num (Fin y) 4) - a * r\<bar> \<le> 1 / (2 * 10 ^ 4) + a * r / 2 ^ 51"
    by linarith
  with f(1,3,4) show ?thesis unfolding res rt ex a_def by blast
qed

definition sample_quote :: quote_input where
  "sample_quote = \<lparr> qi_from = ''USDC'', qi_to = ''NGN'', qi_amount = ''100.25'', qi_rate = Fin (3091 / 2),
     qi_source = FromLive, qi_slippage_bps = Fin 50, qi_created_at = 1000, qi_ttl_ms = rate_ttl_ms, qi_batch = ''b'' \<rparr>"

lemma quote_amounts_exact_witness:
  "is_amount (cq_result (compute_quote (\<lambda>_. []) sample_quote)) \<and>
   is_amount (cq_rate (compute_quote (\<lambda>_. []) sample_quote)) \<and>
    \<bar>dec_val (cq_result (compute_quote (\<lambda>_. []) sample_quote)) - dec_val (qi_amount sample_quote) * (3091 / 2)\<bar>
      \<le> 1 / (2 * 10 ^ 4) + dec_val (qi_amount sample_quote) * (3091 / 2) / 2 ^ 51 \<and>
    \<bar>dec_val (cq_rate (compute_quote (\<lambda>_. []) sample_quote)) - 3091 / 2\<bar> \<le> 1 / (2 * 10 ^ 8) \<and>
    cq_expires_at (compute_quote (\<lambda>_. []) sample_quote) = qi_created_at sample_quote + qi_ttl_ms sample_quote"
proof (rule quote_amounts_exact)
  have v: "dec_val (qi_amount sample_quote) = 401 / 4" by code_simp
  show "is_amount (qi_amount sample_quote)" by code_simp
  show "1 / 2 ^ 200 \<le> dec_val (qi_amount sample_quote)" "dec_val (qi_amount sample_quote) * (3091 / 2) \<le> 10 ^ 20"
    unfolding v by simp_all
  show "qi_rate sample_quote = Fin (3091 / 2)" by (simp add: sample_quote_def)
qed simp_all

text \<open>
  A quote query is accepted exactly when both currencies are known codes, the amount is a
  plain decimal with a positive finite value and the slippage, if given, is a number of basis
  points within the limit of the environment; the rejected fields are reported, and defaults
  are filled in.
\<close>

theorem quote_query_exact:
  "(case parse_quote_query production from to amount slippage of
      Inr q \<Rightarrow> set [qq_from q, qq_to q] \<subseteq> set supported_currencies \<and>
        is_positive_finite_amount (qq_amount q) \<and> qq_slippage q = slippage \<and>
        (case slippage of None \<Rightarrow> True | Some s \<Rightarrow> is_numeral s \<and> int (nat_of_digits s) \<le> max_query_slippage production)
    | Inl issues \<Rightarrow> issues \<noteq> [] \<and> distinct issues \<and>
        (FieldAmount \<in> set issues \<longleftrightarrow> (case amount of None \<Rightarrow> False | Some a \<Rightarrow> \<not> is_positive_finite_amount a)))"
proof -
  have one: "is_positive_finite_amount ''1''" by code_simp
  have num: "slippage_ok production s \<longleftrightarrow> is_numeral s \<and> int (nat_of_digits s) \<le> max_query_slippage production" for s
  proof (cases "is_numeral s")
    case True
    then have "takeWhile is_digit s = s" "s \<noteq> []" using all_digits [of s] by (auto simp: is_numeral_def)
    with digit_start [OF True, of "[]"] True show ?thesis
      by (simp del: takeWhile_eq_all_conv add: slippage_ok_def parse_int_def Let_def)
  next
    case False
    then show ?thesis by (simp add: slippage_ok_def)
  qed
  have codes: "set currency_codes = set supported_currencies" by (simp add: supported currency_codes_def)
  show ?thesis
    using one by (auto simp: parse_quote_query_def Let_def num codes split: option.split)
qed

end
