(* ===== verification/FxStore.thy ===== *)
theory FxStore
  imports FxRates RedisStrings JsonCanon
begin

section \<open>What the FX engine keeps in Redis\<close>

text \<open>
  Quotes and locks are string keys, the rate history is a sorted set of snapshots by time. Redis
  is a parameter: the string commands of \<open>RedisStrings\<close> and three commands on sorted sets, with
  their documented behaviour. So is the JSON text of quotes and snapshots: a codec.
\<close>

record 'r fx_redis =
  fr_kv :: "'r kv_ops"
  fr_zadd :: "'r \<Rightarrow> string \<Rightarrow> int \<Rightarrow> string \<Rightarrow> 'r"
  fr_zremrange :: "'r \<Rightarrow> string \<Rightarrow> int \<Rightarrow> 'r \<times> nat"
  fr_zlatest :: "'r \<Rightarrow> string \<Rightarrow> int option \<Rightarrow> string option"

text \<open>
  \<open>ZADD\<close>, \<open>ZREMRANGEBYSCORE key -inf max\<close> and \<open>ZREVRANGEBYSCORE key max -inf LIMIT 0 1\<close>, where
  \<open>None\<close> is \<open>+inf\<close>: \<open>zset st k\<close> maps the members of the set at \<open>k\<close> to their scores.
\<close>

locale fx_store = redis_strings "fr_kv F" invar entry
  for F :: "'r fx_redis" and invar :: "'r \<Rightarrow> bool" and entry :: "'r \<Rightarrow> string \<rightharpoonup> kv_entry" +
  fixes zset :: "'r \<Rightarrow> string \<Rightarrow> string \<rightharpoonup> int"
  assumes zset_finite: "invar st \<Longrightarrow> finite (dom (zset st k))"
    and zadd: "invar st \<Longrightarrow> invar (fr_zadd F st k s m) \<and> entry (fr_zadd F st k s m) = entry st \<and>
      zset (fr_zadd F st k s m) = (zset st)(k := (zset st k)(m \<mapsto> s))"
    and zremrange: "invar st \<Longrightarrow> \<exists>st'. fr_zremrange F st k upto_s = (st', card {m. \<exists>s. zset st k m = Some s \<and> s \<le> upto_s}) \<and>
      invar st' \<and> entry st' = entry st \<and>
      zset st' = (zset st)(k := (\<lambda>m. case zset st k m of Some s \<Rightarrow> if s \<le> upto_s then None else Some s | None \<Rightarrow> None))"
    and zlatest_none: "invar st \<Longrightarrow> fr_zlatest F st k hi = None \<longleftrightarrow>
      (\<forall>m s. zset st k m = Some s \<longrightarrow> (case hi of Some h \<Rightarrow> h < s | None \<Rightarrow> False))"
    and zlatest_some: "invar st \<Longrightarrow> fr_zlatest F st k hi = Some m \<Longrightarrow>
      \<exists>s. zset st k m = Some s \<and> (case hi of Some h \<Rightarrow> s \<le> h | None \<Rightarrow> True) \<and>
        (\<forall>m' s'. zset st k m' = Some s' \<longrightarrow> (case hi of Some h \<Rightarrow> s' \<le> h | None \<Rightarrow> True) \<longrightarrow> s' \<le> s)"
    and strings_keep_zset: "invar st \<Longrightarrow> zset (kv_set (fr_kv F) st now k v px) = zset st \<and>
      zset (fst (kv_set_nx (fr_kv F) st now k v n)) = zset st \<and> zset (kv_del (fr_kv F) st now k) = zset st"

subsection \<open>A reference implementation\<close>

type_synonym fx_mem = "kv_store \<times> (string, (string, int) jsmap) jsmap"

definition zs_of :: "fx_mem \<Rightarrow> string \<Rightarrow> (string, int) jsmap" where
  "zs_of st k = (case map_of (snd st) k of Some z \<Rightarrow> z | None \<Rightarrow> [])"

fun best_score :: "(string, int) jsmap \<Rightarrow> (string \<times> int) option" where
  "best_score [] = None"
| "best_score (ms # z) = (case best_score z of None \<Rightarrow> Some ms | Some b \<Rightarrow> if snd b \<le> snd ms then Some ms else Some b)"

definition below :: "int option \<Rightarrow> int \<Rightarrow> bool" where
  "below hi s = (case hi of Some h \<Rightarrow> s \<le> h | None \<Rightarrow> True)"

definition fxs_kv :: "fx_mem kv_ops" where
  "fxs_kv = \<lparr>
     kv_get = (\<lambda>st. kv_get kvs_ops (fst st)),
     kv_set = (\<lambda>st now k v px. (kv_set kvs_ops (fst st) now k v px, snd st)),
     kv_set_nx = (\<lambda>st now k v px. case kv_set_nx kvs_ops (fst st) now k v px of (s, ok) \<Rightarrow> ((s, snd st), ok)),
     kv_incr = (\<lambda>st now k. case kv_incr kvs_ops (fst st) now k of (s, n) \<Rightarrow> ((s, snd st), n)),
     kv_pexpire = (\<lambda>st now k px. (kv_pexpire kvs_ops (fst st) now k px, snd st)),
     kv_del = (\<lambda>st now k. (kv_del kvs_ops (fst st) now k, snd st)) \<rparr>"

definition fxs_ops :: "fx_mem fx_redis" where
  "fxs_ops = \<lparr>
     fr_kv = fxs_kv,
     fr_zadd = (\<lambda>st k s m. (fst st, js_set k (js_set m s (zs_of st k)) (snd st))),
     fr_zremrange = (\<lambda>st k hi. ((fst st, js_set k (filter (\<lambda>(m, s). \<not> s \<le> hi) (zs_of st k)) (snd st)),
        length (filter (\<lambda>(m, s). s \<le> hi) (zs_of st k)))),
     fr_zlatest = (\<lambda>st k hi. map_option fst (best_score (filter (\<lambda>(m, s). below hi s) (zs_of st k)))) \<rparr>"

definition fxs_invar :: "fx_mem \<Rightarrow> bool" where
  "fxs_invar st = (\<forall>k. distinct (map fst (zs_of st k)))"

lemma best_score_none: "best_score z = None \<longleftrightarrow> z = []"
  by (cases z) (auto split: option.splits)

lemma best_score_max: "best_score z = Some b \<Longrightarrow> b \<in> set z \<and> (\<forall>x\<in>set z. snd x \<le> snd b)"
proof (induction z arbitrary: b)
  case Nil
  then show ?case by simp
next
  case (Cons x z)
  show ?case
  proof (cases "best_score z")
    case None
    with Cons.prems show ?thesis by (simp add: best_score_none)
  next
    case (Some c)
    with Cons.IH [OF Some] Cons.prems show ?thesis by (auto split: if_splits)
  qed
qed

lemma zs_of_set [simp]: "zs_of (a, js_set k z m) k' = (if k' = k then z else zs_of (a, m) k')"
  by (simp add: zs_of_def)

lemma zs_of_fst: "zs_of (a, snd st) k = zs_of st k"
  by (simp add: zs_of_def)

lemma latest_none:
  assumes "distinct (map fst z)"
  shows "best_score (filter (\<lambda>(m, s). below hi s) z) = None \<longleftrightarrow>
    (\<forall>m s. map_of z m = Some s \<longrightarrow> (case hi of Some h \<Rightarrow> h < s | None \<Rightarrow> False))"
proof (cases hi)
  case None
  have "z = [] \<longleftrightarrow> (\<forall>m. map_of z m = None)"
    using map_of_eq_empty_iff [of z] by (simp add: fun_eq_iff)
  with None show ?thesis by (simp add: best_score_none below_def)
next
  case (Some h)
  with assms show ?thesis by (fastforce simp: best_score_none filter_empty_conv below_def)
qed

lemma latest_some:
  assumes "distinct (map fst z)" "best_score (filter (\<lambda>(m, s). below hi s) z) = Some (m, s)"
  shows "map_of z m = Some s \<and> (case hi of Some h \<Rightarrow> s \<le> h | None \<Rightarrow> True) \<and>
    (\<forall>m' s'. map_of z m' = Some s' \<longrightarrow> (case hi of Some h \<Rightarrow> s' \<le> h | None \<Rightarrow> True) \<longrightarrow> s' \<le> s)"
proof -
  note b = best_score_max [OF assms(2)]
  then have ms: "(m, s) \<in> set z" "below hi s" by auto
  have "s' \<le> s" if "map_of z m' = Some s'" "below hi s'" for m' s'
    using b that by (auto dest!: map_of_SomeD)
  with ms assms(1) show ?thesis by (auto simp: below_def)
qed

interpretation fxs: fx_store fxs_ops fxs_invar "\<lambda>st. map_of (fst st)" "\<lambda>st k. map_of (zs_of st k)"
proof unfold_locales
  fix st :: fx_mem and k m :: string and s hi :: int
  assume inv: "fxs_invar st"
  then have d: "distinct (map fst (zs_of st k))" for k by (simp add: fxs_invar_def)
  show "fxs_invar (fr_zadd fxs_ops st k s m) \<and> map_of (fst (fr_zadd fxs_ops st k s m)) = map_of (fst st) \<and>
      (\<lambda>k'. map_of (zs_of (fr_zadd fxs_ops st k s m) k')) =
        (\<lambda>k. map_of (zs_of st k))(k := (map_of (zs_of st k))(m \<mapsto> s))"
    using d by (auto simp: fxs_ops_def fxs_invar_def zs_of_fst fun_eq_iff intro: distinct_update)
  have rem: "length (filter (\<lambda>(m, s). s \<le> hi) z) = card {m. \<exists>s. map_of z m = Some s \<and> s \<le> hi}"
    if "distinct (map fst z)" for z :: "(string, int) jsmap"
  proof -
    have "{m. \<exists>s. map_of z m = Some s \<and> s \<le> hi} = fst ` set (filter (\<lambda>(m, s). s \<le> hi) z)"
      using that by (auto simp: image_def dest: map_of_SomeD intro: map_of_is_SomeI)
    moreover have "distinct (map fst (filter (\<lambda>(m, s). s \<le> hi) z))"
      using that by (auto simp: distinct_map intro: inj_on_subset)
    from distinct_card [OF this] have
      "card (fst ` set (filter (\<lambda>(m, s). s \<le> hi) z)) = length (filter (\<lambda>(m, s). s \<le> hi) z)"
      by (simp only: set_map length_map)
    ultimately show ?thesis by (simp only:)
  qed
  show "\<exists>st'. fr_zremrange fxs_ops st k hi = (st', card {m. \<exists>s. map_of (zs_of st k) m = Some s \<and> s \<le> hi}) \<and>
      fxs_invar st' \<and> map_of (fst st') = map_of (fst st) \<and>
      (\<lambda>k. map_of (zs_of st' k)) = (\<lambda>k. map_of (zs_of st k))(k := (\<lambda>m. case map_of (zs_of st k) m of
        Some s \<Rightarrow> if s \<le> hi then None else Some s | None \<Rightarrow> None))"
    using d [of k] d rem [OF d [of k]]
    by (auto simp: fxs_ops_def fxs_invar_def zs_of_fst fun_eq_iff map_of_filter_distinct distinct_map
        intro: inj_on_subset split: option.split)
next
  fix st :: fx_mem and k m :: string and hi :: "int option"
  assume "fxs_invar st"
  then have d: "distinct (map fst (zs_of st k))" for k by (simp add: fxs_invar_def)
  show "finite (dom (map_of (zs_of st k)))" by (rule finite_dom_map_of)
  show "fr_zlatest fxs_ops st k hi = None \<longleftrightarrow>
      (\<forall>m s. map_of (zs_of st k) m = Some s \<longrightarrow> (case hi of Some h \<Rightarrow> h < s | None \<Rightarrow> False))"
    by (simp only: latest_none [OF d, symmetric]) (simp add: fxs_ops_def)
  assume "fr_zlatest fxs_ops st k hi = Some m"
  then obtain s where "best_score (filter (\<lambda>(m, s). below hi s) (zs_of st k)) = Some (m, s)"
    by (auto simp: fxs_ops_def)
  from latest_some [OF d this] show "\<exists>s. map_of (zs_of st k) m = Some s \<and>
      (case hi of Some h \<Rightarrow> s \<le> h | None \<Rightarrow> True) \<and>
      (\<forall>m' s'. map_of (zs_of st k) m' = Some s' \<longrightarrow> (case hi of Some h \<Rightarrow> s' \<le> h | None \<Rightarrow> True) \<longrightarrow> s' \<le> s)"
    by blast
qed (auto simp: fxs_ops_def fxs_kv_def kvs_ops_def Let_def fxs_invar_def zs_of_fst split: option.splits)

subsection \<open>Locks\<close>

text \<open>
  \<open>SET key token PX ttl NX\<close> and the script that deletes the key only while it holds the token; a
  failing command is \<open>fails\<close>, whose error the code swallows.
\<close>

definition acquire_lock ::
  "'r fx_redis \<Rightarrow> bool \<Rightarrow> string \<Rightarrow> string \<Rightarrow> nat \<Rightarrow> nat \<Rightarrow> 'r \<Rightarrow> 'r \<times> string option" where
  "acquire_lock F fails key token ttl now st =
     (if fails then (st, None)
      else case kv_set_nx (fr_kv F) st now key token ttl of (st', ok) \<Rightarrow> (st', if ok then Some token else None))"

definition release_lock :: "'r fx_redis \<Rightarrow> bool \<Rightarrow> string \<Rightarrow> string \<Rightarrow> nat \<Rightarrow> 'r \<Rightarrow> 'r" where
  "release_lock F fails key token now st =
     (if fails then st
      else if kv_get (fr_kv F) st now key = Some token then kv_del (fr_kv F) st now key else st)"

definition rate_fetch_lock_key :: string where
  "rate_fetch_lock_key = ''rate_fetch_lock:global''"

definition rate_fetch_lock_ttl_ms :: nat where
  "rate_fetch_lock_ttl_ms = 5000"

definition rate_cleanup_lock_key :: string where
  "rate_cleanup_lock_key = ''rate_cleanup_lock:global''"

definition rate_cleanup_lock_ttl_ms :: nat where
  "rate_cleanup_lock_ttl_ms = 30000"

subsection \<open>Snapshots and quotes\<close>

record stored_quote =
  sq_id :: string
  sq_from :: string
  sq_to :: string
  sq_amount :: string
  sq_result :: string
  sq_rate :: string
  sq_slippage :: "number option"
  sq_expires_at :: int
  sq_batch :: string
  sq_unrounded :: "number option"

record rate_snapshot =
  rs_ts :: int
  rs_rates :: "(string, json) jsmap"

text \<open>\<open>JSON.stringify\<close> and \<open>JSON.parse\<close>; \<open>None\<close> when the text does not parse\<close>

record fx_codec =
  cd_quote :: "stored_quote \<Rightarrow> string"
  cd_unquote :: "string \<Rightarrow> stored_quote option"
  cd_snapshot :: "rate_snapshot \<Rightarrow> string"
  cd_unsnapshot :: "string \<Rightarrow> rate_snapshot option"

text \<open>In JSON a number is finite or \<open>null\<close>.\<close>

definition json_of_number :: "number \<Rightarrow> json" where
  "json_of_number x = (case x of Fin a \<Rightarrow> JNum a | _ \<Rightarrow> JNull)"

definition number_of_json :: "json \<Rightarrow> number option" where
  "number_of_json v = (case v of JNum a \<Rightarrow> Some (Fin a) | _ \<Rightarrow> None)"

definition snapshot_key :: string where
  "snapshot_key = ''fx:rate_snapshots''"

definition snapshot_retention_ms :: int where
  "snapshot_retention_ms = 7 * 24 * 60 * 60 * 1000"

definition snapshot_member :: "fx_codec \<Rightarrow> int \<Rightarrow> (string, number) jsmap \<Rightarrow> string" where
  "snapshot_member C now rates =
     cd_snapshot C \<lparr> rs_ts = now, rs_rates = map (\<lambda>(c, x). (c, json_of_number x)) rates \<rparr>"

definition store_rate_snapshot ::
  "'r fx_redis \<Rightarrow> fx_codec \<Rightarrow> int \<Rightarrow> (string, number) jsmap \<Rightarrow> 'r \<Rightarrow> 'r" where
  "store_rate_snapshot F C now rates st =
     (let cutoff = now - snapshot_retention_ms;
          member = snapshot_member C now rates
      in fst (fr_zremrange F (fr_zadd F st snapshot_key now member) snapshot_key cutoff))"

text \<open>
  The daily cleanup: \<open>RATE_HISTORY_RETENTION_DAYS\<close> is read at each run. \<open>iv 0\<close> to \<open>iv 2\<close> are the
  failures of the lock, the removal and the unlock; a failing removal is an exception, after
  the unlock.
\<close>

definition effective_retention_days :: "string option \<Rightarrow> int" where
  "effective_retention_days raw =
     (case parse_int (case raw of Some s \<Rightarrow> s | None \<Rightarrow> ''7'') of
        Some d \<Rightarrow> if 1 \<le> d then d else 7
      | None \<Rightarrow> 7)"

definition run_rate_history_cleanup ::
  "'r fx_redis \<Rightarrow> (nat \<Rightarrow> bool) \<Rightarrow> string \<Rightarrow> string option \<Rightarrow> nat \<Rightarrow> 'r \<Rightarrow> 'r \<times> (unit, nat) result" where
  "run_rate_history_cleanup F iv token retention now st =
     (case acquire_lock F (iv 0) rate_cleanup_lock_key token rate_cleanup_lock_ttl_ms now st of
        (st1, None) \<Rightarrow> (st1, return_ok 0)
      | (st1, Some tk) \<Rightarrow>
          let days = effective_retention_days retention;
              cutoff = int now - days * 24 * 60 * 60 * 1000;
              (st2, ans) = (if iv 1 then (st1, throw ())
                            else case fr_zremrange F st1 snapshot_key cutoff of (s, n) \<Rightarrow> (s, return_ok n))
          in (release_lock F (iv 2) rate_cleanup_lock_key tk now st2, ans))"

subsection \<open>Properties\<close>

context fx_store
begin

lemma acquire_cases:
  assumes "invar st" "acquire_lock F fails key token ttl now st = (st', r)"
  shows "invar st' \<and>
    (if \<not> fails \<and> kv_live now (entry st key) = None
     then r = Some token \<and> entry st' = (entry st)(key \<mapsto> (token, Some (now + ttl)))
     else r = None \<and> entry st' = entry st)"
proof (cases fails)
  case True
  with assms show ?thesis by (auto simp: acquire_lock_def)
next
  case False
  with assms(2) obtain ok where "kv_set_nx (fr_kv F) st now key token ttl = (st', ok)"
    "r = (if ok then Some token else None)"
    by (auto simp: acquire_lock_def split: prod.splits)
  with set_nx_cases [OF assms(1)] False show ?thesis by (auto split: if_splits)
qed

lemma acquire_zset: "invar st \<Longrightarrow> acquire_lock F fails key token ttl now st = (st', r) \<Longrightarrow> zset st' = zset st"
  using strings_keep_zset [of st now key token _ ttl]
  by (cases "kv_set_nx (fr_kv F) st now key token ttl") (auto simp: acquire_lock_def split: if_splits)

lemma release_zset: "invar st \<Longrightarrow> zset (release_lock F fails key token now st) = zset st"
  using strings_keep_zset by (simp add: release_lock_def)

lemma release_cases:
  assumes "invar st"
  shows "invar (release_lock F fails key token now st) \<and>
    entry (release_lock F fails key token now st) =
      (if \<not> fails \<and> kv_live now (entry st key) = Some token then (entry st)(key := None) else entry st)"
  using assms by (auto simp: release_lock_def get_entry del_entry)

lemma store_effect:
  assumes "invar st"
  shows "invar (store_rate_snapshot F C now rates st) \<and>
    entry (store_rate_snapshot F C now rates st) = entry st \<and>
    zset (store_rate_snapshot F C now rates st) = (zset st)(snapshot_key :=
      (\<lambda>m. case ((zset st snapshot_key)(snapshot_member C now rates \<mapsto> now)) m of
         Some s \<Rightarrow> if s \<le> now - snapshot_retention_ms then None else Some s | None \<Rightarrow> None))"
proof -
  define m0 where "m0 = snapshot_member C now rates"
  have a: "invar (fr_zadd F st snapshot_key now m0)" "entry (fr_zadd F st snapshot_key now m0) = entry st"
    "zset (fr_zadd F st snapshot_key now m0) = (zset st)(snapshot_key := (zset st snapshot_key)(m0 \<mapsto> now))"
    using zadd [OF assms(1)] by simp_all
  from zremrange [OF a(1), of snapshot_key "now - snapshot_retention_ms"] a(2,3) show ?thesis
    by (auto simp: store_rate_snapshot_def Let_def m0_def [symmetric])
qed

end

datatype lock_event = Acquire bool string nat | Release bool string nat

fun lock_step :: "'r fx_redis \<Rightarrow> string \<Rightarrow> nat \<Rightarrow> lock_event \<Rightarrow> 'r \<Rightarrow> 'r \<times> string option" where
  "lock_step F key ttl (Acquire fails token now) st = acquire_lock F fails key token ttl now st"
| "lock_step F key ttl (Release fails token now) st = (release_lock F fails key token now st, None)"

fun lock_events :: "'r fx_redis \<Rightarrow> string \<Rightarrow> nat \<Rightarrow> lock_event list \<Rightarrow> 'r \<Rightarrow> 'r \<times> string option list" where
  "lock_events F key ttl [] st = (st, [])"
| "lock_events F key ttl (e # es) st =
     (case lock_step F key ttl e st of (st1, r) \<Rightarrow>
        (case lock_events F key ttl es st1 of (st2, rs) \<Rightarrow> (st2, r # rs)))"

fun foreign :: "string \<Rightarrow> nat \<Rightarrow> lock_event \<Rightarrow> bool" where
  "foreign token until (Acquire fails tk now) = (tk \<noteq> token \<and> now < until)"
| "foreign token until (Release fails tk now) = (tk \<noteq> token \<and> now < until)"

context fx_store
begin

lemma lock_step_foreign:
  assumes "invar st" "entry st key = Some (token, Some until)" "foreign token until e"
    "lock_step F key ttl e st = (st', r)"
  shows "r = None \<and> invar st' \<and> entry st' key = Some (token, Some until)"
proof (cases e)
  case (Acquire fails tk now)
  with acquire_cases [OF assms(1), of fails key tk ttl now st' r] assms show ?thesis
    by (auto simp: kv_live_def split: if_splits)
next
  case (Release fails tk now)
  with release_cases [OF assms(1), of fails key tk now] assms show ?thesis
    by (auto simp: kv_live_def split: if_splits)
qed

lemma lock_events_foreign:
  "invar st \<Longrightarrow> entry st key = Some (token, Some until) \<Longrightarrow> list_all (foreign token until) es \<Longrightarrow>
   list_all (\<lambda>r. r = None) (snd (lock_events F key ttl es st)) \<and>
   entry (fst (lock_events F key ttl es st)) key = Some (token, Some until) \<and>
   invar (fst (lock_events F key ttl es st))"
proof (induction es arbitrary: st)
  case Nil
  then show ?case by simp
next
  case (Cons e es)
  obtain st1 r where s: "lock_step F key ttl e st = (st1, r)" by (cases "lock_step F key ttl e st")
  with lock_step_foreign [OF Cons.prems(1,2) _ s] Cons.IH [of st1] Cons.prems(3)
  show ?case by (auto split: prod.splits)
qed

end

text \<open>
  C29: A lock is exclusive while it lives: once a process holds it, every attempt of other
  processes within its lifetime fails and their releases do not touch it, and then the holder's
  own release frees it for the next attempt.
\<close>

theorem lock_exclusive:
  assumes "fx_store F invar entry zset" "invar st"
    and "acquire_lock F False key token ttl now st = (st1, Some token')"
    and "list_all (foreign token (now + ttl)) es" "t < now + ttl"
  shows "token' = token \<and> list_all (\<lambda>r. r = None) (snd (lock_events F key ttl es st1)) \<and>
    (let st2 = release_lock F False key token t (fst (lock_events F key ttl es st1))
     in snd (acquire_lock F False key other ttl t st2) = Some other)"
proof -
  note acq = fx_store.acquire_cases [OF assms(1,2,3)]
  then have st1: "invar st1" "token' = token" "entry st1 key = Some (token, Some (now + ttl))"
    by (auto split: if_splits)
  note ev = fx_store.lock_events_foreign [OF assms(1) st1(1,3) assms(4), of ttl]
  define st' where "st' = fst (lock_events F key ttl es st1)"
  have l: "invar st'" "kv_live t (entry st' key) = Some token"
    using ev assms(5) by (simp_all add: st'_def kv_live_def)
  define st2 where "st2 = release_lock F False key token t st'"
  have st2: "invar st2" "entry st2 key = None"
    using fx_store.release_cases [OF assms(1) l(1), of False key token t] l(2) by (simp_all add: st2_def)
  obtain st3 r where a: "acquire_lock F False key other ttl t st2 = (st3, r)"
    by (cases "acquire_lock F False key other ttl t st2")
  with fx_store.acquire_cases [OF assms(1) st2(1) a] st2(2) have "r = Some other"
    by (simp add: kv_live_def)
  with a ev st1(2) show ?thesis by (simp add: st2_def st'_def Let_def)
qed

lemma lock_exclusive_witness:
  "''p1'' = ''p1'' \<and> list_all (\<lambda>r. r = None) (snd (lock_events fxs_ops rate_fetch_lock_key 5000
       [Acquire False ''p2'' 4000, Release False ''p2'' 4500, Acquire False ''p3'' 5500]
       (fst (acquire_lock fxs_ops False rate_fetch_lock_key ''p1'' 5000 1000 ([], []))))) \<and>
    (let st2 = release_lock fxs_ops False rate_fetch_lock_key ''p1'' 5900 (fst (lock_events fxs_ops rate_fetch_lock_key 5000
       [Acquire False ''p2'' 4000, Release False ''p2'' 4500, Acquire False ''p3'' 5500]
       (fst (acquire_lock fxs_ops False rate_fetch_lock_key ''p1'' 5000 1000 ([], [])))))
     in snd (acquire_lock fxs_ops False rate_fetch_lock_key ''p3'' 5000 5900 st2) = Some ''p3'')"
  by (rule lock_exclusive [OF fxs.fx_store_axioms, where st = "([], [])" and now = 1000 and token' = "''p1''"])
     (simp_all add: fxs_invar_def zs_of_def acquire_lock_def fxs_ops_def fxs_kv_def kvs_ops_def kv_live_def)

text \<open>The members of a sorted set above a score.\<close>

definition kept_after :: "int \<Rightarrow> (string \<rightharpoonup> int) \<Rightarrow> string \<rightharpoonup> int" where
  "kept_after c z = (\<lambda>m. case z m of Some s \<Rightarrow> if s \<le> c then None else Some s | None \<Rightarrow> None)"

text \<open>
  C30: The rate history after a snapshot is stored and the cleanup ran, exactly: the store adds
  the snapshot and drops what is seven days old or older, and the cleanup, when it gets its
  lock and Redis answers, drops also what is as old as the configured retention, and reports
  how many snapshots that were. Nothing else is removed, added or changed. In particular no
  snapshot seven days older than the last one is ever kept, so a longer
  \<open>RATE_HISTORY_RETENTION_DAYS\<close> has no effect.
\<close>

theorem history_retention:
  assumes "fx_store F invar entry zset" "invar st"
    and run: "run_rate_history_cleanup F iv token retention now' (store_rate_snapshot F C now rates st) = (st', ans)"
  defines "stored \<equiv> kept_after (now - snapshot_retention_ms) ((zset st snapshot_key)(snapshot_member C now rates \<mapsto> now))"
    and "cutoff \<equiv> int now' - effective_retention_days retention * 24 * 60 * 60 * 1000"
    and "locked \<equiv> \<not> iv 0 \<and> kv_live now' (entry st rate_cleanup_lock_key) = None"
  shows "zset st' = (zset st)(snapshot_key := (if locked \<and> \<not> iv 1 then kept_after cutoff stored else stored)) \<and>
    ans = (if \<not> locked then Inr 0 else if iv 1 then Inl () else Inr (card {m. \<exists>s. stored m = Some s \<and> s \<le> cutoff})) \<and>
    (\<forall>m s. zset st' snapshot_key m = Some s \<longrightarrow> now - 7 * 24 * 60 * 60 * 1000 < s)"
proof -
  define st0 where "st0 = store_rate_snapshot F C now rates st"
  have s0: "invar st0" "entry st0 = entry st" "zset st0 = (zset st)(snapshot_key := stored)"
    using fx_store.store_effect [OF assms(1,2), of C now rates] by (simp_all add: st0_def stored_def kept_after_def)
  obtain st1 tk where a: "acquire_lock F (iv 0) rate_cleanup_lock_key token rate_cleanup_lock_ttl_ms now' st0 = (st1, tk)"
    by (cases "acquire_lock F (iv 0) rate_cleanup_lock_key token rate_cleanup_lock_ttl_ms now' st0")
  have z1: "zset st1 = zset st0" "invar st1" "tk = (if locked then Some token else None)"
    using fx_store.acquire_cases [OF assms(1) s0(1) a] fx_store.acquire_zset [OF assms(1) s0(1) a] s0(2)
    by (simp_all add: locked_def split: if_splits)
  have z: "zset st' = (zset st)(snapshot_key := (if locked \<and> \<not> iv 1 then kept_after cutoff stored else stored))"
    and n: "ans = (if \<not> locked then Inr 0 else if iv 1 then Inl () else Inr (card {m. \<exists>s. stored m = Some s \<and> s \<le> cutoff}))"
  proof -
    obtain st2 where z2: "fr_zremrange F st1 snapshot_key cutoff = (st2, card {m. \<exists>s. stored m = Some s \<and> s \<le> cutoff})"
      "invar st2" "zset st2 = (zset st)(snapshot_key := kept_after cutoff stored)"
      using fx_store.zremrange [OF assms(1) z1(2), of snapshot_key cutoff] z1(1) s0(3) by (auto simp: kept_after_def)
    have r: "zset (release_lock F (iv 2) rate_cleanup_lock_key token now' s) = zset s" if "invar s" for s
      using fx_store.release_zset [OF assms(1) that] .
    show "zset st' = (zset st)(snapshot_key := (if locked \<and> \<not> iv 1 then kept_after cutoff stored else stored))"
      "ans = (if \<not> locked then Inr 0 else if iv 1 then Inl () else Inr (card {m. \<exists>s. stored m = Some s \<and> s \<le> cutoff}))"
      using run [unfolded run_rate_history_cleanup_def Let_def, folded cutoff_def st0_def] a z2 z1 s0(3)
        r [OF z1(2)] r [OF z2(2)]
      by (auto split: if_splits)
  qed
  have "now - 7 * 24 * 60 * 60 * 1000 < s" if "zset st' snapshot_key m = Some s" for m s
    using that by (auto simp: z kept_after_def stored_def snapshot_retention_ms_def split: if_splits option.splits)
  with z n show ?thesis by blast
qed

definition text_codec :: fx_codec where
  "text_codec = \<lparr> cd_quote = sq_id, cd_unquote = (\<lambda>_. None),
     cd_snapshot = (\<lambda>s. string_of_int (rs_ts s)), cd_unsnapshot = (\<lambda>_. None) \<rparr>"

definition sample_history :: fx_mem where
  "sample_history = store_rate_snapshot fxs_ops text_codec 900000000 [(''NGN'', Fin 1)]
     ([], [(snapshot_key, [(''1000'', 1000)])])"

definition sample_cleanup :: "fx_mem \<times> (unit, nat) result" where
  "sample_cleanup = run_rate_history_cleanup fxs_ops (\<lambda>_. False) ''t'' (Some ''30'') 900000001 sample_history"

lemma history_retention_witness:
  "snd sample_cleanup = Inr 0 \<and>
   map_of (zs_of (fst sample_cleanup) snapshot_key) (snapshot_member text_codec 900000000 [(''NGN'', Fin 1)]) = Some 900000000 \<and>
   map_of (zs_of (fst sample_cleanup) snapshot_key) ''1000'' = None"
proof -
  define before :: fx_mem where "before = ([], [(snapshot_key, [(''1000'', 1000)])])"
  have inv: "fxs_invar before" by (simp add: before_def fxs_invar_def zs_of_def)
  have run: "run_rate_history_cleanup fxs_ops (\<lambda>_. False) ''t'' (Some ''30'') 900000001
      (store_rate_snapshot fxs_ops text_codec 900000000 [(''NGN'', Fin 1)] before) = (fst sample_cleanup, snd sample_cleanup)"
    by (simp add: before_def flip: sample_history_def sample_cleanup_def)
  have r: "snd sample_cleanup = Inr 0" "effective_retention_days (Some ''30'') = 30"
    "snapshot_member text_codec 900000000 [(''NGN'', Fin 1)] \<noteq> ''1000''" by code_simp+
  have z: "zs_of before snapshot_key = [(''1000'', 1000)]" by (simp add: before_def zs_of_def)
  let ?m = "snapshot_member text_codec 900000000 [(''NGN'', Fin 1)]"
  have "map_of (zs_of (fst sample_cleanup) snapshot_key) = kept_after (900000001 - 30 * 24 * 60 * 60 * 1000)
      (kept_after (900000000 - snapshot_retention_ms) ([''1000'' \<mapsto> 1000, ?m \<mapsto> 900000000]))"
    using fun_cong [OF conjunct1 [OF history_retention [OF fxs.fx_store_axioms inv run]], of snapshot_key] r(2) z
    by (simp add: kv_live_def before_def)
  with r show ?thesis by (simp add: kept_after_def snapshot_retention_ms_def)
qed

end
