(* ===== verification/CircuitBreaker.thy ===== *)
theory CircuitBreaker
  imports JsNumber
begin

section \<open>Circuit breakers and fallback alerts (\<open>fx-engine\<close>)\<close>

text \<open>
  The registry of circuit breakers (\<open>circuit-breaker.ts\<close>) refines a machine of three states
  per route; the fallback tracker (\<open>fallback-tracker.ts\<close>) raises one alert per outage. A call
  reads the clock several times: \<open>ck i\<close> is its reading number \<open>i\<close>.
\<close>

subsection \<open>The registry\<close>

datatype breaker_state = CLOSED | OPEN | HALF_OPEN

record breaker =
  br_state :: breaker_state
  br_failures :: nat
  br_opened_at :: "int option"
  br_last_transition :: int

type_synonym breaker_registry = "(string, breaker) jsmap"

record breaker_log =
  bl_route :: string
  bl_from :: breaker_state
  bl_to :: breaker_state
  bl_failures :: nat

definition circuit_breaker_failure_threshold :: nat where
  "circuit_breaker_failure_threshold = 5"

definition breaker_get :: "(nat \<Rightarrow> int) \<Rightarrow> string \<Rightarrow> breaker_registry \<Rightarrow> breaker_registry \<times> breaker" where
  "breaker_get ck route reg =
     (case map_of reg route of
        Some b \<Rightarrow> (reg, b)
      | None \<Rightarrow>
          let b = \<lparr> br_state = CLOSED, br_failures = 0, br_opened_at = None, br_last_transition = ck 0 \<rparr>
          in (js_set route b reg, b))"

definition breaker_transition ::
  "(nat \<Rightarrow> int) \<Rightarrow> string \<Rightarrow> breaker_state \<Rightarrow> breaker_registry \<Rightarrow> breaker_registry \<times> breaker_log list" where
  "breaker_transition ck route new reg =
     (case breaker_get ck route reg of (reg', b) \<Rightarrow>
        if br_state b = new then (reg', [])
        else let b1 = b \<lparr> br_state := new, br_last_transition := ck 1 \<rparr>;
                 b2 = (case new of
                         OPEN \<Rightarrow> b1 \<lparr> br_opened_at := Some (ck 2) \<rparr>
                       | CLOSED \<Rightarrow> b1 \<lparr> br_failures := 0, br_opened_at := None \<rparr>
                       | HALF_OPEN \<Rightarrow> b1)
             in (js_set route b2 reg',
                 [\<lparr> bl_route = route, bl_from = br_state b, bl_to = new, bl_failures = br_failures b2 \<rparr>]))"

definition breaker_snapshot :: "(nat \<Rightarrow> int) \<Rightarrow> string \<Rightarrow> breaker_registry \<Rightarrow> breaker_registry \<times> breaker" where
  "breaker_snapshot ck route reg = breaker_get ck route reg"

text \<open>The cooldown is \<open>None\<close> when the environment variable does not parse (\<open>NaN\<close>).\<close>

definition cooldown_over :: "int \<Rightarrow> int option \<Rightarrow> int option \<Rightarrow> bool" where
  "cooldown_over now opened cooldown =
     (case (opened, cooldown) of (Some t, Some c) \<Rightarrow> c \<le> now - t | _ \<Rightarrow> False)"

definition breaker_get_state ::
  "(nat \<Rightarrow> int) \<Rightarrow> string \<Rightarrow> int option \<Rightarrow> breaker_registry \<Rightarrow> breaker_registry \<times> breaker_state" where
  "breaker_get_state ck route cooldown reg =
     (case breaker_get ck route reg of (reg', b) \<Rightarrow>
        if br_state b = OPEN \<and> cooldown_over (ck 1) (br_opened_at b) cooldown
        then (js_set route (b \<lparr> br_state := HALF_OPEN, br_last_transition := ck 2 \<rparr>) reg', HALF_OPEN)
        else (reg', br_state b))"

definition breaker_record_success ::
  "(nat \<Rightarrow> int) \<Rightarrow> string \<Rightarrow> breaker_registry \<Rightarrow> breaker_registry \<times> breaker_log list" where
  "breaker_record_success ck route reg =
     (case breaker_get ck route reg of (reg', b) \<Rightarrow>
        let reg2 = js_set route (b \<lparr> br_failures := 0 \<rparr>) reg'
        in if br_state b \<noteq> CLOSED then breaker_transition ck route CLOSED reg2 else (reg2, []))"

definition breaker_record_failure ::
  "nat \<Rightarrow> (nat \<Rightarrow> int) \<Rightarrow> string \<Rightarrow> breaker_registry \<Rightarrow> breaker_registry \<times> breaker_log list" where
  "breaker_record_failure threshold ck route reg =
     (case breaker_get ck route reg of (reg', b) \<Rightarrow>
        let n = br_failures b + 1;
            reg2 = js_set route (b \<lparr> br_failures := n \<rparr>) reg'
        in if br_state b = HALF_OPEN \<or> br_state b = CLOSED \<and> threshold \<le> n
           then breaker_transition ck route OPEN reg2 else (reg2, []))"

definition breaker_routes :: "breaker_registry \<Rightarrow> string list" where
  "breaker_routes reg = map fst reg"

subsection \<open>Calls of the registry and its specification\<close>

datatype breaker_call =
    GetState "int option"
  | Success
  | Failure
  | Snapshot

fun breaker_do :: "nat \<Rightarrow> (nat \<Rightarrow> int) \<times> string \<times> breaker_call \<Rightarrow> breaker_registry \<Rightarrow> breaker_registry" where
  "breaker_do thr (ck, r, GetState cd) reg = fst (breaker_get_state ck r cd reg)"
| "breaker_do thr (ck, r, Success) reg = fst (breaker_record_success ck r reg)"
| "breaker_do thr (ck, r, Failure) reg = fst (breaker_record_failure thr ck r reg)"
| "breaker_do thr (ck, r, Snapshot) reg = fst (breaker_snapshot ck r reg)"

text \<open>The specification: failures in a row, tripped since a time, or probing.\<close>

datatype breaker_spec = Counting nat | Tripped int | Probing

fun breaker_spec_step :: "nat \<Rightarrow> (nat \<Rightarrow> int) \<Rightarrow> breaker_call \<Rightarrow> breaker_spec \<Rightarrow> breaker_spec" where
  "breaker_spec_step thr ck (GetState cd) (Tripped t) =
     (if cooldown_over (ck 1) (Some t) cd then Probing else Tripped t)"
| "breaker_spec_step thr ck Success s = Counting 0"
| "breaker_spec_step thr ck Failure (Counting n) =
     (if thr \<le> n + 1 then Tripped (ck 2) else Counting (n + 1))"
| "breaker_spec_step thr ck Failure Probing = Tripped (ck 2)"
| "breaker_spec_step thr ck c s = s"

fun breaker_spec_run :: "nat \<Rightarrow> string \<Rightarrow> ((nat \<Rightarrow> int) \<times> string \<times> breaker_call) list \<Rightarrow> breaker_spec" where
  "breaker_spec_run thr r [] = Counting 0"
| "breaker_spec_run thr r ((ck, r', c) # cs) =
     (if r' = r then breaker_spec_step thr ck c (breaker_spec_run thr r cs) else breaker_spec_run thr r cs)"

definition breaker_abs :: "breaker option \<Rightarrow> breaker_spec" where
  "breaker_abs b =
     (case b of
        None \<Rightarrow> Counting 0
      | Some b \<Rightarrow> (case br_state b of
          CLOSED \<Rightarrow> Counting (br_failures b)
        | OPEN \<Rightarrow> Tripped (the (br_opened_at b))
        | HALF_OPEN \<Rightarrow> Probing))"

text \<open>The time of opening is recorded exactly while the breaker is not closed.\<close>

definition breaker_ok :: "breaker option \<Rightarrow> bool" where
  "breaker_ok b = (case b of None \<Rightarrow> True | Some b \<Rightarrow> (br_opened_at b = None) = (br_state b = CLOSED))"

lemmas breaker_op_defs = breaker_get_def breaker_get_state_def breaker_record_success_def
  breaker_record_failure_def breaker_transition_def breaker_snapshot_def Let_def

lemma breaker_do_other: "r' \<noteq> r \<Longrightarrow> map_of (breaker_do thr (ck, r', c) reg) r = map_of reg r"
  by (cases c) (auto simp: breaker_op_defs split: option.splits breaker_state.splits)

lemma breaker_do_same:
  assumes "breaker_ok (map_of reg r)"
  shows "breaker_ok (map_of (breaker_do thr (ck, r, c) reg) r) \<and>
    breaker_abs (map_of (breaker_do thr (ck, r, c) reg) r) =
      breaker_spec_step thr ck c (breaker_abs (map_of reg r))"
proof (cases "map_of reg r")
  case None
  then show ?thesis
    by (cases c) (auto simp: breaker_op_defs breaker_ok_def breaker_abs_def cooldown_over_def)
next
  case (Some b)
  with assms show ?thesis
    by (cases c; cases "br_state b")
       (auto simp: breaker_op_defs breaker_ok_def breaker_abs_def cooldown_over_def split: option.splits)
qed

lemma breaker_runs:
  "breaker_ok (map_of (foldr (breaker_do thr) cs []) r) \<and>
   breaker_abs (map_of (foldr (breaker_do thr) cs []) r) = breaker_spec_run thr r cs"
proof (induction cs)
  case Nil
  show ?case by (simp add: breaker_ok_def breaker_abs_def)
next
  case (Cons c cs)
  obtain ck r' k where c: "c = (ck, r', k)" by (cases c)
  show ?case
    using Cons breaker_do_same [of "foldr (breaker_do thr) cs []" r thr ck k]
    by (cases "r' = r") (simp_all add: c breaker_do_other)
qed

text \<open>
  C14: The registry refines the specification per route: after any history of calls (the latest
  first), on any mix of routes, the breaker of a route is in the state the specification
  computes from the calls on that route alone, so routes never affect each other, and the time
  it opened is recorded exactly while it is not closed.
\<close>

theorem breaker_refines_spec:
  "breaker_abs (map_of (foldr (breaker_do thr) cs []) r) =
     breaker_spec_run thr r (filter (\<lambda>c. fst (snd c) = r) cs) \<and>
   breaker_ok (map_of (foldr (breaker_do thr) cs []) r)"
proof -
  have "breaker_spec_run thr r (filter (\<lambda>c. fst (snd c) = r) cs) = breaker_spec_run thr r cs"
    by (induction cs) auto
  with breaker_runs show ?thesis by simp
qed

subsection \<open>Cooldown and threshold\<close>

definition cools_on :: "string \<Rightarrow> int \<Rightarrow> (nat \<Rightarrow> int) \<times> string \<times> breaker_call \<Rightarrow> bool" where
  "cools_on r t x =
     (case x of (ck, r', c) \<Rightarrow> r' = r \<longrightarrow>
        (case c of Success \<Rightarrow> False | GetState cd \<Rightarrow> \<not> cooldown_over (ck 1) (Some t) cd | _ \<Rightarrow> True))"

definition open_since :: "string \<Rightarrow> int \<Rightarrow> breaker_registry \<Rightarrow> bool" where
  "open_since r t reg =
     (case map_of reg r of None \<Rightarrow> False | Some b \<Rightarrow> br_state b = OPEN \<and> br_opened_at b = Some t)"

lemma open_since_step:
  "open_since r t reg \<Longrightarrow> cools_on r t x \<Longrightarrow> open_since r t (breaker_do thr x reg)"
proof -
  assume o: "open_since r t reg" and c: "cools_on r t x"
  obtain ck r' k where x: "x = (ck, r', k)" by (cases x)
  show ?thesis
  proof (cases "r' = r")
    case False
    with o show ?thesis by (simp add: open_since_def x breaker_do_other)
  next
    case True
    with o c show ?thesis
      by (cases k) (auto simp: x cools_on_def open_since_def breaker_op_defs split: option.splits)
  qed
qed

text \<open>
  C26: An open breaker blocks its route for the whole cooldown: until a success is recorded on
  the route or its state is read when the cooldown is over, it stays open since the same time,
  failures do not prolong the cooldown, and every reading of the state answers OPEN. With a
  cooldown that does not parse it never is over.
\<close>

theorem breaker_open_until_cooldown:
  assumes "open_since r t reg" "list_all (cools_on r t) cs"
    and "\<not> cooldown_over (ck 1) (Some t) cd"
  shows "open_since r t (foldr (breaker_do thr) cs reg) \<and>
    snd (breaker_get_state ck r cd (foldr (breaker_do thr) cs reg)) = OPEN \<and>
    \<not> cooldown_over now (Some t) None"
proof -
  have "open_since r t (foldr (breaker_do thr) cs reg)"
    using assms(2,1) by (induction cs) (auto intro: open_since_step)
  with assms(3) show ?thesis
    by (auto simp: open_since_def breaker_get_state_def breaker_get_def cooldown_over_def split: option.splits)
qed

definition open_registry :: breaker_registry where
  "open_registry = foldr (breaker_do 5) (replicate 5 (\<lambda>_. 1000, ''coingecko'', Failure)) []"

lemma breaker_open_until_cooldown_witness:
  "open_since ''coingecko'' 1000 (foldr (breaker_do 5)
     [(\<lambda>_. 3000, ''coingecko'', Failure), (\<lambda>_. 2000, ''coingecko'', GetState (Some 300000)),
      (\<lambda>_. 1500, ''other'', Success)] open_registry) \<and>
   snd (breaker_get_state (\<lambda>_. 300999) ''coingecko'' (Some 300000) (foldr (breaker_do 5)
     [(\<lambda>_. 3000, ''coingecko'', Failure), (\<lambda>_. 2000, ''coingecko'', GetState (Some 300000)),
      (\<lambda>_. 1500, ''other'', Success)] open_registry)) = OPEN \<and>
   \<not> cooldown_over 9000000 (Some 1000) None"
  by (rule breaker_open_until_cooldown) code_simp+

lemma spec_trips:
  "breaker_spec_run circuit_breaker_failure_threshold r
     (map (\<lambda>ck. (ck, r, Failure)) cks @ (ck0, r, Success) # cs) =
   (if length cks < circuit_breaker_failure_threshold then Counting (length cks)
    else Tripped ((rev cks ! 4) 2))"
proof (induction cks)
  case Nil
  show ?case by (simp add: circuit_breaker_failure_threshold_def)
next
  case (Cons ck cks)
  then show ?case
    by (cases "length cks < 4"; cases "length cks = 4")
       (auto simp: circuit_breaker_failure_threshold_def nth_append)
qed

text \<open>
  The breaker trips at the threshold and not before: once a success is recorded on a route,
  whatever happened before, n failures in a row leave it closed with n failures counted while
  n is below 5, and from the fifth on it is open since the time of the fifth.
\<close>

theorem breaker_trips_at_threshold:
  "breaker_abs (map_of (foldr (breaker_do circuit_breaker_failure_threshold)
     (map (\<lambda>ck. (ck, r, Failure)) cks @ (ck0, r, Success) # cs) []) r) =
   (if length cks < circuit_breaker_failure_threshold then Counting (length cks)
    else Tripped ((rev cks ! 4) 2))"
  by (simp only: breaker_runs spec_trips)

subsection \<open>The fallback tracker\<close>

record fallback_tracker =
  ft_threshold :: nat
  ft_consecutive :: nat
  ft_counter :: nat
  ft_gauge :: nat
  ft_alerts :: "(nat \<times> nat) list"

definition fallback_alert_threshold :: nat where
  "fallback_alert_threshold = 3"

definition fallback_warning_interval_ms :: int where
  "fallback_warning_interval_ms = 5 * 60 * 1000"

definition create_fallback_tracker :: "nat option \<Rightarrow> fallback_tracker" where
  "create_fallback_tracker threshold =
     \<lparr> ft_threshold = (case threshold of Some n \<Rightarrow> n | None \<Rightarrow> fallback_alert_threshold),
       ft_consecutive = 0, ft_counter = 0, ft_gauge = 0, ft_alerts = [] \<rparr>"

definition record_fallback :: "fallback_tracker \<Rightarrow> fallback_tracker" where
  "record_fallback ft =
     (let n = ft_consecutive ft + 1
      in ft \<lparr> ft_counter := ft_counter ft + 1, ft_gauge := 1, ft_consecutive := n,
             ft_alerts := (if n = ft_threshold ft then ft_alerts ft @ [(n, ft_threshold ft)] else ft_alerts ft) \<rparr>)"

definition record_live :: "fallback_tracker \<Rightarrow> fallback_tracker" where
  "record_live ft = ft \<lparr> ft_consecutive := 0, ft_gauge := 0 \<rparr>"

text \<open>One run of the warning timer: the duration in milliseconds and in minutes, rounded\<close>

definition fallback_warning :: "int option \<Rightarrow> int \<Rightarrow> (int \<times> int) option" where
  "fallback_warning start now =
     (case start of None \<Rightarrow> None
      | Some t \<Rightarrow> Some (now - t, \<lfloor>of_int (now - t) / 60000 + (1 / 2 :: rat)\<rfloor>))"

datatype rate_event = Fallback | Live

definition track :: "rate_event \<Rightarrow> fallback_tracker \<Rightarrow> fallback_tracker" where
  "track e = (case e of Fallback \<Rightarrow> record_fallback | Live \<Rightarrow> record_live)"

text \<open>The lengths of the outages of a history: its maximal blocks of fallbacks\<close>

function outage_lengths :: "rate_event list \<Rightarrow> nat list" where
  "outage_lengths [] = []"
| "outage_lengths (Live # es) = outage_lengths es"
| "outage_lengths (Fallback # es) =
     Suc (length (takeWhile (\<lambda>e. e = Fallback) es)) # outage_lengths (dropWhile (\<lambda>e. e = Fallback) es)"
  by pat_completeness auto
termination
  by (relation "measure length") (simp_all add: le_imp_less_Suc length_dropWhile_le)

definition long_outages :: "nat \<Rightarrow> rate_event list \<Rightarrow> nat" where
  "long_outages thr es = length (filter (\<lambda>n. thr \<le> n) (outage_lengths es))"

lemma long_outages_head:
  "0 < thr \<Longrightarrow> long_outages thr es =
     (if thr \<le> length (takeWhile (\<lambda>e. e = Fallback) es) then 1 else 0) +
     long_outages thr (dropWhile (\<lambda>e. e = Fallback) es)"
  by (cases es rule: outage_lengths.cases) (simp_all add: long_outages_def)

lemma alerts_fold:
  "0 < ft_threshold ft \<Longrightarrow>
   length (ft_alerts (fold track es ft)) = length (ft_alerts ft) +
     (if ft_consecutive ft < ft_threshold ft \<and>
         ft_threshold ft \<le> ft_consecutive ft + length (takeWhile (\<lambda>e. e = Fallback) es) then 1 else 0) +
     long_outages (ft_threshold ft) (dropWhile (\<lambda>e. e = Fallback) es)"
proof (induction es arbitrary: ft)
  case Nil
  show ?case by (simp add: long_outages_def)
next
  case (Cons e es)
  show ?case
  proof (cases e)
    case Live
    then show ?thesis
      using Cons.IH [of "record_live ft"] Cons.prems long_outages_head [of "ft_threshold ft" es]
      by (simp add: track_def record_live_def) (simp add: long_outages_def)
  next
    case Fallback
    then show ?thesis
      using Cons.IH [of "record_fallback ft"] Cons.prems
      by (auto simp: track_def record_fallback_def Let_def)
  qed
qed

lemma fallback_track_simps:
  "ft_threshold (fold track es ft) = ft_threshold ft"
  "ft_counter (fold track es ft) = ft_counter ft + length (filter (\<lambda>e. e = Fallback) es)"
  by (induction es arbitrary: ft)
     (auto simp: track_def record_fallback_def record_live_def Let_def split: rate_event.splits)

lemma track_gauge:
  "ft_gauge (track e ft) = (if e = Fallback then 1 else 0)"
  by (cases e) (auto simp: track_def record_fallback_def record_live_def Let_def)

text \<open>
  Over any history of refreshes the tracker raises exactly one alert for every outage of at
  least the threshold's length and none for a shorter one, counts every fallback, and its
  gauge says whether the last refresh was a fallback.
\<close>

theorem one_alert_per_outage:
  assumes "threshold = None \<or> threshold = Some (Suc n)"
  shows "let ft = fold track es (create_fallback_tracker threshold) in
    length (ft_alerts ft) = long_outages (ft_threshold ft) es \<and>
    ft_counter ft = length (filter (\<lambda>e. e = Fallback) es) \<and>
    ft_gauge ft = (if es \<noteq> [] \<and> last es = Fallback then 1 else 0)"
proof -
  define ft where "ft = create_fallback_tracker threshold"
  have ft: "0 < ft_threshold ft" "ft_consecutive ft = 0" "ft_alerts ft = []" "ft_counter ft = 0" "ft_gauge ft = 0"
    using assms by (auto simp: ft_def create_fallback_tracker_def fallback_alert_threshold_def)
  have "ft_gauge (fold track es ft) = (if es \<noteq> [] \<and> last es = Fallback then 1 else 0)"
    using ft(5) by (cases es rule: rev_cases) (simp_all add: track_gauge)
  with alerts_fold [OF ft(1), of es] long_outages_head [OF ft(1), of es] show ?thesis
    by (simp add: ft fallback_track_simps flip: ft_def)
qed

lemma one_alert_per_outage_witness:
  "let ft = fold track [Fallback, Fallback, Fallback, Fallback, Live, Fallback] (create_fallback_tracker None) in
    length (ft_alerts ft) = long_outages (ft_threshold ft) [Fallback, Fallback, Fallback, Fallback, Live, Fallback] \<and>
    ft_counter ft = length (filter (\<lambda>e. e = Fallback) [Fallback, Fallback, Fallback, Fallback, Live, Fallback]) \<and>
    ft_gauge ft = (if [Fallback, Fallback, Fallback, Fallback, Live, Fallback] \<noteq> [] \<and>
      last [Fallback, Fallback, Fallback, Fallback, Live, Fallback] = Fallback then 1 else 0)"
  by (rule one_alert_per_outage [of None 0]) simp

end
