(* ===== verification/FxEngine.thy ===== *)
theory FxEngine
  imports FxStore CircuitBreaker
begin

section \<open>The FX engine (\<open>fx-engine/src/index.ts\<close>)\<close>

text \<open>
  The state of the process, the refresh of the rates with its locks, breaker and fallback, the
  warmup from Redis and the endpoints. An await point where other handlers may run is a
  function of the inputs; the clock readings and the answers of the network are inputs too.
\<close>

subsection \<open>Configuration and state\<close>

record fx_config =
  fc_production :: bool
  fc_max_deviation :: number
  fc_cooldown :: "int option"
  fc_max_stale :: int
  fc_default_slippage :: number
  fc_max_slippage :: number
  fc_quote_min_age :: int
  fc_quote_max_lifetime :: int
  fc_refresh_interval :: int

record refresh_result =
  rr_at :: int
  rr_ok :: bool
  rr_duration :: int

record warmup_stats =
  ws_loaded :: nat
  ws_discarded :: nat
  ws_timestamp :: "int option"

record 'r fx_state =
  fx_cache :: rate_cache
  fx_last_refresh :: "refresh_result option"
  fx_last_ok :: "int option"
  fx_override_at :: "int option"
  fx_fallback_start :: "int option"
  fx_tracker :: fallback_tracker
  fx_breakers :: breaker_registry
  fx_warmup :: warmup_stats
  fx_redis_state :: 'r

definition rates_route :: string where
  "rates_route = ''coingecko''"

definition initial_fx_state :: "string \<Rightarrow> int \<Rightarrow> 'r \<Rightarrow> 'r fx_state" where
  "initial_fx_state batch now r =
     \<lparr> fx_cache = initial_cache batch now, fx_last_refresh = None, fx_last_ok = None, fx_override_at = None,
       fx_fallback_start = None, fx_tracker = create_fallback_tracker None, fx_breakers = [],
       fx_warmup = \<lparr> ws_loaded = 0, ws_discarded = 0, ws_timestamp = None \<rparr>, fx_redis_state = r \<rparr>"

text \<open>
  \<open>updateBaseRates\<close> and the snapshot it stores; \<open>snap\<close> is the failure of Redis, which is
  ignored.
\<close>

definition update_rates ::
  "'r fx_redis \<Rightarrow> fx_codec \<Rightarrow> bool \<Rightarrow> int \<Rightarrow> (string, number) jsmap \<Rightarrow> string \<Rightarrow> string list option \<Rightarrow>
   'r fx_state \<Rightarrow> 'r fx_state" where
  "update_rates F C snap now updated batch newly st =
     (let c = update_base_rates updated batch newly now (fx_cache st)
      in st \<lparr> fx_cache := c,
              fx_redis_state := (if snap then fx_redis_state st
                else store_rate_snapshot F C now (rc_rates c) (fx_redis_state st)) \<rparr>)"

subsection \<open>Fetching the base rates\<close>

text \<open>
  What the upstream answers: no answer within the timeout, an error, a status that is not
  successful, a body that is not JSON, or a JSON body.
\<close>

datatype upstream =
    NoAnswer
  | ErrorStatus nat
  | Body "(string \<times> json) list"

definition asset_id_to_key :: "(string, string) jsmap" where
  "asset_id_to_key = [(''usd-coin'', ''USDC''), (''tether-eurt'', ''EURT'')]"

definition ngn_price :: "json \<Rightarrow> number option" where
  "ngn_price by_vs =
     (case by_vs of
        JObj kvs \<Rightarrow> (case map_of kvs ''ngn'' of
            Some (JNum a) \<Rightarrow> if 0 < a then Some (Fin a) else None
          | _ \<Rightarrow> None)
      | _ \<Rightarrow> None)"

definition fetch_entry :: "string \<times> json \<Rightarrow> (string, number) jsmap \<Rightarrow> (string, number) jsmap" where
  "fetch_entry kv fetched =
     (case map_of asset_id_to_key (fst kv) of
        None \<Rightarrow> fetched
      | Some key \<Rightarrow> (case ngn_price (snd kv) of None \<Rightarrow> fetched | Some x \<Rightarrow> js_set key x fetched))"

definition fetched_rates :: "upstream \<Rightarrow> (string, number) jsmap option" where
  "fetched_rates up =
     (case up of
        Body kvs \<Rightarrow> let f = fold fetch_entry kvs [] in if f = [] then None else Some f
      | _ \<Rightarrow> None)"

definition fetch_base_rates ::
  "upstream \<Rightarrow> int \<Rightarrow> int \<Rightarrow> 'r fx_state \<Rightarrow> 'r fx_state \<times> (string, number) jsmap option" where
  "fetch_base_rates up started now st =
     (case fetched_rates up of
        None \<Rightarrow> (st \<lparr> fx_last_refresh := Some \<lparr> rr_at = now, rr_ok = False, rr_duration = now - started \<rparr> \<rparr>, None)
      | Some f \<Rightarrow>
          (st \<lparr> fx_last_refresh := Some \<lparr> rr_at = now, rr_ok = True, rr_duration = now - started \<rparr>,
                fx_last_ok := Some now, fx_fallback_start := None, fx_tracker := record_live (fx_tracker st) \<rparr>,
           Some f))"

subsection \<open>One refresh\<close>

text \<open>
  \<open>ti_env i\<close> is what other handlers do to the state at the await point \<open>i\<close>: before the lock is
  answered, while the fetch runs, while the lock of another process is polled and while the
  second fetch runs. \<open>ti_now i\<close> are the readings of the clock, \<open>ti_fails i\<close> the failures of
  Redis. The polling loop answers whether the cache was updated meanwhile.
\<close>

record 'r tick_inputs =
  ti_now :: "nat \<Rightarrow> nat"
  ti_env :: "nat \<Rightarrow> 'r fx_state \<Rightarrow> 'r fx_state"
  ti_fails :: "nat \<Rightarrow> bool"
  ti_token :: string
  ti_batch :: string
  ti_upstream :: upstream

definition tick_outcome ::
  "'r fx_redis \<Rightarrow> fx_codec \<Rightarrow> fx_config \<Rightarrow> 'r tick_inputs \<Rightarrow> 'r fx_state \<Rightarrow> 'r fx_state" where
  "tick_outcome F C cfg inp st0 =
     (case fetch_base_rates (ti_upstream inp) (int (ti_now inp 2)) (int (ti_now inp 3)) st0 of
        (st, Some fetched) \<Rightarrow>
          (let g = apply_deviation_guard fetched (rc_rates (fx_cache st)) (fc_max_deviation cfg);
               st1 = update_rates F C (ti_fails inp 3) (int (ti_now inp 4)) (gr_merged g) (ti_batch inp) (Some (gr_newly g)) st
           in st1 \<lparr> fx_breakers := fst (breaker_record_success (\<lambda>i. int (ti_now inp (5 + i))) rates_route (fx_breakers st1)) \<rparr>)
      | (st, None) \<Rightarrow>
          (let st1 = st \<lparr> fx_breakers := fst (breaker_record_failure circuit_breaker_failure_threshold
                            (\<lambda>i. int (ti_now inp (5 + i))) rates_route (fx_breakers st)) \<rparr>
           in st1 \<lparr> fx_fallback_start := (case fx_fallback_start st1 of None \<Rightarrow> Some (int (ti_now inp 8)) | t \<Rightarrow> t),
                    fx_tracker := record_fallback (fx_tracker st1) \<rparr>))"

text \<open>The start of a refresh, up to the request of the lock\<close>

definition tick_gate :: "fx_config \<Rightarrow> (nat \<Rightarrow> nat) \<Rightarrow> 'r fx_state \<Rightarrow> 'r fx_state \<times> breaker_state" where
  "tick_gate cfg now st =
     (case breaker_get_state (\<lambda>i. int (now (10 + i))) rates_route (fc_cooldown cfg) (fx_breakers st) of
        (brs, state) \<Rightarrow>
          (st \<lparr> fx_cache := prune_expired_computed_rates (int (now 0)) (fx_cache st), fx_breakers := brs \<rparr>, state))"

definition refresh_tick ::
  "'r fx_redis \<Rightarrow> fx_codec \<Rightarrow> fx_config \<Rightarrow> 'r tick_inputs \<Rightarrow> 'r fx_state \<Rightarrow> 'r fx_state" where
  "refresh_tick F C cfg inp st =
     (case tick_gate cfg (ti_now inp) st of (st1, state) \<Rightarrow>
        if state = OPEN then st1
        else (case acquire_lock F (ti_fails inp 0) rate_fetch_lock_key (ti_token inp) rate_fetch_lock_ttl_ms (ti_now inp 1)
                     (fx_redis_state st1) of
             (r, Some token) \<Rightarrow>
               (let st3 = ti_env inp 1 (ti_env inp 0 (st1 \<lparr> fx_redis_state := r \<rparr>));
                    st4 = tick_outcome F C cfg inp st3
                in st4 \<lparr> fx_redis_state := release_lock F (ti_fails inp 1) rate_fetch_lock_key token (ti_now inp 9)
                           (fx_redis_state st4) \<rparr>)
           | (r, None) \<Rightarrow>
               (let before = ti_env inp 0 (st1 \<lparr> fx_redis_state := r \<rparr>);
                    after = ti_env inp 2 before
                in if rc_cached_at (fx_cache before) < rc_cached_at (fx_cache after) then after
                   else tick_outcome F C cfg inp (ti_env inp 3 after))))"

subsection \<open>Warmup\<close>

text \<open>
  What Redis answers: the newest snapshot, read back by \<open>JSON.parse\<close>. The retry of the fetch
  when every rate is discarded is the refresh \<open>tick\<close>. An exception leaves the fallback rates.
\<close>

definition snapshot_rate_ok :: "string \<times> json \<Rightarrow> bool" where
  "snapshot_rate_ok cr =
     ((case number_of_json (snd cr) of Some x \<Rightarrow> num_less (Fin 0) x | None \<Rightarrow> False) \<and>
      fst cr \<in> set supported_currencies)"

definition validated_rates :: "rate_snapshot \<Rightarrow> (string, number) jsmap" where
  "validated_rates s =
     map (\<lambda>(c, v). (c, the (number_of_json v))) (filter snapshot_rate_ok (rs_rates s))"

definition warmup_with ::
  "'r fx_redis \<Rightarrow> fx_codec \<Rightarrow> bool \<Rightarrow> int \<Rightarrow> int \<Rightarrow> string \<Rightarrow> ('r fx_state \<Rightarrow> 'r fx_state) \<Rightarrow> rate_snapshot \<Rightarrow>
   'r fx_state \<Rightarrow> 'r fx_state" where
  "warmup_with F C snap now now' batch tick s st =
     (let rates = validated_rates s;
          loaded = length rates;
          discarded = length (rs_rates s) - loaded;
          stats = \<lparr> ws_loaded = loaded, ws_discarded = discarded, ws_timestamp = Some (rs_ts s) \<rparr>
      in if now < rs_ts s
         then st \<lparr> fx_warmup := \<lparr> ws_loaded = 0, ws_discarded = length (rs_rates s), ws_timestamp = Some (rs_ts s) \<rparr> \<rparr>
         else if rates = [] then tick (st \<lparr> fx_warmup := stats \<rparr>)
         else update_rates F C snap now' rates batch None (st \<lparr> fx_warmup := stats \<rparr>))"

definition warmup_cache_from_redis ::
  "'r fx_redis \<Rightarrow> fx_codec \<Rightarrow> bool \<Rightarrow> bool \<Rightarrow> int \<Rightarrow> int \<Rightarrow> string \<Rightarrow> ('r fx_state \<Rightarrow> 'r fx_state) \<Rightarrow>
   'r fx_state \<Rightarrow> 'r fx_state" where
  "warmup_cache_from_redis F C fails snap now now' batch tick st =
     (let none = st \<lparr> fx_warmup := \<lparr> ws_loaded = 0, ws_discarded = 0, ws_timestamp = None \<rparr> \<rparr>
      in if fails then none
         else case fr_zlatest F (fx_redis_state st) snapshot_key None of
           None \<Rightarrow> none
         | Some text \<Rightarrow> (case cd_unsnapshot C text of
             None \<Rightarrow> none
           | Some s \<Rightarrow> warmup_with F C snap now now' batch tick s st))"

subsection \<open>Rates, health and status\<close>

definition get_rate_source :: "'r fx_state \<Rightarrow> string" where
  "get_rate_source st = (if fx_last_ok st \<noteq> None then ''live'' else ''seed'')"

definition rate_time :: "rate_cache \<Rightarrow> string \<Rightarrow> int" where
  "rate_time c cur = (case map_of (rc_rate_at c) cur of Some t \<Rightarrow> t | None \<Rightarrow> rc_cached_at c)"

text \<open>
  \<open>logRateStalenessIfStale\<close>: the seconds and the time it reports, \<open>None\<close> when nothing is stale.
  Without a pair the oldest rate counts, if it is at least a second old.
\<close>

definition pair_staleness :: "rate_cache \<Rightarrow> int \<Rightarrow> string \<Rightarrow> string \<Rightarrow> int \<times> int" where
  "pair_staleness c now from to =
     (let oldest = (if now - rate_time c to < now - rate_time c from then rate_time c from else rate_time c to)
      in ((now - oldest) div 1000, oldest))"

definition oldest_staleness :: "rate_cache \<Rightarrow> int \<Rightarrow> int \<times> int" where
  "oldest_staleness c now =
     fold (\<lambda>age (best, ts). let s = (now - age) div 1000 in if best < s then (s, age) else (best, ts))
       (map snd (rc_rate_at c)) (0, rc_cached_at c)"

definition log_rate_staleness_if_stale ::
  "fx_config \<Rightarrow> int \<Rightarrow> (string \<times> string) option \<Rightarrow> 'r fx_state \<Rightarrow> (string \<times> int \<times> int) option" where
  "log_rate_staleness_if_stale cfg now pair st =
     (let (seconds, ts) = (case pair of
            Some (from, to) \<Rightarrow> pair_staleness (fx_cache st) now from to
          | None \<Rightarrow> oldest_staleness (fx_cache st) now)
      in if seconds \<le> fc_max_stale cfg then None else Some (get_rate_source st, seconds, ts))"

record rates_response =
  ra_rates :: "(string, number) jsmap"
  ra_updated_at :: int
  ra_stale :: bool
  ra_source :: string

definition get_rates :: "fx_config \<Rightarrow> int \<Rightarrow> 'r fx_state \<Rightarrow> rates_response" where
  "get_rates cfg now st =
     (let stale = (fc_max_stale cfg * 1000 < now - rc_cached_at (fx_cache st))
      in \<lparr> ra_rates = rc_rates (fx_cache st), ra_updated_at = rc_cached_at (fx_cache st), ra_stale = stale,
           ra_source = (if fx_fallback_start st \<noteq> None then ''seed'' else if stale then ''cache'' else ''live'') \<rparr>)"

datatype feed_status = FeedHealthy | FeedStale | FeedDown

definition feed_of :: "int \<Rightarrow> int \<Rightarrow> feed_status" where
  "feed_of ttl age = (if 2 * ttl \<le> age then FeedDown else if ttl \<le> age then FeedStale else FeedHealthy)"

definition rate_feeds :: "fx_config \<Rightarrow> int \<Rightarrow> 'r fx_state \<Rightarrow> (string \<times> feed_status) list" where
  "rate_feeds cfg now st =
     (let c = fx_cache st
      in if rc_rates c = [] then map (\<lambda>(cur, _). (cur, FeedDown)) fallback_rates
         else map (\<lambda>(cur, _). (cur, feed_of (fc_refresh_interval cfg) (now - rate_time c cur))) (rc_rates c))"

datatype service_status = Healthy | Degraded | Unhealthy

text \<open>
  The endpoint worsens the status \<open>base\<close> of the shared health response by the feeds and by a
  fallback of more than an hour.
\<close>

definition feed_status_of :: "(string \<times> feed_status) list \<Rightarrow> service_status" where
  "feed_status_of feeds =
     (if list_ex (\<lambda>f. snd f = FeedDown) feeds then Unhealthy
      else if list_ex (\<lambda>f. snd f = FeedStale) feeds then Degraded else Healthy)"

definition health_status :: "fx_config \<Rightarrow> int \<Rightarrow> int \<Rightarrow> service_status \<Rightarrow> 'r fx_state \<Rightarrow> service_status \<times> nat" where
  "health_status cfg now now' base st =
     (let feed = feed_status_of (rate_feeds cfg now st);
          s1 = (if feed = Unhealthy \<and> base \<noteq> Unhealthy then Unhealthy
                else if feed = Degraded \<and> base = Healthy then Degraded else base);
          exceeded = (case fx_fallback_start st of Some t \<Rightarrow> 60 * 60 * 1000 < now' - t | None \<Rightarrow> False);
          s2 = (if exceeded \<and> s1 \<noteq> Unhealthy then Degraded else s1)
      in (s2, if s2 = Unhealthy then 503 else 200))"

record breaker_view =
  bv_state :: breaker_state
  bv_failures :: nat
  bv_opened_at :: "int option"
  bv_cooldown_remaining :: int

definition breaker_view_of :: "fx_config \<Rightarrow> (nat \<Rightarrow> int) \<Rightarrow> 'r fx_state \<Rightarrow> breaker_registry \<times> breaker_view" where
  "breaker_view_of cfg ck st =
     (case breaker_snapshot ck rates_route (fx_breakers st) of (brs, b) \<Rightarrow>
        (brs, \<lparr> bv_state = br_state b, bv_failures = br_failures b,
           bv_opened_at = (case br_opened_at b of Some t \<Rightarrow> if t = 0 then None else Some t | None \<Rightarrow> None),
           bv_cooldown_remaining = (case (br_state b, br_opened_at b, fc_cooldown cfg) of
               (OPEN, Some t, Some cd) \<Rightarrow> max 0 (cd - (ck 1 - t)) | _ \<Rightarrow> 0) \<rparr>))"

definition rate_staleness :: "fx_config \<Rightarrow> int \<Rightarrow> 'r fx_state \<Rightarrow> (string \<times> string \<times> int \<times> bool) list" where
  "rate_staleness cfg now st =
     map (\<lambda>(cur, _). let s = (now - rate_time (fx_cache st) cur) div 1000
        in (cur, get_rate_source st, s, fc_max_stale cfg < s)) (rc_rates (fx_cache st))"

subsection \<open>The admin override\<close>

text \<open>
  The schema \<open>RateOverrideBody\<close> asks for positive numbers; a value that is not a number is
  \<open>None\<close>. A literal such as \<open>1e999\<close> parses to an infinity, which is positive.
\<close>

definition parse_override :: "(string \<times> number option) list \<Rightarrow> (string, number) jsmap option" where
  "parse_override kvs =
     (if list_all (\<lambda>(c, v). case v of Some x \<Rightarrow> num_less (Fin 0) x | None \<Rightarrow> False) kvs
      then Some (map (\<lambda>(c, v). (c, the v)) kvs) else None)"

definition spread :: "(string, number) jsmap \<Rightarrow> (string, number) jsmap \<Rightarrow> (string, number) jsmap" where
  "spread a b = fold (\<lambda>cx. js_set (fst cx) (snd cx)) b a"

definition override_rates ::
  "'r fx_redis \<Rightarrow> fx_codec \<Rightarrow> bool \<Rightarrow> int \<Rightarrow> int \<Rightarrow> string \<Rightarrow> (string \<times> number option) list \<Rightarrow> 'r fx_state \<Rightarrow>
   'r fx_state \<times> (string, number) jsmap option" where
  "override_rates F C snap now now' batch body st =
     (case parse_override body of
        None \<Rightarrow> (st, None)
      | Some rates \<Rightarrow>
          (update_rates F C snap now' (spread (rc_rates (fx_cache st)) rates) batch None
             (st \<lparr> fx_override_at := Some now \<rparr>), Some rates))"

subsection \<open>Quotes\<close>

definition quote_ttl_ms :: int where
  "quote_ttl_ms = rate_ttl_ms"

definition quote_cleanup_ttl_ms :: nat where
  "quote_cleanup_ttl_ms = 10 * 60 * 1000"

definition quote_key :: "string \<Rightarrow> string" where
  "quote_key i = ''fx:quote:'' @ i"

definition num_min :: "number \<Rightarrow> number \<Rightarrow> number" where
  "num_min a b = (if a = NaN \<or> b = NaN then NaN else if num_less b a then b else a)"

definition json_number :: "number \<Rightarrow> number option" where
  "json_number x = (case x of Fin a \<Rightarrow> Some (Fin a) | _ \<Rightarrow> None)"

datatype pair_problem = Unsupported "string list" | SameCurrency

text \<open>The checks of the currencies both quote endpoints make\<close>

definition check_pair :: "string \<Rightarrow> string \<Rightarrow> pair_problem option" where
  "check_pair from to =
     (let unsupported = filter (\<lambda>c. c \<notin> set supported_currencies) [from, to]
      in if unsupported \<noteq> [] then Some (Unsupported unsupported)
         else if from = to then Some SameCurrency else None)"

record quote_request =
  qr_from :: "string option"
  qr_to :: "string option"
  qr_amount :: "string option"
  qr_slippage :: "string option"
  qr_now :: int
  qr_redis_now :: nat
  qr_uuid :: string
  qr_set_fails :: bool

record quote_answer =
  qa_id :: "string option"
  qa_quote :: computed_quote
  qa_stale_header :: bool
  qa_stale :: bool
  qa_cached_at :: int

datatype quote_response =
    InvalidAmount "query_field list"
  | InvalidQuery "query_field list"
  | AmountNotPositive
  | BadPair pair_problem
  | QuoteCrashed fx_error
  | QuoteOk quote_answer

definition effective_slippage :: "fx_config \<Rightarrow> string option \<Rightarrow> number" where
  "effective_slippage cfg s =
     num_min (case s of
         Some t \<Rightarrow> (case parse_int t of Some n \<Rightarrow> round64 (of_int n) | None \<Rightarrow> NaN)
       | None \<Rightarrow> fc_default_slippage cfg) (fc_max_slippage cfg)"

definition to_stored :: "string \<Rightarrow> computed_quote \<Rightarrow> number \<Rightarrow> stored_quote" where
  "to_stored i q r =
     \<lparr> sq_id = i, sq_from = cq_from q, sq_to = cq_to q, sq_amount = cq_amount q, sq_result = cq_result q,
       sq_rate = cq_rate q, sq_slippage = json_number (cq_slippage_bps q), sq_expires_at = cq_expires_at q,
       sq_batch = cq_batch q, sq_unrounded = json_number r \<rparr>"

definition store_quote ::
  "'r fx_redis \<Rightarrow> fx_codec \<Rightarrow> quote_request \<Rightarrow> stored_quote \<Rightarrow> 'r \<Rightarrow> 'r \<times> string option" where
  "store_quote F C rq sq r =
     (if qr_set_fails rq then (r, None)
      else (kv_set (fr_kv F) r (qr_redis_now rq) (quote_key (sq_id sq)) (cd_quote C sq) (Some quote_cleanup_ttl_ms),
            Some (sq_id sq)))"

text \<open>The part after the checks: one resolution, one computation, one record\<close>

definition make_quote ::
  "'r fx_redis \<Rightarrow> fx_codec \<Rightarrow> (rat \<Rightarrow> string) \<Rightarrow> fx_config \<Rightarrow> quote_request \<Rightarrow> quote_query \<Rightarrow> string \<Rightarrow> string \<Rightarrow>
   'r fx_state \<Rightarrow> 'r fx_state \<times> quote_response" where
  "make_quote F C num cfg rq q from to st =
     (case resolve_pair_rate from to (qr_now rq) (fx_cache st) of
        (c, Inl e) \<Rightarrow> (st \<lparr> fx_cache := c \<rparr>, QuoteCrashed e)
      | (c, Inr (rate, source)) \<Rightarrow>
          (let quote = compute_quote num \<lparr> qi_from = from, qi_to = to, qi_amount = qq_amount q, qi_rate = rate,
                 qi_source = source, qi_slippage_bps = effective_slippage cfg (qq_slippage q),
                 qi_created_at = qr_now rq, qi_ttl_ms = quote_ttl_ms,
                 qi_batch = (case map_of (rc_batches c) from of Some b \<Rightarrow> b | None \<Rightarrow> []) \<rparr>;
               (r, i) = store_quote F C rq (to_stored (qr_uuid rq) quote rate) (fx_redis_state st)
           in (st \<lparr> fx_cache := c, fx_redis_state := r \<rparr>,
               QuoteOk \<lparr> qa_id = i, qa_quote = quote,
                 qa_stale_header = (fc_max_stale cfg < (qr_now rq - rc_cached_at c) div 1000),
                 qa_stale = (fc_max_stale cfg <
                   (qr_now rq - min (rate_time c from) (rate_time c to)) div 1000),
                 qa_cached_at = rc_cached_at c \<rparr>)))"

definition get_quote ::
  "'r fx_redis \<Rightarrow> fx_codec \<Rightarrow> (rat \<Rightarrow> string) \<Rightarrow> fx_config \<Rightarrow> quote_request \<Rightarrow> 'r fx_state \<Rightarrow>
   'r fx_state \<times> quote_response" where
  "get_quote F C num cfg rq st =
     (case parse_quote_query (fc_production cfg) (qr_from rq) (qr_to rq) (qr_amount rq) (qr_slippage rq) of
        Inl issues \<Rightarrow> (st, if FieldAmount \<in> set issues then InvalidAmount issues else InvalidQuery issues)
      | Inr q \<Rightarrow>
          (let from = to_upper (qq_from q); to = to_upper (qq_to q)
           in if \<not> (case parse_float64 (qq_amount q) of Fin a \<Rightarrow> 0 < a | _ \<Rightarrow> False) then (st, AmountNotPositive)
              else case check_pair from to of
                     Some p \<Rightarrow> (st, BadPair p)
                   | None \<Rightarrow> make_quote F C num cfg rq q from to st))"

subsection \<open>Verification of a quote\<close>

record verify_request =
  vr_id :: "string option"
  vr_redis_now :: nat
  vr_now :: int
  vr_rate_now :: int
  vr_get_fails :: bool

record verify_answer =
  va_valid :: bool
  va_fallback :: bool
  va_rate :: string
  va_current :: string
  va_slippage :: number
  va_slippage_limit :: string
  va_expires_at :: int
  va_batch :: string

datatype verify_response =
    InvalidBody "query_field list"
  | VerifyCrashed
  | QuoteNotFound
  | QuoteTooYoung
  | QuoteTooOld
  | Verified verify_answer

definition quoted_rate :: "stored_quote \<Rightarrow> number" where
  "quoted_rate sq = (case sq_unrounded sq of Some x \<Rightarrow> x | None \<Rightarrow> parse_float64 (sq_rate sq))"

definition quote_slippage :: "fx_config \<Rightarrow> stored_quote \<Rightarrow> number" where
  "quote_slippage cfg sq = (case sq_slippage sq of Some x \<Rightarrow> x | None \<Rightarrow> fc_default_slippage cfg)"

definition quote_valid :: "bool \<Rightarrow> int \<Rightarrow> stored_quote \<Rightarrow> number \<Rightarrow> number \<Rightarrow> bool" where
  "quote_valid fallback now sq current slippage =
     (if fallback then now \<le> sq_expires_at sq
      else now \<le> sq_expires_at sq \<and> num_le (deviation_bps current (quoted_rate sq)) slippage)"

definition check_stored_quote ::
  "(rat \<Rightarrow> string) \<Rightarrow> fx_config \<Rightarrow> verify_request \<Rightarrow> stored_quote \<Rightarrow> 'r fx_state \<Rightarrow> 'r fx_state \<times> verify_response" where
  "check_stored_quote num cfg rq sq st =
     (let age = vr_now rq - (sq_expires_at sq - quote_ttl_ms)
      in if age < fc_quote_min_age cfg then (st, QuoteTooYoung)
         else if fc_quote_max_lifetime cfg < age then (st, QuoteTooOld)
         else case get_or_compute_rate (sq_from sq) (sq_to sq) (vr_rate_now rq) (fx_cache st) of
             (c, Inl _) \<Rightarrow> (st \<lparr> fx_cache := c \<rparr>, VerifyCrashed)
           | (c, Inr current) \<Rightarrow>
               (let slippage = quote_slippage cfg sq; fallback = (fx_fallback_start st \<noteq> None)
                in (st \<lparr> fx_cache := c \<rparr>,
                    Verified \<lparr> va_valid = quote_valid fallback (vr_now rq) sq current slippage,
                      va_fallback = fallback, va_rate = sq_rate sq,
                      va_current = to_fixed num current 8, va_slippage = slippage,
                      va_slippage_limit = to_fixed num (num_div slippage (Fin 10000)) 4,
                      va_expires_at = sq_expires_at sq,
                      va_batch = (case map_of (rc_batches c) (sq_from sq) of Some b \<Rightarrow> b | None \<Rightarrow> []) \<rparr>)))"

definition verify_quote ::
  "'r fx_redis \<Rightarrow> fx_codec \<Rightarrow> (rat \<Rightarrow> string) \<Rightarrow> fx_config \<Rightarrow> verify_request \<Rightarrow> 'r fx_state \<Rightarrow>
   'r fx_state \<times> verify_response" where
  "verify_quote F C num cfg rq st =
     (case parse_verify_body (vr_id rq) of
        Inl issues \<Rightarrow> (st, InvalidBody issues)
      | Inr i \<Rightarrow>
          if vr_get_fails rq then (st, VerifyCrashed)
          else (case kv_get (fr_kv F) (fx_redis_state st) (vr_redis_now rq) (quote_key i) of
              None \<Rightarrow> (st, QuoteNotFound)
            | Some text \<Rightarrow>
                if text = [] then (st, QuoteNotFound)
                else (case cd_unquote C text of
                    None \<Rightarrow> (st, VerifyCrashed)
                  | Some sq \<Rightarrow> check_stored_quote num cfg rq sq st)))"

subsection \<open>Historical rates\<close>

datatype history_response =
    InvalidHistoryQuery "query_field list"
  | BadHistoryPair pair_problem
  | BadTimestamp
  | NoSnapshot
  | NoPairData
  | HistoryCrashed
  | HistoryOk string string string int

text \<open>The engine stores numbers, and \<open>null\<close> for an infinity; \<open>null\<close> counts as zero.\<close>

definition numeric_of_json :: "json \<Rightarrow> number" where
  "numeric_of_json v =
     (case v of JNum a \<Rightarrow> Fin a | JNull \<Rightarrow> Fin 0 | JBool b \<Rightarrow> Fin (if b then 1 else 0) | _ \<Rightarrow> NaN)"

definition rates_history ::
  "'r fx_redis \<Rightarrow> fx_codec \<Rightarrow> (rat \<Rightarrow> string) \<Rightarrow> (string \<Rightarrow> int option) \<Rightarrow> bool \<Rightarrow> int \<Rightarrow>
   string option \<Rightarrow> string option \<Rightarrow> string option \<Rightarrow> 'r fx_state \<Rightarrow> history_response" where
  "rates_history F C num parse_date fails now qfrom qto tm st =
     (case parse_history_query qfrom qto tm of
        Inl issues \<Rightarrow> InvalidHistoryQuery issues
      | Inr (f, t, tm') \<Rightarrow>
          (let from = to_upper f; to = to_upper t
           in case check_pair from to of
                Some p \<Rightarrow> BadHistoryPair p
              | None \<Rightarrow>
                  (case (case tm' of Some s \<Rightarrow> if s = [] then Some now else parse_date s | None \<Rightarrow> Some now) of
                     None \<Rightarrow> BadTimestamp
                   | Some ms \<Rightarrow>
                       if fails then HistoryCrashed
                       else (case fr_zlatest F (fx_redis_state st) snapshot_key (Some ms) of
                           None \<Rightarrow> NoSnapshot
                         | Some text \<Rightarrow> (case cd_unsnapshot C text of
                             None \<Rightarrow> HistoryCrashed
                           | Some s \<Rightarrow>
                               (case (map_of (rs_rates s) from, map_of (rs_rates s) to) of
                                  (Some x, Some y) \<Rightarrow>
                                    HistoryOk from to (to_fixed num (num_div (numeric_of_json x) (numeric_of_json y)) 8) (rs_ts s)
                                | _ \<Rightarrow> NoPairData))))))"

subsection \<open>The engine as a transition system\<close>

text \<open>
  A step is one stretch of a handler that runs without interruption; Redis may change at any
  time by what other processes and the locks of this one do.
\<close>

inductive fx_step ::
  "'r fx_redis \<Rightarrow> fx_codec \<Rightarrow> (rat \<Rightarrow> string) \<Rightarrow> fx_config \<Rightarrow> 'r fx_state \<Rightarrow> 'r fx_state \<Rightarrow> bool"
  for F C num cfg where
  gate: "fx_step F C num cfg st (fst (tick_gate cfg now st))"
| outcome: "ti_batch inp \<noteq> [] \<Longrightarrow> fx_step F C num cfg st (tick_outcome F C cfg inp st)"
| redis: "fx_step F C num cfg st (st \<lparr> fx_redis_state := r \<rparr>)"
| warmup: "batch \<noteq> [] \<Longrightarrow> fx_step F C num cfg st (warmup_with F C snap now now' batch (\<lambda>s. s) s st)"
| override: "batch \<noteq> [] \<Longrightarrow> fx_step F C num cfg st (fst (override_rates F C snap now now' batch body st))"
| quote: "fx_step F C num cfg st (fst (get_quote F C num cfg rq st))"
| verify: "fx_step F C num cfg st (fst (verify_quote F C num cfg vq st))"

inductive_cases fx_step_cases: "fx_step F C num cfg st st'"

abbreviation fx_steps where
  "fx_steps F C num cfg \<equiv> (fx_step F C num cfg)\<^sup>*\<^sup>*"

text \<open>
  The invariant: the caches are well formed, and breaker, tracker and fallback mode agree on
  the number of failed refreshes in a row.
\<close>

definition outage_ok :: "breaker_registry \<Rightarrow> fallback_tracker \<Rightarrow> int option \<Rightarrow> bool" where
  "outage_ok brs ft start =
     ((case map_of brs rates_route of
         None \<Rightarrow> ft_consecutive ft = 0
       | Some b \<Rightarrow> br_failures b = ft_consecutive ft \<and>
           (br_state b = CLOSED \<longleftrightarrow> br_failures b < circuit_breaker_failure_threshold) \<and>
           (br_opened_at b = None \<longleftrightarrow> br_state b = CLOSED)) \<and>
      (start = None \<longleftrightarrow> ft_consecutive ft = 0) \<and>
      ft_gauge ft = (if ft_consecutive ft = 0 then 0 else 1) \<and>
      ft_threshold ft = fallback_alert_threshold)"

definition fx_ok :: "'r fx_state \<Rightarrow> bool" where
  "fx_ok st = (cache_ok (fx_cache st) \<and> distinct (map fst (rc_computed (fx_cache st))) \<and>
     outage_ok (fx_breakers st) (fx_tracker st) (fx_fallback_start st))"

lemma fx_ok_initial: "batch \<noteq> [] \<Longrightarrow> fx_ok (initial_fx_state batch now r)"
  using cache_ok_initial [of batch now]
  by (simp add: fx_ok_def initial_fx_state_def outage_ok_def create_fallback_tracker_def) (simp add: initial_cache_def)

lemma outage_snapshot:
  "outage_ok brs ft start \<Longrightarrow> outage_ok (fst (breaker_get_state ck rates_route cd brs)) ft start"
  by (auto simp: outage_ok_def breaker_get_state_def breaker_get_def cooldown_over_def Let_def
      circuit_breaker_failure_threshold_def split: option.splits if_splits)

lemma outage_failure:
  "outage_ok brs ft start \<Longrightarrow>
   outage_ok (fst (breaker_record_failure circuit_breaker_failure_threshold ck rates_route brs)) (record_fallback ft)
     (case start of None \<Rightarrow> Some t | x \<Rightarrow> x)"
  by (auto simp: outage_ok_def breaker_record_failure_def breaker_get_def breaker_transition_def record_fallback_def
      circuit_breaker_failure_threshold_def Let_def split: option.splits if_splits)

lemma outage_success:
  "outage_ok brs ft start \<Longrightarrow>
   outage_ok (fst (breaker_record_success ck rates_route brs)) (record_live ft) None"
  by (auto simp: outage_ok_def breaker_record_success_def breaker_get_def breaker_transition_def record_live_def
      circuit_breaker_failure_threshold_def Let_def split: option.splits if_splits)

lemma fetch_entry_positive:
  "list_all (\<lambda>cx. positive (snd cx)) m \<Longrightarrow> list_all (\<lambda>cx. positive (snd cx)) (fetch_entry kv m)"
proof -
  have "list_all (\<lambda>cx. positive (snd cx)) m \<Longrightarrow> positive x \<Longrightarrow>
    list_all (\<lambda>cx. positive (snd cx)) (js_set a x m)" for a x
    by (induction m) auto
  then show "list_all (\<lambda>cx. positive (snd cx)) m \<Longrightarrow> ?thesis"
    by (auto simp: fetch_entry_def ngn_price_def positive_def split: option.splits json.splits if_splits)
qed

lemma fetched_rates_positive:
  "fetched_rates up = Some f \<Longrightarrow> list_all (\<lambda>cx. positive (snd cx)) f"
proof -
  have "list_all (\<lambda>cx. positive (snd cx)) m \<Longrightarrow> list_all (\<lambda>cx. positive (snd cx)) (fold fetch_entry kvs m)"
    for kvs :: "(string \<times> json) list" and m
    by (induction kvs arbitrary: m) (auto intro: fetch_entry_positive)
  from this [of "[]"] show "fetched_rates up = Some f \<Longrightarrow> ?thesis"
    by (auto simp: fetched_rates_def Let_def split: upstream.splits if_splits)
qed

lemma update_rates_ok:
  assumes "cache_ok (fx_cache st)" "list_all (\<lambda>cx. positive (snd cx)) updated" "batch \<noteq> []"
  shows "cache_ok (fx_cache (update_rates F C snap now updated batch newly st)) \<and>
    rc_computed (fx_cache (update_rates F C snap now updated batch newly st)) = []"
  using update_base_rates_ok [OF assms] by (simp add: update_rates_def Let_def) (simp add: update_base_rates_def)

lemma update_rates_keeps:
  "fx_breakers (update_rates F C snap now updated batch newly st) = fx_breakers st"
  "fx_tracker (update_rates F C snap now updated batch newly st) = fx_tracker st"
  "fx_fallback_start (update_rates F C snap now updated batch newly st) = fx_fallback_start st"
  by (simp_all add: update_rates_def Let_def)

lemma tick_gate_ok: "fx_ok st \<Longrightarrow> fx_ok (fst (tick_gate cfg now st))"
proof -
  assume ok: "fx_ok st"
  define c where "c = prune_expired_computed_rates (int (now 0)) (fx_cache st)"
  have "cache_ok c \<and> distinct (map fst (rc_computed c))"
  proof -
    have c': "rc_rates c = rc_rates (fx_cache st)" "currency_known c = currency_known (fx_cache st)"
      by (simp_all add: c_def prune_expired_computed_rates_def currency_known_def rate_batch_def fun_eq_iff)
    moreover have "pair_cache_ok c"
      using ok by (simp add: fx_ok_def cache_ok_def c_def pair_cache_ok_prune)
    moreover have "distinct (map fst (rc_computed c))"
      using ok by (auto simp: fx_ok_def c_def prune_expired_computed_rates_def distinct_map intro: inj_on_subset)
    ultimately show ?thesis using ok by (simp add: fx_ok_def cache_ok_def)
  qed
  with ok show ?thesis
    using outage_snapshot [of "fx_breakers st" "fx_tracker st" "fx_fallback_start st"
        "\<lambda>i. int (now (10 + i))" "fc_cooldown cfg"]
    by (auto simp: fx_ok_def tick_gate_def c_def split: prod.splits)
qed

lemma tick_outcome_cases:
  "(\<exists>f. fetched_rates (ti_upstream inp) = Some f \<and>
     fx_cache (tick_outcome F C cfg inp st) = update_base_rates
       (gr_merged (apply_deviation_guard f (rc_rates (fx_cache st)) (fc_max_deviation cfg))) (ti_batch inp)
       (Some (gr_newly (apply_deviation_guard f (rc_rates (fx_cache st)) (fc_max_deviation cfg))))
       (int (ti_now inp 4)) (fx_cache st) \<and>
     fx_breakers (tick_outcome F C cfg inp st) =
       fst (breaker_record_success (\<lambda>i. int (ti_now inp (5 + i))) rates_route (fx_breakers st)) \<and>
     fx_tracker (tick_outcome F C cfg inp st) = record_live (fx_tracker st) \<and>
     fx_fallback_start (tick_outcome F C cfg inp st) = None) \<or>
   fetched_rates (ti_upstream inp) = None \<and>
     fx_cache (tick_outcome F C cfg inp st) = fx_cache st \<and>
     fx_redis_state (tick_outcome F C cfg inp st) = fx_redis_state st \<and>
     fx_breakers (tick_outcome F C cfg inp st) = fst (breaker_record_failure circuit_breaker_failure_threshold
       (\<lambda>i. int (ti_now inp (5 + i))) rates_route (fx_breakers st)) \<and>
     fx_tracker (tick_outcome F C cfg inp st) = record_fallback (fx_tracker st) \<and>
     fx_fallback_start (tick_outcome F C cfg inp st) =
       (case fx_fallback_start st of None \<Rightarrow> Some (int (ti_now inp 8)) | x \<Rightarrow> x)"
  by (cases "fetched_rates (ti_upstream inp)")
     (simp_all add: tick_outcome_def fetch_base_rates_def update_rates_def Let_def)

lemma tick_outcome_ok:
  assumes ok: "fx_ok st" and b: "ti_batch inp \<noteq> []"
  shows "fx_ok (tick_outcome F C cfg inp st)"
proof -
  have c: "cache_ok (fx_cache st)" "rates_ok (rc_rates (fx_cache st))"
    and o: "outage_ok (fx_breakers st) (fx_tracker st) (fx_fallback_start st)"
    using ok by (simp_all add: fx_ok_def cache_ok_def)
  from tick_outcome_cases [of inp F C cfg st] show ?thesis
  proof (elim disjE exE conjE)
    fix f
    assume f: "fetched_rates (ti_upstream inp) = Some f"
      and e: "fx_cache (tick_outcome F C cfg inp st) = update_base_rates
       (gr_merged (apply_deviation_guard f (rc_rates (fx_cache st)) (fc_max_deviation cfg))) (ti_batch inp)
       (Some (gr_newly (apply_deviation_guard f (rc_rates (fx_cache st)) (fc_max_deviation cfg))))
       (int (ti_now inp 4)) (fx_cache st)"
        "fx_breakers (tick_outcome F C cfg inp st) =
          fst (breaker_record_success (\<lambda>i. int (ti_now inp (5 + i))) rates_route (fx_breakers st))"
        "fx_tracker (tick_outcome F C cfg inp st) = record_live (fx_tracker st)"
        "fx_fallback_start (tick_outcome F C cfg inp st) = None"
    have "list_all (\<lambda>cx. positive (snd cx))
        (gr_merged (apply_deviation_guard f (rc_rates (fx_cache st)) (fc_max_deviation cfg)))"
      using guard_positive [OF c(2) fetched_rates_positive [OF f]] by (simp add: rates_ok_def)
    from update_base_rates_ok [OF c(1) this b] outage_success [OF o] show ?thesis
      by (simp add: fx_ok_def e) (simp add: update_base_rates_def)
  next
    assume "fx_cache (tick_outcome F C cfg inp st) = fx_cache st"
      "fx_breakers (tick_outcome F C cfg inp st) = fst (breaker_record_failure circuit_breaker_failure_threshold
         (\<lambda>i. int (ti_now inp (5 + i))) rates_route (fx_breakers st))"
      "fx_tracker (tick_outcome F C cfg inp st) = record_fallback (fx_tracker st)"
      "fx_fallback_start (tick_outcome F C cfg inp st) =
         (case fx_fallback_start st of None \<Rightarrow> Some (int (ti_now inp 8)) | x \<Rightarrow> x)"
    with ok outage_failure [OF o] show ?thesis by (simp add: fx_ok_def)
  qed
qed

lemma update_rates_fx_ok:
  assumes "fx_ok st" "list_all (\<lambda>cx. positive (snd cx)) updated" "batch \<noteq> []"
  shows "fx_ok (update_rates F C snap now updated batch newly st)"
  using assms update_rates_ok [of st updated batch] by (simp add: fx_ok_def update_rates_keeps)

lemma warmup_ok:
  assumes "fx_ok st" "batch \<noteq> []"
  shows "fx_ok (warmup_with F C snap now now' batch (\<lambda>s. s) s st)"
proof -
  have p: "list_all (\<lambda>cx. positive (snd cx)) (validated_rates s)"
    by (auto simp: validated_rates_def list_all_iff snapshot_rate_ok_def positive_def split: option.splits)
  have w: "fx_ok (st \<lparr> fx_warmup := ws \<rparr>)" for ws using assms(1) by (simp add: fx_ok_def)
  show ?thesis
    using update_rates_fx_ok [OF w p assms(2)] w by (simp add: warmup_with_def Let_def)
qed

lemma override_ok:
  assumes "fx_ok st" "batch \<noteq> []"
  shows "fx_ok (fst (override_rates F C snap now now' batch body st))"
proof (cases "parse_override body")
  case None
  with assms show ?thesis by (simp add: override_rates_def)
next
  case (Some rates)
  have p: "list_all (\<lambda>cx. positive (snd cx)) rates"
    using Some by (force simp: parse_override_def list_all_iff positive_def split: if_splits option.splits)
  have "rates_ok (rc_rates (fx_cache st))" using assms(1) by (simp add: fx_ok_def cache_ok_def)
  then have "rates_ok (spread (rc_rates (fx_cache st)) rates)"
    unfolding spread_def using p
    by (induction rates arbitrary: st rule: rev_induct) (auto intro: rates_ok_set)
  then have "list_all (\<lambda>cx. positive (snd cx)) (spread (rc_rates (fx_cache st)) rates)"
    by (simp add: rates_ok_def)
  moreover have "fx_ok (st \<lparr> fx_override_at := Some now \<rparr>)" using assms(1) by (simp add: fx_ok_def)
  ultimately show ?thesis using assms(2) Some by (simp add: override_rates_def update_rates_fx_ok)
qed

lemma resolve_fx_ok:
  assumes "fx_ok st" "resolve_pair_rate from to now (fx_cache st) = (c, r)"
  shows "fx_ok (st \<lparr> fx_cache := c \<rparr>)"
proof -
  have "distinct (map fst (rc_computed c))"
    using assms by (auto simp: fx_ok_def resolve_pair_rate_def resolve_rate_def Let_def
        split: option.splits if_splits sum.splits intro: distinct_update)
  with assms resolve_pair_rate_keeps [OF _ assms(2)] show ?thesis by (simp add: fx_ok_def)
qed

lemma quote_ok: "fx_ok st \<Longrightarrow> fx_ok (fst (get_quote F C num cfg rq st))"
proof -
  assume ok: "fx_ok st"
  have "fx_ok (fst (make_quote F C num cfg rq q from to st))" for q "from" to
    using resolve_fx_ok [OF ok, of "from" to "qr_now rq"]
    by (auto simp: make_quote_def Let_def fx_ok_def split: prod.splits sum.splits)
  with ok show ?thesis by (auto simp: get_quote_def Let_def split: sum.splits option.splits number.splits)
qed

lemma check_stored_quote_ok: "fx_ok st \<Longrightarrow> fx_ok (fst (check_stored_quote num cfg rq sq st))"
  using resolve_fx_ok [of st "sq_from sq" "sq_to sq" "vr_rate_now rq"]
  by (auto simp: check_stored_quote_def get_or_compute_rate_def Let_def result_bind_def split: prod.splits sum.splits)

lemma verify_ok: "fx_ok st \<Longrightarrow> fx_ok (fst (verify_quote F C num cfg rq st))"
  by (auto simp: verify_quote_def check_stored_quote_ok split: sum.splits option.splits)

lemma fx_step_ok: "fx_step F C num cfg st st' \<Longrightarrow> fx_ok st \<Longrightarrow> fx_ok st'"
  by (induction rule: fx_step.induct)
     (simp_all add: tick_gate_ok tick_outcome_ok warmup_ok override_ok quote_ok verify_ok, simp add: fx_ok_def)

lemma fx_steps_ok: "fx_steps F C num cfg st st' \<Longrightarrow> fx_ok st \<Longrightarrow> fx_ok st'"
  by (induction rule: rtranclp_induct) (auto intro: fx_step_ok)

subsection \<open>Properties\<close>

text \<open>
  C11: The state of the engine stays well formed whatever handlers run in whatever order, from
  the start of the process on: every rate is a positive number, the supported currencies have
  a rate, a batch and a time, cached pair rates agree with the base rates, and circuit breaker,
  fallback tracker and fallback mode agree: the breaker counts exactly the failed refreshes in
  a row, it is closed exactly below five of them, and fallback mode is on exactly when there
  is one, which is what the gauge shows.
\<close>

theorem engine_state_wellformed:
  assumes "batch \<noteq> []" "fx_steps F C num cfg (initial_fx_state batch now r) st"
  shows "cache_ok (fx_cache st) \<and>
    outage_ok (fx_breakers st) (fx_tracker st) (fx_fallback_start st)"
  using fx_steps_ok [OF assms(2) fx_ok_initial [OF assms(1)]] by (simp add: fx_ok_def)

definition sample_config :: fx_config where
  "sample_config = \<lparr> fc_production = False, fc_max_deviation = Fin 2000, fc_cooldown = Some 300000, fc_max_stale = 300,
     fc_default_slippage = Fin 50, fc_max_slippage = Fin 500, fc_quote_min_age = 1000, fc_quote_max_lifetime = 300000,
     fc_refresh_interval = 60000 \<rparr>"

definition failing_tick :: "fx_mem tick_inputs" where
  "failing_tick = \<lparr> ti_now = (\<lambda>i. 1000), ti_env = (\<lambda>i st. st), ti_fails = (\<lambda>i. False), ti_token = ''t'',
     ti_batch = ''b2'', ti_upstream = NoAnswer \<rparr>"

lemma engine_state_wellformed_witness:
  "cache_ok (fx_cache (tick_outcome fxs_ops text_codec sample_config failing_tick (initial_fx_state ''b'' 0 ([], [])))) \<and>
   outage_ok (fx_breakers (tick_outcome fxs_ops text_codec sample_config failing_tick (initial_fx_state ''b'' 0 ([], []))))
     (fx_tracker (tick_outcome fxs_ops text_codec sample_config failing_tick (initial_fx_state ''b'' 0 ([], []))))
     (fx_fallback_start (tick_outcome fxs_ops text_codec sample_config failing_tick (initial_fx_state ''b'' 0 ([], []))))"
  by (rule engine_state_wellformed [where batch = "''b''" and num = "\<lambda>_. []"])
     (auto intro!: r_into_rtranclp fx_step.outcome simp: failing_tick_def)

text \<open>
  C28: The pair cache is never stale: whatever refreshes, overrides, warm-ups, quotes and
  verifications ran since the start of the process, the rate of two supported currencies is what
  the current base rates give, also when it is served from the cache, which is exactly when its
  entry is younger than the lifetime; and the call changes nothing but the pair cache.
\<close>

theorem pair_rate_is_current:
  assumes "batch \<noteq> []" "fx_steps F C num cfg (initial_fx_state batch start r) st"
    and "from \<in> set supported_currencies" "to \<in> set supported_currencies"
  shows "\<exists>m. resolve_pair_rate from to now (fx_cache st) = ((fx_cache st) \<lparr> rc_computed := m \<rparr>,
      Inr (compute_rate from to (rc_rates (fx_cache st)),
        case map_of (rc_computed (fx_cache st)) (pair_key from to) of
          Some e \<Rightarrow> if now - cr_at e < rate_ttl_ms then FromCache else FromLive
        | None \<Rightarrow> FromLive))"
  using fx_steps_ok [OF assms(2) fx_ok_initial [OF assms(1)]]
    pair_rate_well_formed [of "fx_cache st" "from" to now] assms(3,4)
  by (auto simp: fx_ok_def)

text \<open>A rate is quoted and cached, then an override replaces it.\<close>

definition replaced_state :: "fx_mem fx_state" where
  "replaced_state = fst (override_rates fxs_ops text_codec False 2000 2000 ''b2'' [(''USDC'', Some (Fin 1000))]
     (fst (get_quote fxs_ops text_codec (\<lambda>_. []) sample_config
        \<lparr> qr_from = None, qr_to = None, qr_amount = Some ''100'', qr_slippage = None, qr_now = 1000, qr_redis_now = 1000,
          qr_uuid = ''q1'', qr_set_fails = False \<rparr> (initial_fx_state ''b'' 0 ([], [])))))"

lemma pair_rate_is_current_witness:
  "\<exists>c source. resolve_pair_rate ''USDC'' ''NGN'' 3000 (fx_cache replaced_state) =
     (c, Inr (compute_rate ''USDC'' ''NGN'' (rc_rates (fx_cache replaced_state)), source))"
proof -
  have "fx_steps fxs_ops text_codec (\<lambda>_. []) sample_config (initial_fx_state ''b'' 0 ([], [])) replaced_state"
    unfolding replaced_state_def
    by (rule rtranclp.rtrancl_into_rtrancl [OF r_into_rtranclp [of "fx_step fxs_ops text_codec (\<lambda>_. []) sample_config", OF fx_step.quote]
        fx_step.override]) simp
  from pair_rate_is_current [OF _ this, of "''USDC''" "''NGN''" 3000] show ?thesis by (auto simp: supported)
qed

text \<open>
  A refresh is a sequence of steps, if what runs at its await points is.
\<close>

lemma refresh_tick_steps:
  assumes env: "\<And>i s. fx_steps F C num cfg s (ti_env inp i s)" and b: "ti_batch inp \<noteq> []"
  shows "fx_steps F C num cfg st (refresh_tick F C cfg inp st)"
proof -
  obtain st1 state where g: "tick_gate cfg (ti_now inp) st = (st1, state)" by (cases "tick_gate cfg (ti_now inp) st")
  have s1: "fx_steps F C num cfg st st1"
    using fx_step.gate [of F C num cfg st "ti_now inp"] g by (simp add: r_into_rtranclp)
  have red: "fx_steps F C num cfg s (s \<lparr> fx_redis_state := r \<rparr>)" for s r
    by (intro r_into_rtranclp fx_step.redis)
  have out: "fx_steps F C num cfg s (tick_outcome F C cfg inp s)" for s
    by (intro r_into_rtranclp fx_step.outcome b)
  obtain r t where l: "acquire_lock F (ti_fails inp 0) rate_fetch_lock_key (ti_token inp) rate_fetch_lock_ttl_ms (ti_now inp 1)
      (fx_redis_state st1) = (r, t)"
    by (cases "acquire_lock F (ti_fails inp 0) rate_fetch_lock_key (ti_token inp) rate_fetch_lock_ttl_ms (ti_now inp 1)
      (fx_redis_state st1)")
  note s2 = rtranclp_trans [OF s1 red [of st1 r]]
  note s3 = rtranclp_trans [OF s2 env [of _ 0]]
  note s4 = rtranclp_trans [OF rtranclp_trans [OF s3 env [of _ 1]] out]
  note s5 = rtranclp_trans [OF s3 env [of _ 2]]
  note s6 = rtranclp_trans [OF rtranclp_trans [OF s5 env [of _ 3]] out]
  show ?thesis
    using s1 rtranclp_trans [OF s4 red] s5 s6
    by (auto simp: refresh_tick_def g l [unfolded One_nat_def] Let_def split: option.split)
qed

text \<open>
  While the breaker is open the engine sends no request: a refresh that finds it open before
  the cooldown is over only prunes the pair cache, takes no lock, and leaves the rates, the
  fallback mode and Redis alone; and an open breaker means that at least five refreshes in a
  row failed and the engine is in fallback mode.
\<close>

theorem open_breaker_skips_fetch:
  assumes "batch \<noteq> []" "fx_steps F C num cfg (initial_fx_state batch now r) st"
    and "open_since rates_route t (fx_breakers st)"
    and "\<not> cooldown_over (int (ti_now inp 11)) (Some t) (fc_cooldown cfg)"
  shows "refresh_tick F C cfg inp st =
      st \<lparr> fx_cache := prune_expired_computed_rates (int (ti_now inp 0)) (fx_cache st) \<rparr> \<and>
    circuit_breaker_failure_threshold \<le> ft_consecutive (fx_tracker st) \<and> fx_fallback_start st \<noteq> None"
proof -
  have o: "outage_ok (fx_breakers st) (fx_tracker st) (fx_fallback_start st)"
    using fx_steps_ok [OF assms(2) fx_ok_initial [OF assms(1)]] by (simp add: fx_ok_def)
  have "br = st \<lparr> fx_cache := c, fx_breakers := fx_breakers st \<rparr> \<Longrightarrow> br = st \<lparr> fx_cache := c \<rparr>" for br c by simp
  with assms(3,4) have "refresh_tick F C cfg inp st =
      st \<lparr> fx_cache := prune_expired_computed_rates (int (ti_now inp 0)) (fx_cache st) \<rparr>"
    by (auto simp: refresh_tick_def tick_gate_def open_since_def breaker_get_state_def breaker_get_def split: option.splits)
  with o assms(3) show ?thesis
    by (auto simp: outage_ok_def open_since_def circuit_breaker_failure_threshold_def split: option.splits)
qed

lemma update_fold_maps:
  "rc_rates (fold (update_rate batch now newly) updated c) =
     fold (\<lambda>ax. js_set (fst ax) (snd ax)) updated (rc_rates c) \<and>
   map_of (rc_batches (fold (update_rate batch now newly) updated c)) a =
     (if a \<in> fst ` set updated then Some batch else map_of (rc_batches c) a) \<and>
   (a \<noteq> ''NGN'' \<longrightarrow> (\<forall>ns. newly = Some ns \<longrightarrow> a \<notin> set ns \<longrightarrow>
     map_of (rc_rate_at (fold (update_rate batch now newly) updated c)) a = map_of (rc_rate_at c) a))"
  by (induction updated arbitrary: c) (auto simp: update_rate_def Let_def)

lemma guard_rejected:
  assumes "distinct (map fst fetched)" "distinct (map fst base)"
    and "a \<in> set (map rj_asset (gr_rejected (apply_deviation_guard fetched base m)))"
  shows "map_of (gr_merged (apply_deviation_guard fetched base m)) a = map_of base a \<and>
    a \<notin> set (gr_newly (apply_deviation_guard fetched base m))"
proof -
  have d: "distinct (map fst (filter (accepted base m) fetched))"
    using assms(1) by (auto simp: distinct_map intro: inj_on_subset)
  from assms(3) obtain x where x: "(a, x) \<in> set fetched" "\<not> accepted base m (a, x)"
    by (auto simp: apply_deviation_guard_def guard_fold)
  then have m: "map_of fetched a = Some x" using assms(1) by simp
  with x(2) have n: "map_of (filter (accepted base m) fetched) a = None"
    by (simp add: map_of_filter_distinct [OF assms(1)])
  have "map_of (fold (\<lambda>ax. js_set (fst ax) (snd ax)) (filter (accepted base m) fetched) base) a = map_of base a"
    unfolding map_of_fold_set [OF d] n by simp
  moreover have "a \<notin> set (map fst (filter (accepted base m) fetched))"
    using n unfolding map_of_eq_None_iff set_map by assumption
  ultimately show ?thesis by (simp only: apply_deviation_guard_def guard_fold guard_result.simps append_Nil) simp
qed

lemma guard_rejected_list:
  "map rj_asset (gr_rejected (apply_deviation_guard fetched base m)) =
     map fst (filter (\<lambda>an. \<not> accepted base m an) fetched)"
  by (simp add: apply_deviation_guard_def guard_fold)

lemma guard_domain:
  "fst ` set base \<subseteq> fst ` set (gr_merged (apply_deviation_guard fetched base m)) \<and>
   (distinct (map fst base) \<longrightarrow> distinct (map fst (gr_merged (apply_deviation_guard fetched base m))))"
proof -
  have "fst ` set base \<subseteq> fst ` set (fold (\<lambda>ax. js_set (fst ax) (snd ax)) xs base)" for xs :: "(string \<times> number) list"
  proof (induction xs arbitrary: base)
    case (Cons x xs)
    have "fst ` set base \<subseteq> fst ` set (js_set (fst x) (snd x) base)"
      by (auto simp: dom_update)
    with Cons [of "js_set (fst x) (snd x) base"] show ?case by auto
  qed simp
  then show ?thesis by (simp add: apply_deviation_guard_def guard_fold distinct_fold_set)
qed

lemma fetched_distinct: "fetched_rates up = Some f \<Longrightarrow> distinct (map fst f) \<and> ''NGN'' \<notin> fst ` set f"
proof -
  have "distinct (map fst m) \<and> ''NGN'' \<notin> fst ` set m \<Longrightarrow>
      distinct (map fst (fold fetch_entry kvs m)) \<and> ''NGN'' \<notin> fst ` set (fold fetch_entry kvs m)" for kvs m
  proof (induction kvs arbitrary: m)
    case (Cons kv kvs)
    then have "distinct (map fst (fetch_entry kv m)) \<and> ''NGN'' \<notin> fst ` set (fetch_entry kv m)"
      by (auto simp: fetch_entry_def asset_id_to_key_def dom_update distinct_update split: option.splits if_splits)
    with Cons.IH show ?case by simp
  qed simp
  from this [of "[]"] show "fetched_rates up = Some f \<Longrightarrow> ?thesis"
    by (auto simp: fetched_rates_def Let_def split: upstream.splits if_splits)
qed

text \<open>
  A successful refresh puts one batch identifier on every supported currency, the rejected
  ones included, so the warning about a cross rate of different fetch cycles cannot fire after
  it, although a rejected currency keeps the rate and the time of an earlier cycle.
\<close>

theorem mixed_batch_warning_dead:
  assumes "fx_ok st" "ti_batch inp \<noteq> []" "fetched_rates (ti_upstream inp) = Some f"
    and "from \<in> set supported_currencies" "to \<in> set supported_currencies"
    and "a \<in> set (map rj_asset (gr_rejected (apply_deviation_guard f (rc_rates (fx_cache st)) (fc_max_deviation cfg))))"
  shows "\<not> mixed_batches from to (fx_cache (tick_outcome F C cfg inp st)) \<and>
    map_of (rc_rates (fx_cache (tick_outcome F C cfg inp st))) a = map_of (rc_rates (fx_cache st)) a \<and>
    map_of (rc_rate_at (fx_cache (tick_outcome F C cfg inp st))) a = map_of (rc_rate_at (fx_cache st)) a"
proof -
  define g where "g = apply_deviation_guard f (rc_rates (fx_cache st)) (fc_max_deviation cfg)"
  define u where "u = fold (update_rate (ti_batch inp) (int (ti_now inp 4)) (Some (gr_newly g))) (gr_merged g) (fx_cache st)"
  have c: "fx_cache (tick_outcome F C cfg inp st) = u \<lparr> rc_cached_at := int (ti_now inp 4), rc_computed := [] \<rparr>"
    using tick_outcome_cases [of inp F C cfg st] assms(3) by (simp add: g_def u_def update_base_rates_def)
  have base: "distinct (map fst (rc_rates (fx_cache st)))" "list_all (currency_known (fx_cache st)) supported_currencies"
    using assms(1) by (simp_all add: fx_ok_def cache_ok_def rates_ok_def)
  note dom = guard_domain [of "rc_rates (fx_cache st)" f "fc_max_deviation cfg", folded g_def]
  note upd = update_fold_maps [of "ti_batch inp" "int (ti_now inp 4)" "Some (gr_newly g)" "gr_merged g" "fx_cache st", folded u_def]
  have "map_of (rc_batches u) cur = Some (ti_batch inp)" if "cur \<in> set supported_currencies" for cur
  proof -
    have "map_of (rc_rates (fx_cache st)) cur \<noteq> None" using base(2) that by (auto simp: list_all_iff currency_known_def)
    then have "cur \<in> fst ` set (gr_merged g)" using dom by (auto simp: map_of_eq_None_iff)
    with upd show ?thesis by simp
  qed
  then have "\<not> mixed_batches from to (fx_cache (tick_outcome F C cfg inp st))"
    using assms(2,4,5) by (simp add: c mixed_batches_def rate_batch_def)
  moreover have r: "map_of (gr_merged g) a = map_of (rc_rates (fx_cache st)) a" "a \<notin> set (gr_newly g)" "a \<in> fst ` set f"
    using guard_rejected [OF _ base(1), of f a "fc_max_deviation cfg"] fetched_distinct [OF assms(3)] assms(6)
    by (auto simp: g_def apply_deviation_guard_def guard_fold)
  moreover have "a \<noteq> ''NGN''" using r(3) fetched_distinct [OF assms(3)] by blast
  ultimately show ?thesis
    using upd map_of_fold_set [of "gr_merged g" "rc_rates (fx_cache st)" a] dom base(1)
    by (simp add: c split: option.splits)
qed

lemma deviation_same: "r \<noteq> 0 \<Longrightarrow> deviation_bps (Fin r) (Fin r) = Fin 0"
  by (simp add: deviation_bps_def)

lemma get_quote_ok:
  assumes "get_quote F C num cfg rq st = (st1, QuoteOk qa)"
  shows "\<exists>(q :: quote_query) from to c rate source.
    resolve_pair_rate from to (qr_now rq) (fx_cache st) = (c, Inr (rate, source)) \<and>
    from \<in> set supported_currencies \<and> to \<in> set supported_currencies \<and> from \<noteq> to \<and>
    cq_from (qa_quote qa) = from \<and> cq_to (qa_quote qa) = to \<and>
    cq_expires_at (qa_quote qa) = qr_now rq + quote_ttl_ms \<and>
    cq_slippage_bps (qa_quote qa) = effective_slippage cfg (qq_slippage q) \<and>
    fx_cache st1 = c \<and> fx_fallback_start st1 = fx_fallback_start st \<and>
    (fx_redis_state st1, qa_id qa) = store_quote F C rq (to_stored (qr_uuid rq) (qa_quote qa) rate) (fx_redis_state st)"
proof -
  from assms obtain q where q: "parse_quote_query (fc_production cfg) (qr_from rq) (qr_to rq) (qr_amount rq) (qr_slippage rq) = Inr q"
    by (auto simp: get_quote_def split: sum.splits if_splits)
  define src dst where "src = to_upper (qq_from q)" and "dst = to_upper (qq_to q)"
  have p: "check_pair src dst = None" and m: "make_quote F C num cfg rq q src dst st = (st1, QuoteOk qa)"
    using assms by (auto simp: get_quote_def q Let_def src_def dst_def split: number.splits option.splits if_splits)
  from m obtain c rate source where r: "resolve_pair_rate src dst (qr_now rq) (fx_cache st) = (c, Inr (rate, source))"
    by (auto simp: make_quote_def split: prod.splits sum.splits)
  with m have "cq_from (qa_quote qa) = src \<and> cq_to (qa_quote qa) = dst \<and>
    cq_expires_at (qa_quote qa) = qr_now rq + quote_ttl_ms \<and>
    cq_slippage_bps (qa_quote qa) = effective_slippage cfg (qq_slippage q) \<and>
    fx_cache st1 = c \<and> fx_fallback_start st1 = fx_fallback_start st \<and>
    (fx_redis_state st1, qa_id qa) = store_quote F C rq (to_stored (qr_uuid rq) (qa_quote qa) rate) (fx_redis_state st)"
    by (auto simp: make_quote_def Let_def compute_quote_def split: prod.splits)
  moreover have "src \<in> set supported_currencies \<and> dst \<in> set supported_currencies \<and> src \<noteq> dst"
    using p by (auto simp: check_pair_def Let_def split: if_splits)
  ultimately show ?thesis using r by blast
qed

text \<open>
  \<open>JSON.parse(JSON.stringify(quote))\<close> gives the quote back; the numbers of a stored quote are
  finite or absent, as JSON has no others.
\<close>

definition storable :: "stored_quote \<Rightarrow> bool" where
  "storable sq \<longleftrightarrow> list_all (\<lambda>x. case x of Some y \<Rightarrow> (case y of Fin _ \<Rightarrow> True | _ \<Rightarrow> False) | None \<Rightarrow> True)
     [sq_slippage sq, sq_unrounded sq]"

definition json_codec :: "fx_codec \<Rightarrow> bool" where
  "json_codec C \<longleftrightarrow> (\<forall>sq. storable sq \<longrightarrow> cd_quote C sq \<noteq> [] \<and> cd_unquote C (cd_quote C sq) = Some sq)"

lemma storable_to_stored [simp]: "storable (to_stored i q r)"
  by (auto simp: storable_def to_stored_def json_number_def split: number.splits)

text \<open>
  C12: A quote verifies while it lives and the rates stand still. If the engine answered a quote
  with an id, whatever handlers ran before and since, its Redis record was not overwritten and the
  base rates are those of the quote, then a verification older than the minimum age and within
  the time to live of the record finds the quote: it is valid, at the rate it was quoted at, up
  to its expiry, and it is not valid after that.
\<close>

theorem quote_verifies:
  assumes store: "fx_store F invar entry zset" "invar (fx_redis_state st)" "invar (fx_redis_state st2)" "json_codec C"
    and run: "batch \<noteq> []" "fx_steps F C num cfg (initial_fx_state batch start r0) st" "fx_steps F C num cfg st1 st2"
    and made: "get_quote F C num cfg rq st = (st1, QuoteOk qa)" "qa_id qa = Some i" "i \<noteq> []"
    and kept: "entry (fx_redis_state st2) (quote_key i) = entry (fx_redis_state st1) (quote_key i)"
      "vr_redis_now vq < qr_redis_now rq + quote_cleanup_ttl_ms"
    and rates: "rc_rates (fx_cache st2) = rc_rates (fx_cache st)"
      "compute_rate (cq_from (qa_quote qa)) (cq_to (qa_quote qa)) (rc_rates (fx_cache st)) = Fin r" "r \<noteq> 0"
    and asked: "vr_id vq = Some i" "\<not> vr_get_fails vq"
    and age: "qr_now rq + fc_quote_min_age cfg \<le> vr_now vq" "quote_ttl_ms \<le> fc_quote_max_lifetime cfg"
    and slippage: "cq_slippage_bps (qa_quote qa) = Fin s" "0 \<le> s"
  shows "\<exists>st3 answer. verify_quote F C num cfg vq st2 = (st3, answer) \<and>
    (if vr_now vq \<le> qr_now rq + quote_ttl_ms
     then \<exists>va. answer = Verified va \<and> va_valid va \<and> va_rate va = cq_rate (qa_quote qa) \<and>
       va_expires_at va = cq_expires_at (qa_quote qa)
     else answer = QuoteTooOld \<or> (\<exists>va. answer = Verified va \<and> \<not> va_valid va))"
proof -
  note redis = fx_store.axioms(1) [OF store(1)]
  have ok: "fx_ok st" using fx_steps_ok [OF run(2) fx_ok_initial [OF run(1)]] .
  have "st1 = fst (get_quote F C num cfg rq st)" using made(1) by simp
  then have ok2: "fx_ok st2" using quote_ok [OF ok] fx_steps_ok [OF run(3)] by blast
  obtain src dst c rate source where q: "resolve_pair_rate src dst (qr_now rq) (fx_cache st) = (c, Inr (rate, source))"
    "src \<in> set supported_currencies" "dst \<in> set supported_currencies"
    "cq_from (qa_quote qa) = src" "cq_to (qa_quote qa) = dst" "cq_expires_at (qa_quote qa) = qr_now rq + quote_ttl_ms"
    "(fx_redis_state st1, qa_id qa) = store_quote F C rq (to_stored (qr_uuid rq) (qa_quote qa) rate) (fx_redis_state st)"
    using get_quote_ok [OF made(1)] by blast
  have co: "cache_ok (fx_cache st)" "cache_ok (fx_cache st2)" using ok ok2 by (simp_all add: fx_ok_def)
  have rate: "rate = Fin r"
    using resolve_supported [OF co(1) q(2,3), of "qr_now rq"] q(1) rates(2) q(4,5) by simp
  define sq where "sq = to_stored i (qa_quote qa) (Fin r)"
  have stored: "fx_redis_state st1 = kv_set (fr_kv F) (fx_redis_state st) (qr_redis_now rq) (quote_key i) (cd_quote C sq)
      (Some quote_cleanup_ttl_ms)"
    using q(7) made(2) rate by (auto simp: store_quote_def sq_def to_stored_def split: if_splits)
  have codec: "cd_quote C sq \<noteq> []" "cd_unquote C (cd_quote C sq) = Some sq"
    using store(4) by (simp_all add: json_codec_def sq_def)
  have "entry (fx_redis_state st1) (quote_key i) = Some (cd_quote C sq, Some (qr_redis_now rq + quote_cleanup_ttl_ms))"
    using redis_strings.set_entry [OF redis store(2)] by (simp add: stored)
  then have read: "kv_get (fr_kv F) (fx_redis_state st2) (vr_redis_now vq) (quote_key i) = Some (cd_quote C sq)"
    using kept redis_strings.get_entry [OF redis store(3)] by (simp add: kv_live_def)
  have sq: "sq_from sq = src" "sq_to sq = dst" "sq_rate sq = cq_rate (qa_quote qa)"
    "sq_expires_at sq = qr_now rq + quote_ttl_ms" "sq_slippage sq = Some (Fin s)" "sq_unrounded sq = Some (Fin r)"
    using q slippage by (auto simp: sq_def to_stored_def json_number_def)
  have "snd (get_or_compute_rate src dst (vr_rate_now vq) (fx_cache st2)) = Inr (Fin r)"
    using resolve_supported [OF co(2) q(2,3), of "vr_rate_now vq"] rates(1,2) q(4,5)
    by (cases "resolve_pair_rate src dst (vr_rate_now vq) (fx_cache st2)") (simp add: get_or_compute_rate_def)
  then obtain c2 where cur: "get_or_compute_rate src dst (vr_rate_now vq) (fx_cache st2) = (c2, Inr (Fin r))"
    by (cases "get_or_compute_rate src dst (vr_rate_now vq) (fx_cache st2)") simp
  have valid: "quote_valid fb (vr_now vq) sq (Fin r) (quote_slippage cfg sq) \<longleftrightarrow> vr_now vq \<le> qr_now rq + quote_ttl_ms" for fb
    using slippage(2) sq(4,5,6) deviation_same [OF rates(3)] by (simp add: quote_valid_def quoted_rate_def quote_slippage_def)
  have "verify_quote F C num cfg vq st2 = check_stored_quote num cfg vq sq st2"
    using read asked made(3) codec by (simp add: verify_quote_def parse_verify_body_def)
  with age cur sq valid q(6) show ?thesis by (simp add: check_stored_quote_def Let_def)
qed

subsection \<open>Sample runs\<close>

definition sample_state :: "fx_mem fx_state" where
  "sample_state = initial_fx_state ''b'' 0 ([], [])"

lemma sample_state_ok: "fx_ok sample_state"
  unfolding sample_state_def by (rule fx_ok_initial) simp

definition outage_state :: "nat \<Rightarrow> fx_mem fx_state" where
  "outage_state n = ((tick_outcome fxs_ops text_codec sample_config failing_tick) ^^ n) sample_state"

lemma outage_steps: "fx_steps fxs_ops text_codec num sample_config (initial_fx_state ''b'' 0 ([], [])) (outage_state n)"
proof (induction n)
  case 0
  show ?case by (simp add: outage_state_def sample_state_def)
next
  case (Suc n)
  have "fx_step fxs_ops text_codec num sample_config (outage_state n) (outage_state (Suc n))"
    using fx_step.outcome [of failing_tick fxs_ops text_codec num sample_config "outage_state n"]
    by (simp add: outage_state_def failing_tick_def)
  with Suc show ?case by (rule rtranclp.rtrancl_into_rtrancl)
qed

lemma outage_breakers:
  "fx_breakers (outage_state n) = ((\<lambda>b. fst (breaker_record_failure 5 (\<lambda>i. 1000) rates_route b)) ^^ n) []"
proof (induction n)
  case 0
  show ?case by (simp add: outage_state_def sample_state_def initial_fx_state_def)
next
  case (Suc n)
  then show ?case
    by (simp add: outage_state_def tick_outcome_def fetch_base_rates_def fetched_rates_def failing_tick_def
        circuit_breaker_failure_threshold_def Let_def)
qed

lemma open_breaker_skips_fetch_witness:
  "refresh_tick fxs_ops text_codec sample_config failing_tick (outage_state 5) =
      (outage_state 5) \<lparr> fx_cache := prune_expired_computed_rates (int (ti_now failing_tick 0)) (fx_cache (outage_state 5)) \<rparr> \<and>
    circuit_breaker_failure_threshold \<le> ft_consecutive (fx_tracker (outage_state 5)) \<and>
    fx_fallback_start (outage_state 5) \<noteq> None"
proof (rule open_breaker_skips_fetch [OF _ outage_steps [where num = "\<lambda>_. []"]])
  show "open_since rates_route 1000 (fx_breakers (outage_state 5))"
    unfolding outage_breakers by code_simp
qed (simp_all add: failing_tick_def sample_config_def cooldown_over_def)

definition jump_tick :: "fx_mem tick_inputs" where
  "jump_tick = failing_tick \<lparr> ti_upstream := Body [(''usd-coin'', JObj [(''ngn'', JNum 3091)])] \<rparr>"

lemma mixed_batch_warning_dead_witness:
  "\<not> mixed_batches ''USDC'' ''NGN'' (fx_cache (tick_outcome fxs_ops text_codec sample_config jump_tick sample_state)) \<and>
    map_of (rc_rates (fx_cache (tick_outcome fxs_ops text_codec sample_config jump_tick sample_state))) ''USDC'' =
      map_of (rc_rates (fx_cache sample_state)) ''USDC'' \<and>
    map_of (rc_rate_at (fx_cache (tick_outcome fxs_ops text_codec sample_config jump_tick sample_state))) ''USDC'' =
      map_of (rc_rate_at (fx_cache sample_state)) ''USDC''"
proof (rule mixed_batch_warning_dead)
  show "fetched_rates (ti_upstream jump_tick) = Some [(''USDC'', Fin 3091)]" by code_simp
  have "num_less (Fin 2000) (deviation_bps (Fin 3091) (Fin (3091 / 2)))" by code_simp
  moreover have "map_of fallback_rates ''USDC'' = Some (Fin (3091 / 2))" by (simp add: fallback_rates_def)
  ultimately have "\<not> accepted fallback_rates (Fin 2000) (''USDC'', Fin 3091)" by (simp add: accepted_def)
  moreover have "map rj_asset (gr_rejected (apply_deviation_guard [(''USDC'', Fin 3091)] fallback_rates (Fin 2000))) =
      map fst (filter (\<lambda>an. \<not> accepted fallback_rates (Fin 2000) an) [(''USDC'', Fin 3091)])"
    by (rule guard_rejected_list)
  moreover have "rc_rates (fx_cache sample_state) = fallback_rates" "fc_max_deviation sample_config = Fin 2000"
    by (simp_all add: sample_state_def initial_fx_state_def initial_cache_def sample_config_def)
  ultimately show "''USDC'' \<in> set (map rj_asset (gr_rejected (apply_deviation_guard [(''USDC'', Fin 3091)]
      (rc_rates (fx_cache sample_state)) (fc_max_deviation sample_config))))"
    by (simp del: set_map)
qed (simp_all add: sample_state_ok supported jump_tick_def failing_tick_def)

definition sample_request :: quote_request where
  "sample_request = \<lparr> qr_from = None, qr_to = None, qr_amount = Some ''100'', qr_slippage = None, qr_now = 1000,
     qr_redis_now = 1000, qr_uuid = ''q1'', qr_set_fails = False \<rparr>"

definition sample_computed :: computed_quote where
  "sample_computed = compute_quote (\<lambda>_. []) \<lparr> qi_from = ''USDC'', qi_to = ''NGN'', qi_amount = ''100'', qi_rate = Fin (3091 / 2),
     qi_source = FromLive, qi_slippage_bps = Fin 50, qi_created_at = 1000, qi_ttl_ms = quote_ttl_ms, qi_batch = ''b'' \<rparr>"

text \<open>
  A concrete codec: every field is a text behind its length in unary, numbers are fractions in
  unary.
\<close>

definition enc_field :: "string \<Rightarrow> string" where
  "enc_field s = replicate (length s) CHR ''1'' @ CHR ''0'' # s"

definition dec_field :: "string \<Rightarrow> string \<times> string" where
  "dec_field t = (let n = length (takeWhile (\<lambda>c. c = CHR ''1'') t)
     in (take n (drop (n + 1) t), drop (n + 1 + n) t))"

lemma dec_enc_field [simp]: "dec_field (enc_field s @ t) = (s, t)"
proof -
  have "takeWhile (\<lambda>c. c = CHR ''1'') (replicate n CHR ''1'' @ CHR ''0'' # u) = replicate n CHR ''1''" for n u
    by (induction n) auto
  then show ?thesis by (simp add: dec_field_def enc_field_def Let_def)
qed

lemma dec_enc_last [simp]: "dec_field (enc_field s) = (s, [])"
  using dec_enc_field [of s "[]"] by simp

definition enc_int :: "int \<Rightarrow> string" where
  "enc_int n = (if n < 0 then CHR ''-'' else CHR ''+'') # replicate (nat \<bar>n\<bar>) CHR ''1''"

definition dec_int :: "string \<Rightarrow> int" where
  "dec_int s = (if hd s = CHR ''-'' then - int (length s - 1) else int (length s - 1))"

lemma dec_enc_int [simp]: "dec_int (enc_int n) = n"
  by (simp add: dec_int_def enc_int_def)

definition enc_number :: "number option \<Rightarrow> string" where
  "enc_number x = (case x of
     Some (Fin q) \<Rightarrow> (case quotient_of q of (a, b) \<Rightarrow> enc_field (enc_int a) @ enc_field (enc_int b)) | _ \<Rightarrow> [])"

definition dec_number :: "string \<Rightarrow> number option" where
  "dec_number s = (if s = [] then None
     else case dec_field s of (a, t) \<Rightarrow> Some (Fin (of_int (dec_int a) / of_int (dec_int (fst (dec_field t))))))"

lemma dec_enc_number [simp]: "dec_number (enc_number (Some (Fin q))) = Some (Fin q)" "dec_number (enc_number None) = None"
proof -
  obtain a b where ab: "quotient_of q = (a, b)" by fastforce
  have "enc_field x @ y \<noteq> []" for x y by (simp add: enc_field_def)
  then show "dec_number (enc_number (Some (Fin q))) = Some (Fin q)"
    by (simp add: dec_number_def enc_number_def ab quotient_of_div [OF ab, symmetric])
qed (simp add: dec_number_def enc_number_def)

definition enc_quote :: "stored_quote \<Rightarrow> string" where
  "enc_quote sq = enc_field (sq_id sq) @ enc_field (sq_from sq) @ enc_field (sq_to sq) @ enc_field (sq_amount sq) @
     enc_field (sq_result sq) @ enc_field (sq_rate sq) @ enc_field (enc_number (sq_slippage sq)) @
     enc_field (enc_int (sq_expires_at sq)) @ enc_field (sq_batch sq) @ enc_field (enc_number (sq_unrounded sq)) @ []"

definition dec_quote :: "string \<Rightarrow> stored_quote" where
  "dec_quote t0 = (let (i, t1) = dec_field t0; (f, t2) = dec_field t1; (d, t3) = dec_field t2; (a, t4) = dec_field t3;
       (r, t5) = dec_field t4; (x, t6) = dec_field t5; (s, t7) = dec_field t6; (e, t8) = dec_field t7;
       (b, t9) = dec_field t8; (u, t10) = dec_field t9
     in \<lparr> sq_id = i, sq_from = f, sq_to = d, sq_amount = a, sq_result = r, sq_rate = x, sq_slippage = dec_number s,
          sq_expires_at = dec_int e, sq_batch = b, sq_unrounded = dec_number u \<rparr>)"

definition sample_codec :: fx_codec where
  "sample_codec = text_codec \<lparr> cd_quote := enc_quote, cd_unquote := (\<lambda>t. Some (dec_quote t)) \<rparr>"

lemma sample_codec_ok: "json_codec sample_codec"
proof -
  have "dec_number (enc_number x) = x" if "case x of Some y \<Rightarrow> (case y of Fin _ \<Rightarrow> True | _ \<Rightarrow> False) | None \<Rightarrow> True" for x
    using that by (cases x) (auto split: number.splits)
  then have "dec_quote (enc_quote sq) = sq" if "storable sq" for sq
    using that by (simp add: dec_quote_def enc_quote_def storable_def Let_def)
  moreover have "enc_quote sq \<noteq> []" for sq by (simp add: enc_quote_def enc_field_def)
  ultimately show ?thesis by (simp add: json_codec_def sample_codec_def)
qed

definition sample_verify :: verify_request where
  "sample_verify = \<lparr> vr_id = Some ''q1'', vr_redis_now = 3000, vr_now = 3000, vr_rate_now = 3000, vr_get_fails = False \<rparr>"

definition sample_quoted :: "fx_mem fx_state \<times> quote_response" where
  "sample_quoted = get_quote fxs_ops sample_codec (\<lambda>_. []) sample_config sample_request sample_state"

lemma sample_rate: "compute_rate ''USDC'' ''NGN'' fallback_rates = Fin (3091 / 2)"
proof -
  have "round64 (3091 / 2) = Fin (3091 / 2)" by code_simp
  then show ?thesis by (simp add: compute_rate_def rate_number_def fallback_rates_def)
qed

lemma sample_quoted:
  "\<exists>qa. sample_quoted = (fst sample_quoted, QuoteOk qa) \<and> qa_id qa = Some ''q1'' \<and> qa_quote qa = sample_computed \<and>
    fxs_invar (fx_redis_state (fst sample_quoted)) \<and> rc_rates (fx_cache (fst sample_quoted)) = fallback_rates"
proof -
  have p: "parse_quote_query False None None (Some ''100'') None =
      Inr \<lparr> qq_from = ''USDC'', qq_to = ''NGN'', qq_amount = ''100'', qq_slippage = None \<rparr>" by code_simp
  have a: "parse_float64 ''100'' = Fin 100" by code_simp
  have u: "to_upper ''USDC'' = ''USDC''" "to_upper ''NGN'' = ''NGN''" by code_simp+
  have c: "check_pair ''USDC'' ''NGN'' = None" by (simp add: check_pair_def supported)
  have s: "effective_slippage sample_config None = Fin 50" by code_simp
  have r: "resolve_pair_rate ''USDC'' ''NGN'' 1000 (initial_cache ''b'' 0) =
      ((initial_cache ''b'' 0) \<lparr> rc_computed := [(pair_key ''USDC'' ''NGN'', \<lparr> cr_rate = Fin (3091 / 2), cr_at = 1000 \<rparr>)] \<rparr>,
       Inr (Fin (3091 / 2), FromLive))"
    using sample_rate by (simp add: resolve_pair_rate_def resolve_rate_def compute_live_def rate_batch_def initial_cache_def
        fallback_rates_def)
  have st: "fx_cache sample_state = initial_cache ''b'' 0" by (simp add: sample_state_def initial_fx_state_def)
  have b: "map_of (rc_batches (initial_cache ''b'' 0)) ''USDC'' = Some ''b''"
    "rc_rates (initial_cache ''b'' 0) = fallback_rates"
    by (simp_all add: initial_cache_def fallback_rates_def)
  have k: "fc_production sample_config = False" by (simp add: sample_config_def)
  have "get_quote fxs_ops sample_codec (\<lambda>_. []) sample_config sample_request sample_state =
      make_quote fxs_ops sample_codec (\<lambda>_. []) sample_config sample_request
        \<lparr> qq_from = ''USDC'', qq_to = ''NGN'', qq_amount = ''100'', qq_slippage = None \<rparr> ''USDC'' ''NGN''
        sample_state"
    by (simp add: get_quote_def sample_request_def p a u c k Let_def)
  then show ?thesis
    by (simp add: sample_quoted_def make_quote_def sample_request_def r st b s store_quote_def sample_computed_def
        to_stored_def fxs_ops_def fxs_kv_def kvs_ops_def fxs_invar_def zs_of_def
        sample_state_def initial_fx_state_def Let_def)
qed

lemma quote_verifies_witness:
  "\<exists>st3 va. verify_quote fxs_ops sample_codec (\<lambda>_. []) sample_config sample_verify (fst sample_quoted) = (st3, Verified va) \<and>
    va_valid va \<and> va_rate va = cq_rate sample_computed \<and> va_expires_at va = cq_expires_at sample_computed"
proof -
  obtain qa where q: "sample_quoted = (fst sample_quoted, QuoteOk qa)" "qa_id qa = Some ''q1''" "qa_quote qa = sample_computed"
    "fxs_invar (fx_redis_state (fst sample_quoted))" "rc_rates (fx_cache (fst sample_quoted)) = fallback_rates"
    using sample_quoted by blast
  have inv: "fxs_invar (fx_redis_state sample_state)"
    by (simp add: sample_state_def initial_fx_state_def fxs_invar_def zs_of_def)
  have ini: "rc_rates (fx_cache sample_state) = fallback_rates"
    by (simp add: sample_state_def initial_fx_state_def initial_cache_def)
  have ft: "cq_from sample_computed = ''USDC''" "cq_to sample_computed = ''NGN''" "cq_slippage_bps sample_computed = Fin 50"
    by (simp_all add: sample_computed_def compute_quote_def Let_def)
  have rates: "rc_rates (fx_cache (fst sample_quoted)) = rc_rates (fx_cache sample_state)"
    "compute_rate (cq_from (qa_quote qa)) (cq_to (qa_quote qa)) (rc_rates (fx_cache sample_state)) = Fin (3091 / 2)"
    unfolding q(3,5) ini ft sample_rate by (rule HOL.refl)+
  have t: "vr_id sample_verify = Some ''q1''" "\<not> vr_get_fails sample_verify"
    "vr_redis_now sample_verify < qr_redis_now sample_request + quote_cleanup_ttl_ms"
    "qr_now sample_request + fc_quote_min_age sample_config \<le> vr_now sample_verify"
    "quote_ttl_ms \<le> fc_quote_max_lifetime sample_config" "vr_now sample_verify \<le> qr_now sample_request + quote_ttl_ms"
    by (simp_all add: sample_verify_def sample_request_def sample_config_def quote_ttl_ms_def rate_ttl_ms_def quote_cleanup_ttl_ms_def)
  have slip: "cq_slippage_bps (qa_quote qa) = Fin 50" using q(3) ft(3) by simp
  have made: "get_quote fxs_ops sample_codec (\<lambda>_. []) sample_config sample_request sample_state =
      (fst sample_quoted, QuoteOk qa)"
    using q(1) by (simp only: sample_quoted_def)
  have run: "fx_steps fxs_ops sample_codec (\<lambda>_. []) sample_config (initial_fx_state ''b'' 0 ([], [])) sample_state"
    "fx_steps fxs_ops sample_codec (\<lambda>_. []) sample_config (fst sample_quoted) (fst sample_quoted)"
    by (simp_all add: sample_state_def)
  show ?thesis
    using quote_verifies [OF fxs.fx_store_axioms inv q(4) sample_codec_ok _ run made q(2) _ HOL.refl t(3) rates _ t(1,2,4,5) slip]
      t(6) q(3) by auto
qed

subsection \<open>Health\<close>

lemma health_status_exact:
  "health_status cfg now now' base st = (s, code) \<Longrightarrow>
   (code = 503 \<longleftrightarrow> s = Unhealthy) \<and>
   (s = Unhealthy \<longleftrightarrow> base = Unhealthy \<or> list_ex (\<lambda>f. snd f = FeedDown) (rate_feeds cfg now st)) \<and>
   (s = Healthy \<longrightarrow> base = Healthy \<and> list_all (\<lambda>f. snd f = FeedHealthy) (rate_feeds cfg now st) \<and>
      (\<forall>t. fx_fallback_start st = Some t \<longrightarrow> now' - t \<le> 3600000))"
proof -
  have d: "feed_status_of fs = Unhealthy \<longleftrightarrow> list_ex (\<lambda>f. snd f = FeedDown) fs" for fs
    by (simp add: feed_status_of_def)
  have "list_all (\<lambda>f. snd f = FeedHealthy) fs" if "\<not> list_ex (\<lambda>f. snd f = FeedDown) fs"
    "\<not> list_ex (\<lambda>f. snd f = FeedStale) fs" for fs :: "(string \<times> feed_status) list"
    using that
  proof (induction fs)
    case (Cons f fs)
    then show ?case by (cases "snd f") auto
  qed simp
  then have h: "feed_status_of fs = Healthy \<Longrightarrow> list_all (\<lambda>f. snd f = FeedHealthy) fs" for fs
    by (auto simp: feed_status_of_def split: if_splits)
  assume e: "health_status cfg now now' base st = (s, code)"
  define feed where "feed = feed_status_of (rate_feeds cfg now st)"
  define late where "late = (case fx_fallback_start st of Some t \<Rightarrow> 60 * 60 * 1000 < now' - t | None \<Rightarrow> False)"
  from e have "(let s1 = (if feed = Unhealthy \<and> base \<noteq> Unhealthy then Unhealthy
                else if feed = Degraded \<and> base = Healthy then Degraded else base);
          s2 = (if late \<and> s1 \<noteq> Unhealthy then Degraded else s1) in (s2, if s2 = Unhealthy then 503 else 200)) = (s, code)"
    by (simp only: health_status_def feed_def late_def Let_def)
  then have "(code = 503 \<longleftrightarrow> s = Unhealthy) \<and> (s = Unhealthy \<longleftrightarrow> base = Unhealthy \<or> feed = Unhealthy) \<and>
    (s = Healthy \<longrightarrow> base = Healthy \<and> feed = Healthy \<and> \<not> late)"
    by (cases feed; cases base; cases late) (auto simp: Let_def)
  with h show "?thesis" by (auto simp: d feed_def late_def split: option.splits)
qed

text \<open>A rate of \<open>1e999\<close> in an override is accepted, and the quotes of the currency are infinite.\<close>

lemma override_accepts_infinity:
  assumes "map_of (rc_rates (fx_cache st)) ''NGN'' = Some (Fin 1)" "distinct (map fst (rc_rates (fx_cache st)))"
  shows "\<exists>st'. override_rates F C snap now now' batch [(''USDC'', Some PosInf)] st = (st', Some [(''USDC'', PosInf)]) \<and>
    compute_rate ''USDC'' ''NGN'' (rc_rates (fx_cache st')) = PosInf"
proof -
  define rates where "rates = js_set ''USDC'' PosInf (rc_rates (fx_cache st))"
  have "distinct (map fst rates)" using assms(2) by (simp add: rates_def distinct_update)
  then have l: "map_of (fold (\<lambda>ax. js_set (fst ax) (snd ax)) rates m) a =
      (case map_of rates a of Some x \<Rightarrow> Some x | None \<Rightarrow> map_of m a)" for m :: "(string, number) jsmap" and a
    by (rule map_of_fold_set)
  have "rc_rates (fold (update_rate batch now' None) rates c) = fold (\<lambda>ax. js_set (fst ax) (snd ax)) rates (rc_rates c)" for c
    using update_fold_maps by blast
  then show ?thesis
    using assms(1) by (simp add: override_rates_def parse_override_def spread_def update_rates_def update_base_rates_def
        compute_rate_def rate_number_def l Let_def flip: rates_def) (simp add: rates_def)
qed

end
