(* ===== verification/SettlementApi.thy ===== *)
theory SettlementApi
  imports SettlementBatching SettlementRetry MerchantCache
begin

section \<open>Creating settlements (\<open>POST /api/settlements\<close>, \<open>index.ts\<close>)\<close>

text \<open>
  The request bodies (\<open>schemas.ts\<close>), the checks of the merchant, the price, the
  idempotency key claimed in Redis and the row and job a request creates. The results of the
  queries a handler only reads (the merchant, the volume sums) and the failures of its calls are
  inputs; the settlement table and the Redis strings are the interfaces of
  \<open>SettlementStore\<close> and \<open>RedisStrings\<close>.
\<close>

subsection \<open>Request bodies\<close>

record settlement_item =
  it_amount :: string
  it_asset :: string

record create_body =
  cb_merchant_id :: string
  cb_amount :: "string option"
  cb_asset :: "string option"
  cb_items :: "settlement_item list option"

text \<open>\<open>/^[A-Za-z0-9_]+$/\<close>\<close>

definition merchant_id_ok :: "string \<Rightarrow> bool" where
  "merchant_id_ok s \<longleftrightarrow> s \<noteq> [] \<and> list_all (\<lambda>c. is_digit c \<or> is_upper c \<or> is_lower c \<or> c = CHR ''_'') s"

definition item_ok :: "settlement_item \<Rightarrow> bool" where
  "item_ok it \<longleftrightarrow> settlement_amount_string (it_amount it) \<and> it_asset it \<in> set currency_codes \<and>
     validate_amount_precision (it_amount it) (it_asset it)"

definition create_settlement_body_ok :: "create_body \<Rightarrow> bool" where
  "create_settlement_body_ok d \<longleftrightarrow>
     (let has_single = cb_amount d \<noteq> None \<and> cb_asset d \<noteq> None;
          has_items = (case cb_items d of Some its \<Rightarrow> its \<noteq> [] | None \<Rightarrow> False)
      in merchant_id_ok (cb_merchant_id d) \<and>
         (case cb_amount d of Some a \<Rightarrow> settlement_amount_string a | None \<Rightarrow> True) \<and>
         (case cb_asset d of Some a \<Rightarrow> a \<in> set currency_codes | None \<Rightarrow> True) \<and>
         (case (cb_amount d, cb_asset d) of (Some m, Some a) \<Rightarrow> validate_amount_precision m a | _ \<Rightarrow> True) \<and>
         (case cb_items d of Some its \<Rightarrow> list_all item_ok its | None \<Rightarrow> True) \<and>
         (has_single \<and> \<not> has_items \<or> \<not> has_single \<and> has_items))"

record bulk_body =
  bb_merchant_id :: string
  bb_settlements :: "settlement_item list"

definition bulk_settlement_body_ok :: "bulk_body \<Rightarrow> bool" where
  "bulk_settlement_body_ok d \<longleftrightarrow> merchant_id_ok (bb_merchant_id d) \<and> list_all item_ok (bb_settlements d)"

subsection \<open>Merchants and their settings\<close>

record merchant =
  m_id :: string
  m_deleted :: bool
  m_kyc_status :: string
  m_settings :: json

definition obj_get :: "string \<Rightarrow> json \<Rightarrow> json" where
  "obj_get k v = (case v of JObj kvs \<Rightarrow> (case map_of kvs k of Some x \<Rightarrow> x | None \<Rightarrow> JDrop) | _ \<Rightarrow> JDrop)"

text \<open>\<open>FeeRule.passthrough().safeParse(settings)\<close>: the rate in basis points.\<close>

definition fee_rule :: "json \<Rightarrow> rat option" where
  "fee_rule settings = (case settings of
       JObj _ \<Rightarrow> (case (obj_get ''feeBps'' settings, obj_get ''tier'' settings) of
           (JNum b, t) \<Rightarrow> if bps_ok b \<and> (t = JDrop \<or> (case t of JStr _ \<Rightarrow> True | _ \<Rightarrow> False)) then Some b else None
         | _ \<Rightarrow> None)
     | _ \<Rightarrow> None)"

text \<open>\<open>settings.webhookUrl ?? null\<close>; the column accepts a string or null only.\<close>

definition webhook_url_of_settings :: "json \<Rightarrow> (unit, string option) result" where
  "webhook_url_of_settings settings = (case obj_get ''webhookUrl'' settings of
       JDrop \<Rightarrow> return_ok None | JNull \<Rightarrow> return_ok None | JStr s \<Rightarrow> return_ok (Some s) | _ \<Rightarrow> throw ())"

fun string_pairs :: "(string \<times> json) list \<Rightarrow> (string, string) jsmap option" where
  "string_pairs [] = Some []"
| "string_pairs ((k, v) # kvs) = (case v of
       JStr s \<Rightarrow> (case string_pairs kvs of Some m \<Rightarrow> Some ((k, s) # m) | None \<Rightarrow> None)
     | _ \<Rightarrow> None)"

definition webhook_headers_of_settings :: "json \<Rightarrow> (string, string) jsmap option" where
  "webhook_headers_of_settings settings = (case obj_get ''webhookHeaders'' settings of
       JObj kvs \<Rightarrow> extract_webhook_headers (string_pairs kvs) | _ \<Rightarrow> None)"

datatype merchant_refusal = MerchantNotFound | MerchantDeleted | MerchantSuspended

definition check_merchant :: "merchant option \<Rightarrow> (merchant_refusal, merchant) result" where
  "check_merchant m = (case m of
       None \<Rightarrow> throw MerchantNotFound
     | Some m \<Rightarrow> if m_deleted m then throw MerchantDeleted
         else if m_kyc_status m = ''rejected'' then throw MerchantSuspended
         else return_ok m)"

subsection \<open>One request\<close>

datatype create_response =
    BodyRejected
  | AmountAndAssetRequired
  | AmountNotPositive
  | MerchantRefused merchant_refusal
  | NoFeeConfiguration
  | DailyVolumeExceeded rat rat rat
  | AmountRefused amount_error
  | ExistingSettlement settlement
  | CreatedSettlement settlement
  | RequestFailed

definition create_status :: "create_response \<Rightarrow> nat" where
  "create_status r = (case r of
       BodyRejected \<Rightarrow> 400 | AmountAndAssetRequired \<Rightarrow> 400 | AmountNotPositive \<Rightarrow> 400
     | MerchantRefused MerchantNotFound \<Rightarrow> 404 | MerchantRefused MerchantDeleted \<Rightarrow> 422
     | MerchantRefused MerchantSuspended \<Rightarrow> 403 | NoFeeConfiguration \<Rightarrow> 422 | DailyVolumeExceeded _ _ _ \<Rightarrow> 429
     | AmountRefused _ \<Rightarrow> 422 | ExistingSettlement _ \<Rightarrow> 200 | CreatedSettlement _ \<Rightarrow> 201 | RequestFailed \<Rightarrow> 500)"

record api_config =
  ac_daily_limit :: rat
  ac_default_bps :: rat
  ac_tiers :: "discount_tier list"

record api_inputs =
  ai_now :: nat
  ai_merchant :: "(unit, merchant option) result"
  ai_daily_sum :: "(unit, string option) result"
  ai_month_cached :: "(unit, string option) result"
  ai_month_sum :: "(unit, string option) result"
  ai_key :: "string option"
  ai_uuid :: string
  ai_set_fails :: bool
  ai_get_fails :: bool
  ai_find_fails :: bool
  ai_store_faults :: faults
  ai_queue_fails :: bool
  ai_trace :: "string option"

record ('db, 'r) api_state =
  as_db :: 'db
  as_redis :: 'r
  as_cache :: "merchant merchant_cache"
  as_jobs :: "settlement_job list"

text \<open>The sum of a volume query as a number; \<open>None\<close> is \<open>NaN\<close>.\<close>

definition volume_sum :: "(rat \<Rightarrow> rat) \<Rightarrow> string option \<Rightarrow> rat option" where
  "volume_sum fl s = (case s of Some v \<Rightarrow> if v = [] then Some 0 else parse_float fl v | None \<Rightarrow> Some 0)"

definition over_limit :: "(rat \<Rightarrow> rat) \<Rightarrow> rat option \<Rightarrow> rat option \<Rightarrow> rat \<Rightarrow> bool" where
  "over_limit fl current requested limit = (case (current, requested) of
       (Some a, Some b) \<Rightarrow> fl (a + b) > limit | _ \<Rightarrow> False)"

record priced =
  pr_amounts :: settlement_amounts
  pr_fee_bps :: rat
  pr_webhook_url :: "(unit, string option) result"
  pr_webhook_headers :: "(string, string) jsmap option"

text \<open>The checks and the price, up to the idempotency key; they write nothing but the cache.\<close>

definition price_request ::
  "'n bignum_ops \<Rightarrow> (rat \<Rightarrow> rat) \<Rightarrow> api_config \<Rightarrow> api_inputs \<Rightarrow> create_body \<Rightarrow> merchant merchant_cache \<Rightarrow>
   merchant merchant_cache \<times> (create_response, string \<times> string \<times> priced) result" where
  "price_request B fl cfg inp d cache =
     (if \<not> create_settlement_body_ok d then (cache, throw BodyRejected)
      else case (cb_amount d, cb_asset d) of
        (Some amount, Some asset) \<Rightarrow>
          if \<not> bn_is_finite B (bn_parse B amount) \<or> bn_le B (bn_parse B amount) (bn_zero B)
          then (cache, throw AmountNotPositive)
          else (case get_cached_merchant (int (ai_now inp)) (int (ai_now inp)) (cb_merchant_id d)
                    (\<lambda>_. ai_merchant inp) cache of
              (cache', Inl _) \<Rightarrow> (cache', throw RequestFailed)
            | (cache', Inr found) \<Rightarrow> (cache',
                case check_merchant found of
                  Inl e \<Rightarrow> throw (MerchantRefused e)
                | Inr m \<Rightarrow> (case fee_rule (m_settings m) of
                    None \<Rightarrow> throw NoFeeConfiguration
                  | Some fee_bps \<Rightarrow> (case ai_daily_sum inp of
                      Inl _ \<Rightarrow> throw RequestFailed
                    | Inr s \<Rightarrow>
                      if over_limit fl (volume_sum fl s) (parse_float fl amount) (ac_daily_limit cfg)
                      then throw (DailyVolumeExceeded (the (volume_sum fl s)) (the (parse_float fl amount)) (ac_daily_limit cfg))
                      else (case compute_settlement_amounts B amount fee_bps
                                (fst (get_monthly_volume fl (ai_month_cached inp) (ai_month_sum inp)))
                                (ac_tiers cfg) None of
                          Inl e \<Rightarrow> throw (if is_settlement_amount_error e then AmountRefused e else RequestFailed)
                        | Inr amounts \<Rightarrow> return_ok (amount, asset, \<lparr> pr_amounts = amounts, pr_fee_bps = fee_bps,
                            pr_webhook_url = webhook_url_of_settings (m_settings m),
                            pr_webhook_headers = webhook_headers_of_settings (m_settings m) \<rparr>))))))
      | _ \<Rightarrow> (cache, throw AmountAndAssetRequired))"

definition settlement_id :: "string \<Rightarrow> string" where
  "settlement_id uuid = ''set_'' @ uuid"

definition idempotency_key :: "string \<Rightarrow> string" where
  "idempotency_key k = ''idempotency:'' @ k"

definition idempotency_ttl_ms :: nat where
  "idempotency_ttl_ms = 86400 * 1000"

text \<open>
  The claim of the key: the settlement an earlier request stored for it, if any; \<open>Inl\<close> when
  its lookup throws.
\<close>

definition claim_key ::
  "'db store_ops \<Rightarrow> 'r kv_ops \<Rightarrow> api_inputs \<Rightarrow> 'db \<Rightarrow> 'r \<Rightarrow> 'r \<times> (unit, settlement option) result" where
  "claim_key S R inp db redis = (case ai_key inp of
       None \<Rightarrow> (redis, return_ok None)
     | Some k \<Rightarrow>
       if k = [] then (redis, return_ok None)
       else case (if ai_set_fails inp then (redis, False)
                  else kv_set_nx R redis (ai_now inp) (idempotency_key k) (settlement_id (ai_uuid inp)) idempotency_ttl_ms) of
         (redis', True) \<Rightarrow> (redis', return_ok None)
       | (redis', False) \<Rightarrow> (redis',
           case (if ai_get_fails inp then None else kv_get R redis' (ai_now inp) (idempotency_key k)) of
             None \<Rightarrow> return_ok None
           | Some i \<Rightarrow> if i = [] then return_ok None
               else if ai_find_fails inp then throw () else return_ok (st_find S db i)))"

definition settlement_row ::
  "api_inputs \<Rightarrow> string \<Rightarrow> string \<Rightarrow> priced \<Rightarrow> string option \<Rightarrow> settlement" where
  "settlement_row inp merchant_id asset p url =
     (let key = (case ai_key inp of Some k \<Rightarrow> if k = [] then None else Some k | None \<Rightarrow> None)
      in \<lparr> s_id = settlement_id (ai_uuid inp), s_merchant_id = merchant_id,
           s_total_amount = gross_of (pr_amounts p), s_gross_amount = gross_of (pr_amounts p),
           s_fee_amount = fee_of (pr_amounts p), s_net_amount = net_of (pr_amounts p),
           s_fee_bps = pr_fee_bps p, s_asset = asset, s_status = ''pending'', s_webhook_url = url,
           s_webhook_headers = pr_webhook_headers p, s_batch_id = None, s_initiated_at = int (ai_now inp),
           s_completed_at = None, s_idempotency_key = ai_key inp,
           s_idempotency_key_expires_at = map_option (\<lambda>_. int (ai_now inp + idempotency_ttl_ms)) key,
           s_fee_snapshot = Some (snapshot_of (pr_amounts p)), s_superseded_by = None, s_version = 0 \<rparr>)"

definition create_settlement ::
  "'db store_ops \<Rightarrow> 'n bignum_ops \<Rightarrow> 'r kv_ops \<Rightarrow> (rat \<Rightarrow> rat) \<Rightarrow> api_config \<Rightarrow> api_inputs \<Rightarrow> create_body \<Rightarrow>
   ('db, 'r) api_state \<Rightarrow> ('db, 'r) api_state \<times> create_response" where
  "create_settlement S B R fl cfg inp d st =
     (case price_request B fl cfg inp d (as_cache st) of
        (cache', Inl resp) \<Rightarrow> (st \<lparr> as_cache := cache' \<rparr>, resp)
      | (cache', Inr (amount, asset, p)) \<Rightarrow>
        (case claim_key S R inp (as_db st) (as_redis st) of
           (redis', Inl _) \<Rightarrow> (st \<lparr> as_cache := cache', as_redis := redis' \<rparr>, RequestFailed)
         | (redis', Inr (Some s)) \<Rightarrow> (st \<lparr> as_cache := cache', as_redis := redis' \<rparr>, ExistingSettlement s)
         | (redis', Inr None) \<Rightarrow>
           (let st1 = st \<lparr> as_cache := cache', as_redis := redis' \<rparr>
            in case pr_webhook_url p of
              Inl _ \<Rightarrow> (st1, RequestFailed)
            | Inr url \<Rightarrow>
              (case create_settlement_with_unique_guard S (ai_store_faults inp) (as_db st)
                      (settlement_row inp (cb_merchant_id d) asset p url) of
                 (db', Inl _) \<Rightarrow> (st1 \<lparr> as_db := db' \<rparr>, RequestFailed)
               | (db', Inr s) \<Rightarrow>
                 if ai_queue_fails inp then (st1 \<lparr> as_db := db' \<rparr>, RequestFailed)
                 else (st1 \<lparr> as_db := db', as_jobs := as_jobs st @ [settlement_job_of s (ai_trace inp)] \<rparr>,
                       CreatedSettlement s)))))"

subsection \<open>What a request does\<close>

lemma price_request_ok:
  assumes "price_request B fl cfg inp d cache = (cache', Inr (amount, asset, p))"
  obtains fee_bps v daily where "create_settlement_body_ok d" "cb_amount d = Some amount" "cb_asset d = Some asset"
    "bps_ok fee_bps" "pr_fee_bps p = fee_bps" "ai_daily_sum inp = Inr daily"
    "\<not> over_limit fl (volume_sum fl daily) (parse_float fl amount) (ac_daily_limit cfg)"
    "compute_settlement_amounts B amount fee_bps v (ac_tiers cfg) None = Inr (pr_amounts p)"
proof -
  from assms obtain m :: merchant and fee_bps daily where h: "create_settlement_body_ok d" "cb_amount d = Some amount" "cb_asset d = Some asset"
    "fee_rule (m_settings m) = Some fee_bps" "ai_daily_sum inp = Inr daily"
    "\<not> over_limit fl (volume_sum fl daily) (parse_float fl amount) (ac_daily_limit cfg)"
    "compute_settlement_amounts B amount fee_bps (fst (get_monthly_volume fl (ai_month_cached inp) (ai_month_sum inp)))
       (ac_tiers cfg) None = Inr (pr_amounts p)" "pr_fee_bps p = fee_bps"
    unfolding price_request_def
    by (auto split: if_splits option.splits prod.splits sum.splits)
  moreover have "bps_ok fee_bps"
    using h(4) by (auto simp: fee_rule_def split: json.splits if_splits)
  ultimately show thesis using that by blast
qed

lemma settlement_row_simps [simp]:
  "s_id (settlement_row inp m a p url) = settlement_id (ai_uuid inp)"
  "s_idempotency_key (settlement_row inp m a p url) = ai_key inp"
  "s_status (settlement_row inp m a p url) = ''pending''"
  "s_merchant_id (settlement_row inp m a p url) = m"
  "s_gross_amount (settlement_row inp m a p url) = gross_of (pr_amounts p)"
  "s_fee_amount (settlement_row inp m a p url) = fee_of (pr_amounts p)"
  "s_net_amount (settlement_row inp m a p url) = net_of (pr_amounts p)"
  by (simp_all add: settlement_row_def Let_def)

lemma settlement_id_simps [simp]: "settlement_id u \<noteq> []" "settlement_id u = settlement_id v \<longleftrightarrow> u = v"
  by (simp_all add: settlement_id_def)

context settlement_store
begin

lemma create_guard_fresh:
  assumes inv: "invar db" and run: "create_settlement_with_unique_guard S flt db data = (db', Inr s)"
    and i: "st_find S db (s_id data) = None"
    and k: "\<And>k. s_idempotency_key data = Some k \<Longrightarrow> st_find_key S db k = None"
  shows "s = data \<and> invar db' \<and> st_find S db' = (st_find S db)(s_id data \<mapsto> data)"
proof -
  obtain db1 where c: "st_create S db data = Inr db1" "invar db1" "st_find S db1 = (st_find S db)(s_id data \<mapsto> data)"
    using create_fresh [OF inv i k] by blast
  have "\<not> is_ok (existing_settlement S flt db data)"
    using i k by (auto simp: existing_settlement_def faulty_def split: option.splits)
  then obtain e where "existing_settlement S flt db data = Inl e"
    by (cases "existing_settlement S flt db data") auto
  with run c show ?thesis
    by (auto simp: create_settlement_with_unique_guard_def with_query_timeout_def Let_def
        split: option.splits prod.splits if_splits sum.splits db_error.splits)
qed

lemma create_guard_by_key:
  assumes inv: "invar db" and i: "st_find S db (s_id data) = None" and ni: "s_id data \<noteq> []"
    and k: "s_idempotency_key data = Some k" "k \<noteq> []" and r: "st_find_key S db k = Some r"
  shows "create_settlement_with_unique_guard S no_faults db data = (db, Inr r)"
proof -
  have "st_create S db data = Inl P2002"
    using create_conflict [OF inv] k(1) r by auto
  with i ni k r show ?thesis
    by (simp add: create_settlement_with_unique_guard_def with_query_timeout_def existing_settlement_def)
qed

end

lemma create_settlement_created:
  assumes "create_settlement S B R fl cfg inp d st = (st', CreatedSettlement s)"
  obtains amount asset p url where
    "price_request B fl cfg inp d (as_cache st) = (as_cache st', Inr (amount, asset, p))"
    "claim_key S R inp (as_db st) (as_redis st) = (as_redis st', Inr None)"
    "create_settlement_with_unique_guard S (ai_store_faults inp) (as_db st)
       (settlement_row inp (cb_merchant_id d) asset p url) = (as_db st', Inr s)"
    "as_jobs st' = as_jobs st @ [settlement_job_of s (ai_trace inp)]"
proof -
  obtain cache' pr where p: "price_request B fl cfg inp d (as_cache st) = (cache', pr)" by fastforce
  obtain redis' cl where c: "claim_key S R inp (as_db st) (as_redis st) = (redis', cl)" by fastforce
  from assms p have "\<exists>q. pr = Inr q"
    by (auto simp: create_settlement_def price_request_def split: sum.splits if_splits option.splits prod.splits)
  then obtain amount asset q where q: "pr = Inr (amount, asset, q)" by (metis prod_cases3)
  from assms p c q show thesis
    by (auto simp: create_settlement_def Let_def split: sum.splits option.splits prod.splits if_splits intro!: that)
qed

lemma claim_key_first:
  assumes R: "redis_strings R rinv entry" and r: "rinv redis" and k: "ai_key inp = Some k" "k \<noteq> []" "\<not> ai_set_fails inp"
    and free: "kv_live (ai_now inp) (entry redis (idempotency_key k)) = None"
  shows "\<exists>redis'. claim_key S R inp db redis = (redis', Inr None) \<and> rinv redis' \<and>
    entry redis' = (entry redis)(idempotency_key k \<mapsto> (settlement_id (ai_uuid inp), Some (ai_now inp + idempotency_ttl_ms)))"
  using redis_strings.set_nx_entry [OF R r, of "ai_now inp" "idempotency_key k" "settlement_id (ai_uuid inp)" idempotency_ttl_ms]
    free k by (auto simp: claim_key_def)

lemma claim_key_taken:
  assumes R: "redis_strings R rinv entry" and r: "rinv redis" and k: "ai_key inp = Some k" "k \<noteq> []"
    and held: "kv_live (ai_now inp) (entry redis (idempotency_key k)) = Some i" and i: "i \<noteq> []"
  shows "\<exists>redis'. claim_key S R inp db redis = (redis',
    if ai_get_fails inp then Inr None else if ai_find_fails inp then Inl () else Inr (st_find S db i))"
proof -
  obtain redis' where 1: "kv_set_nx R redis (ai_now inp) (idempotency_key k) (settlement_id (ai_uuid inp)) idempotency_ttl_ms = (redis', False)"
    "rinv redis'" "entry redis' = entry redis"
    using redis_strings.set_nx_entry [OF R r, of "ai_now inp" "idempotency_key k" "settlement_id (ai_uuid inp)" idempotency_ttl_ms]
      held by auto
  have "kv_get R redis' (ai_now inp) (idempotency_key k) = Some i" "kv_get R redis (ai_now inp) (idempotency_key k) = Some i"
    using redis_strings.get_entry [OF R 1(2)] redis_strings.get_entry [OF R r] held 1(3) by simp_all
  with 1 k i show ?thesis by (auto simp: claim_key_def)
qed

subsection \<open>Properties\<close>

text \<open>
  C9: a settlement created for a fresh id and key is stored as a pending row of its merchant
  with the requested amount as gross, a fee and a net amount that add up to it exactly, the
  daily limit respected, the rest of the table unchanged and exactly one job enqueued for it.
\<close>

theorem created_settlement_sound:
  assumes "settlement_store S invar" "bignumber B val" "invar (as_db st)" "\<forall>t \<in> set (ac_tiers cfg). 0 \<le> discount_bps t"
    and "create_settlement S B R fl cfg inp d st = (st', CreatedSettlement s)"
    and "st_find S (as_db st) (settlement_id (ai_uuid inp)) = None"
    and "\<forall>k. ai_key inp = Some k \<longrightarrow> st_find_key S (as_db st) k = None"
  shows "\<exists>amount daily. cb_amount d = Some amount \<and> s_gross_amount s = amount \<and> s_status s = ''pending'' \<and>
    s_merchant_id s = cb_merchant_id d \<and>
    dec_val (s_fee_amount s) + dec_val (s_net_amount s) = dec_val amount \<and>
    ai_daily_sum inp = Inr daily \<and> \<not> over_limit fl (volume_sum fl daily) (parse_float fl amount) (ac_daily_limit cfg) \<and>
    st_find S (as_db st') = (st_find S (as_db st))(s_id s \<mapsto> s) \<and>
    as_jobs st' = as_jobs st @ [settlement_job_of s (ai_trace inp)]"
proof -
  obtain amount asset p url where c: "price_request B fl cfg inp d (as_cache st) = (as_cache st', Inr (amount, asset, p))"
    "create_settlement_with_unique_guard S (ai_store_faults inp) (as_db st)
       (settlement_row inp (cb_merchant_id d) asset p url) = (as_db st', Inr s)"
    "as_jobs st' = as_jobs st @ [settlement_job_of s (ai_trace inp)]"
    by (rule create_settlement_created [OF assms(5)])
  obtain fee_bps v daily where q: "create_settlement_body_ok d" "cb_amount d = Some amount" "bps_ok fee_bps"
    "ai_daily_sum inp = Inr daily" "\<not> over_limit fl (volume_sum fl daily) (parse_float fl amount) (ac_daily_limit cfg)"
    "compute_settlement_amounts B amount fee_bps v (ac_tiers cfg) None = Inr (pr_amounts p)"
    by (rule price_request_ok [OF c(1)])
  have "is_amount amount"
    using q(1,2) by (auto simp: create_settlement_body_ok_def settlement_amount_string_def Let_def split: if_splits)
  from settlement_amounts_add_up [OF assms(2) this q(3) assms(4) q(6)]
  have a: "gross_of (pr_amounts p) = amount"
    "dec_val (fee_of (pr_amounts p)) + dec_val (net_of (pr_amounts p)) = dec_val amount" by simp_all
  have s: "s = settlement_row inp (cb_merchant_id d) asset p url"
    "st_find S (as_db st') = (st_find S (as_db st))(s_id s \<mapsto> s)"
    using settlement_store.create_guard_fresh [OF assms(1,3) c(2)] assms(6,7) by auto
  show ?thesis using q(2,4,5) a c(3) s by auto
qed

text \<open>
  an idempotency key creates at most one settlement: a repetition of a request that was the
  first with its key, with any body and for any merchant, creates nothing; while Redis answers
  it returns the stored settlement and enqueues nothing, and when Redis does not, the unique
  constraint of the table still returns that settlement. The key is not scoped by merchant.
\<close>

theorem idempotency_key_creates_once:
  assumes "settlement_store S invar" "redis_strings R rinv entry" "invar (as_db st)" "rinv (as_redis st)"
    and "ai_key inp = Some k" "k \<noteq> []" "\<not> ai_set_fails inp"
    and "kv_live (ai_now inp) (entry (as_redis st) (idempotency_key k)) = None"
    and "st_find S (as_db st) (settlement_id (ai_uuid inp)) = None" "st_find_key S (as_db st) k = None"
    and "create_settlement S B R fl cfg inp d st = (st1, CreatedSettlement s)"
    and "ai_key inp2 = Some k" "ai_now inp2 < ai_now inp + idempotency_ttl_ms"
    and "price_request B fl cfg inp2 d2 (as_cache st1) = (cache2, Inr (amount2, asset2, p2))"
  shows "(\<not> ai_get_fails inp2 \<and> \<not> ai_find_fails inp2 \<longrightarrow>
      (\<exists>st2. create_settlement S B R fl cfg inp2 d2 st1 = (st2, ExistingSettlement s) \<and>
         as_db st2 = as_db st1 \<and> as_jobs st2 = as_jobs st1)) \<and>
    (ai_get_fails inp2 \<and> ai_store_faults inp2 = no_faults \<and> is_ok (pr_webhook_url p2) \<and> \<not> ai_queue_fails inp2 \<and>
       st_find S (as_db st1) (settlement_id (ai_uuid inp2)) = None \<longrightarrow>
      (\<exists>st2. create_settlement S B R fl cfg inp2 d2 st1 = (st2, CreatedSettlement s) \<and> as_db st2 = as_db st1))"
proof -
  obtain amount asset p url where c: "claim_key S R inp (as_db st) (as_redis st) = (as_redis st1, Inr None)"
    "create_settlement_with_unique_guard S (ai_store_faults inp) (as_db st)
       (settlement_row inp (cb_merchant_id d) asset p url) = (as_db st1, Inr s)"
    by (rule create_settlement_created [OF assms(11)])
  have s: "s = settlement_row inp (cb_merchant_id d) asset p url" "invar (as_db st1)"
    "st_find S (as_db st1) = (st_find S (as_db st))(settlement_id (ai_uuid inp) \<mapsto> s)"
    using settlement_store.create_guard_fresh [OF assms(1,3) c(2)] assms(5,9,10) by auto
  have stored: "st_find S (as_db st1) (settlement_id (ai_uuid inp)) = Some s" by (simp add: s(3))
  have key: "st_find_key S (as_db st1) k = Some s"
    using settlement_store.find_key [OF assms(1) s(2)] stored s(1) assms(5) by auto
  have rinv: "rinv (as_redis st1)"
    and live: "kv_live (ai_now inp2) (entry (as_redis st1) (idempotency_key k)) = Some (settlement_id (ai_uuid inp))"
    using claim_key_first [OF assms(2,4,5,6,7,8), of S "as_db st"] c(1) assms(13) by (auto simp: kv_live_def)
  obtain redis2 where cl: "claim_key S R inp2 (as_db st1) (as_redis st1) = (redis2,
      if ai_get_fails inp2 then Inr None else if ai_find_fails inp2 then Inl ()
      else Inr (st_find S (as_db st1) (settlement_id (ai_uuid inp))))"
    using claim_key_taken [OF assms(2) rinv assms(12,6) live settlement_id_simps(1), of S "as_db st1"] by blast
  show ?thesis
  proof (intro conjI impI)
    assume "\<not> ai_get_fails inp2 \<and> \<not> ai_find_fails inp2"
    with cl stored have "create_settlement S B R fl cfg inp2 d2 st1 =
        (st1 \<lparr> as_cache := cache2, as_redis := redis2 \<rparr>, ExistingSettlement s)"
      by (simp add: create_settlement_def assms(14))
    then show "\<exists>st2. create_settlement S B R fl cfg inp2 d2 st1 = (st2, ExistingSettlement s) \<and>
         as_db st2 = as_db st1 \<and> as_jobs st2 = as_jobs st1" by simp
  next
    assume a: "ai_get_fails inp2 \<and> ai_store_faults inp2 = no_faults \<and> is_ok (pr_webhook_url p2) \<and> \<not> ai_queue_fails inp2 \<and>
       st_find S (as_db st1) (settlement_id (ai_uuid inp2)) = None"
    then obtain url2 where u: "pr_webhook_url p2 = Inr url2" by (cases "pr_webhook_url p2") auto
    have "create_settlement_with_unique_guard S no_faults (as_db st1)
        (settlement_row inp2 (cb_merchant_id d2) asset2 p2 url2) = (as_db st1, Inr s)"
      by (rule settlement_store.create_guard_by_key [OF assms(1) s(2)]) (use a assms(6,12) key in simp_all)
    with a cl u have "create_settlement S B R fl cfg inp2 d2 st1 =
        (st1 \<lparr> as_cache := cache2, as_redis := redis2, as_db := as_db st1,
               as_jobs := as_jobs st1 @ [settlement_job_of s (ai_trace inp2)] \<rparr>, CreatedSettlement s)"
      by (simp add: create_settlement_def assms(14) Let_def)
    then show "\<exists>st2. create_settlement S B R fl cfg inp2 d2 st1 = (st2, CreatedSettlement s) \<and> as_db st2 = as_db st1"
      by simp
  qed
qed

definition sample_merchant :: merchant where
  "sample_merchant = \<lparr> m_id = ''m1'', m_deleted = False, m_kyc_status = ''verified'',
     m_settings = JObj [(''feeBps'', JNum 100)] \<rparr>"

definition sample_body :: create_body where
  "sample_body = \<lparr> cb_merchant_id = ''m1'', cb_amount = Some ''150.5'', cb_asset = Some ''USDC'', cb_items = None \<rparr>"

definition sample_inputs :: "nat \<Rightarrow> string \<Rightarrow> api_inputs" where
  "sample_inputs now uuid = \<lparr> ai_now = now, ai_merchant = Inr (Some sample_merchant), ai_daily_sum = Inr (Some ''0''),
     ai_month_cached = Inr (Some ''0''), ai_month_sum = Inr None, ai_key = Some ''k9'', ai_uuid = uuid,
     ai_set_fails = False, ai_get_fails = False, ai_find_fails = False, ai_store_faults = no_faults,
     ai_queue_fails = False, ai_trace = None \<rparr>"

definition sample_config :: api_config where
  "sample_config = \<lparr> ac_daily_limit = 1000000, ac_default_bps = 100, ac_tiers = [] \<rparr>"

definition sample_state :: "(table, kv_store) api_state" where
  "sample_state = \<lparr> as_db = sample_table, as_redis = [], as_cache = new_merchant_cache None, as_jobs = [] \<rparr>"

abbreviation sample_request :: "nat \<Rightarrow> string \<Rightarrow> (table, kv_store) api_state \<Rightarrow> (table, kv_store) api_state \<times> create_response" where
  "sample_request now uuid st \<equiv>
     create_settlement tab_ops dec_ops kvs_ops id sample_config (sample_inputs now uuid) sample_body st"

definition is_created :: "create_response \<Rightarrow> bool" where
  "is_created r = (case r of CreatedSettlement _ \<Rightarrow> True | _ \<Rightarrow> False)"

lemma sample_first_request: "\<exists>s. snd (sample_request 5 ''u1'' sample_state) = CreatedSettlement s"
proof -
  have "is_created (snd (sample_request 5 ''u1'' sample_state))" by code_simp
  then show ?thesis by (auto simp: is_created_def split: create_response.splits)
qed

lemma sample_fresh:
  "st_find tab_ops (as_db sample_state) (settlement_id (ai_uuid (sample_inputs n ''u1''))) = None"
  "st_find_key tab_ops (as_db sample_state) ''k9'' = None"
  "tab_invar (as_db sample_state)"
  by (simp_all add: sample_state_def sample_table_def sample_settlement_def tab_ops_def sample_inputs_def settlement_id_def
      tab_invar_def)

theorem created_settlement_sound_witness:
  "\<exists>st' s. sample_request 5 ''u1'' sample_state = (st', CreatedSettlement s) \<and>
     dec_val (s_fee_amount s) + dec_val (s_net_amount s) = dec_val ''150.5'' \<and> length (as_jobs st') = 1"
proof -
  obtain st' s where run: "sample_request 5 ''u1'' sample_state = (st', CreatedSettlement s)"
    using sample_first_request by (metis prod.collapse)
  have "\<forall>t \<in> set (ac_tiers sample_config). 0 \<le> discount_bps t" by (simp add: sample_config_def)
  from created_settlement_sound [OF tab.settlement_store_axioms dec.bignumber_axioms sample_fresh(3) this run sample_fresh(1)]
    sample_fresh(2) run show ?thesis
    by (auto simp: sample_inputs_def sample_body_def sample_state_def)
qed

theorem idempotency_key_creates_once_witness:
  "\<exists>st1 st2 s. sample_request 5 ''u1'' sample_state = (st1, CreatedSettlement s) \<and>
     sample_request 9 ''u2'' st1 = (st2, ExistingSettlement s) \<and> as_jobs st2 = as_jobs st1"
proof -
  obtain st1 s where run: "sample_request 5 ''u1'' sample_state = (st1, CreatedSettlement s)"
    using sample_first_request by (metis prod.collapse)
  have "is_ok (snd (price_request dec_ops id sample_config (sample_inputs 9 ''u2'') sample_body
      (as_cache (fst (sample_request 5 ''u1'' sample_state)))))" by code_simp
  then obtain cache2 a b p where p: "price_request dec_ops id sample_config (sample_inputs 9 ''u2'') sample_body (as_cache st1) =
      (cache2, Inr (a, b, p))"
    by (auto simp: run is_ok_def split: sum.splits) (metis prod.collapse)
  have h: "ai_key (sample_inputs n u) = Some ''k9''" "''k9'' \<noteq> []" "\<not> ai_set_fails (sample_inputs n u)"
    "\<not> ai_get_fails (sample_inputs n u)" "\<not> ai_find_fails (sample_inputs n u)" "ai_now (sample_inputs n u) = n" for n u
    by (simp_all add: sample_inputs_def)
  have live: "kv_live (ai_now (sample_inputs 5 ''u1'')) (map_of (as_redis sample_state) (idempotency_key ''k9'')) = None"
    by (simp add: sample_state_def kv_live_def)
  have t: "ai_now (sample_inputs 9 ''u2'') < ai_now (sample_inputs 5 ''u1'') + idempotency_ttl_ms"
    by (simp add: h idempotency_ttl_ms_def)
  from idempotency_key_creates_once [OF tab.settlement_store_axioms kvs.redis_strings_axioms sample_fresh(3) TrueI h(1,2,3)
      live sample_fresh(1,2) run h(1) t p] h run
  show ?thesis by auto
qed

end
