(* ===== verification/BatchScan.thy ===== *)
theory BatchScan
  imports Prelude Complex_Main
begin

section \<open>Chunked scans\<close>

text \<open>
  Model of \<open>shared/validation/batch-scan.ts\<close>: \<open>forEachBatch\<close> over a caller's
  \<open>fetchPage\<close> and \<open>onBatch\<close>. Both may fail; \<open>onBatch\<close> works on a state of the
  caller. The first argument of \<open>fetchPage\<close> here is the number of the call, so that the
  table behind it may change during the scan. The keyset fetcher is the one of the
  documentation's example.
\<close>

record ('a, 'c) bpage =
  bp_items :: "'a list"
  bp_next :: "'c option"

record batch_result =
  br_batches :: nat
  br_items :: nat
  br_early :: bool

text \<open>A JavaScript number that is not finite is \<open>None\<close>.\<close>

type_synonym js_number = "rat option"

definition is_positive_integer :: "js_number \<Rightarrow> bool" where
  "is_positive_integer x = (case x of None \<Rightarrow> False | Some q \<Rightarrow> of_int \<lfloor>q\<rfloor> = q \<and> 1 \<le> q)"

definition nat_of_number :: "js_number \<Rightarrow> nat" where
  "nat_of_number x = (case x of None \<Rightarrow> 0 | Some q \<Rightarrow> nat \<lfloor>q\<rfloor>)"

datatype 'e scan_error = BatchSizeInvalid | MaxBatchesInvalid | ScanFailed 'e

record 'c batch_options =
  bo_batch_size :: "js_number option"
  bo_initial_cursor :: "'c option"
  bo_max_batches :: "js_number option"

text \<open>
  The \<open>for (;;)\<close> loop; \<open>None\<close> when it never ends. A page may be missing
  (\<open>page?.items ?? []\<close>).
\<close>

partial_function (option) batch_loop ::
  "(nat \<Rightarrow> 'c option \<Rightarrow> nat \<Rightarrow> ('e, ('a, 'c) bpage option) result) \<Rightarrow>
   ('a list \<Rightarrow> nat \<Rightarrow> 's \<Rightarrow> 's \<times> ('e, bool option) result) \<Rightarrow> nat \<Rightarrow> nat option \<Rightarrow>
   'c option \<Rightarrow> nat \<Rightarrow> nat \<Rightarrow> 's \<Rightarrow> ('s \<times> ('e scan_error, batch_result) result) option" where
  "batch_loop fetch on_batch limit maxb cursor batches processed s =
     (case fetch batches cursor limit of
        Inl e \<Rightarrow> Some (s, throw (ScanFailed e))
      | Inr page \<Rightarrow>
          (let xs = (case page of None \<Rightarrow> [] | Some p \<Rightarrow> bp_items p);
               stop = (\<lambda>b n early. return_ok \<lparr> br_batches = b, br_items = n, br_early = early \<rparr>)
           in if xs = [] then Some (s, stop batches processed False)
              else case on_batch xs batches s of
                (s', Inl e) \<Rightarrow> Some (s', throw (ScanFailed e))
              | (s', Inr decision) \<Rightarrow>
                  (let b = Suc batches; n = processed + length xs
                   in if decision = Some False then Some (s', stop b n True)
                      else if (case maxb of None \<Rightarrow> False | Some m \<Rightarrow> m \<le> b) then Some (s', stop b n False)
                      else if length xs < limit then Some (s', stop b n False)
                      else case (case page of None \<Rightarrow> None | Some p \<Rightarrow> bp_next p) of
                             None \<Rightarrow> Some (s', stop b n False)
                           | Some c \<Rightarrow> batch_loop fetch on_batch limit maxb (Some c) b n s')))"

definition default_batch_size :: js_number where
  "default_batch_size = Some 100"

definition for_each_batch ::
  "(nat \<Rightarrow> 'c option \<Rightarrow> nat \<Rightarrow> ('e, ('a, 'c) bpage option) result) \<Rightarrow>
   ('a list \<Rightarrow> nat \<Rightarrow> 's \<Rightarrow> 's \<times> ('e, bool option) result) \<Rightarrow> 'c batch_options \<Rightarrow> 's \<Rightarrow>
   ('s \<times> ('e scan_error, batch_result) result) option" where
  "for_each_batch fetch on_batch opts s =
     (let limit = (case bo_batch_size opts of None \<Rightarrow> default_batch_size | Some x \<Rightarrow> x)
      in if \<not> is_positive_integer limit then Some (s, throw BatchSizeInvalid)
         else if (case bo_max_batches opts of None \<Rightarrow> False | Some m \<Rightarrow> \<not> is_positive_integer m)
         then Some (s, throw MaxBatchesInvalid)
         else batch_loop fetch on_batch (nat_of_number limit) (map_option nat_of_number (bo_max_batches opts))
                (bo_initial_cursor opts) 0 0 s)"

subsection \<open>The keyset fetcher\<close>

definition after_cursor :: "('a \<Rightarrow> 'c::linorder) \<Rightarrow> 'c option \<Rightarrow> 'a \<Rightarrow> bool" where
  "after_cursor key cursor r = (case cursor of None \<Rightarrow> True | Some c \<Rightarrow> c < key r)"

definition keyset_page ::
  "(nat \<Rightarrow> 'a list) \<Rightarrow> ('a \<Rightarrow> 'c::linorder) \<Rightarrow> nat \<Rightarrow> 'c option \<Rightarrow> nat \<Rightarrow> ('e, ('a, 'c) bpage option) result" where
  "keyset_page table key call cursor limit =
     (let xs = take limit (filter (after_cursor key cursor) (sort_key key (table call)))
      in return_ok (Some \<lparr> bp_items = xs,
           bp_next = (if length xs = limit then (if xs = [] then None else Some (key (List.last xs))) else None) \<rparr>))"

text \<open>An \<open>onBatch\<close> that handles every batch, and remembers what it was given.\<close>

definition handle_all :: "'a list \<Rightarrow> nat \<Rightarrow> 'a list \<Rightarrow> 'a list \<times> ('e, bool option) result" where
  "handle_all xs i seen = (seen @ xs, return_ok None)"

subsection \<open>Every row exactly once\<close>

lemma strictly_sorted_page:
  assumes "distinct (map key t)"
  shows "sorted_wrt (<) (map key (filter P (sort_key key t)))"
proof -
  have "distinct (map key (sort_key key t))"
    using assms by (simp add: distinct_map)
  then have "sorted_wrt (<) (map key (sort_key key t))"
    by (simp add: strict_sorted_iff)
  then show ?thesis by (simp add: sorted_wrt_map sorted_wrt_filter)
qed

lemma sorted_wrt_less_last:
  "sorted_wrt (<) (map key xs) \<Longrightarrow> x \<in> set xs \<Longrightarrow> key x \<le> key (List.last xs)" for key :: "'a \<Rightarrow> 'c::linorder"
  by (induction xs) (auto simp: less_imp_le)

lemma page_split:
  fixes key :: "'a \<Rightarrow> 'c::linorder"
  assumes "distinct (map key t)" and xs: "xs = take limit (filter (after_cursor key cursor) (sort_key key t))"
    and "xs \<noteq> []" and "r \<in> set t" and "after_cursor key cursor r"
  shows "r \<in> set xs \<or> key (List.last xs) < key r"
proof -
  let ?ys = "filter (after_cursor key cursor) (sort_key key t)"
  have split: "?ys = xs @ drop limit ?ys" by (simp add: xs)
  have "sorted_wrt (<) (map key (xs @ drop limit ?ys))"
    using strictly_sorted_page [OF assms(1)] split by metis
  then have "\<forall>x\<in>set xs. \<forall>y\<in>set (drop limit ?ys). key x < key y"
    by (auto simp: sorted_wrt_append)
  moreover have "List.last xs \<in> set xs" using assms(3) by simp
  moreover have "r \<in> set xs \<union> set (drop limit ?ys)"
  proof -
    have "r \<in> set ?ys" using assms(4,5) by simp
    then show ?thesis by (subst (asm) split) simp
  qed
  ultimately show ?thesis by blast
qed

text \<open>
  A page moves the cursor strictly forward inside a finite universe of keys; the number of
  keys after the cursor is the measure.
\<close>

lemma keyset_scan_from:
  fixes key :: "'a \<Rightarrow> 'c::linorder"
  assumes d: "\<forall>k. distinct (map key (table k))" and fin: "finite U"
    and sub: "\<forall>k. key ` set (table k) \<subseteq> U" and pos: "0 < limit"
  shows "\<exists>ys res. batch_loop (keyset_page table key) handle_all limit None cursor b n seen = Some (seen @ ys, (Inr res :: ('e scan_error, batch_result) result)) \<and>
      sorted_wrt (<) (map key ys) \<and> (\<forall>r\<in>set ys. after_cursor key cursor r) \<and>
      set ys \<subseteq> (\<Union>k. set (table k)) \<and>
      (\<forall>r. (\<forall>k. r \<in> set (table k)) \<longrightarrow> after_cursor key cursor r \<longrightarrow> r \<in> set ys) \<and>
      br_items res = n + length ys \<and> \<not> br_early res"
proof (induction "card {c \<in> U. case cursor of None \<Rightarrow> True | Some c' \<Rightarrow> c' < c}"
    arbitrary: cursor b n seen rule: less_induct)
  case less
  define xs where "xs = take limit (filter (after_cursor key cursor) (sort_key key (table b)))"
  have sorted: "sorted_wrt (<) (map key xs)"
    unfolding xs_def take_map [symmetric]
    by (intro sorted_wrt_take strictly_sorted_page) (simp add: d)
  have mem: "r \<in> set (table b)" "after_cursor key cursor r" if "r \<in> set xs" for r
    using that by (auto simp: xs_def dest: in_set_takeD)
  have full: "r \<in> set xs" if "r \<in> set (table b)" "after_cursor key cursor r" "length xs < limit" for r
    using that by (auto simp: xs_def)
  show ?case
  proof (cases "xs = [] \<or> length xs < limit")
    case True
    let ?res = "\<lparr> br_batches = (if xs = [] then b else Suc b), br_items = n + length xs, br_early = False \<rparr>"
    have "batch_loop (keyset_page table key) handle_all limit None cursor b n seen =
        Some (seen @ xs, (Inr \<lparr> br_batches = (if xs = [] then b else Suc b), br_items = n + length xs, br_early = False \<rparr>
           :: ('e scan_error, batch_result) result))"
      using True by (subst batch_loop.simps) (auto simp: keyset_page_def handle_all_def Let_def xs_def [symmetric])
    moreover have "r \<in> set xs" if "\<forall>k. r \<in> set (table k)" "after_cursor key cursor r" for r
      using full [of r] that True pos by auto
    moreover have "set xs \<subseteq> (\<Union>k. set (table k))" using mem(1) by auto
    ultimately show ?thesis using sorted mem(2) by (intro exI [of _ xs] exI [of _ ?res]) auto
  next
    case False
    then have ne: "xs \<noteq> []" and len: "length xs = limit"
      by (auto simp: xs_def)
    define c where "c = key (List.last xs)"
    have lastmem: "List.last xs \<in> set xs" using ne by simp
    have cU: "c \<in> U" using mem(1) [OF lastmem] sub by (auto simp: c_def)
    have cafter: "case cursor of None \<Rightarrow> True | Some c' \<Rightarrow> c' < c"
      using mem(2) [OF lastmem] unfolding c_def after_cursor_def .
    have smaller: "{k \<in> U. c < k} \<subset> {k \<in> U. case cursor of None \<Rightarrow> True | Some c' \<Rightarrow> c' < k}"
      using cU cafter by (auto split: option.splits)
    have "card {k \<in> U. case Some c of None \<Rightarrow> True | Some c' \<Rightarrow> c' < k} <
        card {k \<in> U. case cursor of None \<Rightarrow> True | Some c' \<Rightarrow> c' < k}"
      using smaller fin by (simp add: psubset_card_mono)
    from less [OF this, of "Suc b" "n + length xs" "seen @ xs"] obtain ys res where
      run: "batch_loop (keyset_page table key) handle_all limit None (Some c) (Suc b) (n + length xs) (seen @ xs) =
          Some ((seen @ xs) @ ys, (Inr res :: ('e scan_error, batch_result) result))"
      and ys: "sorted_wrt (<) (map key ys)" "\<forall>r\<in>set ys. after_cursor key (Some c) r"
        "set ys \<subseteq> (\<Union>k. set (table k))"
        "\<forall>r. (\<forall>k. r \<in> set (table k)) \<longrightarrow> after_cursor key (Some c) r \<longrightarrow> r \<in> set ys"
        "br_items res = n + length xs + length ys" "\<not> br_early res" by blast
    have "batch_loop (keyset_page table key) handle_all limit None cursor b n seen = Some (seen @ (xs @ ys), (Inr res :: ('e scan_error, batch_result) result))"
      using run ne len
      by (subst batch_loop.simps) (simp add: keyset_page_def handle_all_def Let_def xs_def [symmetric] c_def)
    moreover have "sorted_wrt (<) (map key (xs @ ys))"
      using sorted ys(1,2) sorted_wrt_less_last [OF sorted]
      by (fastforce simp: sorted_wrt_append after_cursor_def c_def)
    moreover have "\<forall>r\<in>set (xs @ ys). after_cursor key cursor r"
      using mem(2) ys(2) cafter by (fastforce simp: after_cursor_def split: option.splits)
    moreover have "set (xs @ ys) \<subseteq> (\<Union>k. set (table k))"
      using mem(1) ys(3) by auto
    moreover have "r \<in> set (xs @ ys)" if r: "\<forall>k. r \<in> set (table k)" "after_cursor key cursor r" for r
      using page_split [OF d [rule_format, of b] xs_def ne r(1) [rule_format] r(2)] ys(4) r(1)
      by (auto simp: after_cursor_def c_def)
    ultimately show ?thesis using ys(5,6) by (intro exI [of _ "xs @ ys"] exI [of _ res]) auto
  qed
qed

text \<open>
  C24: a keyset scan always ends and hands every row that is in the table throughout to
  \<open>onBatch\<close>, in key order and no row twice, although rows may be inserted and deleted
  between two pages.
\<close>

theorem scan_visits_each_row_once:
  fixes key :: "'a \<Rightarrow> 'c::linorder"
  assumes "\<forall>k. distinct (map key (table k))" and "finite U" and "\<forall>k. key ` set (table k) \<subseteq> U"
    and "is_positive_integer (Some q)"
  shows "\<exists>ys res. for_each_batch (keyset_page table key) handle_all
        \<lparr> bo_batch_size = Some (Some q), bo_initial_cursor = None, bo_max_batches = None \<rparr> [] =
          Some (ys, (Inr res :: ('e scan_error, batch_result) result)) \<and>
      sorted_wrt (<) (map key ys) \<and> set ys \<subseteq> (\<Union>k. set (table k)) \<and> (\<Inter>k. set (table k)) \<subseteq> set ys \<and>
      br_items res = length ys \<and> \<not> br_early res"
proof -
  have "0 < nat_of_number (Some q)"
    using assms(4) by (auto simp: is_positive_integer_def nat_of_number_def)
  from keyset_scan_from [OF assms(1-3) this, of None 0 0 "[]"] obtain ys and res where
    "batch_loop (keyset_page table key) handle_all (nat_of_number (Some q)) None None 0 0 [] =
       Some (ys, (Inr res :: ('e scan_error, batch_result) result))"
    "sorted_wrt (<) (map key ys)" "set ys \<subseteq> (\<Union>k. set (table k))"
    "\<forall>r. (\<forall>k. r \<in> set (table k)) \<longrightarrow> r \<in> set ys" "br_items res = length ys" "\<not> br_early res"
    by (auto simp: after_cursor_def)
  then show ?thesis
    using assms(4) by (intro exI [of _ ys] exI [of _ res]) (auto simp: for_each_batch_def)
qed

text \<open>Rows 1, 2, 3 throughout, row 0 from the second page on, row 4 until then; pages of two.\<close>

theorem scan_visits_each_row_once_witness:
  "\<exists>ys res. for_each_batch (keyset_page (\<lambda>k. if k = 0 then [4, 2, 1, 3::nat] else [0, 1, 2, 3]) id) handle_all
        \<lparr> bo_batch_size = Some (Some 2), bo_initial_cursor = None, bo_max_batches = None \<rparr> [] =
          Some (ys, (Inr res :: (nat scan_error, batch_result) result)) \<and>
      sorted_wrt (<) ys \<and> {1, 2, 3} \<subseteq> set ys"
proof -
  let ?t = "\<lambda>k::nat. if k = 0 then [4, 2, 1, 3::nat] else [0, 1, 2, 3]"
  have "\<forall>k. distinct (map id (?t k))" "\<forall>k. id ` set (?t k) \<subseteq> {0..4}" "is_positive_integer (Some 2)"
    by (auto simp: is_positive_integer_def)
  from scan_visits_each_row_once [OF this(1) finite_atLeastAtMost this(2,3)]
  obtain ys and res :: batch_result where h: "for_each_batch (keyset_page ?t id) handle_all
        \<lparr> bo_batch_size = Some (Some 2), bo_initial_cursor = None, bo_max_batches = None \<rparr> [] =
          Some (ys, (Inr res :: (nat scan_error, batch_result) result))"
    "sorted_wrt (<) (map id ys)" "(\<Inter>k. set (?t k)) \<subseteq> set ys" by blast
  have "{1, 2, 3} \<subseteq> (\<Inter>k. set (?t k))" by auto
  with h show ?thesis by (metis (no_types, lifting) list.map_id order_trans)
qed

subsection \<open>Invalid options and early ends\<close>

lemma batch_loop_bounded:
  "b < m \<Longrightarrow> \<exists>s' r. batch_loop fetch on_batch limit (Some m) cursor b n s = Some (s', r) \<and>
     (\<forall>res. r = Inr res \<longrightarrow> br_batches res \<le> m)"
proof (induction "m - b" arbitrary: b cursor n s)
  case 0
  then show ?case by simp
next
  case (Suc d)
  show ?case
  proof (cases "fetch b cursor limit")
    case (Inl e)
    then show ?thesis by (subst batch_loop.simps) simp
  next
    case (Inr page)
    let ?xs = "case page of None \<Rightarrow> [] | Some p \<Rightarrow> bp_items p"
    obtain s1 dec where h: "on_batch ?xs b s = (s1, dec)" by (cases "on_batch ?xs b s")
    show ?thesis
    proof (cases "Suc b < m")
      case True
      have "d = m - Suc b" using Suc.hyps(2) by simp
      note ih = Suc.hyps(1) [OF this True]
      show ?thesis
        using Inr h ih Suc.prems
        by (subst batch_loop.simps) (auto simp: Let_def split: sum.splits option.splits)
    next
      case False
      with Inr h Suc.prems show ?thesis
        by (subst batch_loop.simps) (auto simp: Let_def split: sum.splits option.splits)
    qed
  qed
qed

text \<open>
  C1: with \<open>maxBatches\<close> set the scan ends after at most that many batches, whatever the
  fetcher and the handler do; an invalid batch size is refused before anything is fetched.
\<close>

theorem bounded_scan_terminates:
  assumes "bo_max_batches opts = Some m" and "is_positive_integer m"
  shows "\<exists>s' r. for_each_batch fetch on_batch opts s = Some (s', r) \<and>
    (\<forall>res. r = Inr res \<longrightarrow> br_batches res \<le> nat_of_number m) \<and>
    (\<not> is_positive_integer (case bo_batch_size opts of None \<Rightarrow> default_batch_size | Some x \<Rightarrow> x) \<longrightarrow>
       s' = s \<and> r = Inl BatchSizeInvalid)"
proof -
  have pos: "0 < nat_of_number m"
    using assms(2) by (auto simp: is_positive_integer_def nat_of_number_def split: option.splits)
  show ?thesis
    using batch_loop_bounded [OF pos, of fetch on_batch "nat_of_number (case bo_batch_size opts of None \<Rightarrow> default_batch_size | Some x \<Rightarrow> x)"
        "bo_initial_cursor opts" 0 s] assms
    by (cases "is_positive_integer (case bo_batch_size opts of None \<Rightarrow> default_batch_size | Some x \<Rightarrow> x)")
      (auto simp: for_each_batch_def Let_def)
qed

theorem bounded_scan_terminates_witness:
  "\<exists>s' r. for_each_batch (\<lambda>k c n. (Inr (Some \<lparr> bp_items = [k], bp_next = Some ''x'' \<rparr>) :: (nat, (nat, string) bpage option) result))
      handle_all \<lparr> bo_batch_size = Some (Some 1), bo_initial_cursor = None, bo_max_batches = Some (Some 3) \<rparr> [] =
      Some (s', r) \<and> (\<forall>res. r = Inr res \<longrightarrow> br_batches res \<le> 3)"
proof -
  have "is_positive_integer (Some 3)" by (simp add: is_positive_integer_def)
  from bounded_scan_terminates [OF _ this, of "\<lparr> bo_batch_size = Some (Some 1), bo_initial_cursor = None, bo_max_batches = Some (Some 3) \<rparr>"
      "\<lambda>k c n. (Inr (Some \<lparr> bp_items = [k], bp_next = Some ''x'' \<rparr>) :: (nat, (nat, string) bpage option) result)" handle_all "[]"]
  show ?thesis by (auto simp: nat_of_number_def)
qed

end
