(* ===== verification/Reconciliation.thy ===== *)
theory Reconciliation
  imports SettlementApi BatchScan "HOL-Library.List_Lexorder" "HOL-Library.Char_ord"
begin

section \<open>Reconciliation with the gateway's records\<close>

text \<open>
  Model of \<open>computeReconciliationDiff\<close> (\<open>settlement-amounts.ts\<close>) and of the two handlers
  \<open>GET /api/settlements/reconcile\<close> and \<open>GET /api/settlements/reconcile/report\<close>
  (\<open>settlement-engine/src/index.ts\<close>). The gateway's rows come over HTTP: a field of such a row is
  a JSON string, a number, or absent (\<open>null\<close> or missing). The printing of a JavaScript number
  is the argument \<open>num\<close>, the parsing of a date the argument \<open>date_ms\<close>. Metrics and logging
  are left out.
\<close>

datatype rfield = FAbsent | FStr string | FNum rat

record recon_row =
  rr_id :: string
  rr_status :: rfield
  rr_gross :: rfield
  rr_total :: rfield
  rr_fee :: rfield
  rr_net :: rfield
  rr_asset :: rfield
  rr_bps :: rfield
  rr_merchant :: rfield

definition row_of_settlement :: "settlement \<Rightarrow> recon_row" where
  "row_of_settlement s = \<lparr> rr_id = s_id s, rr_status = FStr (s_status s), rr_gross = FStr (s_gross_amount s),
     rr_total = FStr (s_total_amount s), rr_fee = FStr (s_fee_amount s), rr_net = FStr (s_net_amount s),
     rr_asset = FStr (s_asset s), rr_bps = FNum (s_fee_bps s), rr_merchant = FStr (s_merchant_id s) \<rparr>"

definition coalesce :: "rfield \<Rightarrow> rfield \<Rightarrow> rfield" where
  "coalesce a b = (if a = FAbsent then b else a)"

text \<open>\<open>parseBN\<close>: a missing or non-finite value counts as zero.\<close>

definition parse_bn :: "'n bignum_ops \<Rightarrow> rfield \<Rightarrow> 'n" where
  "parse_bn B v =
     (let bn = (case v of FAbsent \<Rightarrow> bn_zero B | FStr s \<Rightarrow> bn_parse B s | FNum q \<Rightarrow> bn_number B q)
      in if bn_is_finite B bn then bn else bn_zero B)"

subsection \<open>The comparison of two record sets\<close>

record amounts_view =
  av_gross :: rfield
  av_fee :: rfield
  av_net :: rfield

record recon_mismatch =
  rm_id :: string
  rm_ledger :: amounts_view
  rm_expected :: amounts_view
  rm_diffs :: "string list"

definition amounts_of :: "recon_row \<Rightarrow> amounts_view" where
  "amounts_of r = \<lparr> av_gross = coalesce (rr_gross r) (rr_total r), av_fee = rr_fee r, av_net = rr_net r \<rparr>"

definition amount_diffs :: "'n bignum_ops \<Rightarrow> amounts_view \<Rightarrow> amounts_view \<Rightarrow> string list" where
  "amount_diffs B a b =
     (let eq = (\<lambda>x y. bn_eq B (parse_bn B x) (parse_bn B y))
      in (if eq (av_gross a) (av_gross b) then [] else [''grossAmount'']) @
         (if eq (av_fee a) (av_fee b) then [] else [''feeAmount'']) @
         (if eq (av_net a) (av_net b) then [] else [''netAmount'']))"

fun diff_rows ::
  "'n bignum_ops \<Rightarrow> (string, recon_row) jsmap \<Rightarrow> (string \<times> recon_row) list \<Rightarrow> string list \<times> recon_mismatch list" where
  "diff_rows B gateway [] = ([], [])"
| "diff_rows B gateway ((i, l) # ls) =
     (case diff_rows B gateway ls of (matched, mismatched) \<Rightarrow>
       (case map_of gateway i of
          None \<Rightarrow> (matched, mismatched)
        | Some g \<Rightarrow>
            (let ds = amount_diffs B (amounts_of l) (amounts_of g)
             in if ds = [] then (i # matched, mismatched)
                else (matched, \<lparr> rm_id = i, rm_ledger = amounts_of l, rm_expected = amounts_of g, rm_diffs = ds \<rparr> # mismatched))))"

definition compute_reconciliation_diff ::
  "'n bignum_ops \<Rightarrow> recon_row list \<Rightarrow> recon_row list \<Rightarrow> string list \<times> recon_mismatch list" where
  "compute_reconciliation_diff B local gateway = diff_rows B (js_index rr_id gateway) (js_index rr_id local)"

subsection \<open>The checks of one settlement\<close>

datatype inconsistency =
    AmountMismatch string string string string string
  | FeeCalculation string string rat string string
  | MissingMerchant string string

definition expected_fee :: "'n bignum_ops \<Rightarrow> 'n \<Rightarrow> rat \<Rightarrow> 'n" where
  "expected_fee B gross bps = bn_trunc B (bn_div B (bn_times B gross (bn_number B bps)) (bn_number B 10000))"

definition check_settlement :: "'n bignum_ops \<Rightarrow> string list \<Rightarrow> settlement \<Rightarrow> inconsistency option" where
  "check_settlement B merchants s =
     (let gross = parse_bn B (FStr (s_gross_amount s));
          fee = parse_bn B (FStr (s_fee_amount s));
          net = parse_bn B (FStr (s_net_amount s));
          expected_net = bn_minus B gross fee;
          efee = expected_fee B gross (s_fee_bps s)
      in if \<not> bn_eq B expected_net net
         then Some (AmountMismatch (s_id s) (s_gross_amount s) (s_fee_amount s) (s_net_amount s) (bn_to_string B expected_net))
         else if bn_greater B (bn_abs B (bn_minus B efee fee)) (bn_number B 1)
         then Some (FeeCalculation (s_id s) (s_gross_amount s) (s_fee_bps s) (s_fee_amount s) (bn_to_string B efee))
         else if s_merchant_id s \<notin> set merchants then Some (MissingMerchant (s_id s) (s_merchant_id s))
         else None)"

subsection \<open>Field-level differences\<close>

definition compare_fields :: "(string \<times> (recon_row \<Rightarrow> rfield)) list" where
  "compare_fields = [(''status'', rr_status), (''grossAmount'', rr_gross), (''feeAmount'', rr_fee),
     (''netAmount'', rr_net), (''asset'', rr_asset), (''feeBps'', rr_bps), (''merchantId'', rr_merchant)]"

definition field_text :: "(rat \<Rightarrow> string) \<Rightarrow> rfield \<Rightarrow> string" where
  "field_text num v = (case v of FAbsent \<Rightarrow> '''' | FStr s \<Rightarrow> s | FNum q \<Rightarrow> num q)"

record field_diff =
  fd_id :: string
  fd_field :: string
  fd_gateway :: string
  fd_engine :: "string option"

definition reconcile_diff_cap :: nat where
  "reconcile_diff_cap = 100"

definition pair_diffs :: "(rat \<Rightarrow> string) \<Rightarrow> string \<Rightarrow> recon_row \<Rightarrow> recon_row \<Rightarrow> field_diff list" where
  "pair_diffs num i l g =
     map (\<lambda>(n, f). \<lparr> fd_id = i, fd_field = n, fd_gateway = field_text num (f g), fd_engine = Some (field_text num (f l)) \<rparr>)
       (filter (\<lambda>(n, f). field_text num (f l) \<noteq> field_text num (f g)) compare_fields)"

definition missing_diffs :: "(rat \<Rightarrow> string) \<Rightarrow> string \<Rightarrow> recon_row \<Rightarrow> field_diff list" where
  "missing_diffs num i g =
     map (\<lambda>(n, f). \<lparr> fd_id = i, fd_field = n, fd_gateway = field_text num (f g), fd_engine = None \<rparr>) compare_fields"

fun local_diffs ::
  "(rat \<Rightarrow> string) \<Rightarrow> (string, recon_row) jsmap \<Rightarrow> (string \<times> recon_row) list \<Rightarrow> field_diff list \<Rightarrow> field_diff list \<times> bool" where
  "local_diffs num gateway [] acc = (acc, False)"
| "local_diffs num gateway ((i, l) # ls) acc =
     (case map_of gateway i of
        None \<Rightarrow> local_diffs num gateway ls acc
      | Some g \<Rightarrow>
          (let acc' = acc @ pair_diffs num i l g
           in if reconcile_diff_cap \<le> length acc' then (acc', True) else local_diffs num gateway ls acc'))"

text \<open>The inner loop pushes one field at a time and stops at the cap.\<close>

fun push_capped :: "field_diff list \<Rightarrow> field_diff list \<Rightarrow> field_diff list \<times> bool" where
  "push_capped [] acc = (acc, False)"
| "push_capped (d # ds) acc =
     (let acc' = acc @ [d] in if reconcile_diff_cap \<le> length acc' then (acc', True) else push_capped ds acc')"

fun gateway_diffs ::
  "(rat \<Rightarrow> string) \<Rightarrow> (string, recon_row) jsmap \<Rightarrow> (string \<times> recon_row) list \<Rightarrow> field_diff list \<Rightarrow> field_diff list \<times> bool" where
  "gateway_diffs num local [] acc = (acc, False)"
| "gateway_diffs num local ((i, g) # gs) acc =
     (if js_has i local then gateway_diffs num local gs acc
      else case push_capped (missing_diffs num i g) acc of
             (acc', True) \<Rightarrow> (acc', True)
           | (acc', False) \<Rightarrow> gateway_diffs num local gs acc')"

definition detail_diffs ::
  "(rat \<Rightarrow> string) \<Rightarrow> (string, recon_row) jsmap \<Rightarrow> (string, recon_row) jsmap \<Rightarrow> field_diff list \<times> bool" where
  "detail_diffs num local gateway =
     (case (case local_diffs num gateway local [] of
              (ds, True) \<Rightarrow> (ds, True)
            | (ds, False) \<Rightarrow> gateway_diffs num local gateway ds) of
        (ds, truncated) \<Rightarrow> (take reconcile_diff_cap ds, truncated))"

subsection \<open>Reading a table page by page\<close>

text \<open>
  The loop both handlers use: pages in the order of the key, each after the last key seen, until
  a short page. The table may change between two pages. \<open>None\<close> when the loop does not end.
\<close>

partial_function (option) key_scan ::
  "(nat \<Rightarrow> 'a list) \<Rightarrow> ('a \<Rightarrow> 'c::linorder) \<Rightarrow> nat \<Rightarrow> 'c option \<Rightarrow> nat \<Rightarrow> 'a list \<Rightarrow> 'a list option" where
  "key_scan table key limit cursor call seen =
     (let page = take limit (filter (after_cursor key cursor) (sort_key key (table call)))
      in if page = [] then Some seen
         else if length page < limit then Some (seen @ page)
         else key_scan table key limit (Some (key (List.last page))) (Suc call) (seen @ page))"

lemma key_scan_of_batch_loop:
  assumes "batch_loop fetch on_batch limit maxb cursor b n s = Some y"
  shows "fetch = keyset_page table key \<longrightarrow> on_batch = handle_all \<longrightarrow> maxb = None \<longrightarrow> 0 < limit \<longrightarrow>
    (\<forall>res. snd y = Inr res \<longrightarrow> key_scan table key limit cursor b s = Some (fst y))"
proof (rule batch_loop.raw_induct [OF _ assms, where P = "\<lambda>fetch on_batch limit maxb cursor b n s y.
    fetch = keyset_page table key \<longrightarrow> on_batch = handle_all \<longrightarrow> maxb = None \<longrightarrow> 0 < limit \<longrightarrow>
    (\<forall>res. snd y = Inr res \<longrightarrow> key_scan table key limit cursor b s = Some (fst y))"], goal_cases)
  case (1 loop fetch on_batch limit maxb cursor b n s y)
  show ?case
  proof (intro impI allI)
    fix res
    assume h: "fetch = keyset_page table key" "on_batch = handle_all" "maxb = None" "0 < limit" "snd y = Inr res"
    define xs where "xs = take limit (filter (after_cursor key cursor) (sort_key key (table b)))"
    have len: "length xs \<le> limit" by (simp add: xs_def)
    show "key_scan table key limit cursor b s = Some (fst y)"
    proof (cases "xs = [] \<or> length xs < limit")
      case True
      with 1(2) h show ?thesis
        by (subst key_scan.simps)
          (auto simp: keyset_page_def handle_all_def Let_def xs_def [symmetric])
    next
      case False
      with len have "length xs = limit" "xs \<noteq> []" by auto
      with 1(2) h have "loop fetch on_batch limit maxb (Some (key (List.last xs))) (Suc b) (n + limit) (s @ xs) = Some y"
        by (simp add: keyset_page_def handle_all_def Let_def xs_def [symmetric])
      from 1(1) [OF this] h have "key_scan table key limit (Some (key (List.last xs))) (Suc b) (s @ xs) = Some (fst y)"
        by simp
      with False show ?thesis
        by (subst key_scan.simps) (simp add: Let_def xs_def [symmetric])
    qed
  qed
qed

text \<open>
  The scan ends and returns every row that is in the table throughout, in key order and once.
\<close>

lemma key_scan_complete:
  fixes key :: "'a \<Rightarrow> 'c::linorder"
  assumes "\<forall>k. distinct (map key (table k))" "finite U" "\<forall>k. key ` set (table k) \<subseteq> U" "0 < limit"
  shows "\<exists>ys. key_scan table key limit None 0 [] = Some ys \<and> sorted_wrt (<) (map key ys) \<and>
    set ys \<subseteq> (\<Union>k. set (table k)) \<and> (\<Inter>k. set (table k)) \<subseteq> set ys"
proof -
  from keyset_scan_from [OF assms, of None 0 0 "[]"] obtain ys and res :: batch_result where
    run: "batch_loop (keyset_page table key) handle_all limit None None 0 0 [] = Some (ys, (Inr res :: (unit scan_error, batch_result) result))"
    and ys: "sorted_wrt (<) (map key ys)" "set ys \<subseteq> (\<Union>k. set (table k))"
      "\<forall>r. (\<forall>k. r \<in> set (table k)) \<longrightarrow> r \<in> set ys"
    by (auto simp: after_cursor_def)
  from key_scan_of_batch_loop [OF run, of table key] assms(4)
  have "key_scan table key limit None 0 [] = Some ys" by simp
  with ys show ?thesis by auto
qed

subsection \<open>GET /api/settlements/reconcile\<close>

record recon_query =
  rq_merchant :: "string option"
  rq_from :: "string option"
  rq_to :: "string option"
  rq_detail :: "string option"

definition given :: "string option \<Rightarrow> string option" where
  "given v = (case v of None \<Rightarrow> None | Some s \<Rightarrow> if s = '''' then None else Some s)"

text \<open>A date bound: \<open>None\<close> for an invalid date, which the database client refuses.\<close>

definition date_bound :: "(string \<Rightarrow> int option) \<Rightarrow> string option \<Rightarrow> int option option" where
  "date_bound date_ms v = (case given v of None \<Rightarrow> Some None | Some s \<Rightarrow> map_option Some (date_ms s))"

definition recon_where :: "(string \<Rightarrow> int option) \<Rightarrow> recon_query \<Rightarrow> (settlement \<Rightarrow> bool) option" where
  "recon_where date_ms q =
     (case (date_bound date_ms (rq_from q), date_bound date_ms (rq_to q)) of
        (Some lo, Some hi) \<Rightarrow> Some (\<lambda>r.
          (case given (rq_merchant q) of None \<Rightarrow> True | Some m \<Rightarrow> s_merchant_id r = m) \<and>
          (case lo of None \<Rightarrow> True | Some t \<Rightarrow> t \<le> s_initiated_at r) \<and>
          (case hi of None \<Rightarrow> True | Some t \<Rightarrow> s_initiated_at r \<le> t))
      | _ \<Rightarrow> None)"

definition recon_order :: "settlement \<Rightarrow> settlement \<Rightarrow> bool" where
  "recon_order a b \<longleftrightarrow> s_initiated_at b \<le> s_initiated_at a"

text \<open>
  What the call of the gateway gives: an error (or a status other than 2xx), or a body, whose
  \<open>data\<close> may be missing.
\<close>

datatype gateway_answer = GatewayDown | GatewayBody "recon_row list option"

record recon_inputs =
  ri_find_fails :: bool
  ri_gateway :: gateway_answer
  ri_merchants :: "nat \<Rightarrow> string list"
  ri_merchants_fail :: bool

type_synonym amount_totals = "string \<times> string \<times> string"

record recon_report =
  rp_total :: nat
  rp_valid :: nat
  rp_missing :: "string list"
  rp_extra :: "string list"
  rp_matched :: "string list"
  rp_mismatched :: "recon_mismatch list"
  rp_inconsistencies :: "inconsistency list"
  rp_status_counts :: "(string, nat) jsmap"
  rp_totals :: amount_totals
  rp_gateway_totals :: amount_totals
  rp_detail :: "(field_diff list \<times> bool) option"

datatype recon_response = ReconGatewayTimeout | ReconFailed | Reconciled recon_report

definition bn_total :: "'n bignum_ops \<Rightarrow> ('r \<Rightarrow> rfield) \<Rightarrow> 'r list \<Rightarrow> 'n" where
  "bn_total B f rs = fold (\<lambda>r acc. bn_plus B acc (parse_bn B (f r))) rs (bn_zero B)"

definition totals_of :: "'n bignum_ops \<Rightarrow> recon_row list \<Rightarrow> amount_totals" where
  "totals_of B rs = (bn_to_string B (bn_total B rr_gross rs), bn_to_string B (bn_total B rr_fee rs),
     bn_to_string B (bn_total B rr_net rs))"

definition status_counts :: "settlement list \<Rightarrow> (string, nat) jsmap" where
  "status_counts ss = fold (\<lambda>s m. js_set (s_status s) ((case map_of m (s_status s) of None \<Rightarrow> 0 | Some n \<Rightarrow> n) + 1) m) ss
     [(''pending'', 0), (''processing'', 0), (''completed'', 0), (''failed'', 0)]"

definition absent_from :: "(string, recon_row) jsmap \<Rightarrow> (string, recon_row) jsmap \<Rightarrow> string list" where
  "absent_from m other = filter (\<lambda>i. \<not> js_has i other) (map fst m)"

definition merchant_page_size :: nat where
  "merchant_page_size = 1000"

text \<open>The report over the settlements read, the gateway's rows and the merchants read.\<close>

definition recon_report_of ::
  "'n bignum_ops \<Rightarrow> (rat \<Rightarrow> string) \<Rightarrow> bool \<Rightarrow> settlement list \<Rightarrow> recon_row list \<Rightarrow> string list \<Rightarrow> recon_report" where
  "recon_report_of B num detail ss gws merchants =
     (let locals = map row_of_settlement ss;
          local = js_index rr_id locals;
          gateway = js_index rr_id gws;
          missing = absent_from gateway local;
          extra = absent_from local gateway
      in case compute_reconciliation_diff B locals gws of
           (matched, mismatched) \<Rightarrow>
             \<lparr> rp_total = length ss,
               rp_valid = (if missing \<noteq> [] \<or> extra \<noteq> [] \<or> mismatched \<noteq> [] then 0 else 1),
               rp_missing = missing, rp_extra = extra, rp_matched = matched, rp_mismatched = mismatched,
               rp_inconsistencies = List.map_filter (check_settlement B merchants) ss,
               rp_status_counts = status_counts ss,
               rp_totals = totals_of B locals, rp_gateway_totals = totals_of B gws,
               rp_detail = (if detail then Some (detail_diffs num local gateway) else None) \<rparr>)"

text \<open>\<open>None\<close> when the scan of the merchants does not end.\<close>

definition reconcile ::
  "'db store_ops \<Rightarrow> 'n bignum_ops \<Rightarrow> (rat \<Rightarrow> string) \<Rightarrow> (string \<Rightarrow> int option) \<Rightarrow> recon_inputs \<Rightarrow> recon_query \<Rightarrow>
   'db \<Rightarrow> recon_response option" where
  "reconcile S B num date_ms inp q db =
     (case recon_where date_ms q of
        None \<Rightarrow> Some ReconFailed
      | Some P \<Rightarrow>
          if ri_find_fails inp then Some ReconFailed
          else case ri_gateway inp of
            GatewayDown \<Rightarrow> Some ReconGatewayTimeout
          | GatewayBody None \<Rightarrow> Some ReconFailed
          | GatewayBody (Some gws) \<Rightarrow>
              if ri_merchants_fail inp then Some ReconFailed
              else (case key_scan (ri_merchants inp) (\<lambda>m. m) merchant_page_size None 0 [] of
                  None \<Rightarrow> None
                | Some merchants \<Rightarrow>
                    Some (Reconciled (recon_report_of B num (rq_detail q = Some ''true'')
                            (st_find_many S db P recon_order None) gws merchants))))"

subsection \<open>GET /api/settlements/reconcile/report\<close>

definition report_fields :: "(string \<times> (recon_row \<Rightarrow> rfield)) list" where
  "report_fields = [(''merchantId'', rr_merchant), (''totalAmount'', rr_total), (''grossAmount'', rr_gross),
     (''feeAmount'', rr_fee), (''netAmount'', rr_net), (''feeBps'', rr_bps), (''asset'', rr_asset), (''status'', rr_status)]"

datatype line_item =
    ItemMissing string
  | ItemExtra string
  | ItemMismatched string "(string \<times> rfield \<times> rfield) list"

definition mismatched_fields :: "(rat \<Rightarrow> string) \<Rightarrow> recon_row \<Rightarrow> recon_row \<Rightarrow> (string \<times> rfield \<times> rfield) list" where
  "mismatched_fields num l g =
     map (\<lambda>(n, f). (n, f l, f g)) (filter (\<lambda>(n, f). field_text num (f l) \<noteq> field_text num (f g)) report_fields)"

record summary_report =
  sr_total_local :: nat
  sr_total_gateway :: nat
  sr_matched :: int
  sr_missing :: nat
  sr_extra :: nat
  sr_mismatched :: nat
  sr_clean :: bool
  sr_items :: "line_item list"
  sr_differences :: amount_totals
  sr_alerts :: "string list"

text \<open>\<open>a || b\<close> on two fields: an empty string and the number zero are falsy.\<close>

definition truthy_or :: "rfield \<Rightarrow> rfield \<Rightarrow> rfield" where
  "truthy_or a b = (if a = FAbsent \<or> a = FStr '''' \<or> a = FNum 0 then b else a)"

definition difference :: "'n bignum_ops \<Rightarrow> (recon_row \<Rightarrow> rfield) \<Rightarrow> recon_row list \<Rightarrow> recon_row list \<Rightarrow> 'n" where
  "difference B f ls gs = bn_minus B (bn_total B f ls) (bn_total B f gs)"

definition bn_is_zero :: "'n bignum_ops \<Rightarrow> 'n \<Rightarrow> bool" where
  "bn_is_zero B a \<longleftrightarrow> bn_eq B a (bn_zero B)"

definition summary_of :: "'n bignum_ops \<Rightarrow> (rat \<Rightarrow> string) \<Rightarrow> recon_row list \<Rightarrow> recon_row list \<Rightarrow> summary_report" where
  "summary_of B num ls gs =
     (let missing = filter (\<lambda>r. rr_id r \<notin> rr_id ` set ls) gs;
          extra = filter (\<lambda>r. rr_id r \<notin> rr_id ` set gs) ls;
          local = js_index rr_id ls;
          gateway = js_index rr_id gs;
          both = filter (\<lambda>i. i \<in> rr_id ` set gs) (map fst local);
          items = filter (\<lambda>(i, fs). fs \<noteq> [])
            (map (\<lambda>i. (i, mismatched_fields num (the (map_of local i)) (the (map_of gateway i)))) both);
          gross = difference B (\<lambda>r. truthy_or (rr_gross r) (rr_total r)) ls gs;
          fee = difference B rr_fee ls gs;
          net = difference B rr_net ls gs;
          n = digits_of_nat
      in \<lparr> sr_total_local = length ls, sr_total_gateway = length gs,
           sr_matched = int (length both) - int (length items),
           sr_missing = length missing, sr_extra = length extra, sr_mismatched = length items,
           sr_clean = (missing = [] \<and> extra = [] \<and> items = []),
           sr_items = map (\<lambda>r. ItemMissing (rr_id r)) missing @ map (\<lambda>r. ItemExtra (rr_id r)) extra @
             map (\<lambda>(i, fs). ItemMismatched i fs) items,
           sr_differences = (bn_to_string B gross, bn_to_string B fee, bn_to_string B net),
           sr_alerts =
             (if missing = [] then [] else [n (length missing) @ '' settlement(s) in gateway but missing in local database'']) @
             (if extra = [] then [] else [n (length extra) @ '' settlement(s) in local database but missing in gateway'']) @
             (if items = [] then [] else [n (length items) @ '' settlement(s) with field mismatches'']) @
             (if bn_is_zero B gross then [] else [''Gross amount difference: '' @ bn_to_string B gross]) @
             (if bn_is_zero B fee then [] else [''Fee amount difference: '' @ bn_to_string B fee]) @
             (if bn_is_zero B net then [] else [''Net amount difference: '' @ bn_to_string B net]) \<rparr>)"

datatype summary_response = SummaryGatewayTimeout | SummaryFailed | Summarized summary_report

definition report_page_size :: nat where
  "report_page_size = 500"

text \<open>\<open>table k\<close> is the content of the settlement table at the \<open>k\<close>th page read.\<close>

definition reconcile_report ::
  "'n bignum_ops \<Rightarrow> (rat \<Rightarrow> string) \<Rightarrow> (string \<Rightarrow> int option) \<Rightarrow> recon_inputs \<Rightarrow> recon_query \<Rightarrow>
   (nat \<Rightarrow> settlement list) \<Rightarrow> summary_response option" where
  "reconcile_report B num date_ms inp q table =
     (case recon_where date_ms q of
        None \<Rightarrow> Some SummaryFailed
      | Some P \<Rightarrow>
          if ri_find_fails inp then Some SummaryFailed
          else (case key_scan (\<lambda>k. filter P (table k)) s_id report_page_size None 0 [] of
              None \<Rightarrow> None
            | Some ss \<Rightarrow>
                (case ri_gateway inp of
                   GatewayDown \<Rightarrow> Some SummaryGatewayTimeout
                 | GatewayBody None \<Rightarrow> Some SummaryFailed
                 | GatewayBody (Some gws) \<Rightarrow> Some (Summarized (summary_of B num (map row_of_settlement ss) gws)))))"

subsection \<open>What a reconciliation shows\<close>

definition amounts_agree :: "'n bignum_ops \<Rightarrow> recon_row \<Rightarrow> recon_row \<Rightarrow> bool" where
  "amounts_agree B l g \<longleftrightarrow> amount_diffs B (amounts_of l) (amounts_of g) = []"

lemma diff_rows_eq:
  "diff_rows B gateway ls = (matched, mismatched) \<Longrightarrow>
     matched = map fst (filter (\<lambda>(i, l). \<exists>g. map_of gateway i = Some g \<and> amounts_agree B l g) ls) \<and>
     map rm_id mismatched = map fst (filter (\<lambda>(i, l). \<exists>g. map_of gateway i = Some g \<and> \<not> amounts_agree B l g) ls)"
proof (induction ls arbitrary: matched mismatched)
  case Nil
  then show ?case by simp
next
  case (Cons p ls)
  obtain i l where p: "p = (i, l)" by (cases p)
  obtain m n where r: "diff_rows B gateway ls = (m, n)" by (cases "diff_rows B gateway ls")
  from Cons.IH [OF r] Cons.prems show ?case
    by (auto simp: p r Let_def amounts_agree_def split: option.splits if_splits)
qed

lemma distinct_filter_keys: "distinct (map fst m) \<Longrightarrow> distinct (map fst (filter Q m))"
  by (induction m) auto

lemma length_split_keys:
  "length m = length (filter Q m) + length (filter (\<lambda>x. \<not> Q x) m)"
  using sum_length_filter_compl [of Q m] by simp

text \<open>A map splits into what the other map lacks, what agrees with it and what does not.\<close>

lemma absent_from_length: "length (absent_from m other) = length (filter (\<lambda>(i, l). map_of other i = None) m)"
  by (induction m) (auto simp: absent_from_def)

lemma three_way_split:
  "length m = length (filter (\<lambda>(i, l). map_of other i = None) m) +
     length (filter (\<lambda>(i, l). \<exists>g. map_of other i = Some g \<and> A l g) m) +
     length (filter (\<lambda>(i, l). \<exists>g. map_of other i = Some g \<and> \<not> A l g) m)"
  by (induction m) auto

lemma js_index_keys: "fst ` set (js_index key rs) = key ` set rs"
  by (rule keys_js_index)

lemma map_of_js_index_None: "map_of (js_index key rs) i = None \<longleftrightarrow> i \<notin> key ` set rs"
  by (simp add: map_of_eq_None_iff js_index_keys)

lemma set_absent: "set (absent_from (js_index rr_id rs) (js_index rr_id os)) = rr_id ` set rs - rr_id ` set os"
  unfolding absent_from_def set_filter set_map js_index_keys by (auto simp: map_of_js_index_None)

lemma js_index_distinct_eq:
  "distinct (map key rs) \<Longrightarrow> js_index key rs = map (\<lambda>r. (key r, r)) rs"
proof -
  have "fold (\<lambda>r m. js_set (key r) r m) rs m = m @ map (\<lambda>r. (key r, r)) rs"
    if "distinct (map key rs)" "key ` set rs \<inter> fst ` set m = {}" for m
    using that
  proof (induction rs arbitrary: m)
    case Nil
    then show ?case by simp
  next
    case (Cons r rs)
    have "js_set (key r) r m = m @ [(key r, r)]" if "key r \<notin> fst ` set m"
      using that by (induction m) auto
    with Cons.prems Cons.IH [of "m @ [(key r, r)]"] show ?case by auto
  qed
  then show "distinct (map key rs) \<Longrightarrow> ?thesis" by (simp add: js_index_def)
qed

definition partition_ok :: "string set \<Rightarrow> string set \<Rightarrow> recon_report \<Rightarrow> bool" where
  "partition_ok L G rep \<longleftrightarrow>
     set (rp_missing rep) = G - L \<and> set (rp_extra rep) = L - G \<and>
     set (rp_matched rep) \<union> rm_id ` set (rp_mismatched rep) = L \<inter> G \<and>
     set (rp_matched rep) \<inter> rm_id ` set (rp_mismatched rep) = {} \<and>
     distinct (rp_matched rep) \<and> distinct (map rm_id (rp_mismatched rep)) \<and>
     length (rp_matched rep) + length (rp_mismatched rep) + length (rp_extra rep) = card L \<and>
     rp_valid rep = (if L = G \<and> rp_mismatched rep = [] then 1 else 0)"

lemma recon_report_partition:
  assumes "distinct (map s_id ss)"
  shows "partition_ok (s_id ` set ss) (rr_id ` set gws) (recon_report_of B num detail ss gws merchants)"
proof -
  let ?ls = "map row_of_settlement ss"
  let ?local = "js_index rr_id ?ls" and ?gateway = "js_index rr_id gws"
  obtain matched mismatched where d: "diff_rows B ?gateway ?local = (matched, mismatched)"
    by (metis prod.exhaust)
  note eqs = diff_rows_eq [OF d]
  have ids: "map rr_id ?ls = map s_id ss" by (simp add: row_of_settlement_def)
  have L: "rr_id ` set ?ls = s_id ` set ss" by (simp add: row_of_settlement_def image_image)
  have dk: "distinct (map fst ?local)" by simp
  have keys: "fst ` set ?local = s_id ` set ss" by (simp only: js_index_keys L)
  have inj: "l = l'" if "(i, l) \<in> set ?local" "(i, l') \<in> set ?local" for i l l'
    using that dk by (metis eq_key_imp_eq_value)
  have cov: "set matched \<union> rm_id ` set mismatched = s_id ` set ss \<inter> rr_id ` set gws"
  proof -
    have "set matched \<union> set (map rm_id mismatched) = fst ` {p \<in> set ?local. map_of ?gateway (fst p) \<noteq> None}"
      unfolding conjunct1 [OF eqs] conjunct2 [OF eqs] set_map set_filter image_Un [symmetric]
      by (rule arg_cong [where f = "image fst"]) (auto simp del: map_of_eq_Some_iff)
    also have "\<dots> = {i \<in> fst ` set ?local. map_of ?gateway i \<noteq> None}" by auto
    also have "\<dots> = s_id ` set ss \<inter> rr_id ` set gws"
      unfolding keys map_of_js_index_None by auto
    finally show ?thesis by simp
  qed
  have disj: "set matched \<inter> rm_id ` set mismatched = {}"
  proof -
    have "i \<notin> set (map rm_id mismatched)" if "i \<in> set matched" for i
    proof
      assume "i \<in> set (map rm_id mismatched)"
      with that eqs obtain l l' g g' where "(i, l) \<in> set ?local" "(i, l') \<in> set ?local"
        "(i, g) \<in> set ?gateway" "(i, g') \<in> set ?gateway" "amounts_agree B l g" "\<not> amounts_agree B l' g'" by auto
      moreover have "g = g'" using calculation(3,4) distinct_js_index by (metis eq_key_imp_eq_value)
      ultimately show False using inj by blast
    qed
    then show ?thesis by auto
  qed
  have dist: "distinct matched" "distinct (map rm_id mismatched)"
    by (simp_all only: conjunct1 [OF eqs] conjunct2 [OF eqs] distinct_filter_keys [OF dk])
  have len: "length matched + length mismatched + length (absent_from ?local ?gateway) = card (s_id ` set ss)"
  proof -
    have "length ?local = card (s_id ` set ss)"
      using dk keys by (metis distinct_card length_map list.set_map)
    moreover have "length mismatched = length (filter (\<lambda>(i, l). \<exists>g. map_of ?gateway i = Some g \<and> \<not> amounts_agree B l g) ?local)"
    proof -
      have "length (map rm_id mismatched) = length (filter (\<lambda>(i, l). \<exists>g. map_of ?gateway i = Some g \<and> \<not> amounts_agree B l g) ?local)"
        by (simp only: conjunct2 [OF eqs] length_map)
      then show ?thesis by simp
    qed
    ultimately show ?thesis
      using three_way_split [of ?local ?gateway "amounts_agree B"] eqs by (simp add: absent_from_length)
  qed
  have ab: "set (absent_from ?gateway ?local) = rr_id ` set gws - s_id ` set ss"
    "set (absent_from ?local ?gateway) = s_id ` set ss - rr_id ` set gws"
    using set_absent [of gws ?ls] set_absent [of ?ls gws] by (simp_all only: L)
  have LG: "absent_from ?gateway ?local = [] \<and> absent_from ?local ?gateway = [] \<longleftrightarrow> s_id ` set ss = rr_id ` set gws"
    unfolding set_empty [symmetric] ab by blast
  let ?rep = "recon_report_of B num detail ss gws merchants"
  have rep: "rp_missing ?rep = absent_from ?gateway ?local" "rp_extra ?rep = absent_from ?local ?gateway"
    "rp_matched ?rep = matched" "rp_mismatched ?rep = mismatched"
    "rp_valid ?rep = (if absent_from ?gateway ?local \<noteq> [] \<or> absent_from ?local ?gateway \<noteq> [] \<or> mismatched \<noteq> [] then 0 else 1)"
    by (simp_all add: recon_report_of_def compute_reconciliation_diff_def d Let_def)
  show ?thesis
    unfolding partition_ok_def rep ab
    using cov disj dist len LG by presburger
qed

lemma row_order_recon [simp]: "row_order recon_order"
  by (auto simp: row_order_def recon_order_def)

context settlement_store
begin

lemma all_rows:
  assumes "invar db" "row_order le"
  shows "set (st_find_many S db P le None) = {r. P r \<and> (\<exists>i. st_find S db i = Some r)}"
    and "distinct (map s_id (st_find_many S db P le None))"
proof -
  obtain xs where xs: "st_find_many S db P le None = xs" "distinct xs"
    "set xs = {r. P r \<and> (\<exists>i. st_find S db i = Some r)}"
    using find_many [OF assms, of P None] by (auto simp: take_opt_def)
  then show "set (st_find_many S db P le None) = {r. P r \<and> (\<exists>i. st_find S db i = Some r)}" by simp
  have "inj_on s_id (set xs)"
    unfolding xs(3) inj_on_def using find_id [OF assms(1)] by fastforce
  with xs show "distinct (map s_id (st_find_many S db P le None))" by (simp add: distinct_map)
qed

end

text \<open>
  C25: a reconciliation puts every settlement id of the two sides in exactly one class: missing
  here, missing there, matched or mismatched. The counts add up to the settlements read, and
  \<open>valid\<close> is 1 or 0, not a number of settlements.
\<close>

theorem reconcile_partition:
  assumes "settlement_store S invar" and "invar db"
    and "recon_where date_ms q = Some P" and "ri_gateway inp = GatewayBody (Some gws)"
    and "reconcile S B num date_ms inp q db = Some (Reconciled rep)"
  shows "partition_ok (s_id ` {r. P r \<and> (\<exists>i. st_find S db i = Some r)}) (rr_id ` set gws) rep"
proof -
  note rows = settlement_store.all_rows [OF assms(1,2) row_order_recon, of P]
  from assms(3,4,5) obtain merchants where
    "rep = recon_report_of B num (rq_detail q = Some ''true'') (st_find_many S db P recon_order None) gws merchants"
    by (auto simp: reconcile_def split: if_splits option.splits)
  with recon_report_partition [OF rows(2)] rows(1) show ?thesis by auto
qed

subsection \<open>The settlements the engine writes\<close>

context bignumber
begin

lemma val_parse_bn: "is_amount s \<Longrightarrow> val (parse_bn B (FStr s)) = Some (dec_val s)"
  by (simp add: parse_bn_def Let_def finite_iff val_parse)

lemma val_bps: "bps_ok b \<Longrightarrow> val (bn_number B b) = Some b"
  using bps_okE [of b] val_small_nat by fastforce

lemma expected_fee_floor:
  assumes "is_amount g" "bps_ok b"
  shows "val (expected_fee B (parse_bn B (FStr g)) b) = Some (of_int \<lfloor>dec_val g * b / 10000\<rfloor>)"
proof -
  let ?x = "dec_val g * b / 10000"
  have x0: "0 \<le> ?x" using assms(2) by (simp add: bps_ok_iff)
  have "val (bn_div B (bn_times B (parse_bn B (FStr g)) (bn_number B b)) (bn_number B 10000)) = Some (round_down 20 ?x)"
    using val_div [OF val_times [OF val_parse_bn [OF assms(1)] val_bps [OF assms(2)]] val_numeral [of "num.Bit0 num.One"]]
      val_numeral by (simp add: val_div val_times val_parse_bn assms val_bps)
  then have "val (expected_fee B (parse_bn B (FStr g)) b) = Some (round_down 0 (round_down 20 ?x))"
    by (simp add: expected_fee_def val_trunc)
  moreover have "\<lfloor>round_down 20 ?x\<rfloor> = \<lfloor>?x\<rfloor>"
    using floor_div_int [of "10 ^ 20" ?x] x0 by (simp add: round_down_def)
  ultimately show ?thesis using x0 by (simp add: round_down_def [of 0])
qed

lemma check_written_row:
  assumes g: "is_amount (s_gross_amount s)" and f: "is_amount (s_fee_amount s)" and n: "is_amount (s_net_amount s)"
    and sum: "dec_val (s_fee_amount s) + dec_val (s_net_amount s) = dec_val (s_gross_amount s)"
    and b: "bps_ok (s_fee_bps s)"
  shows "check_settlement B merchants s =
    (if 1 < \<bar>of_int \<lfloor>dec_val (s_gross_amount s) * s_fee_bps s / 10000\<rfloor> - dec_val (s_fee_amount s)\<bar>
     then Some (FeeCalculation (s_id s) (s_gross_amount s) (s_fee_bps s) (s_fee_amount s)
            (bn_to_string B (expected_fee B (parse_bn B (FStr (s_gross_amount s))) (s_fee_bps s))))
     else if s_merchant_id s \<notin> set merchants then Some (MissingMerchant (s_id s) (s_merchant_id s)) else None)"
proof -
  let ?g = "parse_bn B (FStr (s_gross_amount s))" and ?f = "parse_bn B (FStr (s_fee_amount s))"
  let ?n = "parse_bn B (FStr (s_net_amount s))"
  have eq: "bn_eq B (bn_minus B ?g ?f) ?n"
    using eq_iff [OF val_minus [OF val_parse_bn [OF g] val_parse_bn [OF f]] val_parse_bn [OF n]] sum by auto
  have "val (bn_abs B (bn_minus B (expected_fee B ?g (s_fee_bps s)) ?f)) =
      Some \<bar>of_int \<lfloor>dec_val (s_gross_amount s) * s_fee_bps s / 10000\<rfloor> - dec_val (s_fee_amount s)\<bar>"
    by (intro val_abs val_minus expected_fee_floor val_parse_bn g f b)
  moreover have "val (bn_number B 1) = Some 1" using val_number [of 1] by simp
  ultimately have "bn_greater B (bn_abs B (bn_minus B (expected_fee B ?g (s_fee_bps s)) ?f)) (bn_number B 1) \<longleftrightarrow>
      1 < \<bar>of_int \<lfloor>dec_val (s_gross_amount s) * s_fee_bps s / 10000\<rfloor> - dec_val (s_fee_amount s)\<bar>"
    by (rule less_iff [rotated])
  with eq show ?thesis by (simp add: check_settlement_def Let_def)
qed

end

lemma floor_vs_truncated:
  fixes x :: rat
  assumes "0 \<le> x"
  shows "\<bar>of_int \<lfloor>x\<rfloor> - of_int \<lfloor>x * 10 ^ k\<rfloor> / (10 :: rat) ^ k\<bar> < 1"
proof -
  have "of_int \<lfloor>x * 10 ^ k\<rfloor> / 10 ^ k \<le> x"
    by (simp add: divide_le_eq)
  moreover have "of_int \<lfloor>x\<rfloor> \<le> of_int \<lfloor>x * 10 ^ k\<rfloor> / (10::rat) ^ k"
  proof -
    have "\<lfloor>x\<rfloor> * 10 ^ k \<le> \<lfloor>x * 10 ^ k\<rfloor>"
      by (simp add: le_floor_iff)
    then have "of_int (\<lfloor>x\<rfloor> * 10 ^ k) \<le> (of_int \<lfloor>x * 10 ^ k\<rfloor> :: rat)"
      by (simp only: of_int_le_iff)
    then show ?thesis by (simp add: le_divide_eq)
  qed
  moreover have "x < of_int \<lfloor>x\<rfloor> + 1" using floor_correct [of x] by simp
  ultimately show ?thesis by linarith
qed

text \<open>
  a settlement stored with the amounts the engine computed and with the rate it applied,
  for an existing merchant, passes every check of the reconciliation.
\<close>

theorem applied_rate_reconciles:
  assumes B: "bignumber B val" and g: "is_amount g" and b: "bps_ok b"
    and t: "\<forall>t \<in> set tiers. 0 \<le> discount_bps t"
    and r: "compute_settlement_amounts B g b v tiers asset = Inr r" and k: "dec_places g \<le> 20"
    and s: "s_gross_amount s = gross_of r" "s_fee_amount s = fee_of r" "s_net_amount s = net_of r"
      "s_fee_bps s = fee_bps_applied (snapshot_of r)"
    and m: "s_merchant_id s \<in> set merchants"
  shows "check_settlement B merchants s = None"
proof -
  note up = settlement_amounts_add_up [OF B g b t r]
  have e: "bps_ok (s_fee_bps s)" using applied_bps_ok [OF r] s by simp
  then have "0 \<le> dec_val g * s_fee_bps s / 10000" by (simp add: bps_ok_iff)
  from floor_vs_truncated [OF this, of "dec_places g"] settlement_fee_floor [OF B g b t r k] s
  have "\<not> 1 < \<bar>of_int \<lfloor>dec_val g * s_fee_bps s / 10000\<rfloor> - dec_val (fee_of r)\<bar>" by simp
  with bignumber.check_written_row [OF B, of s merchants] up s e g m show ?thesis by simp
qed

text \<open>
  the create endpoint stores the merchant's base rate beside a fee computed with a volume
  discount. As soon as the discount is worth three units of the asset, the reconciliation
  reports such a settlement as a wrong fee calculation, although its amounts are right.
\<close>

theorem discounted_settlement_flagged:
  assumes B: "bignumber B val" and g: "is_amount g" and b: "bps_ok (pr_fee_bps p)"
    and t: "\<forall>t \<in> set tiers. 0 \<le> discount_bps t"
    and r: "compute_settlement_amounts B g (pr_fee_bps p) v tiers asset = Inr (pr_amounts p)"
    and disc: "3 \<le> dec_val g * discount_applied (snapshot_of (pr_amounts p)) / 10000"
  shows "\<exists>expected. check_settlement B merchants (settlement_row inp merchant cur p url) =
    Some (FeeCalculation (settlement_id (ai_uuid inp)) g (pr_fee_bps p) (fee_of (pr_amounts p)) expected)"
proof -
  let ?s = "settlement_row inp merchant cur p url"
  note up = settlement_amounts_add_up [OF B g b t r]
  have bps: "s_fee_bps ?s = pr_fee_bps p" by (simp add: settlement_row_def Let_def)
  let ?x = "dec_val g * pr_fee_bps p / 10000"
  have "dec_val (fee_of (pr_amounts p)) + 3 \<le> ?x"
  proof -
    have "?x = dec_val g * fee_bps_applied (snapshot_of (pr_amounts p)) / 10000 +
        dec_val g * discount_applied (snapshot_of (pr_amounts p)) / 10000"
      using up by (metis add_divide_distrib distrib_left)
    with up disc show ?thesis by linarith
  qed
  moreover have "?x < of_int \<lfloor>?x\<rfloor> + 1" using floor_correct [of ?x] by simp
  ultimately have "1 < \<bar>of_int \<lfloor>?x\<rfloor> - dec_val (fee_of (pr_amounts p))\<bar>" by linarith
  with bignumber.check_written_row [OF B, of ?s merchants] up b bps g show ?thesis by simp
qed

subsection \<open>The detail mode\<close>

definition shared_diffs ::
  "(rat \<Rightarrow> string) \<Rightarrow> (string, recon_row) jsmap \<Rightarrow> (string \<times> recon_row) \<Rightarrow> field_diff list" where
  "shared_diffs num gateway p =
     (case map_of gateway (fst p) of None \<Rightarrow> [] | Some g \<Rightarrow> pair_diffs num (fst p) (snd p) g)"

definition lost_diffs ::
  "(rat \<Rightarrow> string) \<Rightarrow> (string, recon_row) jsmap \<Rightarrow> (string \<times> recon_row) \<Rightarrow> field_diff list" where
  "lost_diffs num local p = (if js_has (fst p) local then [] else missing_diffs num (fst p) (snd p))"

text \<open>A capped listing: a part of the whole listing, all of it unless the cap was reached.\<close>

definition capped_part :: "field_diff list \<Rightarrow> field_diff list \<times> bool \<Rightarrow> bool" where
  "capped_part all r \<longleftrightarrow> prefix (fst r) all \<and>
     (if snd r then reconcile_diff_cap \<le> length (fst r) else fst r = all \<and> length all < reconcile_diff_cap)"

lemma capped_part_prefix: "capped_part xs r \<Longrightarrow> snd r \<Longrightarrow> capped_part (xs @ ys) r"
  by (auto simp: capped_part_def)

lemma capped_part_exact:
  assumes "capped_part all r"
  shows "take reconcile_diff_cap (fst r) = take reconcile_diff_cap all \<and> snd r = (reconcile_diff_cap \<le> length all)"
  using assms prefix_length_le [of "fst r" all] by (auto simp: capped_part_def prefix_def split: if_splits)

lemma local_diffs_capped:
  "length acc < reconcile_diff_cap \<Longrightarrow>
   capped_part (acc @ concat (map (shared_diffs num gateway) ls)) (local_diffs num gateway ls acc)"
proof (induction ls arbitrary: acc)
  case Nil
  then show ?case by (simp add: capped_part_def)
next
  case (Cons p ls)
  obtain i l where p: "p = (i, l)" by (cases p)
  show ?case
  proof (cases "map_of gateway i")
    case None
    with Cons p show ?thesis by (simp add: shared_diffs_def)
  next
    case (Some g)
    let ?acc = "acc @ pair_diffs num i l g"
    show ?thesis
    proof (cases "reconcile_diff_cap \<le> length ?acc")
      case True
      with Some p show ?thesis by (simp add: shared_diffs_def Let_def capped_part_def)
    next
      case False
      with Cons.IH [of ?acc] Some p show ?thesis by (simp add: shared_diffs_def Let_def not_le)
    qed
  qed
qed

lemma push_capped_part:
  "length acc < reconcile_diff_cap \<Longrightarrow> capped_part (acc @ ds) (push_capped ds acc)"
proof (induction ds arbitrary: acc)
  case Nil
  then show ?case by (simp add: capped_part_def)
next
  case (Cons d ds)
  show ?case
  proof (cases "reconcile_diff_cap \<le> length (acc @ [d])")
    case True
    then show ?thesis by (simp add: Let_def capped_part_def)
  next
    case False
    with Cons.IH [of "acc @ [d]"] show ?thesis by (simp add: Let_def)
  qed
qed

lemma gateway_diffs_capped:
  "length acc < reconcile_diff_cap \<Longrightarrow>
   capped_part (acc @ concat (map (lost_diffs num local) gs)) (gateway_diffs num local gs acc)"
proof (induction gs arbitrary: acc)
  case Nil
  then show ?case by (simp add: capped_part_def)
next
  case (Cons p gs)
  obtain i g where p: "p = (i, g)" by (cases p)
  show ?case
  proof (cases "js_has i local")
    case True
    with Cons p show ?thesis by (simp add: lost_diffs_def)
  next
    case False
    obtain acc' t where pc: "push_capped (missing_diffs num i g) acc = (acc', t)"
      by (cases "push_capped (missing_diffs num i g) acc")
    note part = push_capped_part [OF Cons.prems, of "missing_diffs num i g", unfolded pc]
    show ?thesis
    proof (cases t)
      case True
      with capped_part_prefix [OF part] False p pc show ?thesis
        by (simp add: lost_diffs_def)
    next
      case nt: False
      with part have acc': "acc' = acc @ missing_diffs num i g" "length acc' < reconcile_diff_cap"
        by (auto simp: capped_part_def)
      with Cons.IH [OF acc'(2)] False p pc nt show ?thesis by (simp add: lost_diffs_def)
    qed
  qed
qed

text \<open>
  C27: the detail mode lists the first 100 of all differences: the differing fields of the shared
  records, then every field of the records missing here. It says \<open>truncated\<close> as soon as there
  are 100, also when there is no further one.
\<close>

theorem detail_diffs_exact:
  "detail_diffs num local gateway =
     (let all = concat (map (shared_diffs num gateway) local) @ concat (map (lost_diffs num local) gateway)
      in (take 100 all, 100 \<le> length all))"
proof -
  let ?shared = "concat (map (shared_diffs num gateway) local)" and ?lost = "concat (map (lost_diffs num local) gateway)"
  obtain ds t where l: "local_diffs num gateway local [] = (ds, t)" by (cases "local_diffs num gateway local []")
  define r where "r = (if t then (ds, True) else gateway_diffs num local gateway ds)"
  have d: "detail_diffs num local gateway = (take reconcile_diff_cap (fst r), snd r)"
    using l by (cases t) (auto simp: r_def detail_diffs_def split: prod.splits)
  have part: "capped_part ?shared (ds, t)"
    using local_diffs_capped [of "[]" num gateway local] l by (simp add: reconcile_diff_cap_def)
  have "capped_part (?shared @ ?lost) r"
  proof (cases t)
    case True
    with capped_part_prefix [OF part] show ?thesis by (simp add: r_def)
  next
    case False
    with part have "ds = ?shared" "length ds < reconcile_diff_cap" by (auto simp: capped_part_def)
    with gateway_diffs_capped [of ds num local gateway] False show ?thesis by (simp add: r_def)
  qed
  from capped_part_exact [OF this] show ?thesis
    unfolding d Let_def reconcile_diff_cap_def by simp
qed

subsection \<open>The report\<close>

lemma length_filter_in: "distinct xs \<Longrightarrow> length (filter (\<lambda>x. x \<in> A) xs) = card (set xs \<inter> A)"
  by (metis distinct_card distinct_filter filter_set inter_set_filter inf_commute)

lemma common_count:
  assumes "distinct xs" "distinct ys"
  shows "length (filter (\<lambda>x. x \<in> set ys) xs) + length (filter (\<lambda>y. y \<notin> set xs) ys) = length ys"
proof -
  have "length (filter (\<lambda>x. x \<in> set ys) xs) = length (filter (\<lambda>y. y \<in> set xs) ys)"
    by (simp add: length_filter_in assms inf_commute)
  then show ?thesis using sum_length_filter_compl [of "\<lambda>y. y \<in> set xs" ys] by simp
qed

lemma length_filter_map_ids: "length (filter (\<lambda>r. f r \<in> A) rs) = length (filter (\<lambda>i. i \<in> A) (map f rs))"
  by (induction rs) auto

lemma keyed_lookup:
  "distinct (map rr_id rs) \<Longrightarrow> r \<in> set rs \<Longrightarrow> map_of (map (\<lambda>r. (rr_id r, r)) rs) (rr_id r) = Some r"
  by (auto simp: map_of_eq_Some_iff o_def)

lemma shared_ball:
  assumes "distinct (map rr_id ls)"
  shows "(\<forall>i\<in>{i \<in> rr_id ` set ls. i \<in> A}. Q (the (map_of (map (\<lambda>r. (rr_id r, r)) ls) i)) i) \<longleftrightarrow>
    (\<forall>l\<in>set ls. rr_id l \<in> A \<longrightarrow> Q l (rr_id l))"
  using keyed_lookup [OF assms] by auto

lemma shared_row:
  assumes "distinct (map rr_id gs)"
  shows "(i \<in> rr_id ` set gs \<longrightarrow> Q (the (map_of (map (\<lambda>r. (rr_id r, r)) gs) i))) \<longleftrightarrow>
    (\<forall>g\<in>set gs. rr_id g = i \<longrightarrow> Q g)"
  using keyed_lookup [OF assms] by auto

text \<open>
  C40: for two record sets without duplicate ids the counts of the report balance on both sides,
  and it is \<open>clean\<close> exactly when both sides have the same ids and every shared record prints
  the same in all eight fields. No alert is raised exactly when it is clean and the three totals
  agree.
\<close>

theorem report_balances:
  assumes "distinct (map rr_id ls)" and "distinct (map rr_id gs)"
  shows "let r = summary_of B num ls gs in
    sr_matched r + int (sr_mismatched r) + int (sr_extra r) = int (length ls) \<and>
    sr_matched r + int (sr_mismatched r) + int (sr_missing r) = int (length gs) \<and> 0 \<le> sr_matched r \<and>
    (sr_clean r \<longleftrightarrow> rr_id ` set ls = rr_id ` set gs \<and>
       list_all (\<lambda>l. list_all (\<lambda>g. rr_id g = rr_id l \<longrightarrow> mismatched_fields num l g = []) gs) ls) \<and>
    (sr_alerts r = [] \<longleftrightarrow> sr_clean r \<and> bn_is_zero B (difference B (\<lambda>r. truthy_or (rr_gross r) (rr_total r)) ls gs) \<and>
       bn_is_zero B (difference B rr_fee ls gs) \<and> bn_is_zero B (difference B rr_net ls gs))"
proof -
  let ?li = "map rr_id ls" and ?gi = "map rr_id gs"
  define both where "both = filter (\<lambda>i. i \<in> set ?gi) ?li"
  define items where "items = filter (\<lambda>(i, fs). fs \<noteq> [])
      (map (\<lambda>i. (i, mismatched_fields num (the (map_of (map (\<lambda>r. (rr_id r, r)) ls) i))
         (the (map_of (map (\<lambda>r. (rr_id r, r)) gs) i)))) both)"
  define missing where "missing = filter (\<lambda>r. rr_id r \<notin> rr_id ` set ls) gs"
  define extra where "extra = filter (\<lambda>r. rr_id r \<notin> rr_id ` set gs) ls"
  have le: "length items \<le> length both" by (simp add: items_def)
  have c1: "length both + length extra = length ls"
    using sum_length_filter_compl [of "\<lambda>i. i \<in> set ?gi" ?li]
    by (simp add: both_def extra_def length_filter_map_ids [of rr_id "- rr_id ` set gs", simplified])
  have c2: "length both + length missing = length gs"
    using common_count [OF assms]
    by (simp add: both_def missing_def length_filter_map_ids [of rr_id "- rr_id ` set ls", simplified])
  have clean: "missing = [] \<and> extra = [] \<and> items = [] \<longleftrightarrow> rr_id ` set ls = rr_id ` set gs \<and>
       list_all (\<lambda>l. list_all (\<lambda>g. rr_id g = rr_id l \<longrightarrow> mismatched_fields num l g = []) gs) ls"
  proof -
    have "missing = [] \<and> extra = [] \<longleftrightarrow> rr_id ` set ls = rr_id ` set gs"
      by (auto simp: missing_def extra_def filter_empty_conv)
    moreover have "items = [] \<longleftrightarrow>
        list_all (\<lambda>l. list_all (\<lambda>g. rr_id g = rr_id l \<longrightarrow> mismatched_fields num l g = []) gs) ls"
    proof -
      have "items = [] \<longleftrightarrow> (\<forall>i\<in>set both. mismatched_fields num (the (map_of (map (\<lambda>r. (rr_id r, r)) ls) i))
            (the (map_of (map (\<lambda>r. (rr_id r, r)) gs) i)) = [])"
        by (simp add: items_def filter_empty_conv)
      also have "\<dots> \<longleftrightarrow> (\<forall>l\<in>set ls. rr_id l \<in> rr_id ` set gs \<longrightarrow>
          mismatched_fields num l (the (map_of (map (\<lambda>r. (rr_id r, r)) gs) (rr_id l))) = [])"
        unfolding both_def set_filter set_map by (rule shared_ball [OF assms(1)])
      also have "\<dots> \<longleftrightarrow> (\<forall>l\<in>set ls. \<forall>g\<in>set gs. rr_id g = rr_id l \<longrightarrow> mismatched_fields num l g = [])"
        by (rule ball_cong [OF HOL.refl shared_row [OF assms(2)]])
      finally show ?thesis by (simp add: list_all_iff)
    qed
    ultimately show ?thesis by blast
  qed
  have sum: "sr_matched (summary_of B num ls gs) = int (length both) - int (length items)"
    "sr_mismatched (summary_of B num ls gs) = length items" "sr_missing (summary_of B num ls gs) = length missing"
    "sr_extra (summary_of B num ls gs) = length extra"
    "sr_clean (summary_of B num ls gs) = (missing = [] \<and> extra = [] \<and> items = [])"
    "sr_alerts (summary_of B num ls gs) = [] \<longleftrightarrow> (missing = [] \<and> extra = [] \<and> items = []) \<and>
       bn_is_zero B (difference B (\<lambda>r. truthy_or (rr_gross r) (rr_total r)) ls gs) \<and>
       bn_is_zero B (difference B rr_fee ls gs) \<and> bn_is_zero B (difference B rr_net ls gs)"
    by (simp_all add: summary_of_def Let_def js_index_distinct_eq assms both_def items_def missing_def extra_def o_def)
  show ?thesis
    unfolding Let_def sum(1-5) using sum(6) c1 c2 le clean by auto
qed

subsection \<open>Runs\<close>

definition sample_gateway_rows :: "recon_row list" where
  "sample_gateway_rows = [row_of_settlement (sample_settlement ''s1'' (Some ''k1'')),
     (row_of_settlement (sample_settlement ''s3'' None)) \<lparr> rr_fee := FAbsent \<rparr>]"

definition sample_recon :: recon_inputs where
  "sample_recon = \<lparr> ri_find_fails = False, ri_gateway = GatewayBody (Some sample_gateway_rows),
     ri_merchants = (\<lambda>_. [''m1'']), ri_merchants_fail = False \<rparr>"

definition sample_query :: recon_query where
  "sample_query = \<lparr> rq_merchant = Some ''m1'', rq_from = None, rq_to = Some '''', rq_detail = None \<rparr>"

lemma sample_merchants: "key_scan (\<lambda>_. [''m1'']) (\<lambda>m. m) merchant_page_size None 0 [] = Some [''m1'']"
  by (subst key_scan.simps) (simp add: merchant_page_size_def after_cursor_def)

theorem reconcile_partition_witness:
  "\<exists>rep. reconcile tab_ops dec_ops (\<lambda>_. ''1000'') (\<lambda>_. None) sample_recon sample_query sample_table = Some (Reconciled rep) \<and>
     partition_ok {''s1'', ''s2''} {''s1'', ''s3''} rep"
proof -
  let ?P = "\<lambda>r :: settlement. s_merchant_id r = ''m1''"
  have w: "recon_where (\<lambda>_. None) sample_query = Some ?P"
    by (simp add: recon_where_def sample_query_def date_bound_def given_def)
  have gw: "ri_gateway sample_recon = GatewayBody (Some sample_gateway_rows)" by (simp add: sample_recon_def)
  obtain rep where run: "reconcile tab_ops dec_ops (\<lambda>_. ''1000'') (\<lambda>_. None) sample_recon sample_query sample_table = Some (Reconciled rep)"
    by (simp add: reconcile_def w gw) (simp add: sample_recon_def sample_merchants)
  have L: "s_id ` {r. ?P r \<and> (\<exists>i. st_find tab_ops sample_table i = Some r)} = {''s1'', ''s2''}"
  proof -
    have "{r. ?P r \<and> (\<exists>i. st_find tab_ops sample_table i = Some r)} = set sample_table"
      by (simp add: tab_stored) (auto simp: sample_table_def sample_settlement_def)
    then show ?thesis by (simp add: sample_table_def sample_settlement_def)
  qed
  have G: "rr_id ` set sample_gateway_rows = {''s1'', ''s3''}"
    by (simp add: sample_gateway_rows_def row_of_settlement_def sample_settlement_def)
  from reconcile_partition [OF tab.settlement_store_axioms sample_table_ok w gw run] run show ?thesis
    unfolding L G by blast
qed

definition sample_amounts :: "rat \<Rightarrow> settlement_amounts" where
  "sample_amounts v = (case compute_settlement_amounts dec_ops ''1000.50'' 100 v [\<lparr> volume_usd = 10, discount_bps = 50 \<rparr>] None of
     Inr r \<Rightarrow> r | Inl _ \<Rightarrow> \<lparr> gross_of = [], fee_of = [], net_of = [],
       snapshot_of = \<lparr> fee_bps_applied = 0, max_fee_bps_applied = 0, discount_applied = 0, monthly_volume_at_time = 0, fee_version = [] \<rparr> \<rparr>)"

lemma sample_amounts_ok:
  "compute_settlement_amounts dec_ops ''1000.50'' 100 20 [\<lparr> volume_usd = 10, discount_bps = 50 \<rparr>] None = Inr (sample_amounts 20)"
  "is_amount ''1000.50''" "bps_ok 100" "\<forall>t\<in>set [\<lparr> volume_usd = 10, discount_bps = 50 \<rparr>]. 0 \<le> discount_bps t"
  "dec_places ''1000.50'' \<le> 20"
  by code_simp+

theorem applied_rate_reconciles_witness:
  "check_settlement dec_ops [''m1''] ((sample_settlement ''s'' None) \<lparr> s_gross_amount := gross_of (sample_amounts 20),
      s_fee_amount := fee_of (sample_amounts 20), s_net_amount := net_of (sample_amounts 20),
      s_fee_bps := fee_bps_applied (snapshot_of (sample_amounts 20)) \<rparr>) = None"
  by (rule applied_rate_reconciles [OF dec.bignumber_axioms sample_amounts_ok(2,3,4,1,5)])
    (simp_all add: sample_settlement_def)

theorem discounted_settlement_flagged_witness:
  "let p = \<lparr> pr_amounts = sample_amounts 20, pr_fee_bps = 100, pr_webhook_url = Inr None, pr_webhook_headers = None \<rparr>
   in \<exists>e. check_settlement dec_ops [''m1''] (settlement_row (sample_inputs 5 ''u1'') ''m1'' ''USDC'' p None) =
        Some (FeeCalculation (settlement_id (ai_uuid (sample_inputs 5 ''u1''))) ''1000.50'' 100 (fee_of (sample_amounts 20)) e)"
proof -
  let ?p = "\<lparr> pr_amounts = sample_amounts 20, pr_fee_bps = 100, pr_webhook_url = Inr None, pr_webhook_headers = None \<rparr>"
  have d: "3 \<le> dec_val ''1000.50'' * discount_applied (snapshot_of (sample_amounts 20)) / 10000"
    by code_simp
  have "\<exists>e. check_settlement dec_ops [''m1''] (settlement_row (sample_inputs 5 ''u1'') ''m1'' ''USDC'' ?p None) =
        Some (FeeCalculation (settlement_id (ai_uuid (sample_inputs 5 ''u1''))) ''1000.50'' (pr_fee_bps ?p) (fee_of (pr_amounts ?p)) e)"
    by (rule discounted_settlement_flagged [OF dec.bignumber_axioms sample_amounts_ok(2) _ sample_amounts_ok(4)])
      (use sample_amounts_ok d in simp_all)
  then show ?thesis by simp
qed

definition sample_locals :: "recon_row list" where
  "sample_locals = [row_of_settlement (sample_settlement ''s1'' None), row_of_settlement (sample_settlement ''s2'' None)]"

theorem report_balances_witness:
  "sr_matched (summary_of dec_ops (\<lambda>_. ''n'') sample_locals sample_gateway_rows) +
     int (sr_mismatched (summary_of dec_ops (\<lambda>_. ''n'') sample_locals sample_gateway_rows)) +
     int (sr_extra (summary_of dec_ops (\<lambda>_. ''n'') sample_locals sample_gateway_rows)) = int (length sample_locals)"
proof -
  have d: "distinct (map rr_id sample_locals)" "distinct (map rr_id sample_gateway_rows)"
    by (simp_all add: sample_locals_def row_of_settlement_def sample_settlement_def sample_gateway_rows_def)
  show ?thesis
    by (rule conjunct1 [OF report_balances [OF d, of dec_ops "\<lambda>_. ''n''", unfolded Let_def]])
qed

end
