(* ===== verification/SettlementBulk.thy ===== *)
theory SettlementBulk
  imports SettlementApi
begin

section \<open>Bulk creation, batch status and listing (\<open>index.ts\<close>)\<close>

text \<open>
  \<open>POST /api/settlements/bulk\<close> with its idempotency protocol in Redis, the validation of
  each item, the transaction that stores the valid ones and their jobs;
  \<open>GET /api/settlements/batch/:batchId/status\<close> and \<open>GET /api/settlements\<close>. The printing of
  numbers (\<open>num\<close>) and the message of a schema error (\<open>zod\<close>) are arguments.
\<close>

subsection \<open>The items\<close>

datatype item_reason =
    ItemNotPositive
  | ItemBelowMinimum string string
  | ItemAboveMaximum string string
  | ItemDailyLimit "rat option" rat string
  | ItemAmountError amount_error

definition number_text :: "(rat \<Rightarrow> string) \<Rightarrow> rat option \<Rightarrow> string" where
  "number_text num v = (case v of Some q \<Rightarrow> num q | None \<Rightarrow> ''NaN'')"

definition amount_error_message :: "string \<Rightarrow> amount_error \<Rightarrow> string" where
  "amount_error_message zod e = (case e of
       AmountExceedsMax g m a \<Rightarrow> ''Settlement amount '' @ g @ '' exceeds maximum allowed ('' @ m @ '') for asset '' @
         (case a of Some x \<Rightarrow> x | None \<Rightarrow> ''unknown'')
     | InvalidFeeSnapshot \<Rightarrow> ''Invalid fee snapshot: '' @ zod
     | InvariantViolated _ \<Rightarrow> [])"

definition reason_text :: "(rat \<Rightarrow> string) \<Rightarrow> string \<Rightarrow> item_reason \<Rightarrow> string" where
  "reason_text num zod r = (case r of
       ItemNotPositive \<Rightarrow> ''amount must be greater than zero''
     | ItemBelowMinimum a m \<Rightarrow> ''Settlement amount '' @ a @ '' is below minimum '' @ m
     | ItemAboveMaximum a m \<Rightarrow> ''Settlement amount '' @ a @ '' exceeds maximum '' @ m
     | ItemDailyLimit c a l \<Rightarrow> ''Daily settlement limit exceeded. Current: '' @ number_text num c @
         '', Requested: '' @ num a @ '', Limit: '' @ l
     | ItemAmountError e \<Rightarrow> amount_error_message zod e)"

record valid_item =
  vi_id :: string
  vi_asset :: string
  vi_amounts :: settlement_amounts

text \<open>
  A limit of the settings, as a number and as printed; \<open>None\<close> when it is absent or falsy. The
  schemas of the settings admit strings and numbers only.
\<close>

definition limit_setting ::
  "(rat \<Rightarrow> rat) \<Rightarrow> (rat \<Rightarrow> string) \<Rightarrow> string \<Rightarrow> json \<Rightarrow> (rat option \<times> string) option" where
  "limit_setting fl num k settings = (case obj_get k settings of
       JStr s \<Rightarrow> if s = [] then None else Some (parse_float fl s, s)
     | JNum q \<Rightarrow> if q = 0 then None else Some (Some q, num q)
     | _ \<Rightarrow> None)"

record bulk_context =
  bk_settings :: json
  bk_fee_bps :: rat
  bk_monthly_volume :: rat
  bk_tiers :: "discount_tier list"
  bk_daily_total :: "rat option"

definition check_item ::
  "'n bignum_ops \<Rightarrow> (rat \<Rightarrow> rat) \<Rightarrow> (rat \<Rightarrow> string) \<Rightarrow> bulk_context \<Rightarrow> rat \<Rightarrow> settlement_item \<Rightarrow>
   (item_reason, rat \<times> settlement_amounts) result" where
  "check_item B fl num bk running item =
     (case parse_float fl (it_amount item) of
        None \<Rightarrow> throw ItemNotPositive
      | Some amount \<Rightarrow>
        if amount \<le> 0 then throw ItemNotPositive
        else case (case limit_setting fl num ''minSettlementAmount'' (bk_settings bk) of
              Some (Some m, t) \<Rightarrow> if amount < m then Some (ItemBelowMinimum (it_amount item) t) else None
            | _ \<Rightarrow> None) of
          Some e \<Rightarrow> throw e
        | None \<Rightarrow> (case (case limit_setting fl num ''maxSettlementAmount'' (bk_settings bk) of
              Some (Some m, t) \<Rightarrow> if amount > m then Some (ItemAboveMaximum (it_amount item) t) else None
            | _ \<Rightarrow> None) of
          Some e \<Rightarrow> throw e
        | None \<Rightarrow> (case (case (limit_setting fl num ''dailySettlementLimit'' (bk_settings bk), bk_daily_total bk) of
              (Some (Some l, t), Some c) \<Rightarrow>
                if fl (fl (c + running) + amount) > l then Some (ItemDailyLimit (Some (fl (c + running))) amount t) else None
            | _ \<Rightarrow> None) of
          Some e \<Rightarrow> throw e
        | None \<Rightarrow> (case compute_settlement_amounts B (it_amount item) (bk_fee_bps bk) (bk_monthly_volume bk) (bk_tiers bk) None of
            Inl e \<Rightarrow> throw (ItemAmountError e)
          | Inr amounts \<Rightarrow> return_ok (amount, amounts)))))"

text \<open>The loop; an error that is not a \<open>SettlementAmountError\<close> leaves the handler.\<close>

fun check_items ::
  "'n bignum_ops \<Rightarrow> (rat \<Rightarrow> rat) \<Rightarrow> (rat \<Rightarrow> string) \<Rightarrow> bulk_context \<Rightarrow> (nat \<Rightarrow> string) \<Rightarrow> nat \<Rightarrow> rat \<Rightarrow>
   settlement_item list \<Rightarrow> (amount_error, valid_item list \<times> (nat \<times> item_reason) list) result" where
  "check_items B fl num bk uuid i running [] = return_ok ([], [])"
| "check_items B fl num bk uuid i running (item # items) =
     (case check_item B fl num bk running item of
        Inl (ItemAmountError (InvariantViolated v)) \<Rightarrow> throw (InvariantViolated v)
      | Inl e \<Rightarrow> (case check_items B fl num bk uuid (i + 1) running items of
            Inl x \<Rightarrow> throw x
          | Inr (valid, errors) \<Rightarrow> return_ok (valid, (i, e) # errors))
      | Inr (amount, amounts) \<Rightarrow>
          (case check_items B fl num bk uuid (i + 1) (fl (running + amount)) items of
             Inl x \<Rightarrow> throw x
           | Inr (valid, errors) \<Rightarrow>
               return_ok (\<lparr> vi_id = settlement_id (uuid i), vi_asset = it_asset item, vi_amounts = amounts \<rparr> # valid, errors)))"

subsection \<open>The handler\<close>

record bulk_result =
  br_batch_id :: string
  br_total :: nat
  br_created :: nat
  br_errors :: "(nat \<times> string) list"

definition bulk_result_json :: "bulk_result \<Rightarrow> json" where
  "bulk_result_json r = JObj [(''data'', JObj
     [(''batchId'', JStr (br_batch_id r)), (''total'', JNum (of_nat (br_total r))),
      (''created'', JNum (of_nat (br_created r))),
      (''errors'', JArr (map (\<lambda>(i, t). JObj [(''index'', JNum (of_nat i)), (''reason'', JStr t)]) (br_errors r)))])]"

text \<open>\<open>JSON.stringify\<close>: like \<open>canonicalize\<close> but with the keys of objects in insertion order.\<close>

fun json_stringify :: "(rat \<Rightarrow> string) \<Rightarrow> json \<Rightarrow> string" where
  "json_stringify num JNull = ''null''"
| "json_stringify num (JArr vs) =
     ''['' @ join '','' (map (\<lambda>v. if is_json_value v then json_stringify num v else ''null'') vs) @ '']''"
| "json_stringify num (JObj kvs) =
     ''{'' @ join '','' (map (\<lambda>(k, s). json_colon k s)
       (map (\<lambda>(k, v). (k, json_stringify num v)) (filter (\<lambda>(k, v). is_json_value v) kvs))) @ ''}''"
| "json_stringify num JNonFinite = ''null''"
| "json_stringify num (JNum q) = num q"
| "json_stringify num (JStr s) = json_string s"
| "json_stringify num (JBool b) = (if b then ''true'' else ''false'')"
| "json_stringify num JDrop = []"

text \<open>
  A replayed response is the stored text parsed and printed again, which for a text
  \<open>JSON.stringify\<close> printed is that text.
\<close>

datatype bulk_response =
    BulkBodyRejected
  | KeyPayloadMismatch
  | BulkReplayed string
  | StillProcessing
  | EmptyBatch
  | BatchTooLarge
  | BulkMerchantRefused merchant_refusal
  | BulkCreated bulk_result
  | BulkFailed

definition bulk_status :: "bulk_response \<Rightarrow> nat" where
  "bulk_status r = (case r of
       BulkBodyRejected \<Rightarrow> 400 | KeyPayloadMismatch \<Rightarrow> 409 | BulkReplayed _ \<Rightarrow> 200 | StillProcessing \<Rightarrow> 409
     | EmptyBatch \<Rightarrow> 400 | BatchTooLarge \<Rightarrow> 400 | BulkMerchantRefused MerchantNotFound \<Rightarrow> 404
     | BulkMerchantRefused MerchantDeleted \<Rightarrow> 422 | BulkMerchantRefused MerchantSuspended \<Rightarrow> 403
     | BulkCreated _ \<Rightarrow> 201 | BulkFailed \<Rightarrow> 500)"

record bulk_inputs =
  bi_now :: nat
  bi_key :: "string option"
  bi_hash :: string
  bi_merchant :: "(unit, merchant option) result"
  bi_daily_sum :: "(unit, string option) result"
  bi_month_cached :: "(unit, string option) result"
  bi_month_sum :: "(unit, string option) result"
  bi_uuid :: "nat \<Rightarrow> string"
  bi_batch_uuid :: string
  bi_claim_fails :: bool
  bi_read_fails :: bool
  bi_store_faults :: "nat \<Rightarrow> faults"
  bi_queue_fails :: bool
  bi_save_fails :: bool

definition bulk_key :: "string \<Rightarrow> string" where
  "bulk_key k = ''idempotency:bulk:'' @ k"

definition bulk_response_key :: "string \<Rightarrow> string" where
  "bulk_response_key k = ''idempotency:bulk_res:'' @ k"

text \<open>The \<open>try\<close> block: the answer it gives, or none when the request goes on.\<close>

definition bulk_claim ::
  "'r kv_ops \<Rightarrow> bulk_inputs \<Rightarrow> 'r \<Rightarrow> 'r \<times> bulk_response option" where
  "bulk_claim R inp redis = (case bi_key inp of
       None \<Rightarrow> (redis, None)
     | Some k \<Rightarrow>
       if k = [] \<or> bi_claim_fails inp then (redis, None)
       else case kv_set_nx R redis (bi_now inp) (bulk_key k) (bi_hash inp) idempotency_ttl_ms of
         (redis', True) \<Rightarrow> (redis', None)
       | (redis', False) \<Rightarrow>
         if bi_read_fails inp then (redis', None)
         else (redis',
           case kv_get R redis' (bi_now inp) (bulk_key k) of
             Some h \<Rightarrow> if h \<noteq> [] \<and> h \<noteq> bi_hash inp then Some KeyPayloadMismatch
               else (case kv_get R redis' (bi_now inp) (bulk_response_key k) of
                   Some t \<Rightarrow> if t \<noteq> [] then Some (BulkReplayed t) else Some StillProcessing
                 | None \<Rightarrow> Some StillProcessing)
           | None \<Rightarrow> (case kv_get R redis' (bi_now inp) (bulk_response_key k) of
                   Some t \<Rightarrow> if t \<noteq> [] then Some (BulkReplayed t) else Some StillProcessing
                 | None \<Rightarrow> Some StillProcessing)))"

definition bulk_row ::
  "string \<Rightarrow> string option \<Rightarrow> (string, string) jsmap option \<Rightarrow> string \<Rightarrow> int \<Rightarrow> valid_item \<Rightarrow> settlement" where
  "bulk_row merchant_id url headers batch_id now v = \<lparr> s_id = vi_id v, s_merchant_id = merchant_id,
     s_total_amount = gross_of (vi_amounts v), s_gross_amount = gross_of (vi_amounts v),
     s_fee_amount = fee_of (vi_amounts v), s_net_amount = net_of (vi_amounts v),
     s_fee_bps = fee_bps_applied (snapshot_of (vi_amounts v)), s_asset = vi_asset v, s_status = ''pending'',
     s_webhook_url = url, s_webhook_headers = headers, s_batch_id = Some batch_id, s_initiated_at = now,
     s_completed_at = None, s_idempotency_key = None, s_idempotency_key_expires_at = None,
     s_fee_snapshot = None, s_superseded_by = None, s_version = 0 \<rparr>"

fun create_rows ::
  "'db store_ops \<Rightarrow> (nat \<Rightarrow> faults) \<Rightarrow> nat \<Rightarrow> settlement list \<Rightarrow> 'db \<Rightarrow> (adapter_error, 'db) result" where
  "create_rows S flt i [] db = return_ok db"
| "create_rows S flt i (r # rs) db =
     (case create_settlement_with_unique_guard S (flt i) db r of
        (db', Inl e) \<Rightarrow> throw e
      | (db', Inr _) \<Rightarrow> create_rows S flt (i + 1) rs db')"

text \<open>
  \<open>prisma.$transaction(fn)\<close> is Prisma's: a parameter that runs the body on the table and
  commits. The documented behaviour the code relies on: when it succeeds the table has what the
  body left, and when it fails, in the body or in the commit, the table is as it was.
\<close>

type_synonym 'db transaction = "('db \<Rightarrow> (adapter_error, 'db) result) \<Rightarrow> 'db \<Rightarrow> 'db \<times> (adapter_error, unit) result"

locale settlement_transactions = settlement_store S invar
  for S :: "'db store_ops" and invar :: "'db \<Rightarrow> bool" +
  fixes T :: "'db transaction"
  assumes committed: "invar db \<Longrightarrow> T f db = (db', Inr u) \<Longrightarrow>
      \<exists>db1. f db = Inr db1 \<and> (invar db1 \<longrightarrow> invar db') \<and> st_find S db' = st_find S db1"
    and rolled_back: "invar db \<Longrightarrow> T f db = (db', Inl e) \<Longrightarrow> invar db' \<and> st_find S db' = st_find S db"

definition table_transaction :: "adapter_error option \<Rightarrow> table transaction" where
  "table_transaction commit_fault f db =
     (case f db of
        Inl e \<Rightarrow> (db, throw e)
      | Inr db' \<Rightarrow> (case commit_fault of Some e \<Rightarrow> (db, throw e) | None \<Rightarrow> (db', return_ok ())))"

interpretation tab_tx: settlement_transactions tab_ops tab_invar "table_transaction None"
  by unfold_locales (auto simp: table_transaction_def split: sum.splits)

definition bulk_job :: "string \<Rightarrow> valid_item \<Rightarrow> settlement_job" where
  "bulk_job merchant_id v = \<lparr> sj_id = vi_id v, sj_merchant_id = Some merchant_id,
     sj_gross_amount = Some (gross_of (vi_amounts v)), sj_asset = Some (vi_asset v), sj_trace_id = None \<rparr>"

text \<open>The checks of the request and of its items, after the idempotency protocol.\<close>

definition bulk_context_of ::
  "(rat \<Rightarrow> rat) \<Rightarrow> api_config \<Rightarrow> bulk_inputs \<Rightarrow> merchant \<Rightarrow> string option \<Rightarrow> bulk_context" where
  "bulk_context_of fl cfg inp m daily_sum = \<lparr> bk_settings = m_settings m,
     bk_fee_bps = (case fee_rule (m_settings m) of Some b \<Rightarrow> b | None \<Rightarrow> ac_default_bps cfg),
     bk_monthly_volume = fst (get_monthly_volume fl (bi_month_cached inp) (bi_month_sum inp)),
     bk_tiers = ac_tiers cfg, bk_daily_total = volume_sum fl daily_sum \<rparr>"

definition bulk_plan ::
  "'n bignum_ops \<Rightarrow> (rat \<Rightarrow> rat) \<Rightarrow> (rat \<Rightarrow> string) \<Rightarrow> api_config \<Rightarrow> bulk_inputs \<Rightarrow> bulk_body \<Rightarrow>
   merchant merchant_cache \<Rightarrow> merchant merchant_cache \<times>
     (bulk_response, json \<times> valid_item list \<times> (nat \<times> item_reason) list) result" where
  "bulk_plan B fl num cfg inp d cache =
     (if bb_settlements d = [] then (cache, throw EmptyBatch)
      else if length (bb_settlements d) > 100 then (cache, throw BatchTooLarge)
      else case get_cached_merchant (int (bi_now inp)) (int (bi_now inp)) (bb_merchant_id d) (\<lambda>_. bi_merchant inp) cache of
        (cache', Inl _) \<Rightarrow> (cache', throw BulkFailed)
      | (cache', Inr found) \<Rightarrow> (cache', case check_merchant found of
            Inl e \<Rightarrow> throw (BulkMerchantRefused e)
          | Inr m \<Rightarrow> (case bi_daily_sum inp of
              Inl _ \<Rightarrow> throw BulkFailed
            | Inr s \<Rightarrow>
              (case check_items B fl num (bulk_context_of fl cfg inp m s) (bi_uuid inp) 0 0 (bb_settlements d) of
                 Inl _ \<Rightarrow> throw BulkFailed
               | Inr (valid, errors) \<Rightarrow>
                   return_ok (if fee_rule (m_settings m) = None then JObj [] else m_settings m, valid, errors)))))"

definition create_bulk ::
  "'db store_ops \<Rightarrow> 'db transaction \<Rightarrow> 'n bignum_ops \<Rightarrow> 'r kv_ops \<Rightarrow> (rat \<Rightarrow> rat) \<Rightarrow> (rat \<Rightarrow> string) \<Rightarrow> string \<Rightarrow>
   api_config \<Rightarrow> bulk_inputs \<Rightarrow> bulk_body \<Rightarrow> ('db, 'r) api_state \<Rightarrow> ('db, 'r) api_state \<times> bulk_response" where
  "create_bulk S T B R fl num zod cfg inp d st =
     (if \<not> bulk_settlement_body_ok d then (st, BulkBodyRejected)
      else case bulk_claim R inp (as_redis st) of
        (redis', Some resp) \<Rightarrow> (st \<lparr> as_redis := redis' \<rparr>, resp)
      | (redis', None) \<Rightarrow>
        (case bulk_plan B fl num cfg inp d (as_cache st) of
           (cache', Inl resp) \<Rightarrow> (st \<lparr> as_redis := redis', as_cache := cache' \<rparr>, resp)
         | (cache', Inr (data, valid, errors)) \<Rightarrow>
           (let st1 = st \<lparr> as_redis := redis', as_cache := cache' \<rparr>;
                batch_id = ''batch_'' @ bi_batch_uuid inp;
                stored = (if valid = [] then (as_db st, return_ok ())
                  else case webhook_url_of_settings data of
                    Inl _ \<Rightarrow> (as_db st, throw (Db (DbFailure [] ''PrismaClientValidationError'')))
                  | Inr url \<Rightarrow> T (create_rows S (bi_store_faults inp) 0
                      (map (bulk_row (bb_merchant_id d) url (webhook_headers_of_settings data) batch_id (int (bi_now inp))) valid))
                      (as_db st))
            in case stored of
              (db', Inl _) \<Rightarrow> (st1 \<lparr> as_db := db' \<rparr>, BulkFailed)
            | (db', Inr _) \<Rightarrow>
              (let jobs = (if valid = [] \<or> bi_queue_fails inp then [] else map (bulk_job (bb_merchant_id d)) valid);
                   result = \<lparr> br_batch_id = batch_id, br_total = length (bb_settlements d), br_created = length valid,
                     br_errors = map (\<lambda>(i, e). (i, reason_text num zod e)) errors \<rparr>;
                   redis2 = (case bi_key inp of
                       Some k \<Rightarrow> if k = [] \<or> bi_save_fails inp then redis'
                         else kv_set R redis' (bi_now inp) (bulk_response_key k)
                                (json_stringify num (bulk_result_json result)) (Some idempotency_ttl_ms)
                     | None \<Rightarrow> redis')
               in (st1 \<lparr> as_db := db', as_redis := redis2, as_jobs := as_jobs st @ jobs \<rparr>, BulkCreated result)))))"

subsection \<open>Status of a batch\<close>

record batch_report =
  bp_batch_id :: string
  bp_total :: nat
  bp_pending :: nat
  bp_processing :: nat
  bp_completed :: nat
  bp_failed :: nat
  bp_status :: string

datatype batch_response = InvalidBatchId | BatchMissing string | BatchReport batch_report

definition count_status :: "string \<Rightarrow> settlement list \<Rightarrow> nat" where
  "count_status t rs = length (filter (\<lambda>r. s_status r = t) rs)"

definition batch_status :: "'db store_ops \<Rightarrow> 'db \<Rightarrow> string \<Rightarrow> batch_response" where
  "batch_status S db batch_id =
     (if batch_id = [] \<or> \<not> starts_with ''batch_'' batch_id then InvalidBatchId
      else let rows = st_find_many S db (\<lambda>r. s_batch_id r = Some batch_id) any_order None
        in if rows = [] then BatchMissing batch_id
           else let tot = length rows; pending = count_status ''pending'' rows;
                    completed = count_status ''completed'' rows; failed = count_status ''failed'' rows
             in BatchReport \<lparr> bp_batch_id = batch_id, bp_total = tot, bp_pending = pending,
                  bp_processing = count_status ''processing'' rows, bp_completed = completed, bp_failed = failed,
                  bp_status = (if completed = tot then ''completed'' else if failed = tot then ''failed''
                    else if pending = tot then ''pending'' else ''processing'') \<rparr>)"

subsection \<open>Listing\<close>

record pagination_meta =
  pm_page :: nat
  pm_limit :: nat
  pm_total :: nat
  pm_total_pages :: nat
  pm_has_next :: bool
  pm_has_prev :: bool

text \<open>\<open>Math.ceil(total / limit)\<close>; pages and limits are positive integers here.\<close>

definition build_pagination_meta :: "nat \<Rightarrow> nat \<Rightarrow> nat \<Rightarrow> pagination_meta" where
  "build_pagination_meta page limit tot =
     (let normalized = max 1 limit;
          pages = (if tot = 0 then 0 else (tot + normalized - 1) div normalized)
      in \<lparr> pm_page = page, pm_limit = normalized, pm_total = tot, pm_total_pages = pages,
           pm_has_next = (tot > 0 \<and> page < pages), pm_has_prev = (page > 1) \<rparr>)"

record list_query =
  lq_page :: nat
  lq_limit :: nat
  lq_status :: "string option"
  lq_from :: "int option"
  lq_to :: "int option"
  lq_include_deleted :: bool

definition newest_first :: "settlement \<Rightarrow> settlement \<Rightarrow> bool" where
  "newest_first a b \<longleftrightarrow> s_initiated_at a \<ge> s_initiated_at b"

definition list_filter :: "list_query \<Rightarrow> settlement \<Rightarrow> bool" where
  "list_filter q r \<longleftrightarrow>
     (case lq_status q of Some t \<Rightarrow> s_status r = t | None \<Rightarrow> True) \<and>
     (case lq_from q of Some t \<Rightarrow> t \<le> s_initiated_at r | None \<Rightarrow> True) \<and>
     (case lq_to q of Some t \<Rightarrow> s_initiated_at r \<le> t | None \<Rightarrow> True) \<and>
     (lq_include_deleted q \<or> s_superseded_by r = None)"

text \<open>\<open>skip\<close> and \<open>take\<close> over the ordered rows.\<close>

definition list_settlements :: "'db store_ops \<Rightarrow> 'db \<Rightarrow> list_query \<Rightarrow> settlement list \<times> pagination_meta" where
  "list_settlements S db q =
     (let rows = st_find_many S db (list_filter q) newest_first None
      in (take (lq_limit q) (drop ((lq_page q - 1) * lq_limit q) rows),
          build_pagination_meta (lq_page q) (lq_limit q) (length rows)))"

subsection \<open>What the handler stores\<close>

lemma check_item_amounts:
  "check_item B fl num bk running item = Inr (a, x) \<Longrightarrow>
   compute_settlement_amounts B (it_amount item) (bk_fee_bps bk) (bk_monthly_volume bk) (bk_tiers bk) None = Inr x"
  by (auto simp: check_item_def split: option.splits if_splits sum.splits)

lemma check_items_sound:
  "check_items B fl num bk uuid i running items = Inr (valid, errors) \<Longrightarrow>
   length valid + length errors = length items \<and>
   (\<forall>v\<in>set valid. (\<exists>item\<in>set items. compute_settlement_amounts B (it_amount item) (bk_fee_bps bk)
        (bk_monthly_volume bk) (bk_tiers bk) None = Inr (vi_amounts v)) \<and>
      (\<exists>j\<ge>i. vi_id v = settlement_id (uuid j))) \<and>
   (inj uuid \<longrightarrow> distinct (map vi_id valid))"
proof (induction items arbitrary: i running valid errors)
  case Nil
  then show ?case by simp
next
  case (Cons item items)
  show ?case
  proof (cases "check_item B fl num bk running item")
    case (Inl e)
    with Cons.prems obtain errors' where
      "check_items B fl num bk uuid (i + 1) running items = Inr (valid, errors')" "errors = (i, e) # errors'"
      by (auto split: item_reason.splits amount_error.splits sum.splits)
    then have IH: "length valid + length errors' = length items" "inj uuid \<longrightarrow> distinct (map vi_id valid)"
      and 2: "\<And>v. v \<in> set valid \<Longrightarrow> \<exists>item\<in>set items. compute_settlement_amounts B (it_amount item) (bk_fee_bps bk)
        (bk_monthly_volume bk) (bk_tiers bk) None = Inr (vi_amounts v)"
      and 3: "\<And>v. v \<in> set valid \<Longrightarrow> \<exists>j\<ge>i + 1. vi_id v = settlement_id (uuid j)"
      using Cons.IH [of "i + 1" running valid errors'] by blast+
    have "\<exists>j\<ge>i. vi_id v = settlement_id (uuid j)" if "v \<in> set valid" for v
      using 3 [OF that] by (meson add_leD1)
    with IH 2 \<open>errors = (i, e) # errors'\<close> show ?thesis by simp
  next
    case (Inr r)
    obtain a x where r: "r = (a, x)" by (cases r)
    with Inr Cons.prems obtain valid' where
      1: "check_items B fl num bk uuid (i + 1) (fl (running + a)) items = Inr (valid', errors)"
      and v: "valid = \<lparr> vi_id = settlement_id (uuid i), vi_asset = it_asset item, vi_amounts = x \<rparr> # valid'"
      by (auto split: sum.splits)
    from Cons.IH [OF 1] have IH: "length valid' + length errors = length items"
      "\<forall>v\<in>set valid'. (\<exists>item\<in>set items. compute_settlement_amounts B (it_amount item) (bk_fee_bps bk)
        (bk_monthly_volume bk) (bk_tiers bk) None = Inr (vi_amounts v)) \<and>
        (\<exists>j\<ge>i + 1. vi_id v = settlement_id (uuid j))"
      "inj uuid \<longrightarrow> distinct (map vi_id valid')" by auto
    have new: "settlement_id (uuid i) \<notin> set (map vi_id valid')" if "inj uuid"
    proof
      assume "settlement_id (uuid i) \<in> set (map vi_id valid')"
      then obtain w where w: "w \<in> set valid'" "vi_id w = settlement_id (uuid i)" by auto
      from bspec [OF IH(2) w(1)] obtain j where "i + 1 \<le> j" "vi_id w = settlement_id (uuid j)" by blast
      then have "uuid j = uuid i" using w(2) by simp
      then have "j = i" using that by (auto dest: injD)
      with \<open>i + 1 \<le> j\<close> show False by simp
    qed
    have "compute_settlement_amounts B (it_amount item) (bk_fee_bps bk) (bk_monthly_volume bk) (bk_tiers bk) None = Inr x"
      using check_item_amounts Inr r by blast
    moreover have "\<exists>j\<ge>i. vi_id w = settlement_id (uuid j)" if "w \<in> set valid'" for w
      using bspec [OF IH(2) that] by (meson add_leD1)
    ultimately show ?thesis using IH new by (auto simp: v)
  qed
qed

context settlement_store
begin

lemma create_rows_ok:
  assumes "invar db" "create_rows S flt i rs db = Inr db'" "distinct (map s_id rs)"
    and "\<forall>r\<in>set rs. st_find S db (s_id r) = None \<and> s_idempotency_key r = None"
  shows "invar db' \<and> st_find S db' = st_find S db ++ map_of (map (\<lambda>r. (s_id r, r)) rs)"
  using assms
proof (induction rs arbitrary: i db)
  case Nil
  then show ?case by simp
next
  case (Cons r rs)
  from Cons.prems(2) obtain db1 x where c: "create_settlement_with_unique_guard S (flt i) db r = (db1, Inr x)"
    "create_rows S flt (i + 1) rs db1 = Inr db'" by (auto split: prod.splits sum.splits)
  have 1: "invar db1" "st_find S db1 = (st_find S db)(s_id r \<mapsto> r)"
    using create_guard_fresh [OF Cons.prems(1) c(1)] Cons.prems(4) by auto
  have "distinct (map s_id rs)" "\<forall>x\<in>set rs. st_find S db1 (s_id x) = None \<and> s_idempotency_key x = None"
    using Cons.prems(3,4) 1(2) by (auto simp: image_iff)
  from Cons.IH [OF 1(1) c(2) this]
  have "invar db' \<and> st_find S db' = st_find S db1 ++ map_of (map (\<lambda>r. (s_id r, r)) rs)" .
  moreover have "map_of (map (\<lambda>r. (s_id r, r)) rs) (s_id r) = None"
    using Cons.prems(3) by (auto simp: map_of_eq_None_iff image_iff)
  ultimately show ?case using 1(2) by (auto simp: fun_eq_iff map_add_def split: option.splits)
qed

end

lemma bulk_row_simps [simp]:
  "s_id (bulk_row m url h b t v) = vi_id v" "s_idempotency_key (bulk_row m url h b t v) = None"
  "s_status (bulk_row m url h b t v) = ''pending''" "s_merchant_id (bulk_row m url h b t v) = m"
  "s_batch_id (bulk_row m url h b t v) = Some b" "s_gross_amount (bulk_row m url h b t v) = gross_of (vi_amounts v)"
  "s_fee_amount (bulk_row m url h b t v) = fee_of (vi_amounts v)" "s_net_amount (bulk_row m url h b t v) = net_of (vi_amounts v)"
  by (simp_all add: bulk_row_def)

lemma bulk_job_row: "bulk_job m v = settlement_job_of (bulk_row m url h b t v) None"
  by (simp add: bulk_job_def settlement_job_of_def bulk_row_def)

lemma bulk_plan_ok:
  assumes "bulk_plan B fl num cfg inp d cache = (cache', Inr (data, valid, errors))"
  obtains bk where "bk_tiers bk = ac_tiers cfg" "0 < length (bb_settlements d)" "length (bb_settlements d) \<le> 100"
    "check_items B fl num bk (bi_uuid inp) 0 0 (bb_settlements d) = Inr (valid, errors)"
    "bk_fee_bps bk = ac_default_bps cfg \<or> bps_ok (bk_fee_bps bk)"
proof -
  have rule: "fee_rule x = Some b \<Longrightarrow> bps_ok b" for x b
    by (auto simp: fee_rule_def split: json.splits if_splits)
  from assms obtain m daily where
    c: "check_items B fl num (bulk_context_of fl cfg inp m daily) (bi_uuid inp) 0 0 (bb_settlements d) = Inr (valid, errors)"
    "bb_settlements d \<noteq> []" "\<not> length (bb_settlements d) > 100"
    unfolding bulk_plan_def
    by (auto split: if_splits prod.splits sum.splits)
  show thesis
    by (rule that [OF _ _ _ c(1)]) (use c(2,3) rule in \<open>auto simp: bulk_context_of_def split: option.splits\<close>)
qed

lemma create_bulk_created:
  assumes "create_bulk S T B R fl num zod cfg inp d st = (st', BulkCreated r)"
  obtains redis' data valid errors url where
    "bulk_settlement_body_ok d" "bulk_claim R inp (as_redis st) = (redis', None)"
    "bulk_plan B fl num cfg inp d (as_cache st) = (as_cache st', Inr (data, valid, errors))"
    "valid = [] \<and> as_db st' = as_db st \<or>
     T (create_rows S (bi_store_faults inp) 0 (map (bulk_row (bb_merchant_id d) url (webhook_headers_of_settings data)
       (''batch_'' @ bi_batch_uuid inp) (int (bi_now inp))) valid)) (as_db st) = (as_db st', Inr ())"
    "as_jobs st' = as_jobs st @ (if bi_queue_fails inp then [] else map (bulk_job (bb_merchant_id d)) valid)"
    "r = \<lparr> br_batch_id = ''batch_'' @ bi_batch_uuid inp, br_total = length (bb_settlements d), br_created = length valid,
       br_errors = map (\<lambda>(i, e). (i, reason_text num zod e)) errors \<rparr>"
    "as_redis st' = (case bi_key inp of
         Some k \<Rightarrow> if k = [] \<or> bi_save_fails inp then redis'
           else kv_set R redis' (bi_now inp) (bulk_response_key k) (json_stringify num (bulk_result_json r)) (Some idempotency_ttl_ms)
       | None \<Rightarrow> redis')"
proof -
  have body: "bulk_settlement_body_ok d" using assms by (auto simp: create_bulk_def split: if_splits)
  obtain redis' cl where cl: "bulk_claim R inp (as_redis st) = (redis', cl)" by fastforce
  have "cl = None"
    using assms body cl
    by (auto simp: create_bulk_def bulk_claim_def split: option.splits if_splits prod.splits bool.splits)
  obtain cache' pl where pl: "bulk_plan B fl num cfg inp d (as_cache st) = (cache', pl)" by fastforce
  have "is_ok pl"
    using assms body cl pl \<open>cl = None\<close>
    by (auto simp: create_bulk_def bulk_plan_def Let_def is_ok_def split: sum.splits if_splits prod.splits)
  then obtain x where "pl = Inr x" by (cases pl) auto
  then obtain data valid errors where p: "pl = Inr (data, valid, errors)" by (metis prod_cases3)
  note cb = assms [unfolded create_bulk_def cl \<open>cl = None\<close> pl p]
  show thesis
  proof (cases "valid = []")
    case True
    with cb body show thesis
      by (intro that [OF body cl [unfolded \<open>cl = None\<close>] , of data valid errors None])
         (auto simp: Let_def pl p split: option.splits if_splits)
  next
    case False
    with cb obtain url where u: "webhook_url_of_settings data = Inr url"
      by (cases "webhook_url_of_settings data") (auto simp: body Let_def)
    show thesis
      by (rule that [OF body cl [unfolded \<open>cl = None\<close>], of data valid errors url])
         (use cb False u body in \<open>auto simp: Let_def pl p split: option.splits if_splits sum.splits prod.splits\<close>)
  qed
qed

lemma pages_concat:
  assumes "0 < (l::nat)"
  shows "concat (map (\<lambda>p. take l (drop ((p - 1) * l) xs)) [1..<Suc k]) = take (k * l) xs"
proof (induction k)
  case 0
  then show ?case by simp
next
  case (Suc k)
  have "take (k * l + l) xs = take (k * l) xs @ take l (drop (k * l) xs)" by (rule take_add)
  with Suc show ?case by (simp add: add.commute)
qed

lemma ceil_pages: "0 < (l::nat) \<Longrightarrow> n \<le> (n + l - 1) div l * l"
  using div_mult_mod_eq [of "n + l - 1" l] mod_less_divisor [of l "n + l - 1"] by linarith

lemma status_partition:
  "list_all (\<lambda>r. s_status r \<in> {''pending'', ''processing'', ''completed'', ''failed''}) rs \<Longrightarrow>
   count_status ''pending'' rs + count_status ''processing'' rs + count_status ''completed'' rs + count_status ''failed'' rs = length rs"
  by (induction rs) (auto simp: count_status_def)

lemma bulk_keys_differ [simp]: "bulk_key k \<noteq> bulk_response_key k" "bulk_response_key k \<noteq> bulk_key k"
  by (simp_all add: bulk_key_def bulk_response_key_def)

lemma bulk_text_nonempty [simp]: "json_stringify num (bulk_result_json r) \<noteq> []"
  by (simp add: bulk_result_json_def)

lemma bulk_claim_first:
  assumes "redis_strings R rinv entry" "rinv redis" "bi_key inp = Some k" "k \<noteq> []" "\<not> bi_claim_fails inp"
    and "kv_live (bi_now inp) (entry redis (bulk_key k)) = None"
  shows "\<exists>redis'. bulk_claim R inp redis = (redis', None) \<and> rinv redis' \<and>
    entry redis' = (entry redis)(bulk_key k \<mapsto> (bi_hash inp, Some (bi_now inp + idempotency_ttl_ms)))"
  using redis_strings.set_nx_entry [OF assms(1,2), of "bi_now inp" "bulk_key k" "bi_hash inp" idempotency_ttl_ms] assms(3-6)
  by (auto simp: bulk_claim_def)

lemma bulk_claim_again:
  assumes "redis_strings R rinv entry" "rinv redis" "bi_key inp = Some k" "k \<noteq> []" "\<not> bi_claim_fails inp" "\<not> bi_read_fails inp"
    and "kv_live (bi_now inp) (entry redis (bulk_key k)) = Some (bi_hash inp)"
    and "kv_live (bi_now inp) (entry redis (bulk_response_key k)) = t" "t \<noteq> Some []"
  shows "\<exists>redis'. bulk_claim R inp redis =
    (redis', Some (case t of Some x \<Rightarrow> BulkReplayed x | None \<Rightarrow> StillProcessing))"
proof -
  obtain redis' where 1: "kv_set_nx R redis (bi_now inp) (bulk_key k) (bi_hash inp) idempotency_ttl_ms = (redis', False)"
    "rinv redis'" "entry redis' = entry redis"
    using redis_strings.set_nx_entry [OF assms(1,2), of "bi_now inp" "bulk_key k" "bi_hash inp" idempotency_ttl_ms]
      assms(7) by auto
  have "kv_get R redis' (bi_now inp) (bulk_key k) = Some (bi_hash inp)"
    "kv_get R redis' (bi_now inp) (bulk_response_key k) = t"
    using redis_strings.get_entry [OF assms(1) 1(2)] assms(7,8) 1(3) by simp_all
  with 1 assms(3-6,9) show ?thesis by (auto simp: bulk_claim_def split: option.splits)
qed

lemma create_bulk_saved:
  assumes "bulk_claim R inp (as_redis st) = (redis', None)" "bi_key inp = Some k" "k \<noteq> []" "\<not> bi_save_fails inp"
    and "create_bulk S T B R fl num zod cfg inp d st = (st1, BulkCreated r)"
  shows "as_redis st1 = kv_set R redis' (bi_now inp) (bulk_response_key k) (json_stringify num (bulk_result_json r))
    (Some idempotency_ttl_ms)"
  by (rule create_bulk_created [OF assms(5)]) (use assms(1-4) in simp)

lemma create_bulk_redis:
  assumes "bulk_claim R inp (as_redis st) = (redis', None)" "bulk_settlement_body_ok d"
    and "create_bulk S T B R fl num zod cfg inp d st = (st1, resp)" "\<And>r. resp \<noteq> BulkCreated r"
  shows "as_redis st1 = redis'"
  using assms by (auto simp: create_bulk_def Let_def split: prod.splits sum.splits)

subsection \<open>Properties\<close>

lemma bulk_creates_valid_items:
  assumes "settlement_transactions S invar T" "bignumber B val" "invar (as_db st)" "\<forall>t \<in> set (ac_tiers cfg). 0 \<le> discount_bps t"
    and "bps_ok (ac_default_bps cfg)" "inj (bi_uuid inp)"
    and "\<forall>i. st_find S (as_db st) (settlement_id (bi_uuid inp i)) = None"
    and "create_bulk S T B R fl num zod cfg inp d st = (st', BulkCreated r)"
  shows "\<exists>rows. length rows = br_created r \<and> br_created r + length (br_errors r) = br_total r \<and>
    br_total r = length (bb_settlements d) \<and> br_total r \<le> 100 \<and> distinct (map s_id rows) \<and>
    st_find S (as_db st') = st_find S (as_db st) ++ map_of (map (\<lambda>x. (s_id x, x)) rows) \<and>
    list_all (\<lambda>x. s_status x = ''pending'' \<and> s_merchant_id x = bb_merchant_id d \<and> s_batch_id x = Some (br_batch_id r) \<and>
      dec_val (s_fee_amount x) + dec_val (s_net_amount x) = dec_val (s_gross_amount x)) rows \<and>
    as_jobs st' = as_jobs st @ (if bi_queue_fails inp then [] else map (\<lambda>x. settlement_job_of x None) rows)"
proof -
  obtain redis' data valid errors url where c: "bulk_settlement_body_ok d"
    "bulk_plan B fl num cfg inp d (as_cache st) = (as_cache st', Inr (data, valid, errors))"
    "valid = [] \<and> as_db st' = as_db st \<or>
     T (create_rows S (bi_store_faults inp) 0 (map (bulk_row (bb_merchant_id d) url (webhook_headers_of_settings data)
       (''batch_'' @ bi_batch_uuid inp) (int (bi_now inp))) valid)) (as_db st) = (as_db st', Inr ())"
    "as_jobs st' = as_jobs st @ (if bi_queue_fails inp then [] else map (bulk_job (bb_merchant_id d)) valid)"
    "r = \<lparr> br_batch_id = ''batch_'' @ bi_batch_uuid inp, br_total = length (bb_settlements d), br_created = length valid,
       br_errors = map (\<lambda>(i, e). (i, reason_text num zod e)) errors \<rparr>"
    by (rule create_bulk_created [OF assms(8)])
  obtain bk where bk: "bk_tiers bk = ac_tiers cfg" "length (bb_settlements d) \<le> 100"
    "check_items B fl num bk (bi_uuid inp) 0 0 (bb_settlements d) = Inr (valid, errors)"
    "bk_fee_bps bk = ac_default_bps cfg \<or> bps_ok (bk_fee_bps bk)"
    by (rule bulk_plan_ok [OF c(2)])
  from check_items_sound [OF bk(3)] have v: "length valid + length errors = length (bb_settlements d)"
    "distinct (map vi_id valid)"
    and item: "\<And>w. w \<in> set valid \<Longrightarrow> \<exists>item\<in>set (bb_settlements d). compute_settlement_amounts B (it_amount item)
       (bk_fee_bps bk) (bk_monthly_volume bk) (bk_tiers bk) None = Inr (vi_amounts w)"
    and fresh: "\<And>w. w \<in> set valid \<Longrightarrow> \<exists>j. vi_id w = settlement_id (bi_uuid inp j)"
    using assms(6) by blast+
  have sum: "dec_val (fee_of (vi_amounts w)) + dec_val (net_of (vi_amounts w)) = dec_val (gross_of (vi_amounts w))"
    if w: "w \<in> set valid" for w
  proof -
    obtain item where it: "item \<in> set (bb_settlements d)" "compute_settlement_amounts B (it_amount item)
       (bk_fee_bps bk) (bk_monthly_volume bk) (bk_tiers bk) None = Inr (vi_amounts w)" using item [OF w] by blast
    have "is_amount (it_amount item)" "bps_ok (bk_fee_bps bk)" "\<forall>t \<in> set (bk_tiers bk). 0 \<le> discount_bps t"
      using c(1) it(1) bk(1,4) assms(4,5)
      by (auto simp: bulk_settlement_body_ok_def item_ok_def settlement_amount_string_def list_all_iff)
    from settlement_amounts_add_up [OF assms(2) this it(2)] show ?thesis by simp
  qed
  let ?row = "bulk_row (bb_merchant_id d) url (webhook_headers_of_settings data) (''batch_'' @ bi_batch_uuid inp) (int (bi_now inp))"
  let ?rows = "map ?row valid"
  have "st_find S (as_db st') = st_find S (as_db st) ++ map_of (map (\<lambda>x. (s_id x, x)) ?rows)"
  proof (cases "valid = [] \<and> as_db st' = as_db st")
    case True
    then show ?thesis by simp
  next
    case False
    have "distinct (map s_id ?rows)" using v(2) by (simp add: o_def)
    moreover have "\<forall>x\<in>set ?rows. st_find S (as_db st) (s_id x) = None \<and> s_idempotency_key x = None"
      using fresh assms(7) by fastforce
    moreover obtain db1 where "create_rows S (bi_store_faults inp) 0 ?rows (as_db st) = Inr db1"
      "st_find S (as_db st') = st_find S db1"
      using settlement_transactions.committed [OF assms(1,3)] c(3) False by blast
    ultimately show ?thesis
      using settlement_store.create_rows_ok [OF settlement_transactions.axioms(1) [OF assms(1)] assms(3),
          of "bi_store_faults inp" 0 ?rows db1] by simp
  qed
  moreover have "as_jobs st' = as_jobs st @ (if bi_queue_fails inp then [] else map (\<lambda>x. settlement_job_of x None) ?rows)"
    using c(4) by (simp add: bulk_job_row [of _ _ url "webhook_headers_of_settings data" "''batch_'' @ bi_batch_uuid inp" "int (bi_now inp)"])
  moreover have "distinct (map s_id ?rows)" using v(2) by (simp add: o_def)
  moreover have "list_all (\<lambda>x. s_status x = ''pending'' \<and> s_merchant_id x = bb_merchant_id d \<and> s_batch_id x = Some (br_batch_id r) \<and>
      dec_val (s_fee_amount x) + dec_val (s_net_amount x) = dec_val (s_gross_amount x)) ?rows"
    using sum by (auto simp: list_all_iff c(5))
  moreover have "length ?rows = br_created r" "br_created r + length (br_errors r) = br_total r"
    "br_total r = length (bb_settlements d)" "br_total r \<le> 100"
    using v(1) bk(2) by (simp_all add: c(5))
  ultimately show ?thesis by blast
qed

text \<open>
  C10: Bulk creation is all or nothing. An answer 201 means that one pending row was stored for
  each valid item and no other row, all in the batch it names and with fee and net that add up
  to the gross, that the valid items and the reported errors together are all items of the
  request, and that exactly the jobs of these rows were queued (none when the queue fails).
  Every other answer, also after a failed insert or a failed commit, leaves the rows and the
  queue as they were.
\<close>

theorem bulk_all_or_nothing:
  assumes "settlement_transactions S invar T" "bignumber B val" "invar (as_db st)" "\<forall>t \<in> set (ac_tiers cfg). 0 \<le> discount_bps t"
    and "bps_ok (ac_default_bps cfg)" "inj (bi_uuid inp)"
    and "\<forall>i. st_find S (as_db st) (settlement_id (bi_uuid inp i)) = None"
    and "create_bulk S T B R fl num zod cfg inp d st = (st', resp)"
  shows "case resp of
      BulkCreated r \<Rightarrow> (\<exists>rows. length rows = br_created r \<and> br_created r + length (br_errors r) = br_total r \<and>
        br_total r = length (bb_settlements d) \<and> br_total r \<le> 100 \<and> distinct (map s_id rows) \<and>
        st_find S (as_db st') = st_find S (as_db st) ++ map_of (map (\<lambda>x. (s_id x, x)) rows) \<and>
        list_all (\<lambda>x. s_status x = ''pending'' \<and> s_merchant_id x = bb_merchant_id d \<and> s_batch_id x = Some (br_batch_id r) \<and>
          dec_val (s_fee_amount x) + dec_val (s_net_amount x) = dec_val (s_gross_amount x)) rows \<and>
        as_jobs st' = as_jobs st @ (if bi_queue_fails inp then [] else map (\<lambda>x. settlement_job_of x None) rows))
    | _ \<Rightarrow> bulk_status resp \<noteq> 201 \<and> st_find S (as_db st') = st_find S (as_db st) \<and> as_jobs st' = as_jobs st"
proof (cases "\<exists>r. resp = BulkCreated r")
  case True
  then obtain r where r: "resp = BulkCreated r" ..
  from bulk_creates_valid_items [OF assms(1-7) assms(8) [unfolded r]] show ?thesis by (simp add: r)
next
  case False
  then have "st_find S (as_db st') = st_find S (as_db st) \<and> as_jobs st' = as_jobs st"
    using assms(8) settlement_transactions.rolled_back [OF assms(1,3)]
    by (auto simp: create_bulk_def Let_def split: if_splits prod.splits option.splits sum.splits)
  with False show ?thesis by (auto simp: bulk_status_def split: bulk_response.splits merchant_refusal.splits)
qed

text \<open>
  within the life of a bulk idempotency key only its first request creates anything. A
  repetition with the same payload replays the stored response when the first request succeeded,
  and is refused as still processing when the first one was refused, however it was refused: a
  key whose request failed validation is lost for a day.
\<close>

theorem bulk_key_used_once:
  assumes "redis_strings R rinv entry" "rinv (as_redis st)"
    and "bi_key inp = Some k" "k \<noteq> []" "\<not> bi_claim_fails inp" "\<not> bi_save_fails inp" "bi_hash inp \<noteq> []"
    and "kv_live (bi_now inp) (entry (as_redis st) (bulk_key k)) = None"
    and "kv_live (bi_now inp) (entry (as_redis st) (bulk_response_key k)) = None"
    and "bulk_settlement_body_ok d" "create_bulk S T B R fl num zod cfg inp d st = (st1, resp)"
    and "bi_key inp2 = Some k" "bi_hash inp2 = bi_hash inp" "\<not> bi_claim_fails inp2" "\<not> bi_read_fails inp2"
    and "bi_now inp \<le> bi_now inp2" "bi_now inp2 < bi_now inp + idempotency_ttl_ms"
  shows "\<exists>st2. create_bulk S T B R fl num zod cfg2 inp2 d st1 =
      (st2, case resp of BulkCreated r \<Rightarrow> BulkReplayed (json_stringify num (bulk_result_json r)) | _ \<Rightarrow> StillProcessing) \<and>
    as_db st2 = as_db st1 \<and> as_jobs st2 = as_jobs st1"
proof -
  obtain redis' where first: "bulk_claim R inp (as_redis st) = (redis', None)" "rinv redis'"
    "entry redis' = (entry (as_redis st))(bulk_key k \<mapsto> (bi_hash inp, Some (bi_now inp + idempotency_ttl_ms)))"
    using bulk_claim_first [OF assms(1-5,8)] by blast
  define t where "t = (case resp of BulkCreated r \<Rightarrow> Some (json_stringify num (bulk_result_json r)) | _ \<Rightarrow> None)"
  have old: "kv_live (bi_now inp2) (entry redis' (bulk_response_key k)) = None"
    using kv_live_mono [OF assms(9,16)] by (simp add: first(3))
  have "rinv (as_redis st1) \<and> kv_live (bi_now inp2) (entry (as_redis st1) (bulk_key k)) = Some (bi_hash inp) \<and>
    kv_live (bi_now inp2) (entry (as_redis st1) (bulk_response_key k)) = t"
  proof (cases "\<exists>r. resp = BulkCreated r")
    case True
    then obtain r where r: "resp = BulkCreated r" ..
    have "as_redis st1 = kv_set R redis' (bi_now inp) (bulk_response_key k) (json_stringify num (bulk_result_json r))
        (Some idempotency_ttl_ms)"
      by (rule create_bulk_saved [OF first(1) assms(3,4,6) assms(11) [unfolded r]])
    with redis_strings.set_entry [OF assms(1) first(2)] r show ?thesis
      using assms(17) by (simp add: first(3) kv_live_def t_def)
  next
    case False
    then have "as_redis st1 = redis'" using create_bulk_redis [OF first(1) assms(10,11)] by blast
    moreover have "t = None" using False by (auto simp: t_def split: bulk_response.splits)
    ultimately show ?thesis using first(2) old assms(17) by (simp add: first(3) kv_live_def)
  qed
  then obtain redis2 where "bulk_claim R inp2 (as_redis st1) =
      (redis2, Some (case t of Some x \<Rightarrow> BulkReplayed x | None \<Rightarrow> StillProcessing))"
    using bulk_claim_again [OF assms(1) _ assms(12,4,14,15), of "as_redis st1" t] assms(13)
    by (auto simp: t_def split: bulk_response.splits)
  moreover have "(case t of Some x \<Rightarrow> BulkReplayed x | None \<Rightarrow> StillProcessing) =
      (case resp of BulkCreated r \<Rightarrow> BulkReplayed (json_stringify num (bulk_result_json r)) | _ \<Rightarrow> StillProcessing)"
    by (simp add: t_def split: bulk_response.splits)
  ultimately show ?thesis using assms(10) by (simp add: create_bulk_def)
qed

text \<open>
  C43: the report of a batch counts every settlement of the batch once, and says
  \<open>completed\<close>, \<open>failed\<close> or \<open>pending\<close> exactly when all of them are.
\<close>

theorem batch_report_counts:
  assumes "list_all (\<lambda>r. s_status r \<in> {''pending'', ''processing'', ''completed'', ''failed''})
      (st_find_many S db (\<lambda>r. s_batch_id r = Some b) any_order None)"
    and "batch_status S db b = BatchReport p"
  shows "bp_pending p + bp_processing p + bp_completed p + bp_failed p = bp_total p \<and> 0 < bp_total p \<and>
    (bp_status p = ''completed'' \<longleftrightarrow> bp_completed p = bp_total p) \<and>
    (bp_status p = ''failed'' \<longleftrightarrow> bp_failed p = bp_total p) \<and>
    (bp_status p = ''pending'' \<longleftrightarrow> bp_pending p = bp_total p)"
proof -
  let ?rows = "st_find_many S db (\<lambda>r. s_batch_id r = Some b) any_order None"
  have "?rows \<noteq> []" and p: "p = \<lparr> bp_batch_id = b, bp_total = length ?rows, bp_pending = count_status ''pending'' ?rows,
      bp_processing = count_status ''processing'' ?rows, bp_completed = count_status ''completed'' ?rows,
      bp_failed = count_status ''failed'' ?rows,
      bp_status = (if count_status ''completed'' ?rows = length ?rows then ''completed''
        else if count_status ''failed'' ?rows = length ?rows then ''failed''
        else if count_status ''pending'' ?rows = length ?rows then ''pending'' else ''processing'') \<rparr>"
    using assms(2) by (auto simp: batch_status_def Let_def split: if_splits)
  with status_partition [OF assms(1)] show ?thesis by (auto simp: p)
qed

text \<open>
  the pages of the settlement list, one after the other up to the page count the response
  reports, are the matching settlements, newest first, each exactly once.
\<close>

theorem settlement_list_pages:
  assumes "settlement_store S invar" "invar db" "0 < lq_limit q"
  shows "\<exists>rows. concat (map (\<lambda>p. fst (list_settlements S db (q \<lparr> lq_page := p \<rparr>)))
        [1..<Suc (pm_total_pages (snd (list_settlements S db q)))]) = rows \<and>
    distinct rows \<and> sorted_wrt newest_first rows \<and>
    set rows = {r. list_filter q r \<and> (\<exists>i. st_find S db i = Some r)} \<and>
    length rows = pm_total (snd (list_settlements S db q))"
proof -
  have le: "row_order newest_first" by (auto simp: row_order_def newest_first_def)
  obtain rows where rows: "st_find_many S db (list_filter q) newest_first None = rows" "distinct rows"
    "sorted_wrt newest_first rows" "set rows = {r. list_filter q r \<and> (\<exists>i. st_find S db i = Some r)}"
    using settlement_store.find_many [OF assms(1,2) le, of "list_filter q" None] by (auto simp: take_opt_def)
  have f: "list_filter (q \<lparr> lq_page := p \<rparr>) = list_filter q" for p
    by (simp add: list_filter_def fun_eq_iff)
  let ?k = "pm_total_pages (snd (list_settlements S db q))"
  have "length rows \<le> ?k * lq_limit q"
    using ceil_pages [OF assms(3), of "length rows"] assms(3)
    by (auto simp: list_settlements_def build_pagination_meta_def rows(1) Let_def max_def)
  then have "concat (map (\<lambda>p. fst (list_settlements S db (q \<lparr> lq_page := p \<rparr>))) [1..<Suc ?k]) = rows"
    using pages_concat [OF assms(3), of rows ?k]
    by (simp add: list_settlements_def f rows(1) Let_def del: upt_Suc)
  with rows show ?thesis by (auto simp: list_settlements_def Let_def build_pagination_meta_def)
qed

definition sample_bulk_inputs :: "nat \<Rightarrow> bulk_inputs" where
  "sample_bulk_inputs now = \<lparr> bi_now = now, bi_key = Some ''k7'', bi_hash = ''h'', bi_merchant = Inr (Some sample_merchant),
     bi_daily_sum = Inr (Some ''0''), bi_month_cached = Inr (Some ''0''), bi_month_sum = Inr None,
     bi_uuid = (\<lambda>i. replicate i CHR ''a''), bi_batch_uuid = ''b'', bi_claim_fails = False, bi_read_fails = False,
     bi_store_faults = (\<lambda>_. no_faults), bi_queue_fails = False, bi_save_fails = False \<rparr>"

definition sample_bulk_body :: bulk_body where
  "sample_bulk_body = \<lparr> bb_merchant_id = ''m1'', bb_settlements = [\<lparr> it_amount = ''10.5'', it_asset = ''USDC'' \<rparr>,
     \<lparr> it_amount = ''0'', it_asset = ''USDC'' \<rparr>] \<rparr>"

abbreviation sample_bulk :: "nat \<Rightarrow> bulk_body \<Rightarrow> (table, kv_store) api_state \<Rightarrow> (table, kv_store) api_state \<times> bulk_response" where
  "sample_bulk now d st \<equiv>
     create_bulk tab_ops (table_transaction None) dec_ops kvs_ops id (\<lambda>_. ''n'') [] sample_config (sample_bulk_inputs now) d st"

definition created_result :: "bulk_response \<Rightarrow> bulk_result option" where
  "created_result r = (case r of BulkCreated x \<Rightarrow> Some x | _ \<Rightarrow> None)"

lemma sample_bulk_created: "\<exists>st' r. sample_bulk 5 sample_bulk_body sample_state = (st', BulkCreated r) \<and> br_created r = 1"
proof -
  have "map_option br_created (created_result (snd (sample_bulk 5 sample_bulk_body sample_state))) = Some 1" by code_simp
  then show ?thesis
    by (cases "sample_bulk 5 sample_bulk_body sample_state") (auto simp: created_result_def split: bulk_response.splits)
qed

theorem bulk_all_or_nothing_witness:
  "\<exists>st' r rows. sample_bulk 5 sample_bulk_body sample_state = (st', BulkCreated r) \<and> length rows = 1 \<and>
     length (br_errors r) = 1 \<and> as_jobs st' = map (\<lambda>x. settlement_job_of x None) rows"
proof -
  obtain st' r where run: "sample_bulk 5 sample_bulk_body sample_state = (st', BulkCreated r)" and n: "br_created r = 1"
    using sample_bulk_created by blast
  have h: "\<forall>t \<in> set (ac_tiers sample_config). 0 \<le> discount_bps t" "bps_ok (ac_default_bps sample_config)"
    "inj (bi_uuid (sample_bulk_inputs 5))"
    by (simp_all add: sample_config_def bps_ok_def sample_bulk_inputs_def inj_def)
  have "\<forall>i. st_find tab_ops (as_db sample_state) (settlement_id (bi_uuid (sample_bulk_inputs 5) i)) = None"
    by (simp add: sample_state_def sample_table_def sample_settlement_def tab_ops_def settlement_id_def)
  from bulk_all_or_nothing [OF tab_tx.settlement_transactions_axioms dec.bignumber_axioms sample_fresh(3) h this run] n run
  show ?thesis by (auto simp: sample_bulk_inputs_def sample_bulk_body_def sample_state_def)
qed

text \<open>A failed commit stores nothing.\<close>

lemma failed_commit_stores_nothing:
  "case create_bulk tab_ops (table_transaction (Some (Db (DbFailure ''P2034'' [])))) dec_ops kvs_ops id (\<lambda>_. ''n'') [] sample_config
      (sample_bulk_inputs 5) sample_bulk_body sample_state of
     (st', resp) \<Rightarrow> as_db st' = sample_table \<and> as_jobs st' = [] \<and> bulk_status resp = 500"
  by code_simp

theorem bulk_key_used_once_witness:
  "\<exists>st1 st2 r t. sample_bulk 5 sample_bulk_body sample_state = (st1, BulkCreated r) \<and>
     sample_bulk 9 sample_bulk_body st1 = (st2, BulkReplayed t)"
proof -
  obtain st1 r where run: "sample_bulk 5 sample_bulk_body sample_state = (st1, BulkCreated r)"
    using sample_bulk_created by blast
  have i: "bi_key (sample_bulk_inputs n) = Some ''k7''" "''k7'' \<noteq> []" "\<not> bi_claim_fails (sample_bulk_inputs n)"
    "\<not> bi_save_fails (sample_bulk_inputs n)" "\<not> bi_read_fails (sample_bulk_inputs n)" "bi_hash (sample_bulk_inputs n) \<noteq> []"
    "bi_hash (sample_bulk_inputs n) = bi_hash (sample_bulk_inputs m)" "bi_now (sample_bulk_inputs n) = n" for n m
    by (simp_all add: sample_bulk_inputs_def)
  have b: "bulk_settlement_body_ok sample_bulk_body" by code_simp
  have live: "kv_live (bi_now (sample_bulk_inputs 5)) (map_of (as_redis sample_state) k) = None" for k
    by (simp add: sample_state_def kv_live_def)
  have t: "bi_now (sample_bulk_inputs 5) \<le> bi_now (sample_bulk_inputs 9)"
    "bi_now (sample_bulk_inputs 9) < bi_now (sample_bulk_inputs 5) + idempotency_ttl_ms"
    by (simp_all add: i idempotency_ttl_ms_def)
  from bulk_key_used_once [where ?cfg2.0 = sample_config, OF kvs.redis_strings_axioms TrueI i(1-4,6) live live b run i(1,7,3,5) t] run
  show ?thesis by auto
qed

definition sample_batch :: table where
  "sample_batch = [(sample_settlement ''s1'' None) \<lparr> s_batch_id := Some ''batch_1'' \<rparr>,
     (sample_settlement ''s2'' None) \<lparr> s_batch_id := Some ''batch_1'', s_status := ''completed'' \<rparr>]"

definition report_of :: "batch_response \<Rightarrow> batch_report option" where
  "report_of r = (case r of BatchReport p \<Rightarrow> Some p | _ \<Rightarrow> None)"

theorem batch_report_counts_witness:
  "\<exists>p. batch_status tab_ops sample_batch ''batch_1'' = BatchReport p \<and> bp_status p \<noteq> ''completed'' \<and>
     bp_pending p + bp_processing p + bp_completed p + bp_failed p = 2"
proof -
  have "map_option bp_total (report_of (batch_status tab_ops sample_batch ''batch_1'')) = Some 2"
    "map_option bp_completed (report_of (batch_status tab_ops sample_batch ''batch_1'')) = Some 1" by code_simp+
  then obtain p where p: "batch_status tab_ops sample_batch ''batch_1'' = BatchReport p" "bp_total p = 2" "bp_completed p = 1"
    by (cases "batch_status tab_ops sample_batch ''batch_1''") (auto simp: report_of_def)
  have "list_all (\<lambda>r. s_status r \<in> {''pending'', ''processing'', ''completed'', ''failed''})
      (st_find_many tab_ops sample_batch (\<lambda>r. s_batch_id r = Some ''batch_1'') any_order None)"
    by code_simp
  from batch_report_counts [OF this p(1)] p show ?thesis by auto
qed

theorem settlement_list_pages_witness:
  "\<exists>rows. concat (map (\<lambda>p. fst (list_settlements tab_ops sample_table
       \<lparr> lq_page = p, lq_limit = 1, lq_status = None, lq_from = None, lq_to = None, lq_include_deleted = False \<rparr>)) [1..<3]) = rows \<and>
     distinct rows \<and> length rows = 2"
proof -
  let ?q = "\<lparr> lq_page = 1, lq_limit = 1, lq_status = None, lq_from = None, lq_to = None, lq_include_deleted = False \<rparr>"
  have "pm_total_pages (snd (list_settlements tab_ops sample_table ?q)) = 2" "pm_total (snd (list_settlements tab_ops sample_table ?q)) = 2"
    by code_simp+
  with settlement_list_pages [OF tab.settlement_store_axioms sample_table_ok, of ?q] show ?thesis by (auto simp: eval_nat_numeral)
qed

end
