(* ===== verification/StellarUtils.thy ===== *)
theory StellarUtils
  imports Decimal Binary64
begin

section \<open>Stellar utilities (\<open>shared/stellar-utils/index.ts\<close>)\<close>

text \<open>
  Conversion between decimal amounts and stroop integers, memo and hash validation, and the
  \<open>setOptions\<close> builder. \<open>BigInt\<close> is HOL's \<open>nat\<close>. The scale \<open>BigInt(10 ** decimals)\<close> goes
  through a double: it is the power of ten rounded to binary64, exact up to 22 decimals (the
  callers use 7), and no integer once the power overflows. Address validation is the Stellar
  SDK's \<open>StrKey\<close>, a parameter.
\<close>

subsection \<open>Amounts\<close>

datatype stellar_error =
    InvalidNumericString
  | InvalidIntegerString
  | MemoInvalid string
  | SignerKeyInvalid
  | OutOfByteRange string
  | ScaleNotInteger

text \<open>\<open>BigInt(10 ** decimals)\<close>; \<open>BigInt(Infinity)\<close> is a \<open>RangeError\<close>.\<close>

definition amount_scale :: "nat \<Rightarrow> nat option" where
  "amount_scale decimals = (case round64 (10 ^ decimals) of Fin q \<Rightarrow> Some (nat \<lfloor>q\<rfloor>) | _ \<Rightarrow> None)"

definition to_stellar_amount :: "string \<Rightarrow> nat \<Rightarrow> (stellar_error, string) result" where
  "to_stellar_amount s decimals =
     (if \<not> is_amount s then throw InvalidNumericString
      else let (whole, frac) = dec_parts s;
               padded = take decimals (frac @ replicate decimals CHR ''0'')
           in case amount_scale decimals of
                None \<Rightarrow> throw ScaleNotInteger
              | Some scale \<Rightarrow> return_ok (digits_of_nat (nat_of_digits whole * scale + nat_of_digits padded)))"

text \<open>\<open>s.replace(/0+$/, '')\<close>\<close>

definition strip_trailing_zeros :: "string \<Rightarrow> string" where
  "strip_trailing_zeros s = rev (dropWhile (\<lambda>c. c = CHR ''0'') (rev s))"

definition from_stellar_amount :: "string \<Rightarrow> nat \<Rightarrow> (stellar_error, string) result" where
  "from_stellar_amount s decimals =
     (if \<not> is_numeral s then throw InvalidIntegerString
      else case amount_scale decimals of
          None \<Rightarrow> throw ScaleNotInteger
        | Some scale \<Rightarrow>
          (let n = nat_of_digits s;
               whole = digits_of_nat (n div scale);
               frac = strip_trailing_zeros (pad_start decimals CHR ''0'' (digits_of_nat (n mod scale)))
           in return_ok (if frac \<noteq> [] then whole @ CHR ''.'' # frac else whole)))"

definition format_amount :: "string \<Rightarrow> nat \<Rightarrow> string" where
  "format_amount s decimals =
     (case from_stellar_amount s decimals of Inl _ \<Rightarrow> s | Inr a \<Rightarrow> a)"

subsection \<open>Memos and hashes\<close>

definition is_hex :: "char \<Rightarrow> bool" where
  "is_hex c \<longleftrightarrow> is_digit c \<or> (97 \<le> char_code c \<and> char_code c \<le> 102) \<or>
     (65 \<le> char_code c \<and> char_code c \<le> 70)"

definition validate_transaction_hash :: "string \<Rightarrow> bool" where
  "validate_transaction_hash h \<longleftrightarrow> length h = 64 \<and> list_all is_hex h"

definition uint64_max :: nat where
  "uint64_max = 2 ^ 64 - 1"

definition validate_memo :: "string \<Rightarrow> string \<Rightarrow> bool" where
  "validate_memo ty v =
     (if ty = ''text'' then length v \<le> 28
      else if ty = ''id'' then is_numeral v \<and> nat_of_digits v \<le> uint64_max
      else if ty = ''hash'' \<or> ty = ''return'' then length v = 64 \<and> list_all is_hex v
      else False)"

definition build_memo :: "string \<Rightarrow> string \<Rightarrow> (stellar_error, string \<times> string) result" where
  "build_memo ty v = (if validate_memo ty v then return_ok (ty, v) else throw (MemoInvalid ty))"

subsection \<open>The \<open>setOptions\<close> builder\<close>

text \<open>
  A number parameter is an \<open>option\<close> (\<open>undefined\<close> is \<open>None\<close>); numbers are rationals,
  so that \<open>Number.isInteger\<close> is a real test.
\<close>

record set_options_params =
  master_weight :: "rat option"
  low_threshold :: "rat option"
  med_threshold :: "rat option"
  high_threshold :: "rat option"
  signer :: "(string \<times> rat) option"

definition is_byte :: "rat \<Rightarrow> bool" where
  "is_byte x \<longleftrightarrow> of_int \<lfloor>x\<rfloor> = x \<and> 0 \<le> x \<and> x \<le> 255"

definition check_byte :: "string \<Rightarrow> rat option \<Rightarrow> (stellar_error, unit) result" where
  "check_byte name v =
     (case v of None \<Rightarrow> return_ok ()
      | Some x \<Rightarrow> if is_byte x then return_ok () else throw (OutOfByteRange name))"

definition build_set_options_op ::
    "(string \<Rightarrow> bool) \<Rightarrow> set_options_params \<Rightarrow> (stellar_error, set_options_params) result" where
  "build_set_options_op valid_address p =
     result_bind (check_byte ''masterWeight'' (master_weight p)) (\<lambda>_.
     result_bind (check_byte ''lowThreshold'' (low_threshold p)) (\<lambda>_.
     result_bind (check_byte ''medThreshold'' (med_threshold p)) (\<lambda>_.
     result_bind (check_byte ''highThreshold'' (high_threshold p)) (\<lambda>_.
     case signer p of
       None \<Rightarrow> return_ok p
     | Some (key, weight) \<Rightarrow>
         if \<not> valid_address key then throw SignerKeyInvalid
         else if \<not> is_byte weight then throw (OutOfByteRange ''signer.weight'')
         else return_ok p))))"

subsection \<open>Facts about amounts\<close>

text \<open>An integer with at most 53 significant bits is a double, so powers of ten are up to the twenty-second.\<close>

lemma floor_log2_eq:
  assumes "(2::rat) ^ n \<le> x" "x < 2 ^ Suc n"
  shows "floor_log2 x = int n"
proof -
  have x: "0 < x" by (rule less_le_trans [OF _ assms(1)]) simp
  have "floor_log2 x < int (Suc n)" by (rule floor_log2_less [OF x assms(2)])
  moreover have "\<not> floor_log2 x < int n"
  proof
    assume "floor_log2 x < int n"
    then have "(2::rat) powi (floor_log2 x + 1) \<le> 2 powi int n" by (intro power_int_increasing) auto
    with floor_log2 [OF x] assms(1) show False by simp
  qed
  ultimately show ?thesis by simp
qed

lemma nearest_exact:
  assumes "0 < k" "k < 2 ^ 53"
  shows "nearest (of_nat k * 2 ^ j) = of_nat k * 2 ^ j"
proof -
  let ?x = "of_nat k * 2 ^ j :: rat"
  have x: "0 < ?x" using assms(1) by simp
  have "rat_of_nat k < of_nat (2 ^ 53)" using assms(2) by (simp only: of_nat_less_iff)
  then have "?x < 2 ^ (53 + j)" by (simp add: power_add)
  then have "floor_log2 ?x < int (53 + j)" by (rule floor_log2_less [OF x])
  then have u: "ulp_exponent ?x \<le> int j" by (simp add: ulp_exponent_def)
  define u where "u = ulp_exponent ?x"
  have "(2::rat) ^ j = 2 powi (int j - u) * 2 powi u"
    by (simp flip: power_int_add)
  moreover have "(2::rat) powi (int j - u) = of_int (2 ^ nat (int j - u))"
    using u by (simp add: u_def power_int_def)
  ultimately have "?x / 2 powi u = of_int (int k * 2 ^ nat (int j - u))" by simp
  then have "of_int (round_even (?x / 2 powi u)) * 2 powi u = ?x"
    by (metis round_even_int nonzero_eq_divide_eq power_int_not_zero zero_neq_numeral)
  then show ?thesis using x by (simp add: nearest_def Let_def u_def)
qed

lemma amount_scale_exact:
  assumes "d \<le> 22"
  shows "amount_scale d = Some (10 ^ d)"
proof -
  have "(5::nat) ^ d \<le> 5 ^ 22" using assms by (intro power_increasing) simp_all
  then have k: "(5::nat) ^ d < 2 ^ 53" by simp
  have x: "rat_of_nat (5 ^ d) * 2 ^ d = 10 ^ d" by (simp flip: power_mult_distrib)
  have n: "nearest (10 ^ d) = (10 ^ d :: rat)" using nearest_exact [OF _ k, of d] x by simp
  have "(10::rat) ^ d \<le> 10 ^ 22" using assms by (intro power_increasing) simp_all
  also have "\<dots> < 2 ^ 74" by simp
  finally have "floor_log2 (10 ^ d) < int 74" by (intro floor_log2_less) simp_all
  then have "round64 (10 ^ d) = Fin (10 ^ d)" by (simp add: round64_def n)
  moreover have "\<lfloor>(10::rat) ^ d\<rfloor> = int (10 ^ d)" using floor_of_int [of "10 ^ d", where 'a = rat] by simp
  ultimately show ?thesis by (simp add: amount_scale_def del: of_nat_power)
qed

lemma amount_scale_23: "amount_scale 23 = Some 99999999999999991611392"
proof -
  have l: "floor_log2 (10 ^ 23) = 76" using floor_log2_eq [of 76 "10 ^ 23"] by simp
  have "\<lfloor>(10::rat) ^ 23 / 2 ^ 24\<rfloor> = 5960464477539062" by (simp add: floor_eq_iff)
  then have "round_even (10 ^ 23 / 2 ^ 24) = 5960464477539062" by (simp add: round_even_def Let_def)
  then have n: "nearest 100000000000000000000000 = 99999999999999991611392"
    using l by (simp add: nearest_def ulp_exponent_def Let_def power_int_def)
  have "floor_log2 99999999999999991611392 = int 76" by (rule floor_log2_eq) simp_all
  then show ?thesis by (simp add: amount_scale_def round64_def n)
qed

lemma nat_of_digits_strip [simp]:
  "nat_of_digits (strip_trailing_zeros s @ replicate (length s - length (strip_trailing_zeros s)) CHR ''0'')
     = nat_of_digits s"
proof -
  have s: "s = strip_trailing_zeros s @ rev (takeWhile (\<lambda>c. c = CHR ''0'') (rev s))"
    unfolding strip_trailing_zeros_def
    by (metis rev_append rev_rev_ident takeWhile_dropWhile_id)
  have "rev (takeWhile (\<lambda>c. c = CHR ''0'') (rev s)) =
      replicate (length (rev (takeWhile (\<lambda>c. c = CHR ''0'') (rev s)))) CHR ''0''"
    by (intro replicate_length_same [symmetric]) (auto dest: set_takeWhileD)
  with s have "s = strip_trailing_zeros s @
      replicate (length s - length (strip_trailing_zeros s)) CHR ''0''"
    by (metis add_diff_cancel_left' length_append)
  then show ?thesis by simp
qed

lemma length_strip: "length (strip_trailing_zeros s) \<le> length s"
  unfolding strip_trailing_zeros_def by (metis length_dropWhile_le length_rev)

lemma digits_strip: "list_all is_digit s \<Longrightarrow> list_all is_digit (strip_trailing_zeros s)"
  unfolding strip_trailing_zeros_def by (auto simp: list_all_iff dest: set_dropWhileD)

text \<open>The digits kept by \<open>slice(0, decimals)\<close>, as a number: division by a power of ten.\<close>

lemma nat_of_digits_take:
  assumes "list_all is_digit f" "k \<le> length f"
  shows "nat_of_digits (take k f) = nat_of_digits f div 10 ^ (length f - k)"
proof -
  have "nat_of_digits f =
      nat_of_digits (take k f) * 10 ^ (length f - k) + nat_of_digits (drop k f)"
    using nat_of_digits_append [of "take k f" "drop k f"] by simp
  moreover have "nat_of_digits (drop k f) < 10 ^ (length f - k)"
    using nat_of_digits_less [of "drop k f"] assms
    by (metis append_take_drop_id length_drop list_all_append)
  ultimately show ?thesis by simp
qed

lemma padded_frac_value:
  assumes "list_all is_digit f"
  shows "nat_of_digits (take d (f @ replicate d CHR ''0'')) = nat_of_digits f * 10 ^ d div 10 ^ length f"
proof -
  have "nat_of_digits (take d (f @ replicate d CHR ''0'')) =
      nat_of_digits (f @ replicate d CHR ''0'') div 10 ^ (length (f @ replicate d CHR ''0'') - d)"
    by (rule nat_of_digits_take) (use assms in auto)
  then show ?thesis by (simp add: nat_of_digits_append)
qed

text \<open>
  What \<open>toStellarAmount\<close> computes: the amount times \<open>10 ^ decimals\<close>, rounded down.
\<close>

lemma to_stellar_amount_scaled:
  assumes "is_amount s" "d \<le> 22"
  shows "to_stellar_amount s d = Inr (digits_of_nat (dec_scaled s * 10 ^ d div 10 ^ dec_places s))"
proof -
  obtain w f where p: "dec_parts s = (w, f)" by fastforce
  with is_amount_digits [OF assms(1)] have f: "list_all is_digit f" by auto
  have "nat_of_digits w * 10 ^ d + nat_of_digits f * 10 ^ d div 10 ^ length f =
      (nat_of_digits w * 10 ^ d * 10 ^ length f + nat_of_digits f * 10 ^ d) div 10 ^ length f"
    by simp
  also have "\<dots> = (nat_of_digits w * 10 ^ length f + nat_of_digits f) * 10 ^ d div 10 ^ length f"
    by (simp add: algebra_simps)
  finally have sum: "nat_of_digits w * 10 ^ d + nat_of_digits f * 10 ^ d div 10 ^ length f =
      dec_scaled s * 10 ^ d div 10 ^ dec_places s"
    by (simp add: dec_scaled_def dec_places_def nat_of_digits_append p)
  have "to_stellar_amount s d = Inr (digits_of_nat
      (nat_of_digits w * 10 ^ d + nat_of_digits (take d (f @ replicate d CHR ''0''))))"
    using assms by (simp add: to_stellar_amount_def p amount_scale_exact)
  then show ?thesis by (simp only: padded_frac_value [OF f] sum)
qed

lemma from_stellar_amount_value:
  assumes "is_numeral s" "d \<le> 22"
  obtains a where "from_stellar_amount s d = Inr a" "is_amount a" "dec_places a \<le> d"
    "dec_scaled a * 10 ^ (d - dec_places a) = nat_of_digits s"
proof -
  define n where "n = nat_of_digits s"
  define pf where "pf = pad_start d CHR ''0'' (digits_of_nat (n mod 10 ^ d))"
  define fr where "fr = strip_trailing_zeros pf"
  define w where "w = digits_of_nat (n div 10 ^ d)"
  have res: "from_stellar_amount s d = Inr (if fr \<noteq> [] then w @ CHR ''.'' # fr else w)"
    using assms by (simp add: from_stellar_amount_def amount_scale_exact n_def pf_def fr_def w_def Let_def)
  have wn: "is_numeral w" by (simp add: w_def)
  have frd: "list_all is_digit fr" by (simp add: fr_def pf_def digits_strip)
  have pfv: "nat_of_digits fr * 10 ^ (length pf - length fr) = n mod 10 ^ d"
    using nat_of_digits_strip [of pf]
    by (simp add: nat_of_digits_append fr_def [symmetric] pf_def [symmetric])
       (simp add: pf_def)
  have d0: "fr = []" if "d = 0"
    using that by (simp add: fr_def pf_def pad_start_def strip_trailing_zeros_def
        digits_of_nat.simps [of 0])
  have lpf: "length pf = d" if "0 < d"
    using length_frac_part [OF that, of n] by (simp add: pf_def)
  show thesis
  proof (cases "fr = []")
    case True
    with pfv have "n mod 10 ^ d = 0" by simp
    then have "n div 10 ^ d * 10 ^ d = n" by (simp add: mod_eq_0_iff_dvd)
    with True res wn that [of w] show thesis
      by (simp add: dec_places_def dec_scaled_def w_def n_def)
  next
    case False
    then have d: "0 < d" using d0 by blast
    have fn: "is_numeral fr" using False frd by (simp add: is_numeral_def)
    have le: "length fr \<le> d" using length_strip [of pf] lpf [OF d] by (simp add: fr_def)
    have pd: "(10::nat) ^ length fr * 10 ^ (d - length fr) = 10 ^ d"
      using le by (simp flip: power_add)
    have "(n div 10 ^ d * 10 ^ length fr + nat_of_digits fr) * 10 ^ (d - length fr) =
        n div 10 ^ d * (10 ^ length fr * 10 ^ (d - length fr)) +
        nat_of_digits fr * 10 ^ (d - length fr)"
      by (simp only: add_mult_distrib mult.assoc)
    also have "\<dots> = n" using pfv lpf [OF d] by (simp only: pd div_mult_mod_eq)
    finally have "(n div 10 ^ d * 10 ^ length fr + nat_of_digits fr) * 10 ^ (d - length fr) = n" .
    then have "dec_scaled (w @ CHR ''.'' # fr) * 10 ^ (d - length fr) = n"
      using wn fn by (simp add: dec_scaled_def nat_of_digits_append w_def)
    with False res wn fn le that [of "w @ CHR ''.'' # fr"] show thesis
      by (simp add: dec_places_def n_def)
  qed
qed

lemma dec_val_of_scaled:
  assumes "dec_places a \<le> d" "dec_scaled a * 10 ^ (d - dec_places a) = n"
  shows "dec_val a = of_nat n / 10 ^ d"
proof -
  have "(10::rat) ^ d = 10 ^ dec_places a * 10 ^ (d - dec_places a)"
    using assms(1) by (simp flip: power_add)
  then show ?thesis
    by (simp add: dec_val_def flip: assms(2))
qed

lemma to_stellar_amount_numeral:
  "is_numeral s \<Longrightarrow> d \<le> 22 \<Longrightarrow> to_stellar_amount s d = Inr (digits_of_nat (nat_of_digits s * 10 ^ d))"
  by (simp add: to_stellar_amount_scaled dec_scaled_def dec_places_def)

text \<open>
  C10: \<open>toStellarAmount\<close> accepts exactly the unsigned decimal strings and returns the
  amount in units of \<open>10^-decimals\<close>, rounded down: digits past the scale are cut, never
  rounded up.
\<close>

lemma to_stellar_amount_floor:
  assumes "d \<le> 22"
  shows "to_stellar_amount s d =
     (if is_amount s then Inr (digits_of_nat (nat \<lfloor>dec_val s * 10 ^ d\<rfloor>))
      else Inl InvalidNumericString)"
proof (cases "is_amount s")
  case False
  then show ?thesis by (simp add: to_stellar_amount_def)
next
  case True
  have "dec_val s * 10 ^ d = of_nat (dec_scaled s * 10 ^ d) / of_nat (10 ^ dec_places s)"
    by (simp add: dec_val_def)
  then have "\<lfloor>dec_val s * 10 ^ d\<rfloor> = int (dec_scaled s * 10 ^ d div 10 ^ dec_places s)"
    by (simp only: floor_divide_of_nat_eq)
  with True assms show ?thesis by (simp add: to_stellar_amount_scaled)
qed

text \<open>
  C9: \<open>fromStellarAmount\<close> followed by \<open>toStellarAmount\<close> at the same scale gives back
  the stroop integer (in canonical form, without leading zeros); both succeed on every
  digit string.
\<close>

lemma stroops_roundtrip:
  assumes "is_numeral s" "d \<le> 22"
  shows "result_bind (from_stellar_amount s d) (\<lambda>a. to_stellar_amount a d) =
    Inr (digits_of_nat (nat_of_digits s))"
proof -
  obtain a where a: "from_stellar_amount s d = Inr a" "is_amount a" "dec_places a \<le> d"
    "dec_scaled a * 10 ^ (d - dec_places a) = nat_of_digits s"
    using from_stellar_amount_value [OF assms] .
  then have "dec_val a * 10 ^ d = of_nat (nat_of_digits s)"
    by (simp add: dec_val_of_scaled)
  with a assms(2) show ?thesis by (simp add: to_stellar_amount_floor)
qed

text \<open>
  C16: An amount with no more decimals than the asset's scale survives the trip to stroops and
  back without losing value, for every scale of at most 22 decimals: up to there the scale
  \<open>BigInt(10 ** decimals)\<close> is the power of ten. \<open>rounded_scale\<close> below shows what the program
  does at 23.
\<close>

theorem amount_roundtrip:
  assumes "is_amount s" "dec_places s \<le> d" "d \<le> 22"
  shows "\<exists>a. result_bind (to_stellar_amount s d) (\<lambda>n. from_stellar_amount n d) = Inr a \<and>
    is_amount a \<and> dec_val a = dec_val s"
proof -
  define n where "n = dec_scaled s * 10 ^ (d - dec_places s)"
  have v: "dec_val s = of_nat n / 10 ^ d"
    by (rule dec_val_of_scaled) (simp_all add: assms n_def)
  then have "to_stellar_amount s d = Inr (digits_of_nat n)"
    using assms(1,3) by (simp add: to_stellar_amount_floor)
  moreover obtain a where a: "from_stellar_amount (digits_of_nat n) d = Inr a" "is_amount a"
    "dec_places a \<le> d" "dec_scaled a * 10 ^ (d - dec_places a) = n"
    using from_stellar_amount_value [of "digits_of_nat n" d] assms(3) by auto
  ultimately show ?thesis using v by (simp add: dec_val_of_scaled)
qed

theorem amount_roundtrip_witness:
  "is_amount ''12.50'' \<and> dec_places ''12.50'' \<le> 7 \<and>
   (\<exists>a. result_bind (to_stellar_amount ''12.50'' 7) (\<lambda>n. from_stellar_amount n 7) = Inr a \<and>
      is_amount a \<and> dec_val a = dec_val ''12.50'')"
proof -
  have h: "is_amount ''12.50''" "dec_places ''12.50'' \<le> 7"
    by (simp_all add: is_amount_def dec_places_def dec_parts_def is_numeral_def is_digit_def
        char_code_def)
  show ?thesis using h amount_roundtrip [OF h] by simp
qed

text \<open>With 23 decimals the scale is 8388608 short, and a fraction turns into more than one.\<close>

lemma rounded_scale:
  "result_bind (to_stellar_amount ''0.99999999999999999999999'' 23) (\<lambda>n. from_stellar_amount n 23) =
     Inr ''1.00000000000000008388607''"
proof -
  define scale where "scale = Some (99999999999999991611392 :: nat)"
  have "result_bind (if \<not> is_amount ''0.99999999999999999999999'' then throw InvalidNumericString
      else case dec_parts ''0.99999999999999999999999'' of (whole, fr) \<Rightarrow>
        (case scale of None \<Rightarrow> throw ScaleNotInteger
         | Some sc \<Rightarrow> return_ok (digits_of_nat (nat_of_digits whole * sc +
             nat_of_digits (take 23 (fr @ replicate 23 CHR ''0''))))))
      (\<lambda>s. if \<not> is_numeral s then throw InvalidIntegerString
        else case scale of None \<Rightarrow> throw ScaleNotInteger
        | Some sc \<Rightarrow>
          (let n = nat_of_digits s; whole = digits_of_nat (n div sc);
               fr = strip_trailing_zeros (pad_start 23 CHR ''0'' (digits_of_nat (n mod sc)))
           in return_ok (if fr \<noteq> [] then whole @ CHR ''.'' # fr else whole))) = Inr ''1.00000000000000008388607''"
    unfolding scale_def by code_simp
  then show ?thesis
    by (simp only: to_stellar_amount_def from_stellar_amount_def amount_scale_23 scale_def Let_def)
qed

end
