(* ===== verification/WorkerShutdown.thy ===== *)
theory WorkerShutdown
  imports Prelude
begin

section \<open>Draining workers and shutting the engine down\<close>

text \<open>
  Model of \<open>services/settlement-engine/src/worker-shutdown.ts\<close>, of its copies in
  \<open>shared/worker-shutdown\<close> and in the indexer, and of \<open>gracefulShutdown\<close> of
  \<open>settlement-engine/src/index.ts\<close>. Times are milliseconds. A timer of \<open>d\<close>
  milliseconds set at \<open>t\<close> fires at \<open>t + max 1 d + late t\<close>: Node takes a zero delay
  for one millisecond and never fires early; \<open>late\<close> is an argument. How long a close
  takes, and whether it fails or hangs, is an argument as well.
\<close>

subsection \<open>The active job of a worker\<close>

record active_job =
  aj_id :: "string option"
  aj_data :: string

datatype worker_event =
    JobActive active_job
  | JobCompleted active_job
  | JobFailed active_job

definition track_event :: "worker_event \<Rightarrow> active_job option \<Rightarrow> active_job option" where
  "track_event e s = (case e of JobActive j \<Rightarrow> Some j | JobCompleted _ \<Rightarrow> None | JobFailed _ \<Rightarrow> None)"

text \<open>
  What the closure returned by \<open>trackActiveJob\<close> answers at time \<open>t\<close>, after the
  events emitted up to then, oldest first.
\<close>

definition track_active_job :: "(nat \<times> worker_event) list \<Rightarrow> nat \<Rightarrow> active_job option" where
  "track_active_job evs t = fold (\<lambda>(t', e) s. if t' \<le> t then track_event e s else s) evs None"

text \<open>The jobs the worker is running, to compare with the tracker.\<close>

definition run_event :: "worker_event \<Rightarrow> active_job list \<Rightarrow> active_job list" where
  "run_event e js = (case e of
       JobActive j \<Rightarrow> j # js
     | JobCompleted j \<Rightarrow> remove1 j js
     | JobFailed j \<Rightarrow> remove1 j js)"

definition running_jobs :: "(nat \<times> worker_event) list \<Rightarrow> nat \<Rightarrow> active_job list" where
  "running_jobs evs t = fold (\<lambda>(t', e) s. if t' \<le> t then run_event e s else s) evs []"

text \<open>One job at a time: a job starts only when none runs, and only the running job ends.\<close>

fun one_at_a_time :: "active_job option \<Rightarrow> worker_event list \<Rightarrow> bool" where
  "one_at_a_time s [] = True"
| "one_at_a_time s (JobActive j # es) = (s = None \<and> one_at_a_time (Some j) es)"
| "one_at_a_time s (JobCompleted j # es) = (s = Some j \<and> one_at_a_time None es)"
| "one_at_a_time s (JobFailed j # es) = (s = Some j \<and> one_at_a_time None es)"

subsection \<open>The drain\<close>

datatype shutdown_log =
    DrainComplete
  | WaitingFor "string option" nat
  | DrainExhausted active_job
  | CloseTimedOut "active_job option"

definition default_close_timeout_ms :: nat where
  "default_close_timeout_ms = 10000"

definition default_drain_poll_ms :: nat where
  "default_drain_poll_ms = 500"

definition default_drain_budget_ms :: "nat \<Rightarrow> nat" where
  "default_drain_budget_ms timeout = max (timeout * 2) 20000"

definition timer_at :: "(nat \<Rightarrow> nat) \<Rightarrow> nat \<Rightarrow> nat \<Rightarrow> nat" where
  "timer_at late d t = t + max 1 d + late t"

lemma timer_at_later [simp]: "t < timer_at late d t"
  by (simp add: timer_at_def max_def)

lemma timer_at_after [simp]: "t \<le> timer_at late d t"
  by (simp add: timer_at_def)

lemma timer_at_ge: "t + d \<le> timer_at late d t"
  by (simp add: timer_at_def)

text \<open>
  \<open>drainActiveJobs\<close> from the current time on: the answer, the time it is given and the
  log lines.
\<close>

function drain_loop ::
  "(nat \<Rightarrow> active_job option) \<Rightarrow> (nat \<Rightarrow> nat) \<Rightarrow> nat \<Rightarrow> nat \<Rightarrow> nat \<Rightarrow> bool \<times> nat \<times> shutdown_log list" where
  "drain_loop active late poll deadline now =
     (if now < deadline
      then (case active now of
          None \<Rightarrow> (True, now, [DrainComplete])
        | Some j \<Rightarrow>
            (case drain_loop active late poll deadline (timer_at late poll now) of
               (ok, t, l) \<Rightarrow> (ok, t, WaitingFor (aj_id j) (deadline - now) # l)))
      else (case active now of
          None \<Rightarrow> (True, now, [DrainComplete])
        | Some j \<Rightarrow> (False, now, [DrainExhausted j])))"
  by pat_completeness auto
termination
  by (relation "measure (\<lambda>(_, _, _, deadline, now). deadline - now)") (auto intro: diff_less_mono2)

declare drain_loop.simps [simp del]

definition drain_active_jobs ::
  "(nat \<Rightarrow> active_job option) \<Rightarrow> (nat \<Rightarrow> nat) \<Rightarrow> nat \<Rightarrow> nat \<Rightarrow> nat \<Rightarrow> bool \<times> nat \<times> shutdown_log list" where
  "drain_active_jobs active late poll budget now = drain_loop active late poll (now + budget) now"

subsection \<open>Closing a worker\<close>

text \<open>How \<open>worker.close()\<close> settles, counted from its call.\<close>

datatype close_outcome = CloseResolves nat | CloseRejects nat | CloseHangs

text \<open>
  \<open>Promise.race([worker.close(), timeout])\<close>: whether the race rejects, the time it
  settles and the warning when the timer won.
\<close>

definition close_phase ::
  "(nat \<Rightarrow> active_job option) \<Rightarrow> (nat \<Rightarrow> nat) \<Rightarrow> nat \<Rightarrow> close_outcome \<Rightarrow> nat \<Rightarrow> bool \<times> nat \<times> shutdown_log list" where
  "close_phase active late timeout out now =
     (let fire = timer_at late timeout now;
          timed_out = (False, fire, [CloseTimedOut (active fire)])
      in case out of
           CloseResolves d \<Rightarrow> if now + d \<le> fire then (False, now + d, []) else timed_out
         | CloseRejects d \<Rightarrow> if now + d \<le> fire then (True, now + d, []) else timed_out
         | CloseHangs \<Rightarrow> timed_out)"

definition close_worker_with_timeout ::
  "(nat \<Rightarrow> active_job option) \<Rightarrow> (nat \<Rightarrow> nat) \<Rightarrow> nat \<Rightarrow> nat \<Rightarrow> close_outcome \<Rightarrow> nat \<Rightarrow>
   bool \<times> nat \<times> shutdown_log list" where
  "close_worker_with_timeout active late timeout budget out now =
     (case drain_active_jobs active late default_drain_poll_ms budget now of
        (_, t, l) \<Rightarrow>
          (case close_phase active late timeout out t of
             (raised, t', l') \<Rightarrow> (raised, t', l @ l')))"

text \<open>The indexer's own copy has no drain.\<close>

definition indexer_close_worker_with_timeout ::
  "(nat \<Rightarrow> active_job option) \<Rightarrow> (nat \<Rightarrow> nat) \<Rightarrow> nat \<Rightarrow> close_outcome \<Rightarrow> nat \<Rightarrow> bool \<times> nat \<times> shutdown_log list" where
  "indexer_close_worker_with_timeout active late timeout out now = close_phase active late timeout out now"

text \<open>
  The shared package: its logger's \<open>info\<close> is optional (\<open>log.info?.(...)\<close>), so the
  lines below warning level appear only with such a logger.
\<close>

function shared_drain_loop ::
  "bool \<Rightarrow> (nat \<Rightarrow> active_job option) \<Rightarrow> (nat \<Rightarrow> nat) \<Rightarrow> nat \<Rightarrow> nat \<Rightarrow> nat \<Rightarrow> bool \<times> nat \<times> shutdown_log list" where
  "shared_drain_loop info active late poll deadline now =
     (if now < deadline
      then (case active now of
          None \<Rightarrow> (True, now, if info then [DrainComplete] else [])
        | Some j \<Rightarrow>
            (case shared_drain_loop info active late poll deadline (timer_at late poll now) of
               (ok, t, l) \<Rightarrow> (ok, t, (if info then [WaitingFor (aj_id j) (deadline - now)] else []) @ l)))
      else (case active now of
          None \<Rightarrow> (True, now, if info then [DrainComplete] else [])
        | Some j \<Rightarrow> (False, now, [DrainExhausted j])))"
  by pat_completeness auto
termination
  by (relation "measure (\<lambda>(_, _, _, _, deadline, now). deadline - now)") (auto intro: diff_less_mono2)

declare shared_drain_loop.simps [simp del]

definition shared_close_worker_with_timeout ::
  "bool \<Rightarrow> (nat \<Rightarrow> active_job option) \<Rightarrow> (nat \<Rightarrow> nat) \<Rightarrow> nat \<Rightarrow> nat \<Rightarrow> close_outcome \<Rightarrow> nat \<Rightarrow>
   bool \<times> nat \<times> shutdown_log list" where
  "shared_close_worker_with_timeout info active late timeout budget out now =
     (case shared_drain_loop info active late default_drain_poll_ms (now + budget) now of
        (_, t, l) \<Rightarrow>
          (case close_phase active late timeout out t of
             (raised, t', l') \<Rightarrow> (raised, t', l @ l')))"

subsection \<open>The shutdown sequence\<close>

datatype resource =
    ReaperTimer | HttpServer | MetricsServer
  | SettlementWorkerRes | BatchWorkerRes | DomainWorkerRes
  | SettlementQueueRes | DeadLetterQueueRes | BatchQueueRes
  | WebhookWorkerRes | WebhookQueueRes | RedisRes | PrismaRes

record shutdown_env =
  se_reaper_started :: bool
  se_close :: "resource \<Rightarrow> close_outcome"
  se_settlement_job :: "nat \<Rightarrow> active_job option"
  se_webhook_job :: "nat \<Rightarrow> active_job option"
  se_late :: "nat \<Rightarrow> nat"

definition shutdown_order :: "bool \<Rightarrow> resource list" where
  "shutdown_order reaper_started =
     (if reaper_started then [ReaperTimer] else []) @
     [HttpServer, MetricsServer, SettlementWorkerRes, BatchWorkerRes, DomainWorkerRes,
      SettlementQueueRes, DeadLetterQueueRes, BatchQueueRes, WebhookWorkerRes, WebhookQueueRes,
      RedisRes, PrismaRes]"

text \<open>
  One awaited step: \<open>None\<close> when it never settles, else whether it rejects and when. The
  batch and domain workers are closed with \<open>() => undefined\<close> as their tracker.
\<close>

definition close_tracked :: "shutdown_env \<Rightarrow> (nat \<Rightarrow> active_job option) \<Rightarrow> resource \<Rightarrow> nat \<Rightarrow> (bool \<times> nat) option" where
  "close_tracked env active r now =
     (case close_worker_with_timeout active (se_late env) default_close_timeout_ms
             (default_drain_budget_ms default_close_timeout_ms) (se_close env r) now of
        (raised, t, _) \<Rightarrow> Some (raised, t))"

definition close_resource :: "shutdown_env \<Rightarrow> resource \<Rightarrow> nat \<Rightarrow> (bool \<times> nat) option" where
  "close_resource env r now =
     (if r = SettlementWorkerRes then close_tracked env (se_settlement_job env) r now
      else if r = WebhookWorkerRes then close_tracked env (se_webhook_job env) r now
      else if r = BatchWorkerRes \<or> r = DomainWorkerRes then close_tracked env (\<lambda>_. None) r now
      else case se_close env r of
             CloseResolves d \<Rightarrow> Some (False, now + d)
           | CloseRejects d \<Rightarrow> Some (True, now + d)
           | CloseHangs \<Rightarrow> None)"

record shutdown_exit =
  ex_code :: nat
  ex_time :: nat
  ex_closed :: "resource list"

text \<open>
  The \<open>try\<close> block under the forced-exit timer, which fires at \<open>fire\<close>; that timer is
  the oldest, so it wins against a step that would settle at the same millisecond.
\<close>

fun run_shutdown :: "shutdown_env \<Rightarrow> nat \<Rightarrow> nat \<Rightarrow> resource list \<Rightarrow> resource list \<Rightarrow> shutdown_exit" where
  "run_shutdown env fire now closed [] = \<lparr> ex_code = 0, ex_time = now, ex_closed = closed \<rparr>"
| "run_shutdown env fire now closed (r # rs) =
     (case close_resource env r now of
        None \<Rightarrow> \<lparr> ex_code = 1, ex_time = fire, ex_closed = closed \<rparr>
      | Some (raised, t) \<Rightarrow>
          if fire \<le> t then \<lparr> ex_code = 1, ex_time = fire, ex_closed = closed \<rparr>
          else if raised then \<lparr> ex_code = 1, ex_time = t, ex_closed = closed \<rparr>
          else run_shutdown env fire t (closed @ [r]) rs)"

definition force_exit_ms :: nat where
  "force_exit_ms = 30000"

text \<open>The module's \<open>isShuttingDown\<close> and the exit, \<open>None\<close> for an ignored signal.\<close>

definition graceful_shutdown :: "shutdown_env \<Rightarrow> nat \<Rightarrow> bool \<Rightarrow> bool \<times> shutdown_exit option" where
  "graceful_shutdown env now shutting_down =
     (if shutting_down then (True, None)
      else (True, Some (run_shutdown env (timer_at (se_late env) force_exit_ms now) now []
                          (shutdown_order (se_reaper_started env)))))"

subsection \<open>The tracker\<close>

lemma track_one_at_a_time_gen:
  "one_at_a_time s (map snd (filter (\<lambda>(t', e). t' \<le> t) evs)) \<Longrightarrow>
   (case fold (\<lambda>(t', e) s. if t' \<le> t then track_event e s else s) evs s of None \<Rightarrow> [] | Some j \<Rightarrow> [j]) =
   fold (\<lambda>(t', e) s. if t' \<le> t then run_event e s else s) evs (case s of None \<Rightarrow> [] | Some j \<Rightarrow> [j])"
proof (induction evs arbitrary: s)
  case Nil
  show ?case by simp
next
  case (Cons p evs)
  obtain t' e where p: "p = (t', e)" by (cases p)
  show ?case
  proof (cases "t' \<le> t")
    case False
    with Cons p show ?thesis by simp
  next
    case True
    have step: "one_at_a_time (track_event e s) (map snd (filter (\<lambda>(t', e). t' \<le> t) evs))"
      "(case track_event e s of None \<Rightarrow> [] | Some j \<Rightarrow> [j]) =
         run_event e (case s of None \<Rightarrow> [] | Some j \<Rightarrow> [j])"
      using Cons.prems True p by (cases e; simp add: track_event_def run_event_def)+
    from Cons.IH [OF step(1)] step(2) p True show ?thesis by simp
  qed
qed

lemma track_one_at_a_time:
  assumes "one_at_a_time None (map snd (filter (\<lambda>(t', e). t' \<le> t) evs))"
  shows "running_jobs evs t = (case track_active_job evs t of None \<Rightarrow> [] | Some j \<Rightarrow> [j])"
  using track_one_at_a_time_gen [OF assms] by (simp add: running_jobs_def track_active_job_def)

subsection \<open>The drain and its bounds\<close>

lemma drain_loop_outcome:
  "drain_loop active late poll deadline now = (ok, t, l) \<Longrightarrow>
     now \<le> t \<and> (ok \<longleftrightarrow> active t = None) \<and> (\<not> ok \<longrightarrow> deadline \<le> t)"
proof (induction active late poll deadline now arbitrary: ok t l rule: drain_loop.induct)
  case (1 active late poll deadline now)
  show ?case
  proof (cases "now < deadline \<and> active now \<noteq> None")
    case True
    then obtain j where j: "active now = Some j" by auto
    obtain ok' t' l' where rec: "drain_loop active late poll deadline (timer_at late poll now) = (ok', t', l')"
      by (metis prod_cases3)
    from 1 True j rec have "timer_at late poll now \<le> t'" "ok' \<longleftrightarrow> active t' = None" "\<not> ok' \<longrightarrow> deadline \<le> t'"
      by blast+
    moreover from "1.prems" True j rec have "ok = ok'" "t = t'"
      by (simp_all add: drain_loop.simps [of active late poll deadline now])
    moreover from \<open>timer_at late poll now \<le> t'\<close> have "now \<le> t'"
      using timer_at_after order_trans by blast
    ultimately show ?thesis by simp
  next
    case False
    with "1.prems" show ?thesis
      by (auto simp: drain_loop.simps [of active late poll deadline now] split: if_splits option.splits)
  qed
qed

lemma drain_loop_time:
  "drain_loop active late poll deadline now = (ok, t, l) \<Longrightarrow> \<forall>u. late u \<le> L \<Longrightarrow>
     t \<le> max now (deadline + max 1 poll + L)"
proof (induction active late poll deadline now arbitrary: ok t l rule: drain_loop.induct)
  case (1 active late poll deadline now)
  show ?case
  proof (cases "now < deadline \<and> active now \<noteq> None")
    case True
    then obtain j where j: "active now = Some j" by auto
    obtain ok' t' l' where rec: "drain_loop active late poll deadline (timer_at late poll now) = (ok', t', l')"
      by (metis prod_cases3)
    from 1 True j rec have "t' \<le> max (timer_at late poll now) (deadline + max 1 poll + L)" by blast
    moreover have "timer_at late poll now \<le> deadline + max 1 poll + L"
      unfolding timer_at_def using True "1.prems"(2) by (intro add_mono) auto
    moreover from "1.prems"(1) True j rec have "t = t'"
      by (simp add: drain_loop.simps [of active late poll deadline now])
    ultimately show ?thesis by simp
  next
    case False
    with "1.prems" show ?thesis
      by (auto simp: drain_loop.simps [of active late poll deadline now] split: if_splits option.splits)
  qed
qed

lemma drain_active_jobs_outcome:
  assumes "drain_active_jobs active late poll budget now = (ok, t, l)"
  shows "now \<le> t" "ok \<longleftrightarrow> active t = None" "\<not> ok \<Longrightarrow> now + budget \<le> t"
  using drain_loop_outcome [of active late poll "now + budget" now ok t l] assms
  by (auto simp: drain_active_jobs_def)

lemma drain_active_jobs_time:
  assumes "drain_active_jobs active late poll budget now = (ok, t, l)" and "\<forall>u. late u \<le> L"
  shows "t \<le> now + budget + max 1 poll + L"
  using drain_loop_time [of active late poll "now + budget" now ok t l L] assms
  by (auto simp: drain_active_jobs_def)

lemma close_phase_time:
  assumes "close_phase active late timeout out now = (raised, t, l)"
  shows "now \<le> t" "t \<le> timer_at late timeout now"
  using assms by (auto simp: close_phase_def Let_def split: close_outcome.splits if_splits)

lemma close_worker_start:
  assumes "close_worker_with_timeout active late timeout budget out now = (raised, t, l)"
  obtains ok u l1 l2 where "drain_active_jobs active late default_drain_poll_ms budget now = (ok, u, l1)"
    "close_phase active late timeout out u = (raised, t, l2)" "l = l1 @ l2"
  using assms by (auto simp: close_worker_with_timeout_def split: prod.splits)

text \<open>
  closeWorkerWithTimeout always comes back, whatever the worker does: within the drain
  budget, one poll interval and the close timeout, plus the lateness of two timers. It warns
  about a stuck worker exactly when the close lost the race, at the moment the timer fires.
\<close>

theorem close_worker_bounded:
  assumes "\<forall>u. late u \<le> L"
    and "close_worker_with_timeout active late timeout budget out now = (raised, t, l)"
  shows "now \<le> t \<and> t \<le> now + budget + default_drain_poll_ms + L + max 1 timeout + L \<and>
    (out = CloseHangs \<longrightarrow> \<not> raised \<and> CloseTimedOut (active t) \<in> set l)"
proof -
  obtain ok u l1 l2 where d: "drain_active_jobs active late default_drain_poll_ms budget now = (ok, u, l1)"
    and c: "close_phase active late timeout out u = (raised, t, l2)" and l: "l = l1 @ l2"
    using assms(2) by (rule close_worker_start)
  have u: "now \<le> u" "u \<le> now + budget + default_drain_poll_ms + L"
    using drain_active_jobs_outcome(1) [OF d] drain_active_jobs_time [OF d assms(1)]
    by (simp_all add: default_drain_poll_ms_def)
  have "timer_at late timeout u \<le> u + max 1 timeout + L"
    using assms(1) by (simp add: timer_at_def)
  with u close_phase_time [OF c]
  have "now \<le> t" "t \<le> now + budget + default_drain_poll_ms + L + max 1 timeout + L" by linarith+
  moreover have "out = CloseHangs \<longrightarrow> \<not> raised \<and> CloseTimedOut (active t) \<in> set l"
    using c l by (auto simp: close_phase_def Let_def)
  ultimately show ?thesis by simp
qed

theorem close_worker_bounded_witness:
  "\<exists>raised t l. close_worker_with_timeout (\<lambda>_. Some \<lparr> aj_id = Some ''7'', aj_data = ''m1'' \<rparr>) (\<lambda>_. 1)
       10000 20000 CloseHangs 0 = (raised, t, l) \<and>
     \<not> raised \<and> t \<le> 30502 \<and> CloseTimedOut (Some \<lparr> aj_id = Some ''7'', aj_data = ''m1'' \<rparr>) \<in> set l"
proof -
  let ?a = "\<lambda>_::nat. Some \<lparr> aj_id = Some ''7'', aj_data = ''m1'' \<rparr>"
  obtain raised t l where eq: "close_worker_with_timeout ?a (\<lambda>_. 1) 10000 20000 CloseHangs 0 = (raised, t, l)"
    by (metis prod_cases3)
  have "\<forall>u::nat. (\<lambda>_. 1) u \<le> (1::nat)" by simp
  from close_worker_bounded [OF this eq] eq show ?thesis by (auto simp: default_drain_poll_ms_def)
qed

text \<open>
  while the worker runs one job at a time, a drain reports completion exactly when no job
  is running, and it gives up only after the whole budget.
\<close>

theorem drain_sound_one_at_a_time:
  assumes "drain_active_jobs (track_active_job evs) late poll budget now = (ok, t, l)"
    and "one_at_a_time None (map snd (filter (\<lambda>(t', e). t' \<le> t) evs))"
  shows "(ok \<longleftrightarrow> running_jobs evs t = []) \<and> (\<not> ok \<longrightarrow> now + budget \<le> t)"
  using drain_active_jobs_outcome [OF assms(1)] track_one_at_a_time [OF assms(2)]
  by (auto split: option.splits)

theorem drain_sound_one_at_a_time_witness:
  "\<exists>t l. drain_active_jobs (track_active_job [(0, JobActive \<lparr> aj_id = None, aj_data = ''x'' \<rparr>)])
       (\<lambda>_. 0) 500 1000 0 = (False, t, l) \<and> 1000 \<le> t"
proof -
  let ?evs = "[(0::nat, JobActive \<lparr> aj_id = None, aj_data = ''x'' \<rparr>)]"
  obtain ok t l where eq: "drain_active_jobs (track_active_job ?evs) (\<lambda>_. 0) 500 1000 0 = (ok, t, l)"
    by (metis prod_cases3)
  have "one_at_a_time None (map snd (filter (\<lambda>(t', e). t' \<le> t) ?evs))" by simp
  from drain_sound_one_at_a_time [OF eq this] eq show ?thesis
    by (auto simp: running_jobs_def run_event_def)
qed

text \<open>
  with two jobs at a time (the settlement worker runs five) the tracker forgets the first
  job when the second one ends: the drain reports completion at once although a job is still
  running.
\<close>

theorem drain_misses_running_job:
  assumes "a \<noteq> b" and "ta \<le> now" and "tb \<le> now" and "tc \<le> now"
  shows "let evs = [(ta, JobActive a), (tb, JobActive b), (tc, JobCompleted b)]
    in drain_active_jobs (track_active_job evs) late poll budget now = (True, now, [DrainComplete]) \<and>
       running_jobs evs now = [a]"
  using assms
  by (simp add: drain_active_jobs_def drain_loop.simps track_active_job_def running_jobs_def
      track_event_def run_event_def)

theorem drain_misses_running_job_witness:
  "drain_active_jobs (track_active_job [(0, JobActive \<lparr> aj_id = Some ''1'', aj_data = '''' \<rparr>),
      (5, JobActive \<lparr> aj_id = Some ''2'', aj_data = '''' \<rparr>),
      (7, JobCompleted \<lparr> aj_id = Some ''2'', aj_data = '''' \<rparr>)]) (\<lambda>_. 0) 500 20000 10 = (True, 10, [DrainComplete])"
  using drain_misses_running_job [of "\<lparr> aj_id = Some ''1'', aj_data = '''' \<rparr>"
      "\<lparr> aj_id = Some ''2'', aj_data = '''' \<rparr>" 0 10 5 7 "\<lambda>_. 0" 500 20000]
  by (simp add: Let_def)

subsection \<open>The shared package\<close>

definition is_warning :: "shutdown_log \<Rightarrow> bool" where
  "is_warning l = (case l of DrainExhausted _ \<Rightarrow> True | CloseTimedOut _ \<Rightarrow> True | _ \<Rightarrow> False)"

lemma shared_drain_loop_eq:
  "shared_drain_loop info active late poll deadline now =
     (case drain_loop active late poll deadline now of
        (ok, t, l) \<Rightarrow> (ok, t, if info then l else filter is_warning l))"
proof (induction info active late poll deadline now rule: shared_drain_loop.induct)
  case (1 info active late poll deadline now)
  show ?case
  proof (cases "now < deadline \<and> active now \<noteq> None")
    case True
    then obtain j where j: "active now = Some j" by auto
    with True 1 show ?thesis
      by (simp add: drain_loop.simps [of active late poll deadline now] is_warning_def
          shared_drain_loop.simps [of info active late poll deadline now] split: prod.splits)
  next
    case False
    then show ?thesis
      by (auto simp: drain_loop.simps [of active late poll deadline now] is_warning_def
          shared_drain_loop.simps [of info active late poll deadline now] split: option.splits)
  qed
qed

lemma close_phase_warnings:
  "close_phase active late timeout out now = (raised, t, l) \<Longrightarrow> filter is_warning l = l"
  by (auto simp: close_phase_def Let_def is_warning_def split: close_outcome.splits if_splits)

text \<open>
  C30: the shared package closes a worker exactly as the engine's module does, with the same
  times and outcome; without an \<open>info\<close> logger it writes the same warnings and nothing else.
\<close>

theorem shared_close_agrees:
  "shared_close_worker_with_timeout info active late timeout budget out now =
     (case close_worker_with_timeout active late timeout budget out now of
        (raised, t, l) \<Rightarrow> (raised, t, if info then l else filter is_warning l))"
  by (auto simp: shared_close_worker_with_timeout_def close_worker_with_timeout_def
      drain_active_jobs_def shared_drain_loop_eq close_phase_warnings split: prod.splits)

subsection \<open>The shutdown\<close>

lemma close_tracked_time:
  "close_tracked env active r now = Some (raised, t) \<Longrightarrow> now \<le> t"
proof -
  assume h: "close_tracked env active r now = Some (raised, t)"
  then obtain l where "close_worker_with_timeout active (se_late env) default_close_timeout_ms
      (default_drain_budget_ms default_close_timeout_ms) (se_close env r) now = (raised, t, l)"
    by (auto simp: close_tracked_def split: prod.splits)
  then obtain ok u l1 l2 where "drain_active_jobs active (se_late env) default_drain_poll_ms
      (default_drain_budget_ms default_close_timeout_ms) now = (ok, u, l1)"
    "close_phase active (se_late env) default_close_timeout_ms (se_close env r) u = (raised, t, l2)"
    by (rule close_worker_start)
  then show ?thesis using drain_active_jobs_outcome(1) close_phase_time(1) order_trans by blast
qed

lemma close_resource_time: "close_resource env r now = Some (raised, t) \<Longrightarrow> now \<le> t"
  by (auto simp: close_resource_def dest: close_tracked_time split: if_splits close_outcome.splits)

lemma run_shutdown_outcome:
  assumes "now \<le> fire"
  shows "ex_time (run_shutdown env fire now closed rs) \<le> fire \<and>
    (\<exists>ys. prefix ys rs \<and> ex_closed (run_shutdown env fire now closed rs) = closed @ ys \<and>
       ex_code (run_shutdown env fire now closed rs) = (if ys = rs then 0 else 1))"
  using assms
proof (induction rs arbitrary: now closed)
  case Nil
  then show ?case by simp
next
  case (Cons r rs)
  show ?case
  proof (cases "close_resource env r now")
    case None
    then show ?thesis by simp
  next
    case (Some p)
    obtain raised t where p: "p = (raised, t)" by (cases p)
    show ?thesis
    proof (cases "fire \<le> t \<or> raised")
      case True
      with Some p show ?thesis by auto
    next
      case False
      with Cons.IH [of t "closed @ [r]"] obtain ys where
        "ex_time (run_shutdown env fire t (closed @ [r]) rs) \<le> fire" "prefix ys rs"
        "ex_closed (run_shutdown env fire t (closed @ [r]) rs) = (closed @ [r]) @ ys"
        "ex_code (run_shutdown env fire t (closed @ [r]) rs) = (if ys = rs then 0 else 1)" by auto
      with False Some p show ?thesis by (auto intro!: exI [of _ "r # ys"])
    qed
  qed
qed

lemma run_shutdown_stops:
  assumes "\<And>t raised u. now \<le> t \<Longrightarrow> close_resource env r t = Some (raised, u) \<Longrightarrow> fire \<le> u"
  shows "prefix (ex_closed (run_shutdown env fire now closed (pre @ r # post))) (closed @ pre) \<and>
    ex_code (run_shutdown env fire now closed (pre @ r # post)) = 1"
  using assms
proof (induction pre arbitrary: now closed)
  case Nil
  then show ?case by (auto split: option.splits)
next
  case (Cons q pre)
  show ?case
  proof (cases "close_resource env q now")
    case None
    then show ?thesis by simp
  next
    case (Some p)
    obtain raised t where p: "p = (raised, t)" by (cases p)
    have le: "now \<le> t" using Some p close_resource_time by simp
    with Cons.prems have "\<And>t' raised u. t \<le> t' \<Longrightarrow> close_resource env r t' = Some (raised, u) \<Longrightarrow> fire \<le> u"
      by (meson order_trans)
    from Cons.IH [of t "closed @ [q]", OF this] Some p show ?thesis by auto
  qed
qed

text \<open>
  a shutdown always ends, by the time the forced-exit timer fires; it closes the resources
  in the fixed order, and exits with code 0 exactly when it closed all of them. A further
  signal is ignored.
\<close>

theorem shutdown_always_exits:
  "graceful_shutdown env now True = (True, None) \<and>
   (\<exists>x. graceful_shutdown env now False = (True, Some x) \<and>
      ex_time x \<le> timer_at (se_late env) force_exit_ms now \<and>
      prefix (ex_closed x) (shutdown_order (se_reaper_started env)) \<and>
      ex_code x = (if ex_closed x = shutdown_order (se_reaper_started env) then 0 else 1))"
  using run_shutdown_outcome [of now "timer_at (se_late env) force_exit_ms now" env "[]"
      "shutdown_order (se_reaper_started env)"]
  by (auto simp: graceful_shutdown_def)

text \<open>
  C23: a settlement job that hangs uses up the whole forced-exit time on its own worker: the
  process exits with code 1 while the other workers, the queues, Redis and Prisma are still
  open, although each of them could be closed.
\<close>

theorem stuck_job_forces_exit:
  assumes "\<forall>t. se_settlement_job env t \<noteq> None"
    and "se_close env SettlementWorkerRes = CloseHangs" and "se_late env now = 0"
  shows "\<exists>x. graceful_shutdown env now False = (True, Some x) \<and> ex_code x = 1 \<and>
    set (ex_closed x) \<subseteq> {ReaperTimer, HttpServer, MetricsServer}"
proof -
  define pre where "pre = (if se_reaper_started env then [ReaperTimer] else []) @ [HttpServer, MetricsServer]"
  define post where "post = drop (Suc (length pre)) (shutdown_order (se_reaper_started env))"
  have order: "shutdown_order (se_reaper_started env) = pre @ SettlementWorkerRes # post"
    by (simp add: pre_def post_def shutdown_order_def)
  let ?fire = "timer_at (se_late env) force_exit_ms now"
  have late: "?fire \<le> u" if "now \<le> t" and c: "close_resource env SettlementWorkerRes t = Some (raised, u)"
    for t raised u
  proof -
    obtain l where "close_worker_with_timeout (se_settlement_job env) (se_late env) default_close_timeout_ms
        (default_drain_budget_ms default_close_timeout_ms) CloseHangs t = (raised, u, l)"
      using c assms(2) by (auto simp: close_resource_def close_tracked_def split: prod.splits)
    then obtain ok v l1 l2 where d: "drain_active_jobs (se_settlement_job env) (se_late env) default_drain_poll_ms
        (default_drain_budget_ms default_close_timeout_ms) t = (ok, v, l1)"
      and p: "close_phase (se_settlement_job env) (se_late env) default_close_timeout_ms CloseHangs v = (raised, u, l2)"
      by (rule close_worker_start)
    have "\<not> ok" using drain_active_jobs_outcome(2) [OF d] assms(1) by simp
    with drain_active_jobs_outcome(3) [OF d] have "t + 20000 \<le> v"
      by (simp add: default_drain_budget_ms_def)
    moreover have "v + 10000 \<le> u"
      using p timer_at_ge [of v 10000 "se_late env"]
      by (simp add: close_phase_def default_close_timeout_ms_def Let_def)
    ultimately show ?thesis using that(1) assms(3) by (simp add: timer_at_def force_exit_ms_def)
  qed
  have "prefix (ex_closed (run_shutdown env ?fire now [] (pre @ SettlementWorkerRes # post))) ([] @ pre) \<and>
      ex_code (run_shutdown env ?fire now [] (pre @ SettlementWorkerRes # post)) = 1"
    by (rule run_shutdown_stops) (rule late)
  moreover have "set pre \<subseteq> {ReaperTimer, HttpServer, MetricsServer}" by (auto simp: pre_def)
  ultimately show ?thesis
    unfolding graceful_shutdown_def order by (auto dest: set_mono_prefix)
qed

theorem stuck_job_forces_exit_witness:
  "\<exists>x. graceful_shutdown
      \<lparr> se_reaper_started = True, se_close = (\<lambda>r. if r = SettlementWorkerRes then CloseHangs else CloseResolves 5),
        se_settlement_job = (\<lambda>_. Some \<lparr> aj_id = Some ''9'', aj_data = ''m'' \<rparr>), se_webhook_job = (\<lambda>_. None),
        se_late = (\<lambda>_. 0) \<rparr> 0 False = (True, Some x) \<and>
     ex_code x = 1 \<and> RedisRes \<notin> set (ex_closed x) \<and> PrismaRes \<notin> set (ex_closed x)"
  using stuck_job_forces_exit [of "\<lparr> se_reaper_started = True,
        se_close = (\<lambda>r. if r = SettlementWorkerRes then CloseHangs else CloseResolves 5),
        se_settlement_job = (\<lambda>_. Some \<lparr> aj_id = Some ''9'', aj_data = ''m'' \<rparr>), se_webhook_job = (\<lambda>_. None),
        se_late = (\<lambda>_. 0) \<rparr>" 0]
  by fastforce

end
