(* ===== verification/Idempotency.thy ===== *)
theory Idempotency
  imports SettlementAdapter RedisStrings
begin

section \<open>The idempotency primitive\<close>

text \<open>
  Model of \<open>withIdempotency\<close> (\<open>shared/validation/idempotency.ts\<close>): lookup, claim in
  Redis, guarded creation. The caller's callbacks are the record \<open>idem_ops\<close>; requests that
  run in between are the functions \<open>ii_env\<close> (on the caller's database, one per access) and
  \<open>ii_redis_env\<close>. Every callback may fail.
\<close>

datatype idem_source = Created | LookupHit | RedisRace | P2002Winner

datatype 'e idem_error = DifferentPayload | BeingProcessed | Propagated 'e

record 'a idem_result =
  ir_result :: 'a
  ir_deduped :: bool
  ir_source :: idem_source

record ('s, 'a, 'e) idem_ops =
  io_lookup :: "('s \<Rightarrow> string \<Rightarrow> ('e, 'a option) result) option"
  io_resolve :: "('s \<Rightarrow> string \<Rightarrow> ('e, 'a option) result) option"
  io_create :: "'s \<Rightarrow> 's \<times> ('e, 'a) result"
  io_unique :: "'e \<Rightarrow> bool"

record idem_options =
  ip_key :: "string option"
  ip_has_redis :: bool
  ip_prefix :: "string option"
  ip_ttl_seconds :: "nat option"
  ip_claim_value :: "string option"
  ip_payload_hash :: "string option"

record ('s, 'r) idem_inputs =
  ii_env :: "nat \<Rightarrow> 's \<Rightarrow> 's"
  ii_redis_env :: "'r \<Rightarrow> 'r"
  ii_claim_at :: nat
  ii_read_at :: nat
  ii_set_fails :: bool
  ii_get_fails :: bool

definition idem_default_prefix :: string where
  "idem_default_prefix = ''idempotency:''"

definition idem_default_ttl_seconds :: nat where
  "idem_default_ttl_seconds = 86400"

definition idem_key :: "idem_options \<Rightarrow> string option" where
  "idem_key opts = (case ip_key opts of None \<Rightarrow> None | Some k \<Rightarrow> if trim k = '''' then None else Some (trim k))"

definition claim_key_of :: "idem_options \<Rightarrow> string \<Rightarrow> string" where
  "claim_key_of opts key = (case ip_prefix opts of None \<Rightarrow> idem_default_prefix | Some p \<Rightarrow> p) @ key"

definition claim_value_of :: "idem_options \<Rightarrow> string \<Rightarrow> string" where
  "claim_value_of opts key = (case ip_claim_value opts of Some v \<Rightarrow> v
     | None \<Rightarrow> (case ip_payload_hash opts of Some h \<Rightarrow> h | None \<Rightarrow> key))"

definition lookup_existing :: "('s, 'a, 'e) idem_ops \<Rightarrow> 's \<Rightarrow> string \<Rightarrow> ('e, 'a option) result" where
  "lookup_existing O' db key = (case io_lookup O' of None \<Rightarrow> Inr None | Some f \<Rightarrow> f db key)"

definition resolve_claim :: "('s, 'a, 'e) idem_ops \<Rightarrow> 's \<Rightarrow> string option \<Rightarrow> ('e, 'a option) result" where
  "resolve_claim O' db stored =
     (case (stored, io_resolve O') of (Some v, Some f) \<Rightarrow> f db v | _ \<Rightarrow> Inr None)"

text \<open>
  After a lost claim: the answer, or \<open>None\<close> when a callback failed and the
  \<open>catch\<close> block lets the request go on to the creation.
\<close>

definition lost_claim ::
  "('s, 'a, 'e) idem_ops \<Rightarrow> idem_options \<Rightarrow> ('s, 'r) idem_inputs \<Rightarrow> string \<Rightarrow> string option \<Rightarrow> 's \<Rightarrow>
   's \<times> ('e idem_error, 'a idem_result) result option" where
  "lost_claim O' opts inp key stored db =
     (if ip_payload_hash opts \<noteq> None \<and> stored \<noteq> None \<and> stored \<noteq> ip_payload_hash opts
      then (db, Some (throw DifferentPayload))
      else
        (let db1 = ii_env inp 1 db;
             race = (\<lambda>w. Some (return_ok \<lparr> ir_result = w, ir_deduped = True, ir_source = RedisRace \<rparr>))
         in case resolve_claim O' db1 stored of
              Inl e \<Rightarrow> (db1, None)
            | Inr (Some w) \<Rightarrow> (db1, race w)
            | Inr None \<Rightarrow>
                (let db2 = ii_env inp 2 db1
                 in case lookup_existing O' db2 key of
                      Inl e \<Rightarrow> (db2, None)
                    | Inr (Some w) \<Rightarrow> (db2, race w)
                    | Inr None \<Rightarrow> (db2, Some (throw BeingProcessed)))))"

definition claim_stage ::
  "'r kv_ops \<Rightarrow> ('s, 'a, 'e) idem_ops \<Rightarrow> idem_options \<Rightarrow> ('s, 'r) idem_inputs \<Rightarrow> string \<Rightarrow> 's \<Rightarrow> 'r \<Rightarrow>
   's \<times> 'r \<times> ('e idem_error, 'a idem_result) result option" where
  "claim_stage R O' opts inp key db redis =
     (if \<not> ip_has_redis opts \<or> ii_set_fails inp then (db, redis, None)
      else case kv_set_nx R redis (ii_claim_at inp) (claim_key_of opts key) (claim_value_of opts key)
             ((case ip_ttl_seconds opts of None \<Rightarrow> idem_default_ttl_seconds | Some t \<Rightarrow> t) * 1000) of
        (redis', True) \<Rightarrow> (db, redis', None)
      | (redis', False) \<Rightarrow>
          (let redis'' = ii_redis_env inp redis';
               stored = (if ii_get_fails inp then None
                         else kv_get R redis'' (ii_read_at inp) (claim_key_of opts key))
           in case lost_claim O' opts inp key stored db of (db', r) \<Rightarrow> (db', redis'', r)))"

definition created :: "('e, 'a) result \<Rightarrow> ('e idem_error, 'a idem_result) result" where
  "created r = (case r of Inl e \<Rightarrow> throw (Propagated e)
     | Inr a \<Rightarrow> return_ok \<lparr> ir_result = a, ir_deduped = False, ir_source = Created \<rparr>)"

definition guarded_create ::
  "('s, 'a, 'e) idem_ops \<Rightarrow> ('s, 'r) idem_inputs \<Rightarrow> string \<Rightarrow> 's \<Rightarrow> 's \<times> ('e idem_error, 'a idem_result) result" where
  "guarded_create O' inp key db =
     (case io_create O' (ii_env inp 3 db) of
        (db', Inr a) \<Rightarrow> (db', created (Inr a))
      | (db', Inl e) \<Rightarrow>
          if io_unique O' e \<and> io_lookup O' \<noteq> None
          then (let db'' = ii_env inp 4 db'
                in case lookup_existing O' db'' key of
                     Inl e' \<Rightarrow> (db'', throw (Propagated e'))
                   | Inr (Some w) \<Rightarrow> (db'', return_ok \<lparr> ir_result = w, ir_deduped = True, ir_source = P2002Winner \<rparr>)
                   | Inr None \<Rightarrow> (db'', throw (Propagated e)))
          else (db', throw (Propagated e)))"

definition with_idempotency ::
  "'r kv_ops \<Rightarrow> ('s, 'a, 'e) idem_ops \<Rightarrow> idem_options \<Rightarrow> ('s, 'r) idem_inputs \<Rightarrow> 's \<times> 'r \<Rightarrow>
   ('s \<times> 'r) \<times> ('e idem_error, 'a idem_result) result" where
  "with_idempotency R O' opts inp st =
     (case st of (db, redis) \<Rightarrow>
        (case idem_key opts of
           None \<Rightarrow> (case io_create O' (ii_env inp 3 db) of (db', r) \<Rightarrow> ((db', redis), created r))
         | Some key \<Rightarrow>
             (let db0 = ii_env inp 0 db
              in case lookup_existing O' db0 key of
                   Inl e \<Rightarrow> ((db0, redis), throw (Propagated e))
                 | Inr (Some a) \<Rightarrow>
                     ((db0, redis), return_ok \<lparr> ir_result = a, ir_deduped = True, ir_source = LookupHit \<rparr>)
                 | Inr None \<Rightarrow>
                     (case claim_stage R O' opts inp key db0 redis of
                        (db1, redis', Some r) \<Rightarrow> ((db1, redis'), r)
                      | (db1, redis', None) \<Rightarrow>
                          (case guarded_create O' inp key db1 of (db2, r) \<Rightarrow> ((db2, redis'), r))))))"

subsection \<open>What the primitive needs of a store\<close>

text \<open>
  A store with a unique key column: \<open>lookup\<close> finds the record of a key, \<open>create\<close> refuses
  with a unique violation when the key is taken and stores the record otherwise.
\<close>

locale guarded_store =
  fixes find_rec :: "'s \<Rightarrow> string \<Rightarrow> 'a option"
    and create_rec :: "'a \<Rightarrow> 's \<Rightarrow> 's \<times> ('e, 'a) result"
    and key_of :: "'a \<Rightarrow> string option"
    and unique :: "'e \<Rightarrow> bool"
    and invar :: "'s \<Rightarrow> bool"
  assumes create_stores: "invar s \<Longrightarrow> create_rec r s = (s', Inr a) \<Longrightarrow> key_of r = Some k \<Longrightarrow>
      invar s' \<and> find_rec s k = None \<and> find_rec s' k = Some a"
    and create_fails: "invar s \<Longrightarrow> create_rec r s = (s', Inl e) \<Longrightarrow> s' = s"
    and create_taken: "invar s \<Longrightarrow> key_of r = Some k \<Longrightarrow> find_rec s k \<noteq> None \<Longrightarrow>
      \<exists>e. create_rec r s = (s, Inl e) \<and> unique e"

definition ops_of ::
  "('s \<Rightarrow> string \<Rightarrow> 'a option) \<Rightarrow> ('a \<Rightarrow> 's \<Rightarrow> 's \<times> ('e, 'a) result) \<Rightarrow> ('e \<Rightarrow> bool) \<Rightarrow>
   ('s \<Rightarrow> string \<Rightarrow> ('e, 'a option) result) option \<Rightarrow> 'a \<Rightarrow> ('s, 'a, 'e) idem_ops" where
  "ops_of find_rec create_rec unique resolve r =
     \<lparr> io_lookup = Some (\<lambda>s k. Inr (find_rec s k)), io_resolve = resolve,
       io_create = create_rec r, io_unique = unique \<rparr>"

text \<open>Other requests keep the store's invariant and remove no record of this key.\<close>

definition keeps_record :: "('s \<Rightarrow> bool) \<Rightarrow> ('s \<Rightarrow> string \<Rightarrow> 'a option) \<Rightarrow> string \<Rightarrow> ('s, 'r) idem_inputs \<Rightarrow> bool" where
  "keeps_record invar find_rec k inp \<longleftrightarrow>
     (\<forall>i s. invar s \<longrightarrow> invar (ii_env inp i s) \<and>
        (find_rec s k \<noteq> None \<longrightarrow> find_rec (ii_env inp i s) k = find_rec s k))"

text \<open>A claim value resolves only to the record of its key.\<close>

definition resolves_to_key ::
  "('s \<Rightarrow> string \<Rightarrow> 'a option) \<Rightarrow> string \<Rightarrow> ('s \<Rightarrow> string \<Rightarrow> ('e, 'a option) result) option \<Rightarrow> bool" where
  "resolves_to_key find_rec k resolve \<longleftrightarrow>
     (case resolve of None \<Rightarrow> True
      | Some f \<Rightarrow> (\<forall>s v w. f s v = Inr (Some w) \<longrightarrow> find_rec s k = Some w))"

context guarded_store
begin

definition grows :: "string \<Rightarrow> 's \<Rightarrow> 's \<Rightarrow> bool" where
  "grows k s s' \<longleftrightarrow> invar s' \<and> (\<forall>a. find_rec s k = Some a \<longrightarrow> find_rec s' k = Some a)"

lemma grows_trans: "grows k s s' \<Longrightarrow> grows k s' s'' \<Longrightarrow> grows k s s''"
  by (auto simp: grows_def)

lemma grows_env: "keeps_record invar find_rec k inp \<Longrightarrow> invar s \<Longrightarrow> grows k s (ii_env inp i s)"
  by (auto simp: keeps_record_def grows_def)

lemma grows_invar: "grows k s s' \<Longrightarrow> invar s'"
  by (simp add: grows_def)

definition sound_answer :: "string \<Rightarrow> 's \<Rightarrow> 's \<Rightarrow> ('e idem_error, 'a idem_result) result \<Rightarrow> bool" where
  "sound_answer k s s' res \<longleftrightarrow> grows k s s' \<and>
     (\<forall>x. res = Inr x \<longrightarrow> find_rec s' k = Some (ir_result x) \<and>
        (ir_deduped x \<longleftrightarrow> ir_source x \<noteq> Created) \<and> (\<not> ir_deduped x \<longrightarrow> find_rec s k = None))"

lemma sound_answer_after: "grows k s s1 \<Longrightarrow> sound_answer k s1 s' res \<Longrightarrow> sound_answer k s s' res"
  by (cases "find_rec s k") (auto simp: sound_answer_def grows_def)

lemma lost_claim_sound:
  assumes env: "keeps_record invar find_rec k inp" and res: "resolves_to_key find_rec k resolve" and "invar s"
    and eq: "lost_claim (ops_of find_rec create_rec unique resolve r) opts inp k stored s = (s', ans)"
  shows "grows k s s' \<and> (\<forall>a. ans = Some a \<longrightarrow> sound_answer k s s' a)"
proof -
  note g1 = grows_env [OF env \<open>invar s\<close>, of 1]
  note g2 = grows_env [OF env grows_invar [OF g1], of 2]
  have s0: "grows k s s" using \<open>invar s\<close> by (simp add: grows_def)
  show ?thesis
    using eq g1 grows_trans [OF g1 g2] s0 res
    by (auto simp: lost_claim_def Let_def sound_answer_def resolve_claim_def lookup_existing_def ops_of_def
        resolves_to_key_def split: if_splits sum.splits option.splits)
qed

lemma claim_stage_sound:
  assumes env: "keeps_record invar find_rec k inp" and res: "resolves_to_key find_rec k resolve" and "invar s"
    and eq: "claim_stage R (ops_of find_rec create_rec unique resolve r) opts inp k s redis = (s', redis', ans)"
  shows "grows k s s' \<and> (\<forall>a. ans = Some a \<longrightarrow> sound_answer k s s' a)"
proof -
  have s0: "grows k s s" using \<open>invar s\<close> by (simp add: grows_def)
  show ?thesis
    using eq s0 lost_claim_sound [OF env res \<open>invar s\<close>]
    by (auto simp: claim_stage_def Let_def split: if_splits prod.splits bool.splits)
qed

lemma guarded_create_sound:
  assumes env: "keeps_record invar find_rec k inp" and "invar s" and kr: "key_of r = Some k"
    and eq: "guarded_create (ops_of find_rec create_rec unique resolve r) inp k s = (s', ans)"
  shows "sound_answer k s s' ans"
proof -
  let ?s1 = "ii_env inp 3 s"
  have g1: "grows k s ?s1" by (rule grows_env [OF env \<open>invar s\<close>])
  obtain s2 a where c: "create_rec r ?s1 = (s2, a)" by (cases "create_rec r ?s1")
  show ?thesis
  proof (cases a)
    case (Inr x)
    with c have st: "invar s2" "find_rec ?s1 k = None" "find_rec s2 k = Some x"
      using create_stores [OF grows_invar [OF g1] _ kr] by auto
    have "find_rec s k = None" using g1 st(2) by (cases "find_rec s k") (auto simp: grows_def)
    then have "grows k s s2" using st(1) by (simp add: grows_def)
    with st(3) \<open>find_rec s k = None\<close> show ?thesis using eq c Inr
      by (auto simp: guarded_create_def ops_of_def created_def sound_answer_def)
  next
    case (Inl e)
    with c have s2: "s2 = ?s1" using create_fails [OF grows_invar [OF g1]] by blast
    have g4: "grows k s (ii_env inp 4 ?s1)"
      by (rule grows_trans [OF g1 grows_env [OF env grows_invar [OF g1]]])
    show ?thesis using eq c Inl s2 g1 g4
      by (auto simp: guarded_create_def ops_of_def lookup_existing_def sound_answer_def Let_def
          split: if_splits option.splits)
  qed
qed

lemma answer_sound:
  assumes env: "keeps_record invar find_rec k inp" and res: "resolves_to_key find_rec k resolve" and "invar s"
    and kr: "key_of r = Some k" and ko: "idem_key opts = Some k"
    and eq: "with_idempotency R (ops_of find_rec create_rec unique resolve r) opts inp (s, redis) = ((s', redis'), ans)"
  shows "sound_answer k s s' ans"
proof -
  let ?O = "ops_of find_rec create_rec unique resolve r"
  let ?s0 = "ii_env inp 0 s"
  have g0: "grows k s ?s0" by (rule grows_env [OF env \<open>invar s\<close>])
  show ?thesis
  proof (cases "find_rec ?s0 k")
    case (Some a)
    with eq ko g0 show ?thesis
      by (auto simp: with_idempotency_def Let_def lookup_existing_def ops_of_def sound_answer_def)
  next
    case None
    obtain s1 redis1 c where c: "claim_stage R ?O opts inp k ?s0 redis = (s1, redis1, c)"
      by (metis prod_cases3)
    have cs: "grows k ?s0 s1" "\<forall>a. c = Some a \<longrightarrow> sound_answer k ?s0 s1 a"
      using claim_stage_sound [OF env res grows_invar [OF g0] c] by auto
    show ?thesis
    proof (cases c)
      case (Some a)
      with eq ko None c have "s' = s1" "ans = a"
        by (auto simp: with_idempotency_def Let_def lookup_existing_def ops_of_def)
      with cs(2) Some sound_answer_after [OF g0] show ?thesis by blast
    next
      case none: None
      obtain s2 a where g: "guarded_create ?O inp k s1 = (s2, a)" by (cases "guarded_create ?O inp k s1")
      with eq ko None c none have "s' = s2" "ans = a"
        by (auto simp: with_idempotency_def Let_def lookup_existing_def ops_of_def)
      with guarded_create_sound [OF env grows_invar [OF cs(1)] kr g]
        sound_answer_after [OF grows_trans [OF g0 cs(1)]]
      show ?thesis by blast
    qed
  qed
qed

text \<open>Two requests with the same key, the second at any later time.\<close>

lemma answers_agree:
  assumes "keeps_record invar find_rec k inp1" "keeps_record invar find_rec k inp2"
    and "resolves_to_key find_rec k resolve" and "invar s"
    and "key_of r1 = Some k" "key_of r2 = Some k" "idem_key opts1 = Some k" "idem_key opts2 = Some k"
    and one: "with_idempotency R (ops_of find_rec create_rec unique resolve r1) opts1 inp1 (s, redis) =
      ((s1, redis1), Inr x1)"
    and between: "grows k s1 s2"
    and two: "with_idempotency R (ops_of find_rec create_rec unique resolve r2) opts2 inp2 (s2, redis2) =
      ((s3, redis3), Inr x2)"
  shows "ir_result x2 = ir_result x1 \<and> ir_deduped x2"
proof -
  have "sound_answer k s s1 (Inr x1)" by (rule answer_sound [OF assms(1,3,4,5,7) one])
  then have f: "find_rec s2 k = Some (ir_result x1)"
    using between by (auto simp: sound_answer_def grows_def)
  have "sound_answer k s2 s3 (Inr x2)"
    by (rule answer_sound [OF assms(2,3) grows_invar [OF between] assms(6,8) two])
  with f show ?thesis by (auto simp: sound_answer_def grows_def)
qed

end

subsection \<open>On the settlement table\<close>

text \<open>The table with its unique idempotency keys is such a store.\<close>

definition guarded_insert :: "'db store_ops \<Rightarrow> settlement \<Rightarrow> 'db \<Rightarrow> 'db \<times> (db_error, settlement) result" where
  "guarded_insert S r db = (case st_create S db r of Inl e \<Rightarrow> (db, Inl e) | Inr db' \<Rightarrow> (db', Inr r))"

abbreviation settlement_idem ::
  "'db store_ops \<Rightarrow> ('db \<Rightarrow> string \<Rightarrow> (db_error, settlement option) result) option \<Rightarrow> settlement \<Rightarrow>
   ('db, settlement, db_error) idem_ops" where
  "settlement_idem S resolve r \<equiv> ops_of (st_find_key S) (guarded_insert S) (\<lambda>e. e = P2002) resolve r"

context settlement_store
begin

lemma guarded_store_settlements:
  "guarded_store (st_find_key S) (guarded_insert S) s_idempotency_key (\<lambda>e. e = P2002) invar"
proof
  fix s s' k and r a :: settlement
  assume inv: "invar s" and c: "guarded_insert S r s = (s', Inr a)" and k: "s_idempotency_key r = Some k"
  then have cr: "st_create S s r = Inr s'" "a = r" by (auto simp: guarded_insert_def split: sum.splits)
  have new: "st_find S s (s_id r) = None" "st_find_key S s k = None"
  proof -
    have "\<not> (st_find S s (s_id r) \<noteq> None \<or> (\<exists>k. s_idempotency_key r = Some k \<and> st_find_key S s k \<noteq> None))"
    proof
      assume "st_find S s (s_id r) \<noteq> None \<or> (\<exists>k. s_idempotency_key r = Some k \<and> st_find_key S s k \<noteq> None)"
      from create_conflict [OF inv this] cr(1) show False by simp
    qed
    then show "st_find S s (s_id r) = None" "st_find_key S s k = None" using k by auto
  qed
  then obtain db' where "st_create S s r = Inr db'" "invar db'" "st_find S db' = (st_find S s)(s_id r \<mapsto> r)"
    using create_fresh [OF inv new(1)] k by auto
  with cr k new(2) find_key [of s' k r] show "invar s' \<and> st_find_key S s k = None \<and> st_find_key S s' k = Some a"
    by (auto intro: exI [of _ "s_id r"])
next
  fix s s' e and r :: settlement
  assume "invar s" "guarded_insert S r s = (s', Inl e)"
  then show "s' = s" by (auto simp: guarded_insert_def split: sum.splits)
next
  fix s k and r :: settlement
  assume "invar s" "s_idempotency_key r = Some k" "st_find_key S s k \<noteq> None"
  then show "\<exists>e. guarded_insert S r s = (s, Inl e) \<and> e = P2002"
    using create_conflict [of s r] by (auto simp: guarded_insert_def)
qed

end

sublocale settlement_store \<subseteq> keyed: guarded_store "st_find_key S" "guarded_insert S" s_idempotency_key
  "\<lambda>e. e = P2002" invar
  by (rule guarded_store_settlements)

context settlement_store
begin

lemmas idem_answer_sound = keyed.answer_sound [unfolded keyed.sound_answer_def keyed.grows_def]
lemmas idem_answers_agree = keyed.answers_agree [unfolded keyed.grows_def]

end

text \<open>
  C13: two requests with one idempotency key that both succeed get the same settlement and the
  second creates nothing, whatever other requests run between their steps, with Redis up or
  down, and whatever claims expired.
\<close>

theorem idempotent_requests_agree:
  assumes "settlement_store S invar" and "invar db"
    and "keeps_record invar (st_find_key S) k inp1" and "keeps_record invar (st_find_key S) k inp2"
    and "resolves_to_key (st_find_key S) k resolve"
    and "s_idempotency_key r1 = Some k" and "s_idempotency_key r2 = Some k"
    and "idem_key opts1 = Some k" and "idem_key opts2 = Some k"
    and "with_idempotency R (settlement_idem S resolve r1) opts1 inp1 (db, redis) = ((db1, redis1), Inr x1)"
    and "invar db2 \<and> (\<forall>a. st_find_key S db1 k = Some a \<longrightarrow> st_find_key S db2 k = Some a)"
    and "with_idempotency R (settlement_idem S resolve r2) opts2 inp2 (db2, redis2) = ((db3, redis3), Inr x2)"
  shows "ir_result x2 = ir_result x1 \<and> ir_deduped x2"
  using settlement_store.idem_answers_agree [OF assms(1,3,4,5,2,6,7,8,9,10,11,12)] .


definition demo_options :: idem_options where
  "demo_options = \<lparr> ip_key = Some '' k1 '', ip_has_redis = True, ip_prefix = None, ip_ttl_seconds = None,
     ip_claim_value = None, ip_payload_hash = None \<rparr>"

definition demo_inputs :: "(table, kv_store) idem_inputs" where
  "demo_inputs = \<lparr> ii_env = (\<lambda>_ db. db), ii_redis_env = (\<lambda>rd. rd), ii_claim_at = 5, ii_read_at = 6,
     ii_set_fails = False, ii_get_fails = False \<rparr>"

abbreviation demo_run :: "string \<Rightarrow> table \<times> kv_store \<Rightarrow> (table \<times> kv_store) \<times> (db_error idem_error, settlement idem_result) result" where
  "demo_run i st \<equiv> with_idempotency kvs_ops (settlement_idem tab_ops None (sample_settlement i (Some ''k1'')))
     demo_options demo_inputs st"

theorem idempotent_requests_agree_witness:
  "\<exists>db1 redis1 x1 st x2. demo_run ''set_1'' ([], []) = ((db1, redis1), Inr x1) \<and>
     demo_run ''set_2'' (db1, redis1) = (st, Inr x2) \<and> ir_result x2 = ir_result x1 \<and> ir_deduped x2"
proof -
  let ?db = "[sample_settlement ''set_1'' (Some ''k1'')]"
  let ?rd = "[(''idempotency:k1'', ''k1'', Some 86400005)]"
  let ?x1 = "\<lparr> ir_result = sample_settlement ''set_1'' (Some ''k1''), ir_deduped = False, ir_source = Created \<rparr>"
  let ?x2 = "\<lparr> ir_result = sample_settlement ''set_1'' (Some ''k1''), ir_deduped = True, ir_source = LookupHit \<rparr>"
  have one: "demo_run ''set_1'' ([], []) = ((?db, ?rd), Inr ?x1)" by code_simp
  have two: "demo_run ''set_2'' (?db, ?rd) = ((?db, ?rd), Inr ?x2)" by code_simp
  have env: "keeps_record tab_invar (st_find_key tab_ops) ''k1'' demo_inputs"
    by (simp add: keeps_record_def demo_inputs_def)
  have res: "resolves_to_key (st_find_key tab_ops) ''k1'' (None :: (table \<Rightarrow> string \<Rightarrow> (db_error, settlement option) result) option)"
    by (simp add: resolves_to_key_def)
  have inv: "tab_invar []" "tab_invar ?db" by (simp_all add: tab_invar_def)
  have keys: "s_idempotency_key (sample_settlement ''set_1'' (Some ''k1'')) = Some ''k1''"
    "s_idempotency_key (sample_settlement ''set_2'' (Some ''k1'')) = Some ''k1''" "idem_key demo_options = Some ''k1''"
    by code_simp+
  have "ir_result ?x2 = ir_result ?x1 \<and> ir_deduped ?x2"
    by (rule idempotent_requests_agree [OF tab.settlement_store_axioms inv(1) env env res keys(1,2,3,3) one _ two])
      (simp add: inv(2))
  with one two show ?thesis by blast
qed

text \<open>
  a request whose claim is held with the hash of another payload is refused: it creates
  nothing and leaves the claim as it is.
\<close>

theorem payload_conflict_refused:
  assumes "redis_strings R rinvar entry" and "rinvar redis"
    and "idem_key opts = Some k" and "ip_has_redis opts" and "ip_payload_hash opts = Some h"
    and "\<not> ii_set_fails inp" and "\<not> ii_get_fails inp"
    and "lookup_existing O' (ii_env inp 0 db) k = Inr None"
    and "kv_live (ii_claim_at inp) (entry redis (claim_key_of opts k)) \<noteq> None"
    and "\<forall>rd. rinvar rd \<and> entry rd = entry redis \<longrightarrow>
      (\<exists>h'. kv_get R (ii_redis_env inp rd) (ii_read_at inp) (claim_key_of opts k) = Some h' \<and> h' \<noteq> h)"
  shows "\<exists>rd. with_idempotency R O' opts inp (db, redis) =
      ((ii_env inp 0 db, ii_redis_env inp rd), throw DifferentPayload) \<and> rinvar rd \<and> entry rd = entry redis"
proof -
  let ?ttl = "(case ip_ttl_seconds opts of None \<Rightarrow> idem_default_ttl_seconds | Some t \<Rightarrow> t) * 1000"
  obtain rd ok where nx: "kv_set_nx R redis (ii_claim_at inp) (claim_key_of opts k) (claim_value_of opts k) ?ttl = (rd, ok)"
    by (metis prod.exhaust)
  have rd: "rinvar rd" "\<not> ok" "entry rd = entry redis"
    using redis_strings.set_nx_cases [OF assms(1,2) nx] assms(9) by auto
  with assms(10) obtain h' where h: "kv_get R (ii_redis_env inp rd) (ii_read_at inp) (claim_key_of opts k) = Some h'" "h' \<noteq> h"
    by blast
  show ?thesis
    using assms(3-8) nx rd h
    by (intro exI [of _ rd]) (simp add: with_idempotency_def claim_stage_def lost_claim_def Let_def)
qed

text \<open>
  when Redis says that another request holds the claim and the lookup of that request's
  record fails, the request goes on and creates: the claim stops it only as long as the
  database answers.
\<close>

theorem lost_claim_error_creates:
  assumes "redis_strings R rinvar entry" and "rinvar redis"
    and "idem_key opts = Some k" and "ip_has_redis opts" and "ip_payload_hash opts = None"
    and "\<not> ii_set_fails inp" and "io_lookup O' = None" and "io_resolve O' = Some f"
    and "kv_live (ii_claim_at inp) (entry redis (claim_key_of opts k)) \<noteq> None" and "\<not> ii_get_fails inp"
    and "\<forall>rd. rinvar rd \<and> entry rd = entry redis \<longrightarrow>
      (\<exists>v. kv_get R (ii_redis_env inp rd) (ii_read_at inp) (claim_key_of opts k) = Some v \<and>
         (\<exists>e. f (ii_env inp 1 (ii_env inp 0 db)) v = Inl e))"
    and "io_create O' (ii_env inp 3 (ii_env inp 1 (ii_env inp 0 db))) = (db', Inr a)"
  shows "\<exists>redis'. with_idempotency R O' opts inp (db, redis) =
      ((db', redis'), return_ok \<lparr> ir_result = a, ir_deduped = False, ir_source = Created \<rparr>)"
proof -
  let ?ttl = "(case ip_ttl_seconds opts of None \<Rightarrow> idem_default_ttl_seconds | Some t \<Rightarrow> t) * 1000"
  obtain rd ok where nx: "kv_set_nx R redis (ii_claim_at inp) (claim_key_of opts k) (claim_value_of opts k) ?ttl = (rd, ok)"
    by (metis prod.exhaust)
  have rd: "rinvar rd" "\<not> ok" "entry rd = entry redis"
    using redis_strings.set_nx_cases [OF assms(1,2) nx] assms(9) by auto
  with assms(11) obtain v e where v: "kv_get R (ii_redis_env inp rd) (ii_read_at inp) (claim_key_of opts k) = Some v"
    "f (ii_env inp 1 (ii_env inp 0 db)) v = Inl e"
    by blast
  show ?thesis
    using assms(3-8,10,12) nx rd v
    by (intro exI [of _ "ii_redis_env inp rd"])
      (simp add: with_idempotency_def lookup_existing_def claim_stage_def lost_claim_def resolve_claim_def
        guarded_create_def created_def Let_def)
qed

definition held_claim :: kv_store where
  "held_claim = [(''idempotency:k1'', ''hash-a'', Some 1000)]"

theorem payload_conflict_refused_witness:
  "\<exists>rd. with_idempotency kvs_ops (settlement_idem tab_ops None (sample_settlement ''set_2'' (Some ''k1'')))
      (demo_options \<lparr> ip_payload_hash := Some ''hash-b'' \<rparr>) demo_inputs ([], held_claim) =
      (([], rd), throw DifferentPayload) \<and> map_of rd = map_of held_claim"
proof -
  let ?O = "settlement_idem tab_ops None (sample_settlement ''set_2'' (Some ''k1''))"
  let ?o = "demo_options \<lparr> ip_payload_hash := Some ''hash-b'' \<rparr>"
  have k: "idem_key ?o = Some ''k1''" by code_simp
  have "\<exists>rd. with_idempotency kvs_ops ?O ?o demo_inputs ([], held_claim) =
      ((ii_env demo_inputs 0 [], ii_redis_env demo_inputs rd), throw DifferentPayload) \<and> True \<and> map_of rd = map_of held_claim"
    by (rule payload_conflict_refused [OF kvs.redis_strings_axioms TrueI k])
      (auto simp: demo_options_def demo_inputs_def claim_key_of_def idem_default_prefix_def held_claim_def kv_live_def
        kvs_ops_def lookup_existing_def ops_of_def tab_ops_def)
  then show ?thesis by (simp add: demo_inputs_def)
qed

theorem lost_claim_error_creates_witness:
  "\<exists>redis'. with_idempotency kvs_ops
      \<lparr> io_lookup = None, io_resolve = Some (\<lambda>db v. Inl P2002), io_create = (\<lambda>n. (Suc n, Inr n)), io_unique = (\<lambda>_. True) \<rparr>
      demo_options \<lparr> ii_env = (\<lambda>_ db. db), ii_redis_env = (\<lambda>rd. rd), ii_claim_at = 5, ii_read_at = 6,
        ii_set_fails = False, ii_get_fails = False \<rparr> (7::nat, held_claim) =
      ((8, redis'), return_ok \<lparr> ir_result = 7, ir_deduped = False, ir_source = Created \<rparr>)"
proof -
  have k: "idem_key demo_options = Some ''k1''" by code_simp
  show ?thesis
    by (rule lost_claim_error_creates [OF kvs.redis_strings_axioms TrueI k])
      (auto simp: demo_options_def claim_key_of_def idem_default_prefix_def held_claim_def kv_live_def kvs_ops_def)
qed

end
