(* ===== verification/DomainEvents.thy ===== *)
theory DomainEvents
  imports Prelude
begin

section \<open>Mirroring payment events\<close>

text \<open>
  Model of \<open>services/settlement-engine/src/domain-events-consumer.ts\<close>: the processor of the
  \<open>domain-events\<close> queue, which mirrors \<open>payment.created\<close> events into an optional
  table. A row keeps the columns the event writes; a column whose field is absent from the event
  (\<open>undefined\<close>) is left alone by an update and unset by a creation.
\<close>

record domain_event =
  de_type :: "string option"
  de_id :: "string option"
  de_merchant_id :: "string option"
  de_amount :: "string option"
  de_asset :: "string option"
  de_trace_id :: "string option"

record mirror_row =
  mr_merchant_id :: "string option"
  mr_amount :: "string option"
  mr_asset :: "string option"
  mr_status :: string

type_synonym mirror = "string \<rightharpoonup> mirror_row"

record mirror_fields =
  mf_merchant_id :: "string option"
  mf_amount :: "string option"
  mf_asset :: "string option"

definition set_field :: "'a option \<Rightarrow> 'a option \<Rightarrow> 'a option" where
  "set_field new old = (case new of None \<Rightarrow> old | Some v \<Rightarrow> Some v)"

definition update_mirror_row :: "mirror_fields \<Rightarrow> mirror_row \<Rightarrow> mirror_row" where
  "update_mirror_row f r = r \<lparr>
     mr_merchant_id := set_field (mf_merchant_id f) (mr_merchant_id r),
     mr_amount := set_field (mf_amount f) (mr_amount r),
     mr_asset := set_field (mf_asset f) (mr_asset r) \<rparr>"

definition create_mirror_row :: "mirror_fields \<Rightarrow> mirror_row" where
  "create_mirror_row f = \<lparr> mr_merchant_id = mf_merchant_id f, mr_amount = mf_amount f,
     mr_asset = mf_asset f, mr_status = ''initiated'' \<rparr>"

definition mirror_upsert :: "string \<Rightarrow> mirror_fields \<Rightarrow> mirror \<Rightarrow> mirror" where
  "mirror_upsert i f m = m(i \<mapsto> (case m i of None \<Rightarrow> create_mirror_row f | Some r \<Rightarrow> update_mirror_row f r))"

text \<open>
  The log lines of one job, and the delegate: absent, present but failing, or working.
\<close>

datatype domain_log = MirrorUnavailable string | Mirrored string

datatype delegate = NoDelegate | FailingDelegate | WorkingDelegate

definition domain_event_processor :: "delegate \<Rightarrow> domain_event \<Rightarrow> mirror \<Rightarrow> mirror \<times> domain_log list" where
  "domain_event_processor d e m =
     (if de_type e \<noteq> Some ''payment.created'' then (m, [])
      else case de_id e of
        None \<Rightarrow> (m, [])
      | Some i \<Rightarrow>
          (let f = \<lparr> mf_merchant_id = de_merchant_id e, mf_amount = de_amount e, mf_asset = de_asset e \<rparr>
           in case d of
                NoDelegate \<Rightarrow> (m, [MirrorUnavailable i])
              | FailingDelegate \<Rightarrow> (m, [])
              | WorkingDelegate \<Rightarrow> (mirror_upsert i f m, [Mirrored i])))"

text \<open>A stream of jobs, each with the delegate it finds.\<close>

definition process_events :: "(delegate \<times> domain_event) list \<Rightarrow> mirror \<Rightarrow> mirror" where
  "process_events js m = fold (\<lambda>(d, e) m. fst (domain_event_processor d e m)) js m"

subsection \<open>Redelivery\<close>

lemma set_field_idem [simp]: "set_field a (set_field a b) = set_field a b"
  by (cases a) (simp_all add: set_field_def)

lemma set_field_self [simp]: "set_field a a = a"
  by (cases a) (simp_all add: set_field_def)

lemma mirror_upsert_idem: "mirror_upsert i f (mirror_upsert i f m) = mirror_upsert i f m"
  by (auto simp: mirror_upsert_def update_mirror_row_def create_mirror_row_def split: option.splits)

lemma mirror_upsert_other: "j \<noteq> i \<Longrightarrow> mirror_upsert i f m j = m j"
  by (simp add: mirror_upsert_def)

lemma mirror_upsert_commute:
  "i \<noteq> j \<Longrightarrow> mirror_upsert i f (mirror_upsert j g m) = mirror_upsert j g (mirror_upsert i f m)"
  by (auto simp: mirror_upsert_def fun_eq_iff)

definition event_effect :: "domain_event \<Rightarrow> mirror \<Rightarrow> mirror" where
  "event_effect e m = fst (domain_event_processor WorkingDelegate e m)"

lemma event_effect_idem: "event_effect e (event_effect e m) = event_effect e m"
  by (auto simp: event_effect_def domain_event_processor_def Let_def mirror_upsert_idem split: option.splits)

lemma event_effect_commute:
  "de_id e \<noteq> de_id e' \<Longrightarrow> event_effect e (event_effect e' m) = event_effect e' (event_effect e m)"
  by (auto simp: event_effect_def domain_event_processor_def Let_def mirror_upsert_commute split: option.splits)

lemma redelivery_absorbed:
  "\<forall>e'\<in>set es. de_id e' \<noteq> de_id e \<Longrightarrow>
   event_effect e (fold event_effect es (event_effect e m)) = fold event_effect es (event_effect e m)"
proof (induction es arbitrary: m)
  case Nil
  show ?case by (simp add: event_effect_idem)
next
  case (Cons e' es)
  then have "event_effect e' (event_effect e m) = event_effect e (event_effect e' m)"
    by (metis event_effect_commute list.set_intros(1))
  with Cons.IH [of "event_effect e' m"] Cons.prems show ?case by simp
qed

lemma process_working: "process_events (map (Pair WorkingDelegate) es) m = fold event_effect es m"
proof (induction es arbitrary: m)
  case Nil
  show ?case by (simp add: process_events_def)
next
  case (Cons e es)
  then show ?case by (simp add: process_events_def event_effect_def)
qed

text \<open>
  redelivering an event changes nothing, also when events of other payments were processed
  in between.
\<close>

theorem redelivery_idempotent:
  assumes "\<forall>e'\<in>set es. de_id e' \<noteq> de_id e"
  shows "process_events (map (Pair WorkingDelegate) (e # es @ [e])) m =
    process_events (map (Pair WorkingDelegate) (e # es)) m"
  unfolding process_working using redelivery_absorbed [OF assms, of m] by simp

theorem redelivery_idempotent_witness:
  "let e = \<lparr> de_type = Some ''payment.created'', de_id = Some ''p1'', de_merchant_id = Some ''m'', de_amount = Some ''5'',
         de_asset = None, de_trace_id = None \<rparr>;
       e' = e \<lparr> de_id := Some ''p2'' \<rparr>
   in process_events (map (Pair WorkingDelegate) [e, e', e]) Map.empty = process_events (map (Pair WorkingDelegate) [e, e']) Map.empty"
  using redelivery_idempotent [of "[\<lparr> de_type = Some ''payment.created'', de_id = Some ''p2'', de_merchant_id = Some ''m'',
         de_amount = Some ''5'', de_asset = None, de_trace_id = None \<rparr>]"
      "\<lparr> de_type = Some ''payment.created'', de_id = Some ''p1'', de_merchant_id = Some ''m'', de_amount = Some ''5'',
         de_asset = None, de_trace_id = None \<rparr>" Map.empty]
  by (simp add: Let_def)

text \<open>
  C40: no job, whatever its payload and whatever the delegate does, changes the status of a
  mirrored payment or removes a row; new rows start as \<open>initiated\<close>.
\<close>

theorem mirror_status_stable:
  "case m i of
     Some r \<Rightarrow> map_option mr_status (process_events js m i) = Some (mr_status r)
   | None \<Rightarrow> map_option mr_status (process_events js m i) \<in> {None, Some ''initiated''}"
proof -
  have step: "case m i of
       Some r \<Rightarrow> map_option mr_status (fst (domain_event_processor d e m) i) = Some (mr_status r)
     | None \<Rightarrow> map_option mr_status (fst (domain_event_processor d e m) i) \<in> {None, Some ''initiated''}" for d e m
    by (auto simp: domain_event_processor_def Let_def mirror_upsert_def update_mirror_row_def
        create_mirror_row_def split: option.splits delegate.splits)
  show ?thesis
  proof (induction js arbitrary: m)
    case Nil
    show ?case by (simp add: process_events_def split: option.splits)
  next
    case (Cons j js)
    obtain d e where j: "j = (d, e)" by (cases j)
    have eq: "process_events (j # js) m = process_events js (fst (domain_event_processor d e m))"
      by (simp add: process_events_def j)
    from Cons [of "fst (domain_event_processor d e m)"] step [where d = d and e = e and m = m] show ?case
      unfolding eq by (auto split: option.splits)
  qed
qed

end
