(* ===== verification/Spec2Isabelle.thy ===== *)
theory Spec2Isabelle
  imports Traffic WebhookTargets SettlementRetry SettlementBatching SettlementReaper SettlementWorker SettlementAdapter Payments WalletLogin AuthSessions WalletChallenges AuthStore FxEngine FxStore FxRates CircuitBreaker Binary64 Reconciliation SettlementBulk StellarUtils WorkerShutdown Idempotency BatchScan DomainEvents
begin

text \<open>
  BettaPay backend: verification development (skeleton; the header is completed with the
  components).
\<close>

end
